(* ===== verification/Prelude.thy ===== *)
theory Prelude
  imports Main "HOL-Library.Word" "HOL-Library.Monad_Syntax"
begin

text \<open>
  Shared vocabulary of the development.

  The machine integers of the kernel (\<^verbatim>\<open>kernel/types.h\<close>) are words of their width, so that
  \<open>+\<close>, \<open>-\<close> and \<open>*\<close> wrap as the C operators on the unsigned types do.  A byte array (a disk
  block, an on-stack struct seen as bytes) is a function from offsets to bytes; a C string that
  is passed to a function is the list of its bytes before the terminating NUL.

  An operation of the kernel is a function from the state to \<open>('a \<times> 'state) option\<close>.
  \<^const>\<open>Some\<close> \<open>(v, s')\<close> is a return with value \<open>v\<close> in state \<open>s'\<close>; \<^const>\<open>None\<close> is
  an operation that does not return: a call of \<open>panic\<close>, or a process that sleeps on a sleep lock
  that it holds itself.  Error returns (\<open>-1\<close>, null pointers) are ordinary values.
\<close>

unbundle bit_operations_syntax

type_synonym byte = "8 word"
type_synonym u16 = "16 word"
type_synonym u32 = "32 word"
type_synonym u64 = "64 word"
type_synonym buffer = "nat \<Rightarrow> byte"
type_synonym cstring = "byte list"

definition panic :: "string \<Rightarrow> 'a option" where
  "panic msg = None"

definition ensure :: "bool \<Rightarrow> string \<Rightarrow> unit option" where
  "ensure b msg = (if b then Some () else panic msg)"

lemma panic_None [simp]: "panic msg = None"
  by (simp add: panic_def)

lemma ensure_True [simp]: "ensure True msg = Some ()"
  by (simp add: ensure_def)

lemma ensure_False [simp]: "ensure False msg = None"
  by (simp add: ensure_def)

lemma ensure_eq_Some [simp]: "ensure b msg = Some u \<longleftrightarrow> b"
  by (simp add: ensure_def)

lemma bind_ensure_eq_Some [simp]:
  "(ensure b msg \<bind> f) = Some r \<longleftrightarrow> b \<and> f () = Some r"
  by (cases b) simp_all

lemmas bind_Some_iff = Option.bind_eq_Some_conv

lemma find_SomeD: "find Q xs = Some x \<Longrightarrow> Q x \<and> x \<in> set xs"
  by (induction xs) (auto split: if_splits)

text \<open>The linear scans over kernel tables: \<open>for(i = lo; i < hi; i++) if(P(i)) return i;\<close>\<close>

definition scan :: "(nat \<Rightarrow> bool) \<Rightarrow> nat \<Rightarrow> nat \<Rightarrow> nat option" where
  "scan P lo hi = find P [lo..<hi]"

lemma scan_SomeD:
  "scan P lo hi = Some i \<Longrightarrow> lo \<le> i \<and> i < hi \<and> P i \<and> (\<forall>j. lo \<le> j \<and> j < i \<longrightarrow> \<not> P j)"
proof -
  assume "scan P lo hi = Some i"
  then obtain k where k: "k < hi - lo" "P (lo + k)" "i = lo + k" "\<forall>j<k. \<not> P (lo + j)"
    unfolding scan_def find_Some_iff by auto
  have "\<not> P j" if "lo \<le> j" "j < i" for j
    using k(3,4) that by (metis add_less_cancel_left le_add_diff_inverse)
  with k show ?thesis by auto
qed

lemma scan_NoneD: "scan P lo hi = None \<Longrightarrow> lo \<le> j \<Longrightarrow> j < hi \<Longrightarrow> \<not> P j"
  by (auto simp: scan_def find_None_iff)

lemma scan_None_iff: "scan P lo hi = None \<longleftrightarrow> (\<forall>j. lo \<le> j \<and> j < hi \<longrightarrow> \<not> P j)"
  by (auto simp: scan_def find_None_iff)

lemma scan_cong:
  "(\<And>i. lo \<le> i \<Longrightarrow> i < hi \<Longrightarrow> P i = Q i) \<Longrightarrow> scan P lo hi = scan Q lo hi"
  unfolding scan_def by (rule find_cong) auto

lemma scan_SomeI:
  "lo \<le> i \<Longrightarrow> i < hi \<Longrightarrow> P i \<Longrightarrow> \<forall>j. lo \<le> j \<and> j < i \<longrightarrow> \<not> P j \<Longrightarrow> scan P lo hi = Some i"
proof -
  assume a: "lo \<le> i" "i < hi" "P i" "\<forall>j. lo \<le> j \<and> j < i \<longrightarrow> \<not> P j"
  then obtain k where k: "scan P lo hi = Some k"
    by (metis not_None_eq scan_NoneD)
  from scan_SomeD [OF k] a have "k = i"
    by (meson linorder_neqE_nat)
  with k show ?thesis by simp
qed

text \<open>Little-endian fields of structs that the code reads and writes in place.\<close>

definition le16 :: "buffer \<Rightarrow> nat \<Rightarrow> u16" where
  "le16 b k = ucast (b k) OR push_bit 8 (ucast (b (k + 1)))"

definition le32 :: "buffer \<Rightarrow> nat \<Rightarrow> u32" where
  "le32 b k = ucast (b k) OR push_bit 8 (ucast (b (k + 1)))
     OR push_bit 16 (ucast (b (k + 2))) OR push_bit 24 (ucast (b (k + 3)))"

definition put16 :: "buffer \<Rightarrow> nat \<Rightarrow> u16 \<Rightarrow> buffer" where
  "put16 b k v = b(k := ucast v, k + 1 := ucast (drop_bit 8 v))"

definition put32 :: "buffer \<Rightarrow> nat \<Rightarrow> u32 \<Rightarrow> buffer" where
  "put32 b k v = b(k := ucast v, k + 1 := ucast (drop_bit 8 v),
     k + 2 := ucast (drop_bit 16 v), k + 3 := ucast (drop_bit 24 v))"

lemma le16_put16_same [simp]: "le16 (put16 b k v) k = v"
proof (rule bit_word_eqI)
  fix n assume "n < LENGTH(16)"
  then consider "n < 8" | "8 \<le> n" "n < 16" by force
  then show "bit (le16 (put16 b k v) k) n = bit v n"
    by cases (auto simp: le16_def put16_def bit_simps)
qed

lemma le32_put32_same [simp]: "le32 (put32 b k v) k = v"
proof (rule bit_word_eqI)
  fix n assume "n < LENGTH(32)"
  then consider "n < 8" | "8 \<le> n" "n < 16" | "16 \<le> n" "n < 24" | "24 \<le> n" "n < 32" by force
  then show "bit (le32 (put32 b k v) k) n = bit v n"
    by cases (auto simp: le32_def put32_def bit_simps)
qed

lemma le16_cong: "b k = c k \<Longrightarrow> b (k + 1) = c (k + 1) \<Longrightarrow> le16 b k = le16 c k"
  by (simp add: le16_def)

lemma le32_cong:
  "b k = c k \<Longrightarrow> b (k + 1) = c (k + 1) \<Longrightarrow> b (k + 2) = c (k + 2) \<Longrightarrow> b (k + 3) = c (k + 3)
   \<Longrightarrow> le32 b k = le32 c k"
  by (simp add: le32_def)

lemma put16_other: "i \<noteq> k \<Longrightarrow> i \<noteq> k + 1 \<Longrightarrow> put16 b k v i = b i"
  by (simp add: put16_def)

lemma put32_other: "i < k \<or> k + 4 \<le> i \<Longrightarrow> put32 b k v i = b i"
  by (auto simp: put32_def)

lemma le16_put16_other [simp]: "j + 2 \<le> k \<or> k + 2 \<le> j \<Longrightarrow> le16 (put16 b k v) j = le16 b j"
  by (auto simp: le16_def put16_def)

lemma le32_put32_other [simp]: "j + 4 \<le> k \<or> k + 4 \<le> j \<Longrightarrow> le32 (put32 b k v) j = le32 b j"
  by (auto simp: le32_def put32_def)

lemma le32_put16_other [simp]: "j + 4 \<le> k \<or> k + 2 \<le> j \<Longrightarrow> le32 (put16 b k v) j = le32 b j"
  by (auto simp: le32_def put16_def)

lemma le16_put32_other [simp]: "j + 2 \<le> k \<or> k + 4 \<le> j \<Longrightarrow> le16 (put32 b k v) j = le16 b j"
  by (auto simp: le16_def put32_def)

text \<open>
  Block copies and fills.  \<open>copy_into dst d src k n\<close> is the effect of
  \<open>memmove(dst + d, src + k, n)\<close> between two objects that do not overlap and \<open>fill\<close> the effect
  of \<open>memset\<close>; theory \<open>CString\<close> proves that the code of \<^verbatim>\<open>kernel/string.c\<close> has these effects.
\<close>

definition copy_into :: "buffer \<Rightarrow> nat \<Rightarrow> buffer \<Rightarrow> nat \<Rightarrow> nat \<Rightarrow> buffer" where
  "copy_into dst d src k n = (\<lambda>i. if d \<le> i \<and> i < d + n then src (k + (i - d)) else dst i)"

definition fill :: "buffer \<Rightarrow> nat \<Rightarrow> byte \<Rightarrow> nat \<Rightarrow> buffer" where
  "fill dst d c n = (\<lambda>i. if d \<le> i \<and> i < d + n then c else dst i)"

lemma copy_into_in [simp]: "d \<le> i \<Longrightarrow> i < d + n \<Longrightarrow> copy_into dst d src k n i = src (k + (i - d))"
  by (simp add: copy_into_def)

lemma copy_into_out [simp]: "i < d \<or> d + n \<le> i \<Longrightarrow> copy_into dst d src k n i = dst i"
  by (auto simp: copy_into_def)

lemma copy_into_0 [simp]: "copy_into dst d src k 0 = dst"
  by (auto simp: copy_into_def fun_eq_iff)

lemma fill_in [simp]: "d \<le> i \<Longrightarrow> i < d + n \<Longrightarrow> fill dst d c n i = c"
  by (simp add: fill_def)

lemma fill_out [simp]: "i < d \<or> d + n \<le> i \<Longrightarrow> fill dst d c n i = dst i"
  by (auto simp: fill_def)

lemma le32_copy_into:
  "d \<le> j \<Longrightarrow> j + 4 \<le> d + n \<Longrightarrow> le32 (copy_into dst d src k n) j = le32 src (k + (j - d))"
  unfolding le32_def by (simp add: Suc_diff_le add.assoc)

lemma le16_copy_into:
  "d \<le> j \<Longrightarrow> j + 2 \<le> d + n \<Longrightarrow> le16 (copy_into dst d src k n) j = le16 src (k + (j - d))"
  unfolding le16_def by (simp add: Suc_diff_le add.assoc)

lemma le32_copy_into_other:
  "j + 4 \<le> d \<or> d + n \<le> j \<Longrightarrow> le32 (copy_into dst d src k n) j = le32 dst j"
  by (rule le32_cong) auto

text \<open>A C string as the reader that indexes it: the bytes of the list, then NUL.\<close>

definition cs :: "cstring \<Rightarrow> buffer" where
  "cs s i = (if i < length s then s ! i else 0)"

lemma cs_in [simp]: "i < length s \<Longrightarrow> cs s i = s ! i"
  by (simp add: cs_def)

lemma cs_out [simp]: "length s \<le> i \<Longrightarrow> cs s i = 0"
  by (simp add: cs_def)

text \<open>A byte list that is a legal C string holds no NUL.\<close>

definition wf_cstring :: "cstring \<Rightarrow> bool" where
  "wf_cstring s \<longleftrightarrow> 0 \<notin> set s"

lemma wf_cstring_nth: "wf_cstring s \<Longrightarrow> i < length s \<Longrightarrow> s ! i \<noteq> 0"
  by (metis nth_mem wf_cstring_def)

text \<open>Finite tables of the kernel are functions on indices; \<open>upd\<close> changes one entry.\<close>

definition upd :: "'k \<Rightarrow> ('a \<Rightarrow> 'a) \<Rightarrow> ('k \<Rightarrow> 'a) \<Rightarrow> ('k \<Rightarrow> 'a)" where
  "upd i f t = t(i := f (t i))"

lemma upd_same [simp]: "upd i f t i = f (t i)"
  by (simp add: upd_def)

lemma upd_other [simp]: "j \<noteq> i \<Longrightarrow> upd i f t j = t j"
  by (simp add: upd_def)

lemma upd_apply: "upd i f t j = (if j = i then f (t i) else t j)"
  by (simp add: upd_def)

lemma unat_of_nat_small:
  fixes w :: "'a::len word"
  assumes "n < 2 ^ LENGTH('a)"
  shows "unat (of_nat n :: 'a word) = n"
  using assms by (simp add: unat_of_nat take_bit_nat_eq_self)

lemma unat64_lt: "unat (w :: u64) < 2 ^ 64"
  using unsigned_less [of w] by simp

end
