(* ===== verification/Kalloc.thy ===== *)
theory Kalloc
  imports Prelude
begin

text \<open>
  \<^verbatim>\<open>kernel/kalloc.c\<close>: the physical page allocator.  Physical memory is seen through two typed views,
  64-bit words (\<open>mw\<close>: page-table entries and the \<open>next\<close> field of \<open>struct run\<close>) and bytes (\<open>mb\<close>:
  user data).  A page is used through one view at a time; \<open>memset\<close> of a whole page sets both.
  \<open>kend\<close> is the linker symbol \<open>end\<close> and \<open>phystop\<close> the constant \<open>PHYSTOP\<close>; no operation changes them.
  The spin lock \<open>kmem.lock\<close> makes each operation atomic.
\<close>

record kmem =
  freelist :: u64
  mw :: "u64 \<Rightarrow> u64"
  mb :: "u64 \<Rightarrow> byte"
  kend :: u64
  phystop :: u64

definition PGSIZE :: u64 where
  "PGSIZE = 4096"

definition PGROUNDUP :: "u64 \<Rightarrow> u64" where
  "PGROUNDUP sz = (sz + PGSIZE - 1) AND NOT (PGSIZE - 1)"

definition PGROUNDDOWN :: "u64 \<Rightarrow> u64" where
  "PGROUNDDOWN a = a AND NOT (PGSIZE - 1)"

definition in_page :: "u64 \<Rightarrow> u64 \<Rightarrow> bool" where
  "in_page pa a \<longleftrightarrow> a - pa < PGSIZE"

definition pg_aligned :: "u64 \<Rightarrow> bool" where
  "pg_aligned a \<longleftrightarrow> a mod PGSIZE = 0"

definition rep8 :: "byte \<Rightarrow> u64" where
  "rep8 c = ucast c * 0x0101010101010101"

definition page_memset :: "u64 \<Rightarrow> byte \<Rightarrow> 'a kmem_scheme \<Rightarrow> 'a kmem_scheme" where
  "page_memset pa c s =
     s\<lparr>mw := (\<lambda>a. if in_page pa a then rep8 c else mw s a),
       mb := (\<lambda>a. if in_page pa a then c else mb s a)\<rparr>"

definition kfree :: "'a kmem_scheme \<Rightarrow> u64 \<Rightarrow> 'a kmem_scheme option" where
  "kfree s pa = do {
     ensure (pg_aligned pa \<and> kend s \<le> pa \<and> pa < phystop s) ''kfree'';
     let s = page_memset pa 1 s;
     Some (s\<lparr>mw := (mw s)(pa := freelist s), freelist := pa\<rparr>)
   }"

definition kalloc :: "'a kmem_scheme \<Rightarrow> u64 \<times> 'a kmem_scheme" where
  "kalloc s =
     (let r = freelist s;
          s = (if r \<noteq> 0 then s\<lparr>freelist := mw s r\<rparr> else s)
      in if r \<noteq> 0 then (r, page_memset r 5 s) else (r, s))"

partial_function (option) freerange_loop ::
    "'a kmem_scheme \<Rightarrow> u64 \<Rightarrow> u64 \<Rightarrow> 'a kmem_scheme option" where
  "freerange_loop s p pa_end =
     (if p + PGSIZE \<le> pa_end
      then do { s \<leftarrow> kfree s p; freerange_loop s (p + PGSIZE) pa_end }
      else Some s)"

definition freerange :: "'a kmem_scheme \<Rightarrow> u64 \<Rightarrow> u64 \<Rightarrow> 'a kmem_scheme option" where
  "freerange s pa_start pa_end = freerange_loop s (PGROUNDUP pa_start) pa_end"

definition kinit :: "'a kmem_scheme \<Rightarrow> 'a kmem_scheme option" where
  "kinit s = freerange s (kend s) (phystop s)"

subsection \<open>The free list\<close>

text \<open>\<open>runs m r xs\<close>: following \<open>next\<close> from \<open>r\<close> in memory \<open>m\<close> visits exactly \<open>xs\<close>.\<close>

fun runs :: "(u64 \<Rightarrow> u64) \<Rightarrow> u64 \<Rightarrow> u64 list \<Rightarrow> bool" where
  "runs m r [] \<longleftrightarrow> r = 0"
| "runs m r (x # xs) \<longleftrightarrow> r = x \<and> x \<noteq> 0 \<and> runs m (m x) xs"

definition page_ok :: "'a kmem_scheme \<Rightarrow> u64 \<Rightarrow> bool" where
  "page_ok s x \<longleftrightarrow> pg_aligned x \<and> kend s \<le> x \<and> x < phystop s \<and> x \<noteq> 0"

definition kmem_inv :: "'a kmem_scheme \<Rightarrow> u64 list \<Rightarrow> bool" where
  "kmem_inv s xs \<longleftrightarrow> runs (mw s) (freelist s) xs \<and> distinct xs \<and> list_all (page_ok s) xs"

lemma pg_aligned_unat: "pg_aligned x \<longleftrightarrow> unat x mod 4096 = 0"
  by (simp only: pg_aligned_def PGSIZE_def word_unat_eq_iff unat_mod_distrib) simp

lemma multiples_apart:
  fixes m n :: nat
  assumes "m mod k = 0" "n mod k = 0" "m < n"
  shows "m + k \<le> n"
proof -
  from assms obtain a b where "m = k * a" "n = k * b" by (auto simp: mod_eq_0_iff_dvd dvd_def)
  with assms(3) show ?thesis by (metis add.commute mult_Suc_right mult_le_mono2 nat_mult_less_cancel_disj Suc_leI)
qed

lemma in_page_self [simp]: "in_page x x"
  by (simp add: in_page_def PGSIZE_def)

lemma and_not_mask12:
  fixes x :: u64
  shows "x AND - 4096 = x - x mod 4096"
proof -
  have m: "(- 4096 :: u64) = NOT 0xFFF" by simp
  have "x mod 4096 = x AND 0xFFF"
    using word_mod_2p_is_mask [of 12 x] by (simp add: mask_eq_exp_minus_1)
  moreover have "(x AND 0xFFF) + (x AND NOT 0xFFF) = (x AND 0xFFF) OR (x AND NOT 0xFFF)"
    by (rule disjunctive_add_eq_or) (simp add: and.assoc and.left_commute)
  moreover have "(x AND 0xFFF) OR (x AND NOT 0xFFF) = x"
    by (rule bit_word_eqI) (auto simp: bit_simps)
  ultimately show ?thesis unfolding m by (metis add_diff_cancel_left')
qed

lemma PGROUNDDOWN_eq: "PGROUNDDOWN a = a - a mod PGSIZE"
  by (simp add: PGROUNDDOWN_def PGSIZE_def and_not_mask12)

lemma page_base:
  assumes "pg_aligned p" "in_page p a"
  shows "p = PGROUNDDOWN a"
proof -
  obtain d where d: "d = a - p" by blast
  then have a: "a = p + d" by simp
  have dl: "unat d < 4096"
    using assms(2) d by (simp add: word_less_nat_alt in_page_def PGSIZE_def)
  have "unat a = (unat p + unat d) mod 2 ^ 64" by (simp add: a unat_word_ariths)
  then have "unat a mod 4096 = (unat p + unat d) mod 4096" by (simp add: mod_mod_cancel)
  also have "\<dots> = unat d"
    using assms(1) dl by (simp add: pg_aligned_unat mod_add_left_eq [symmetric, of "unat p"])
  finally have "a mod 4096 = d" by (simp add: word_unat_eq_iff unat_mod_distrib)
  then show ?thesis by (simp add: PGROUNDDOWN_eq PGSIZE_def a)
qed

lemma aligned_pages_disjoint:
  "pg_aligned x \<Longrightarrow> pg_aligned y \<Longrightarrow> in_page x y \<Longrightarrow> x = y"
  using page_base [of x y] page_base [of y y] by simp

lemma PGROUNDDOWN_offset: "unat (a - PGROUNDDOWN a) < 4096"
  by (simp add: PGROUNDDOWN_eq PGSIZE_def unat_mod_distrib)

lemma runs_frame:
  "runs m r xs \<Longrightarrow> (\<And>x. x \<in> set xs \<Longrightarrow> m' x = m x) \<Longrightarrow> runs m' r xs"
  by (induction xs arbitrary: r) auto

lemma runs_unique: "runs m r xs \<Longrightarrow> runs m r ys \<Longrightarrow> xs = ys"
proof (induction xs arbitrary: r ys)
  case Nil
  then show ?case by (cases ys) auto
next
  case (Cons x xs)
  then show ?case by (cases ys) auto
qed

lemma page_ok_memset [simp]: "page_ok (page_memset pa c s) = page_ok s"
  by (simp add: page_ok_def page_memset_def fun_eq_iff)

lemma page_memset_simps [simp]:
  "mw (page_memset pa c s) a = (if in_page pa a then rep8 c else mw s a)"
  "mb (page_memset pa c s) a = (if in_page pa a then c else mb s a)"
  "freelist (page_memset pa c s) = freelist s"
  "kend (page_memset pa c s) = kend s"
  "phystop (page_memset pa c s) = phystop s"
  "kmem.more (page_memset pa c s) = kmem.more s"
  by (simp_all add: page_memset_def)

lemma kmem_inv_disjoint:
  "kmem_inv s xs \<Longrightarrow> x \<in> set xs \<Longrightarrow> page_ok s p \<Longrightarrow> p \<noteq> x \<Longrightarrow> \<not> in_page p x"
  using aligned_pages_disjoint [of p x]
  by (auto simp: kmem_inv_def page_ok_def list_all_iff)

lemma kmem_inv_frame:
  assumes "kmem_inv s xs" "freelist t = freelist s" "kend t = kend s" "phystop t = phystop s"
    "\<And>x. x \<in> set xs \<Longrightarrow> mw t x = mw s x"
  shows "kmem_inv t xs"
  using assms runs_frame [of "mw s" "freelist s" xs "mw t"]
  by (auto simp: kmem_inv_def page_ok_def list_all_iff)

lemma kalloc_inv:
  assumes "kmem_inv s (x # xs)"
  shows "kalloc s = (x, page_memset x 5 (s\<lparr>freelist := mw s x\<rparr>))"
    and "kmem_inv (snd (kalloc s)) xs"
proof -
  from assms have x: "freelist s = x" "x \<noteq> 0" and ok: "page_ok s x"
    by (auto simp: kmem_inv_def)
  then show eq: "kalloc s = (x, page_memset x 5 (s\<lparr>freelist := mw s x\<rparr>))"
    by (simp add: kalloc_def)
  have fr: "\<not> in_page x y" if "y \<in> set xs" for y
    using kmem_inv_disjoint [OF assms, of y x] ok that assms by (auto simp: kmem_inv_def)
  have "runs (mw s) (mw s x) xs" using assms by (auto simp: kmem_inv_def)
  then have "runs (mw (snd (kalloc s))) (mw s x) xs"
    by (rule runs_frame) (simp add: eq fr)
  with assms show "kmem_inv (snd (kalloc s)) xs"
    by (simp add: eq kmem_inv_def list_all_iff page_ok_def)
qed

lemma kalloc_empty: "kmem_inv s [] \<Longrightarrow> kalloc s = (0, s)"
  by (simp add: kmem_inv_def kalloc_def)

lemma kfree_inv:
  assumes "kmem_inv s xs" "page_ok s p" "p \<notin> set xs"
  shows "\<exists>s'. kfree s p = Some s' \<and> kmem_inv s' (p # xs)
     \<and> (\<forall>a. \<not> in_page p a \<longrightarrow> mw s' a = mw s a \<and> mb s' a = mb s a)"
proof -
  let ?t = "page_memset p 1 s"
  let ?s = "?t\<lparr>mw := (mw ?t)(p := freelist s), freelist := p\<rparr>"
  have eq: "kfree s p = Some ?s"
    using assms(2) by (simp add: kfree_def page_ok_def Let_def)
  have "\<not> in_page p y" "y \<noteq> p" if "y \<in> set xs" for y
    using kmem_inv_disjoint [OF assms(1) that assms(2)] that assms(3) by auto
  then have "runs (mw ?s) (freelist s) xs"
    using assms(1) by (auto simp: kmem_inv_def intro: runs_frame)
  then have "kmem_inv ?s (p # xs)"
    using assms by (auto simp: kmem_inv_def page_ok_def list_all_iff)
  moreover have "\<forall>a. \<not> in_page p a \<longrightarrow> mw ?s a = mw s a \<and> mb ?s a = mb s a"
    by auto
  ultimately show ?thesis using eq by blast
qed

text \<open>C24: the page allocator.  On a well-formed free list \<open>kalloc\<close> returns its first page and removes
  it (or null when the list is empty); the page is inside \<open>[end, PHYSTOP)\<close>, is on no remaining
  list entry, and memory outside it is untouched.\<close>

theorem kalloc_correct:
  assumes "kmem_inv s xs" and "kalloc s = (r, s')"
  shows "case xs of
      [] \<Rightarrow> r = 0 \<and> s' = s
    | x # ys \<Rightarrow> r = x \<and> page_ok s r \<and> r \<notin> set ys \<and> kmem_inv s' ys
        \<and> (\<forall>a. \<not> in_page r a \<longrightarrow> mw s' a = mw s a \<and> mb s' a = mb s a)
        \<and> (\<forall>a. in_page r a \<longrightarrow> mb s' a = 5)"
proof (cases xs)
  case Nil
  with assms kalloc_empty [of s] show ?thesis by simp
next
  case (Cons x ys)
  with assms(1) have inv: "kmem_inv s (x # ys)" by simp
  with assms(2) kalloc_inv [OF inv] show ?thesis
    by (auto simp: Cons kmem_inv_def)
qed

definition kmem_demo :: kmem where
  "kmem_demo = \<lparr>freelist = 0x2000, mw = (\<lambda>a. if a = 0x2000 then 0x5000 else 0), mb = (\<lambda>_. 0),
     kend = 0x1000, phystop = 0x8000\<rparr>"

theorem kalloc_correct_witness:
  "kmem_inv kmem_demo [0x2000, 0x5000] \<and> fst (kalloc kmem_demo) = 0x2000
   \<and> kmem_inv (snd (kalloc kmem_demo)) [0x5000]"
proof -
  have inv: "kmem_inv kmem_demo [0x2000, 0x5000]"
    by (simp add: kmem_inv_def kmem_demo_def page_ok_def PGSIZE_def pg_aligned_def)
  from kalloc_correct [OF inv, of "fst (kalloc kmem_demo)" "snd (kalloc kmem_demo)"] inv
  show ?thesis by simp
qed

subsection \<open>Filling the free list at boot\<close>

lemma page_succ:
  fixes p e :: u64
  assumes "pg_aligned p" "unat e + 4096 < 2 ^ 64" "unat p \<le> unat e"
  shows "pg_aligned (p + PGSIZE)" "unat (p + PGSIZE) = unat p + 4096"
    "p + PGSIZE \<le> e \<longleftrightarrow> unat p + 4096 \<le> unat e"
proof -
  show u: "unat (p + PGSIZE) = unat p + 4096"
    using assms by (simp add: PGSIZE_def unat_word_ariths)
  have "unat p mod 4096 = 0"
    using assms(1) by (simp only: pg_aligned_unat)
  then show "pg_aligned (p + PGSIZE)"
    using u by (simp only: pg_aligned_unat mod_add_self2)
  show "p + PGSIZE \<le> e \<longleftrightarrow> unat p + 4096 \<le> unat e"
    using u by (simp add: word_le_nat_alt)
qed

definition pages_between :: "u64 \<Rightarrow> u64 \<Rightarrow> u64 set" where
  "pages_between p e = {q. p \<le> q \<and> pg_aligned q \<and> unat q + 4096 \<le> unat e}"

lemma pages_between_step:
  assumes "pg_aligned p" "unat e + 4096 < 2 ^ 64" "unat p + 4096 \<le> unat e"
  shows "pages_between p e = insert p (pages_between (p + PGSIZE) e)"
proof -
  have u: "unat (p + PGSIZE) = unat p + 4096" using assms page_succ by simp
  have pm: "unat p mod 4096 = 0"
    using assms(1) by (simp only: pg_aligned_unat)
  have "p + PGSIZE \<le> q" if "p \<le> q" "q \<noteq> p" "pg_aligned q" for q
  proof -
    have "unat q mod 4096 = 0"
      using that(3) by (simp only: pg_aligned_unat)
    moreover have "unat p < unat q"
      using that by (metis word_less_nat_alt order_le_less)
    ultimately have "unat p + 4096 \<le> unat q" by (rule multiples_apart [OF pm])
    then show ?thesis by (simp add: word_le_nat_alt u)
  qed
  moreover have "p \<le> q" if "p + PGSIZE \<le> q" for q
    using that u by (simp add: word_le_nat_alt)
  ultimately show ?thesis
    using assms by (auto simp: pages_between_def)
qed

lemma freerange_loop_inv:
  assumes "kmem_inv s xs" "pg_aligned p" "kend s \<le> p" "0 < p" "e \<le> phystop s"
    "unat e + 4096 < 2 ^ 64" "unat p \<le> unat e" "set xs \<inter> pages_between p e = {}"
  shows "\<exists>s' xs'. freerange_loop s p e = Some s' \<and> kmem_inv s' xs'
     \<and> set xs' = set xs \<union> pages_between p e"
  using assms
proof (induction "unat e - unat p" arbitrary: s xs p rule: less_induct)
  case less
  note succ = page_succ [OF less.prems(2,6,7)]
  show ?case
  proof (cases "unat p + 4096 \<le> unat e")
    case False
    then have "pages_between p e = {}"
      using less.prems by (auto simp: pages_between_def word_le_nat_alt)
    with False less.prems(1) succ show ?thesis
      by (auto simp: freerange_loop.simps [of s p e])
  next
    case True
    note step = pages_between_step [OF less.prems(2,6) True]
    have ok: "page_ok s p"
      using less.prems True by (auto simp: page_ok_def word_le_nat_alt word_less_nat_alt)
    have "p \<notin> set xs" using less.prems(8) step by auto
    from kfree_inv [OF less.prems(1) ok this] obtain t where
      t: "kfree s p = Some t" "kmem_inv t (p # xs)" by blast
    have tc: "kend t = kend s" "phystop t = phystop s"
      using t(1) by (auto simp: kfree_def Let_def)
    have "p \<notin> pages_between (p + PGSIZE) e"
      using succ by (simp add: pages_between_def word_le_nat_alt)
    then have "\<exists>s' xs'. freerange_loop t (p + PGSIZE) e = Some s' \<and> kmem_inv s' xs'
        \<and> set xs' = set (p # xs) \<union> pages_between (p + PGSIZE) e"
      using less.prems True succ tc t(2) step
      by (intro less.hyps) (auto simp: word_le_nat_alt word_less_nat_alt)
    with t(1) True succ step show ?thesis
      by (auto simp: freerange_loop.simps [of s p e])
  qed
qed

text \<open>C25: booting the allocator.  \<open>kinit\<close> returns and leaves on the free list, each exactly once, the
  page-aligned pages that lie entirely inside \<open>[PGROUNDUP(end), PHYSTOP)\<close>.\<close>

theorem kinit_frees_all:
  assumes "freelist s = 0" and "0 < kend s" and "unat (phystop s) + 4096 < 2 ^ 64"
    and "unat (kend s) + 4096 \<le> unat (phystop s)"
  shows "\<exists>s' xs. kinit s = Some s' \<and> kmem_inv s' xs
     \<and> set xs = pages_between (PGROUNDUP (kend s)) (phystop s)"
proof -
  let ?k = "kend s"
  have big: "unat (?k + (PGSIZE - 1)) = unat ?k + 4095"
    using assms(3,4) by (simp add: PGSIZE_def unat_word_ariths)
  have up: "PGROUNDUP ?k = (?k + (PGSIZE - 1)) - (?k + (PGSIZE - 1)) mod PGSIZE"
    by (simp add: PGROUNDUP_def PGSIZE_def and_not_mask12 add.commute)
  obtain q r where qr: "unat ?k + 4095 = 4096 * q + r" "r < 4096"
    by (metis div_mult_mod_eq mod_less_divisor mult.commute zero_less_numeral)
  have "unat (PGROUNDUP ?k) = unat ?k + 4095 - (unat ?k + 4095) mod 4096"
    unfolding up using big
    by (subst unat_sub) (auto simp: PGSIZE_def unat_mod_distrib word_le_nat_alt)
  then have unat_up: "unat (PGROUNDUP ?k) = 4096 * q" using qr by simp
  then have al: "pg_aligned (PGROUNDUP ?k)" by (simp add: pg_aligned_unat)
  have "unat ?k \<le> unat (PGROUNDUP ?k)" "unat (PGROUNDUP ?k) \<le> unat (phystop s)"
    unfolding unat_up using assms(4) qr by linarith+
  moreover have "kmem_inv s []" using assms(1) by (simp add: kmem_inv_def)
  ultimately have "\<exists>s' xs. freerange_loop s (PGROUNDUP ?k) (phystop s) = Some s' \<and> kmem_inv s' xs
     \<and> set xs = set [] \<union> pages_between (PGROUNDUP ?k) (phystop s)"
    using assms(2,3) al by (intro freerange_loop_inv) (auto simp: word_le_nat_alt word_less_nat_alt)
  then show ?thesis by (simp add: kinit_def freerange_def)
qed

theorem kinit_frees_all_witness:
  "\<exists>s' xs. kinit (kmem_demo\<lparr>freelist := 0\<rparr>) = Some s' \<and> kmem_inv s' xs
     \<and> set xs = pages_between (PGROUNDUP 0x1000) 0x8000"
  using kinit_frees_all [of "kmem_demo\<lparr>freelist := 0\<rparr>"] by (simp add: kmem_demo_def)

end
