(* ===== verification/Hal.thy ===== *)
theory Hal
  imports Kalloc
begin

text \<open>
  The part of the hardware abstraction layer that \<^verbatim>\<open>kernel/vm.c\<close> is written against: page-table entry
  encodings, number of levels and legal addresses.  The C code selects one \<^verbatim>\<open>arch.h\<close> and
  \<^verbatim>\<open>memlayout.h\<close> at compile time; here an architecture is a value of the record \<open>hal_arch\<close>, with
  one instance for RISC-V and one for LoongArch.  The locale \<open>pte_format\<close> is the contract that
  \<^verbatim>\<open>kernel/vm.c\<close> relies on; both instances satisfy it.
\<close>

subsection \<open>The interface\<close>

record hal_arch =
  PT_LEVELS :: nat
  MAXVA :: u64
  PTE_V :: u64
  PTE_R :: u64
  PTE_W :: u64
  PTE_X :: u64
  PTE_U :: u64
  PTE_V_CACHE :: u64
  PA2PTE :: "u64 \<Rightarrow> u64"
  PTE2PA :: "u64 \<Rightarrow> u64"
  PTE_FLAGS :: "u64 \<Rightarrow> u64"
  hal_pte_encode_perm :: "u64 \<Rightarrow> u64"
  hal_pte_is_leaf :: "u64 \<Rightarrow> bool"
  hal_pagetable_va_valid :: "u64 \<Rightarrow> bool"
  TRAMPOLINE :: u64
  KSTACK :: "u64 \<Rightarrow> u64"
  maps_trampoline :: bool

definition PXMASK :: u64 where
  "PXMASK = 0x1FF"

definition PX :: "nat \<Rightarrow> u64 \<Rightarrow> u64" where
  "PX level va = drop_bit (12 + 9 * level) va AND PXMASK"

subsection \<open>RISC-V\<close>

definition riscv_PA2PTE :: "u64 \<Rightarrow> u64" where
  "riscv_PA2PTE pa = push_bit 10 (drop_bit 12 pa)"

definition riscv_PTE2PA :: "u64 \<Rightarrow> u64" where
  "riscv_PTE2PA pte = push_bit 12 (drop_bit 10 pte)"

definition riscv_PTE_FLAGS :: "u64 \<Rightarrow> u64" where
  "riscv_PTE_FLAGS pte = pte AND 0x3FF"

definition riscv_encode_perm :: "u64 \<Rightarrow> u64" where
  "riscv_encode_perm perm = perm"

definition riscv_is_leaf :: "u64 \<Rightarrow> bool" where
  "riscv_is_leaf pte \<longleftrightarrow> pte AND (0x2 OR 0x4 OR 0x8) \<noteq> 0"

definition riscv_va_valid :: "u64 \<Rightarrow> bool" where
  "riscv_va_valid va \<longleftrightarrow> va < 0x4000000000"

definition riscv_TRAMPOLINE :: u64 where
  "riscv_TRAMPOLINE = 0x4000000000 - PGSIZE"

definition riscv_KSTACK :: "u64 \<Rightarrow> u64" where
  "riscv_KSTACK p = riscv_TRAMPOLINE - (p + 1) * 3 * PGSIZE"

definition riscv_arch :: hal_arch where
  "riscv_arch = \<lparr>PT_LEVELS = 3, MAXVA = 0x4000000000,
     PTE_V = 0x1, PTE_R = 0x2, PTE_W = 0x4, PTE_X = 0x8, PTE_U = 0x10, PTE_V_CACHE = 0x1,
     PA2PTE = riscv_PA2PTE, PTE2PA = riscv_PTE2PA, PTE_FLAGS = riscv_PTE_FLAGS,
     hal_pte_encode_perm = riscv_encode_perm, hal_pte_is_leaf = riscv_is_leaf,
     hal_pagetable_va_valid = riscv_va_valid, TRAMPOLINE = riscv_TRAMPOLINE, KSTACK = riscv_KSTACK,
     maps_trampoline = True\<rparr>"

subsection \<open>LoongArch\<close>

text \<open>\<open>PTE_W = PTE_D | PTE_HW_W\<close>, \<open>PTE_U = PTE_PLV3\<close>, \<open>PTE_G = 1 << 6\<close>,
  \<open>PTE_NR = 1 << 61\<close>, \<open>PTE_NX = 1 << 62\<close>; \<open>PTE_R\<close> and \<open>PTE_X\<close> are the software bits 9 and 10.\<close>

definition la_PA2PTE :: "u64 \<Rightarrow> u64" where
  "la_PA2PTE pa = pa AND 0x0FFFFFFFFFFF000"

definition la_PTE2PA :: "u64 \<Rightarrow> u64" where
  "la_PTE2PA pte = pte AND 0x0FFFFFFFFFFF000"

definition la_PTE_NR :: u64 where
  "la_PTE_NR = 0x2000000000000000"

definition la_PTE_NX :: u64 where
  "la_PTE_NX = 0x4000000000000000"

definition la_encode_perm :: "u64 \<Rightarrow> u64" where
  "la_encode_perm perm =
     (let native = perm AND (0x102 OR 0xC OR 0x40);
          native = (if perm AND 0x200 = 0 then native OR la_PTE_NR else native)
      in if perm AND 0x400 = 0 then native OR la_PTE_NX else native)"

definition la_decode_perm :: "u64 \<Rightarrow> u64" where
  "la_decode_perm pte =
     (let perm = pte AND (0x102 OR 0xC OR 0x40);
          perm = (if pte AND la_PTE_NR = 0 then perm OR 0x200 else perm)
      in if pte AND la_PTE_NX = 0 then perm OR 0x400 else perm)"

definition la_is_leaf :: "u64 \<Rightarrow> bool" where
  "la_is_leaf pte \<longleftrightarrow> pte AND 0x80 \<noteq> 0"

text \<open>\<open>KSTACK_TOP\<close> and \<open>KSTACK_REGION_BOTTOM = KSTACK_TOP - NPROC * 3 * PGSIZE\<close>.\<close>

definition la_KSTACK_TOP :: u64 where
  "la_KSTACK_TOP = 0xFFFFFFFFFFFFF000"

definition la_KSTACK_REGION_BOTTOM :: u64 where
  "la_KSTACK_REGION_BOTTOM = la_KSTACK_TOP - 64 * 3 * PGSIZE"

definition la_va_valid :: "u64 \<Rightarrow> bool" where
  "la_va_valid va \<longleftrightarrow> va < 0x4000000000
     \<or> la_KSTACK_REGION_BOTTOM \<le> va \<and> va < la_KSTACK_TOP"

definition la_TRAMPOLINE :: u64 where
  "la_TRAMPOLINE = 0x1C009000"

definition la_KSTACK :: "u64 \<Rightarrow> u64" where
  "la_KSTACK p = la_KSTACK_TOP - (p * 3 + 2) * PGSIZE"

definition loongarch_arch :: hal_arch where
  "loongarch_arch = \<lparr>PT_LEVELS = 4, MAXVA = 0x4000000000,
     PTE_V = 0x1, PTE_R = 0x200, PTE_W = 0x102, PTE_X = 0x400, PTE_U = 0xC,
     PTE_V_CACHE = 0x1 OR 0x10 OR 0x80,
     PA2PTE = la_PA2PTE, PTE2PA = la_PTE2PA, PTE_FLAGS = la_decode_perm,
     hal_pte_encode_perm = la_encode_perm, hal_pte_is_leaf = la_is_leaf,
     hal_pagetable_va_valid = la_va_valid, TRAMPOLINE = la_TRAMPOLINE, KSTACK = la_KSTACK,
     maps_trampoline = False\<rparr>"

subsection \<open>The contract of a page-table entry format\<close>

definition canonical_pa :: "u64 \<Rightarrow> bool" where
  "canonical_pa pa \<longleftrightarrow> pg_aligned pa \<and> pa < 0x100000000000000"

definition perm_ok :: "hal_arch \<Rightarrow> u64 \<Rightarrow> bool" where
  "perm_ok A perm \<longleftrightarrow> perm AND NOT (PTE_R A OR PTE_W A OR PTE_X A OR PTE_U A) = 0"

text \<open>The entries that \<open>mappages\<close> and \<open>walk\<close> construct.\<close>

definition leaf_pte :: "hal_arch \<Rightarrow> u64 \<Rightarrow> u64 \<Rightarrow> u64" where
  "leaf_pte A pa perm = PA2PTE A pa OR hal_pte_encode_perm A perm OR PTE_V_CACHE A"

definition table_pte :: "hal_arch \<Rightarrow> u64 \<Rightarrow> u64" where
  "table_pte A pa = PA2PTE A pa OR PTE_V A"

locale pte_format =
  fixes A :: hal_arch
  assumes levels_pos: "0 < PT_LEVELS A"
    and maxva_valid: "va < MAXVA A \<Longrightarrow> hal_pagetable_va_valid A va"
    and maxva_bits: "MAXVA A \<le> 0x4000000000" "3 \<le> PT_LEVELS A" "pg_aligned (MAXVA A)"
    and valid_bit: "PTE_V A = 1"
    and leaf_pa: "canonical_pa pa \<Longrightarrow> perm_ok A perm \<Longrightarrow> PTE2PA A (leaf_pte A pa perm) = pa"
    and leaf_valid: "leaf_pte A pa perm AND PTE_V A \<noteq> 0"
    and leaf_user: "canonical_pa pa \<Longrightarrow> perm_ok A perm \<Longrightarrow>
      leaf_pte A pa perm AND PTE_U A = perm AND PTE_U A"
    and leaf_write: "canonical_pa pa \<Longrightarrow> perm_ok A perm \<Longrightarrow>
      leaf_pte A pa perm AND PTE_W A = perm AND PTE_W A"
    and leaf_is_leaf: "perm_ok A perm \<Longrightarrow> perm AND (PTE_R A OR PTE_W A OR PTE_X A) \<noteq> 0 \<Longrightarrow>
      hal_pte_is_leaf A (leaf_pte A pa perm)"
    and leaf_dup: "canonical_pa pa \<Longrightarrow> perm_ok A perm \<Longrightarrow>
      leaf_pte A qa (PTE_FLAGS A (leaf_pte A pa perm)) = leaf_pte A qa perm"
    and table_pa: "canonical_pa pa \<Longrightarrow> PTE2PA A (table_pte A pa) = pa"
    and table_valid: "table_pte A pa AND PTE_V A \<noteq> 0"
    and table_not_leaf: "canonical_pa pa \<Longrightarrow> \<not> hal_pte_is_leaf A (table_pte A pa)"

subsection \<open>Bits of the two formats\<close>

lemma canonical_bits:
  assumes "canonical_pa pa" "bit pa n"
  shows "12 \<le> n \<and> n < 56"
proof -
  have "take_bit 12 pa = 0"
    using assms(1) by (simp add: canonical_pa_def pg_aligned_def PGSIZE_def take_bit_eq_mod)
  then have "\<not> bit pa n" if "n < 12"
    using that by (metis bit_0_eq bit_take_bit_iff bot_apply bot_bool_def)
  moreover have "take_bit 56 pa = pa"
    using assms(1) 
    by (simp add: canonical_pa_def word_unat_eq_iff take_bit_eq_mod unat_mod_distrib word_less_nat_alt)
  then have "n < 56" using assms(2) by (metis bit_take_bit_iff)
  ultimately show ?thesis using assms(2) by force
qed

lemma perm_bits:
  "perm_ok A perm \<Longrightarrow> bit perm n \<Longrightarrow> bit (PTE_R A OR PTE_W A OR PTE_X A OR PTE_U A) n"
proof -
  assume "perm_ok A perm" "bit perm n"
  then have "\<not> bit (perm AND NOT (PTE_R A OR PTE_W A OR PTE_X A OR PTE_U A)) n" and "n < 64"
    by (simp_all add: perm_ok_def bit_imp_le_length [where 'a = 64, simplified])
  with \<open>bit perm n\<close> show ?thesis by (auto simp: bit_simps)
qed

lemma riscv_fields [simp]:
  "PT_LEVELS riscv_arch = 3" "MAXVA riscv_arch = 0x4000000000"
  "PTE_V riscv_arch = 1" "PTE_R riscv_arch = 0x2" "PTE_W riscv_arch = 0x4" "PTE_X riscv_arch = 0x8"
  "PTE_U riscv_arch = 0x10" "PTE_V_CACHE riscv_arch = 1"
  "PA2PTE riscv_arch = riscv_PA2PTE" "PTE2PA riscv_arch = riscv_PTE2PA"
  "PTE_FLAGS riscv_arch = riscv_PTE_FLAGS" "hal_pte_encode_perm riscv_arch = riscv_encode_perm"
  "hal_pte_is_leaf riscv_arch = riscv_is_leaf"
  "hal_pagetable_va_valid riscv_arch = riscv_va_valid"
  "TRAMPOLINE riscv_arch = riscv_TRAMPOLINE" "KSTACK riscv_arch = riscv_KSTACK" "maps_trampoline riscv_arch"
  by (simp_all add: riscv_arch_def)

lemma loongarch_fields [simp]:
  "PT_LEVELS loongarch_arch = 4" "MAXVA loongarch_arch = 0x4000000000"
  "PTE_V loongarch_arch = 1" "PTE_R loongarch_arch = 0x200" "PTE_W loongarch_arch = 0x102"
  "PTE_X loongarch_arch = 0x400" "PTE_U loongarch_arch = 0xC"
  "PTE_V_CACHE loongarch_arch = 0x91"
  "PA2PTE loongarch_arch = la_PA2PTE" "PTE2PA loongarch_arch = la_PTE2PA"
  "PTE_FLAGS loongarch_arch = la_decode_perm" "hal_pte_encode_perm loongarch_arch = la_encode_perm"
  "hal_pte_is_leaf loongarch_arch = la_is_leaf"
  "hal_pagetable_va_valid loongarch_arch = la_va_valid"
  "TRAMPOLINE loongarch_arch = la_TRAMPOLINE" "KSTACK loongarch_arch = la_KSTACK" "\<not> maps_trampoline loongarch_arch"
  by (simp_all add: loongarch_arch_def)

lemma bits_const:
  "bit (1::u64) n \<longleftrightarrow> n = 0"
  "bit (0x2::u64) n \<longleftrightarrow> n = 1"
  "bit (0x4::u64) n \<longleftrightarrow> n = 2"
  "bit (0x8::u64) n \<longleftrightarrow> n = 3"
  "bit (0xC::u64) n \<longleftrightarrow> n = 2 \<or> n = 3"
  "bit (0xE::u64) n \<longleftrightarrow> n = 1 \<or> n = 2 \<or> n = 3"
  "bit (0x10::u64) n \<longleftrightarrow> n = 4"
  "bit (0x1E::u64) n \<longleftrightarrow> n = 1 \<or> n = 2 \<or> n = 3 \<or> n = 4"
  "bit (0x80::u64) n \<longleftrightarrow> n = 7"
  "bit (0x91::u64) n \<longleftrightarrow> n = 0 \<or> n = 4 \<or> n = 7"
  "bit (0x102::u64) n \<longleftrightarrow> n = 1 \<or> n = 8"
  "bit (0x14E::u64) n \<longleftrightarrow> n = 1 \<or> n = 2 \<or> n = 3 \<or> n = 6 \<or> n = 8"
  "bit (0x200::u64) n \<longleftrightarrow> n = 9"
  "bit (0x3FF::u64) n \<longleftrightarrow> n < 10"
  "bit (0x400::u64) n \<longleftrightarrow> n = 10"
  "bit (0x70E::u64) n \<longleftrightarrow> n = 1 \<or> n = 2 \<or> n = 3 \<or> n = 8 \<or> n = 9 \<or> n = 10"
  by (auto simp: bit_numeral_rec bit_1_iff split: nat.splits)

lemma bits_const_high:
  "bit (0x0FFFFFFFFFFF000::u64) n \<longleftrightarrow> 12 \<le> n \<and> n < 56"
  "bit (0x2000000000000000::u64) n \<longleftrightarrow> n = 61"
  "bit (0x4000000000000000::u64) n \<longleftrightarrow> n = 62"
proof -
  have "(0x0FFFFFFFFFFF000::u64) = push_bit 12 (mask 44)"
    by (simp add: mask_eq_exp_minus_1 push_bit_eq_mult)
  then show "bit (0x0FFFFFFFFFFF000::u64) n \<longleftrightarrow> 12 \<le> n \<and> n < 56"
    by (simp only: bit_push_bit_iff bit_mask_iff possible_bit_word) auto
  have "(0x2000000000000000::u64) = 2 ^ 61" by simp
  then show "bit (0x2000000000000000::u64) n \<longleftrightarrow> n = 61"
    by (simp only: bit_exp_iff) auto
  have "(0x4000000000000000::u64) = 2 ^ 62" by simp
  then show "bit (0x4000000000000000::u64) n \<longleftrightarrow> n = 62"
    by (simp only: bit_exp_iff) auto
qed

lemma and_eq_0_bits: "x AND c = 0 \<longleftrightarrow> (\<forall>n. bit c n \<longrightarrow> \<not> bit x n)" for x c :: u64
proof
  assume "x AND c = 0"
  then have "\<not> bit (x AND c) n" for n by simp
  then show "\<forall>n. bit c n \<longrightarrow> \<not> bit x n" by (auto simp: bit_and_iff)
next
  assume "\<forall>n. bit c n \<longrightarrow> \<not> bit x n"
  then show "x AND c = 0" by (intro bit_word_eqI) (auto simp: bit_and_iff)
qed

lemmas riscv_bits = riscv_PA2PTE_def riscv_PTE2PA_def riscv_PTE_FLAGS_def riscv_encode_perm_def
  riscv_is_leaf_def leaf_pte_def table_pte_def

lemma riscv_perm_bits: "perm_ok riscv_arch perm \<Longrightarrow> bit perm n \<Longrightarrow> 0 < n \<and> n < 5"
  by (drule (1) perm_bits) (auto simp: bits_const simp del: bit_numeral_word_iff)

lemma la_perm_bits:
  "perm_ok loongarch_arch perm \<Longrightarrow> bit perm n \<Longrightarrow>
    n = 1 \<or> n = 2 \<or> n = 3 \<or> n = 8 \<or> n = 9 \<or> n = 10"
  by (drule (1) perm_bits) (auto simp: bits_const simp del: bit_numeral_word_iff)

lemma bit_simps64:
  fixes w :: u64
  shows "bit (push_bit k w) n \<longleftrightarrow> k \<le> n \<and> n < 64 \<and> bit w (n - k)"
    "bit (drop_bit k w) n \<longleftrightarrow> bit w (k + n)"
    "bit (w OR v) n \<longleftrightarrow> bit w n \<or> bit v n"
    "bit (w AND v) n \<longleftrightarrow> bit w n \<and> bit v n"
  by (auto simp: bit_simps)

lemma riscv_leaf_bit:
  "bit (leaf_pte riscv_arch pa perm) n \<longleftrightarrow>
     10 \<le> n \<and> n < 64 \<and> bit pa (n + 2) \<or> bit perm n \<or> n = 0"
  unfolding riscv_bits riscv_fields
  by (auto simp add: bit_simps64 bits_const)

lemma riscv_table_bit:
  "bit (table_pte riscv_arch pa) n \<longleftrightarrow> 10 \<le> n \<and> n < 64 \<and> bit pa (n + 2) \<or> n = 0"
  unfolding riscv_bits riscv_fields
  by (auto simp add: bit_simps64 bits_const)

lemma la_leaf_bit:
  "bit (leaf_pte loongarch_arch pa perm) n \<longleftrightarrow>
     12 \<le> n \<and> n < 56 \<and> bit pa n \<or> (n = 1 \<or> n = 2 \<or> n = 3 \<or> n = 6 \<or> n = 8) \<and> bit perm n
     \<or> n = 61 \<and> \<not> bit perm 9 \<or> n = 62 \<and> \<not> bit perm 10 \<or> n = 0 \<or> n = 4 \<or> n = 7"
  unfolding leaf_pte_def loongarch_fields la_PA2PTE_def la_encode_perm_def la_PTE_NR_def la_PTE_NX_def
  by (auto simp add: Let_def bit_simps64 bits_const bits_const_high and_eq_0_bits simp del: bit_numeral_word_iff)

lemma la_table_bit:
  "bit (table_pte loongarch_arch pa) n \<longleftrightarrow> 12 \<le> n \<and> n < 56 \<and> bit pa n \<or> n = 0"
  unfolding table_pte_def loongarch_fields la_PA2PTE_def
  by (auto simp add: bit_simps64 bits_const bits_const_high simp del: bit_numeral_word_iff)

lemmas pte_simps = bit_simps64 bits_const bits_const_high and_eq_0_bits
  riscv_leaf_bit riscv_table_bit la_leaf_bit la_table_bit
  riscv_PTE2PA_def riscv_PTE_FLAGS_def riscv_is_leaf_def riscv_va_valid_def
  la_PTE2PA_def la_decode_perm_def la_PTE_NR_def la_PTE_NX_def la_is_leaf_def la_va_valid_def Let_def

interpretation riscv: pte_format riscv_arch
proof
  fix pa perm qa va :: u64
  show "leaf_pte riscv_arch pa perm AND PTE_V riscv_arch \<noteq> 0"
    "table_pte riscv_arch pa AND PTE_V riscv_arch \<noteq> 0"
    by (simp_all add: pte_simps)
  show "hal_pte_is_leaf riscv_arch (leaf_pte riscv_arch pa perm)"
    if "perm AND (PTE_R riscv_arch OR PTE_W riscv_arch OR PTE_X riscv_arch) \<noteq> 0"
    using that by (auto simp: pte_simps simp del: bit_numeral_word_iff)
  assume pa: "canonical_pa pa"
  note pb = canonical_bits [OF pa]
  show "PTE2PA riscv_arch (table_pte riscv_arch pa) = pa"
    by (rule bit_word_eqI) (use pb in \<open>auto simp: pte_simps\<close>)
  show "\<not> hal_pte_is_leaf riscv_arch (table_pte riscv_arch pa)"
    by (auto simp: pte_simps simp del: bit_numeral_word_iff)
  assume perm: "perm_ok riscv_arch perm"
  have qb: "0 < n \<and> n < 10" if "bit perm n" for n using riscv_perm_bits [OF perm that] by simp
  show "PTE2PA riscv_arch (leaf_pte riscv_arch pa perm) = pa"
    by (rule bit_word_eqI) (use pb qb in \<open>force simp: pte_simps\<close>)
  show "leaf_pte riscv_arch pa perm AND PTE_U riscv_arch = perm AND PTE_U riscv_arch"
     "leaf_pte riscv_arch pa perm AND PTE_W riscv_arch = perm AND PTE_W riscv_arch"
    by (rule bit_word_eqI, auto simp: pte_simps simp del: bit_numeral_word_iff)+
  show "leaf_pte riscv_arch qa (PTE_FLAGS riscv_arch (leaf_pte riscv_arch pa perm)) = leaf_pte riscv_arch qa perm"
    by (rule bit_word_eqI) (auto simp: pte_simps dest: qb simp del: bit_numeral_word_iff)
qed (simp_all add: pte_simps pg_aligned_def PGSIZE_def)

interpretation la: pte_format loongarch_arch
proof
  fix pa perm qa va :: u64
  show "leaf_pte loongarch_arch pa perm AND PTE_V loongarch_arch \<noteq> 0"
    "table_pte loongarch_arch pa AND PTE_V loongarch_arch \<noteq> 0"
    by (simp_all add: pte_simps)
  show "hal_pte_is_leaf loongarch_arch (leaf_pte loongarch_arch pa perm)"
    by (auto simp: pte_simps simp del: bit_numeral_word_iff)
  assume pa: "canonical_pa pa"
  note pb = canonical_bits [OF pa]
  show "PTE2PA loongarch_arch (table_pte loongarch_arch pa) = pa"
    by (rule bit_word_eqI) (use pb in \<open>auto simp: pte_simps simp del: bit_numeral_word_iff\<close>)
  show "\<not> hal_pte_is_leaf loongarch_arch (table_pte loongarch_arch pa)"
    by (auto simp: pte_simps simp del: bit_numeral_word_iff)
  assume perm: "perm_ok loongarch_arch perm"
  note qb = la_perm_bits [OF perm]
  show "PTE2PA loongarch_arch (leaf_pte loongarch_arch pa perm) = pa"
    by (rule bit_word_eqI) (use pb qb in \<open>auto simp: pte_simps simp del: bit_numeral_word_iff\<close>)
  show "leaf_pte loongarch_arch pa perm AND PTE_U loongarch_arch = perm AND PTE_U loongarch_arch"
     "leaf_pte loongarch_arch pa perm AND PTE_W loongarch_arch = perm AND PTE_W loongarch_arch"
    by (rule bit_word_eqI, auto simp: pte_simps simp del: bit_numeral_word_iff)+
  show "leaf_pte loongarch_arch qa (PTE_FLAGS loongarch_arch (leaf_pte loongarch_arch pa perm)) = leaf_pte loongarch_arch qa perm"
     by (rule bit_word_eqI) (use qb in \<open>auto simp: pte_simps simp del: bit_numeral_word_iff\<close>)
qed (simp_all add: pte_simps pg_aligned_def PGSIZE_def)


context pte_format
begin

lemma roundtrip:
  assumes "canonical_pa pa" "perm_ok A perm"
  shows "PTE2PA A (leaf_pte A pa perm) = pa \<and> leaf_pte A pa perm AND PTE_V A \<noteq> 0
    \<and> leaf_pte A pa perm AND PTE_U A = perm AND PTE_U A
    \<and> leaf_pte A pa perm AND PTE_W A = perm AND PTE_W A
    \<and> leaf_pte A qa (PTE_FLAGS A (leaf_pte A pa perm)) = leaf_pte A qa perm
    \<and> PTE2PA A (table_pte A pa) = pa \<and> table_pte A pa AND PTE_V A \<noteq> 0
    \<and> \<not> hal_pte_is_leaf A (table_pte A pa)"
  using assms leaf_pa leaf_valid leaf_user leaf_write leaf_dup table_pa table_valid table_not_leaf
  by simp

end

lemma supported_arch_format: "A \<in> {riscv_arch, loongarch_arch} \<Longrightarrow> pte_format A"
  using riscv.pte_format_axioms la.pte_format_axioms by auto



end
