(* ===== verification/CString.thy ===== *)
theory CString
  imports Prelude
begin

text \<open>
  \<^verbatim>\<open>kernel/string.c\<close>.  The routines that write take the memory they write to as a function from
  addresses to bytes, so that source and destination of \<open>memmove\<close> may overlap; the routines that
  only read take each argument as the reader at its pointer (\<open>p i\<close> is \<open>p[i]\<close>).
\<close>

subsection \<open>Definitions\<close>

fun memset_loop :: "buffer \<Rightarrow> nat \<Rightarrow> byte \<Rightarrow> nat \<Rightarrow> nat \<Rightarrow> buffer" where
  "memset_loop m dst c i 0 = m"
| "memset_loop m dst c i (Suc n) = memset_loop (m(dst + i := c)) dst c (Suc i) n"

definition memset :: "buffer \<Rightarrow> nat \<Rightarrow> u32 \<Rightarrow> nat \<Rightarrow> buffer" where
  "memset m dst c n = memset_loop m dst (ucast c) 0 n"

fun memcmp :: "buffer \<Rightarrow> buffer \<Rightarrow> nat \<Rightarrow> int" where
  "memcmp s1 s2 0 = 0"
| "memcmp s1 s2 (Suc n) =
     (if s1 0 \<noteq> s2 0 then uint (s1 0) - uint (s2 0)
      else memcmp (\<lambda>i. s1 (Suc i)) (\<lambda>i. s2 (Suc i)) n)"

fun copy_down :: "buffer \<Rightarrow> nat \<Rightarrow> nat \<Rightarrow> nat \<Rightarrow> buffer" where
  "copy_down m d s 0 = m"
| "copy_down m d s (Suc n) = copy_down (m(d - 1 := m (s - 1))) (d - 1) (s - 1) n"

fun copy_up :: "buffer \<Rightarrow> nat \<Rightarrow> nat \<Rightarrow> nat \<Rightarrow> buffer" where
  "copy_up m d s 0 = m"
| "copy_up m d s (Suc n) = copy_up (m(d := m s)) (Suc d) (Suc s) n"

definition memmove :: "buffer \<Rightarrow> nat \<Rightarrow> nat \<Rightarrow> nat \<Rightarrow> buffer" where
  "memmove m dst src n =
     (if n = 0 then m
      else if src < dst \<and> src + n > dst then copy_down m (dst + n) (src + n) n
      else copy_up m dst src n)"

fun strncmp :: "buffer \<Rightarrow> buffer \<Rightarrow> nat \<Rightarrow> int" where
  "strncmp p q 0 = 0"
| "strncmp p q (Suc n) =
     (if p 0 \<noteq> 0 \<and> p 0 = q 0 then strncmp (\<lambda>i. p (Suc i)) (\<lambda>i. q (Suc i)) n
      else uint (p 0) - uint (q 0))"

fun strncpy_pad :: "buffer \<Rightarrow> nat \<Rightarrow> nat \<Rightarrow> buffer" where
  "strncpy_pad s i 0 = s"
| "strncpy_pad s i (Suc n) = strncpy_pad (s(i := 0)) (Suc i) n"

fun strncpy_loop :: "buffer \<Rightarrow> nat \<Rightarrow> buffer \<Rightarrow> nat \<Rightarrow> buffer" where
  "strncpy_loop s i t 0 = s"
| "strncpy_loop s i t (Suc n) =
     (let s' = s(i := t i) in
      if t i \<noteq> 0 then strncpy_loop s' (Suc i) t n else strncpy_pad s' (Suc i) n)"

definition strncpy :: "buffer \<Rightarrow> buffer \<Rightarrow> int \<Rightarrow> buffer" where
  "strncpy s t n = strncpy_loop s 0 t (nat n)"

fun safestrcpy_loop :: "buffer \<Rightarrow> nat \<Rightarrow> buffer \<Rightarrow> nat \<Rightarrow> buffer" where
  "safestrcpy_loop s i t 0 = s(i := 0)"
| "safestrcpy_loop s i t (Suc n) =
     (let s' = s(i := t i) in
      if t i \<noteq> 0 then safestrcpy_loop s' (Suc i) t n else s'(Suc i := 0))"

definition safestrcpy :: "buffer \<Rightarrow> buffer \<Rightarrow> int \<Rightarrow> buffer" where
  "safestrcpy s t n = (if n \<le> 0 then s else safestrcpy_loop s 0 t (nat n - 1))"

partial_function (option) strlen_from :: "buffer \<Rightarrow> nat \<Rightarrow> nat option" where
  "strlen_from s n = (if s n \<noteq> 0 then strlen_from s (n + 1) else Some n)"

definition strlen :: "buffer \<Rightarrow> nat option" where
  "strlen s = strlen_from s 0"

subsection \<open>Copying and filling\<close>

lemma memset_loop_eq: "memset_loop m dst c i n = fill m (dst + i) c n"
  by (induction n arbitrary: m i) (auto simp: fill_def fun_eq_iff)

lemma copy_up_eq:
  "s < d \<and> s + n \<le> d \<or> d \<le> s \<Longrightarrow> copy_up m d s n = copy_into m d m s n"
proof (induction n arbitrary: m d s)
  case 0
  then show ?case by simp
next
  case (Suc n)
  then have "copy_up (m(d := m s)) (Suc d) (Suc s) n
      = copy_into (m(d := m s)) (Suc d) (m(d := m s)) (Suc s) n" by (intro Suc.IH) auto
  also have "\<dots> = copy_into m d m s (Suc n)"
    using Suc.prems by (auto simp: copy_into_def fun_eq_iff le_Suc_eq intro!: arg_cong [of _ _ m])
  finally show ?case by simp
qed

lemma copy_down_eq:
  "s < d \<Longrightarrow> copy_down m (d + n) (s + n) n = copy_into m d m s n"
proof (induction n arbitrary: m)
  case 0
  then show ?case by simp
next
  case (Suc n)
  let ?m = "m(d + n := m (s + n))"
  have "copy_down m (d + Suc n) (s + Suc n) (Suc n) = copy_into ?m d ?m s n"
    using Suc by simp
  also have "\<dots> = copy_into m d m s (Suc n)"
    using Suc.prems by (auto simp: copy_into_def fun_eq_iff)
  finally show ?case .
qed

text \<open>C22: \<open>memmove\<close> copies \<open>n\<close> bytes as they were before the call, for any overlap of source and
  destination, and writes nothing outside the destination.\<close>

theorem memmove_copies: "memmove m dst src n = copy_into m dst m src n"
proof (cases "src < dst \<and> src + n > dst")
  case True
  then show ?thesis by (simp add: memmove_def copy_down_eq)
next
  case False
  then show ?thesis by (auto simp: memmove_def intro!: copy_up_eq)
qed

lemma memset_fills: "memset m dst c n = fill m dst (ucast c) n"
  by (simp add: memset_def memset_loop_eq)

subsection \<open>Comparing\<close>

lemma memcmp_zero_iff: "memcmp s t n = 0 \<longleftrightarrow> (\<forall>i<n. s i = t i)"
proof (induction n arbitrary: s t)
  case (Suc n)
  then show ?case by (auto simp: less_Suc_eq_0_disj word_uint_eq_iff)
qed simp

lemma strncmp_zero_iff:
  "strncmp p q n = 0 \<longleftrightarrow> (\<forall>i<n. (\<forall>j<i. p j \<noteq> 0) \<longrightarrow> p i = q i)"
proof (induction n arbitrary: p q)
  case (Suc n)
  show ?case
  proof (cases "p 0 \<noteq> 0 \<and> p 0 = q 0")
    case True
    then have "strncmp p q (Suc n) = 0 \<longleftrightarrow>
        (\<forall>i<n. (\<forall>j<i. p (Suc j) \<noteq> 0) \<longrightarrow> p (Suc i) = q (Suc i))"
      using Suc [of "\<lambda>i. p (Suc i)" "\<lambda>i. q (Suc i)"] by auto
    also have "\<dots> \<longleftrightarrow> (\<forall>i<Suc n. (\<forall>j<i. p j \<noteq> 0) \<longrightarrow> p i = q i)"
      using True by (auto simp: All_less_Suc2)
    finally show ?thesis .
  next
    case False
    then show ?thesis by (auto simp: less_Suc_eq_0_disj word_uint_eq_iff)
  qed
qed simp

lemma strncmp_cs_zero_iff:
  assumes "wf_cstring s" "wf_cstring t" "length s < n"
  shows "strncmp (cs s) (cs t) n = 0 \<longleftrightarrow> s = t"
proof
  assume z: "strncmp (cs s) (cs t) n = 0"
  have eq: "cs s i = cs t i" if "i \<le> length s" for i
    using z that assms unfolding strncmp_zero_iff by (auto simp: wf_cstring_nth)
  have "length t \<le> length s"
    using eq [of "length s"] assms(2) by (metis cs_def le_refl not_less wf_cstring_nth)
  moreover have "length s \<le> length t"
  proof (rule ccontr)
    assume "\<not> length s \<le> length t"
    then show False
      using eq [of "length t"] assms(1) by (auto simp: wf_cstring_nth)
  qed
  ultimately show "s = t"
    using eq by (metis cs_in less_imp_le nth_equalityI le_antisym)
next
  assume "s = t"
  then show "strncmp (cs s) (cs t) n = 0" by (simp add: strncmp_zero_iff)
qed

subsection \<open>Bounded string copies\<close>

lemma strncpy_pad_eq: "strncpy_pad s i n = fill s i 0 n"
  by (induction n arbitrary: s i) (auto simp: fill_def fun_eq_iff)

lemma strncpy_loop_apply:
  "strncpy_loop s i t n k =
     (if i \<le> k \<and> k < i + n then (if \<forall>j. i \<le> j \<and> j < k \<longrightarrow> t j \<noteq> 0 then t k else 0) else s k)"
proof (induction n arbitrary: s i)
  case 0
  then show ?case by auto
next
  case (Suc n)
  show ?case
  proof (cases "t i = 0")
    case True
    then show ?thesis by (auto simp: Let_def strncpy_pad_eq fill_def)
  next
    case False
    have "(\<forall>j. i \<le> j \<and> j < k \<longrightarrow> t j \<noteq> 0) \<longleftrightarrow> (\<forall>j. Suc i \<le> j \<and> j < k \<longrightarrow> t j \<noteq> 0)"
      using False by (auto simp: Suc_le_eq) (metis le_neq_implies_less)
    with Suc False show ?thesis by (auto simp: Let_def)
  qed
qed

lemma strncpy_pads:
  "k < nat n \<Longrightarrow> strncpy s t n k = (if \<forall>j<k. t j \<noteq> 0 then t k else 0)"
  by (simp add: strncpy_def strncpy_loop_apply)

lemma strncpy_frame: "nat n \<le> k \<Longrightarrow> strncpy s t n k = s k"
  by (simp add: strncpy_def strncpy_loop_apply)

lemma safestrcpy_loop_apply:
  assumes "\<forall>j. i \<le> j \<and> j < i + l \<longrightarrow> t j \<noteq> 0" "l \<le> n" "l < n \<longrightarrow> t (i + l) = 0"
  shows "safestrcpy_loop s i t n k =
     (if i \<le> k \<and> k < i + l then t k
      else if k = i + l then 0
      else if l < n \<and> k = i + Suc l then 0 else s k)"
  using assms
proof (induction s i t n arbitrary: l rule: safestrcpy_loop.induct)
  case (1 s i t)
  then show ?case by auto
next
  case (2 s i t n)
  show ?case
  proof (cases l)
    case 0
    with 2(4) show ?thesis by (auto simp: Let_def)
  next
    case (Suc l')
    then have ti: "t i \<noteq> 0" using 2(2) by auto
    have "safestrcpy_loop (s(i := t i)) (Suc i) t n k =
       (if Suc i \<le> k \<and> k < Suc i + l' then t k
        else if k = Suc i + l' then 0
        else if l' < n \<and> k = Suc i + Suc l' then 0 else (s(i := t i)) k)"
      by (rule 2(1) [OF refl ti]) (use 2(2-4) Suc in auto)
    with ti Suc show ?thesis by (auto simp: Let_def)
  qed
qed

text \<open>C23: \<open>safestrcpy\<close> leaves in \<open>s\<close> the longest prefix of \<open>t\<close> that fits in \<open>n - 1\<close> bytes, a NUL
  right after it, and never writes at or beyond index \<open>n\<close>.\<close>

theorem safestrcpy_terminates_in_bounds:
  assumes "wf_cstring t" and "0 < n"
  shows "(\<forall>k < min (length t) (nat n - 1). safestrcpy s (cs t) n k = t ! k)
     \<and> safestrcpy s (cs t) n (min (length t) (nat n - 1)) = 0
     \<and> (\<forall>k\<ge>nat n. safestrcpy s (cs t) n k = s k)"
proof -
  obtain l where l: "l = min (length t) (nat n - 1)" by blast
  have lt: "l < nat n" and lt': "l \<le> length t" using l assms(2) by auto
  have eq: "safestrcpy s (cs t) n k =
     (if k < l then cs t k else if k = l then 0
      else if l < nat n - 1 \<and> k = Suc l then 0 else s k)" for k
  proof -
    have "safestrcpy_loop s 0 (cs t) (nat n - 1) k =
       (if 0 \<le> k \<and> k < 0 + l then cs t k else if k = 0 + l then 0
        else if l < nat n - 1 \<and> k = 0 + Suc l then 0 else s k)"
      by (rule safestrcpy_loop_apply) (use assms l in \<open>auto simp: wf_cstring_nth\<close>)
    with assms(2) show ?thesis by (simp add: safestrcpy_def)
  qed
  show ?thesis unfolding l [symmetric] using lt lt' by (auto simp: eq)
qed

theorem safestrcpy_terminates_in_bounds_witness:
  "wf_cstring [104, 105, 33] \<and> (0::int) < 3 \<and> safestrcpy (\<lambda>_. 7) (cs [104, 105, 33]) 3 2 = 0
   \<and> safestrcpy (\<lambda>_. 7) (cs [104, 105, 33]) 3 5 = 7"
proof -
  have h: "wf_cstring [104, 105, 33]" "(0::int) < 3" by (simp_all add: wf_cstring_def)
  from safestrcpy_terminates_in_bounds [OF h, of "\<lambda>_. 7"] h show ?thesis
    by (simp add: numeral_2_eq_2)
qed

lemma strlen_from_eq:
  "n \<le> k \<Longrightarrow> s k = 0 \<Longrightarrow> \<forall>j. n \<le> j \<and> j < k \<longrightarrow> s j \<noteq> 0 \<Longrightarrow> strlen_from s n = Some k"
proof (induction "k - n" arbitrary: n)
  case 0
  then show ?case by (simp add: strlen_from.simps)
next
  case (Suc d)
  then have "n < k" and "s n \<noteq> 0" by auto
  with Suc show ?case by (simp add: strlen_from.simps [of s n])
qed

lemma strlen_cs: "wf_cstring t \<Longrightarrow> strlen (cs t) = Some (length t)"
  unfolding strlen_def by (rule strlen_from_eq) (auto simp: wf_cstring_nth)

end
