(* ===== verification/Vm.thy ===== *)
theory Vm
  imports Hal CString
begin

text \<open>
  \<^verbatim>\<open>kernel/vm.c\<close>: page tables in physical memory and copies between user and kernel memory.  A page
  table is the address of its root page; an entry is a 64-bit word at \<open>pagetable + 8 * index\<close>.  The
  record adds to the allocator the architecture and the fields of \<open>myproc()\<close> that the code reads.

  A kernel buffer that the copy routines read or write is a byte array and an offset into it.
\<close>

record vm = kmem +
  arch :: hal_arch
  p_sz :: u64
  p_pagetable :: u64
  p_pid :: u32

subsection \<open>Walking and mapping\<close>

fun walk_from :: "'a vm_scheme \<Rightarrow> u64 \<Rightarrow> u64 \<Rightarrow> bool \<Rightarrow> nat \<Rightarrow> u64 \<times> 'a vm_scheme" where
  "walk_from s pagetable va alloc 0 = (pagetable + 8 * PX 0 va, s)"
| "walk_from s pagetable va alloc (Suc l) =
     (let pte = pagetable + 8 * PX (Suc l) va in
      if mw s pte AND PTE_V (arch s) \<noteq> 0
      then walk_from s (PTE2PA (arch s) (mw s pte)) va alloc l
      else if \<not> alloc then (0, s)
      else let (pt', s) = kalloc s in
        if pt' = 0 then (0, s)
        else let s = page_memset pt' 0 s;
                 s = s\<lparr>mw := (mw s)(pte := PA2PTE (arch s) pt' OR PTE_V (arch s))\<rparr>
             in walk_from s pt' va alloc l)"

definition walk :: "'a vm_scheme \<Rightarrow> u64 \<Rightarrow> u64 \<Rightarrow> bool \<Rightarrow> (u64 \<times> 'a vm_scheme) option" where
  "walk s pagetable va alloc = do {
     ensure (hal_pagetable_va_valid (arch s) va) ''walk'';
     Some (walk_from s pagetable va alloc (PT_LEVELS (arch s) - 1))
   }"

definition walkaddr :: "'a vm_scheme \<Rightarrow> u64 \<Rightarrow> u64 \<Rightarrow> u64 option" where
  "walkaddr s pagetable va =
     (if MAXVA (arch s) \<le> va then Some 0
      else do {
        (pte, s) \<leftarrow> walk s pagetable va False;
        if pte = 0 then Some 0
        else if mw s pte AND PTE_V (arch s) = 0 then Some 0
        else if mw s pte AND PTE_U (arch s) = 0 then Some 0
        else Some (PTE2PA (arch s) (mw s pte))
      })"

partial_function (option) mappages_loop ::
    "'a vm_scheme \<Rightarrow> u64 \<Rightarrow> u64 \<Rightarrow> u64 \<Rightarrow> u64 \<Rightarrow> u64 \<Rightarrow> (int \<times> 'a vm_scheme) option" where
  "mappages_loop s pagetable a a_last pa perm = do {
     (pte, s) \<leftarrow> walk s pagetable a True;
     if pte = 0 then Some (-1, s)
     else do {
       ensure (mw s pte AND PTE_V (arch s) = 0) ''mappages: remap'';
       let s = s\<lparr>mw := (mw s)(pte :=
         PA2PTE (arch s) pa OR hal_pte_encode_perm (arch s) perm OR PTE_V_CACHE (arch s))\<rparr>;
       if a = a_last then Some (0, s)
       else mappages_loop s pagetable (a + PGSIZE) a_last (pa + PGSIZE) perm
     }
   }"

definition mappages ::
    "'a vm_scheme \<Rightarrow> u64 \<Rightarrow> u64 \<Rightarrow> u64 \<Rightarrow> u64 \<Rightarrow> u64 \<Rightarrow> (int \<times> 'a vm_scheme) option" where
  "mappages s pagetable va sz pa perm = do {
     ensure (pg_aligned va) ''mappages: va not aligned'';
     ensure (pg_aligned sz) ''mappages: size not aligned'';
     ensure (sz \<noteq> 0) ''mappages: size'';
     mappages_loop s pagetable va (va + sz - PGSIZE) pa perm
   }"

definition kvmmap ::
    "'a vm_scheme \<Rightarrow> u64 \<Rightarrow> u64 \<Rightarrow> u64 \<Rightarrow> u64 \<Rightarrow> u64 \<Rightarrow> 'a vm_scheme option" where
  "kvmmap s kpgtbl va pa sz perm = do {
     (r, s) \<leftarrow> mappages s kpgtbl va sz pa perm;
     ensure (r = 0) ''kvmmap'';
     Some s
   }"

definition uvmcreate :: "'a vm_scheme \<Rightarrow> u64 \<times> 'a vm_scheme" where
  "uvmcreate s =
     (let (pagetable, s) = kalloc s in
      if pagetable = 0 then (0, s) else (pagetable, page_memset pagetable 0 s))"

partial_function (option) uvmunmap_loop ::
    "'a vm_scheme \<Rightarrow> u64 \<Rightarrow> u64 \<Rightarrow> u64 \<Rightarrow> bool \<Rightarrow> 'a vm_scheme option" where
  "uvmunmap_loop s pagetable a e do_free =
     (if a < e then do {
        (pte, s) \<leftarrow> walk s pagetable a False;
        if pte = 0 then uvmunmap_loop s pagetable (a + PGSIZE) e do_free
        else if mw s pte AND PTE_V (arch s) = 0
        then uvmunmap_loop s pagetable (a + PGSIZE) e do_free
        else do {
          s \<leftarrow> (if do_free then kfree s (PTE2PA (arch s) (mw s pte)) else Some s);
          uvmunmap_loop (s\<lparr>mw := (mw s)(pte := 0)\<rparr>) pagetable (a + PGSIZE) e do_free
        }
      } else Some s)"

definition uvmunmap ::
    "'a vm_scheme \<Rightarrow> u64 \<Rightarrow> u64 \<Rightarrow> u64 \<Rightarrow> bool \<Rightarrow> 'a vm_scheme option" where
  "uvmunmap s pagetable va npages do_free = do {
     ensure (pg_aligned va) ''uvmunmap: not aligned'';
     uvmunmap_loop s pagetable va (va + npages * PGSIZE) do_free
   }"

text \<open>\<open>npages\<close> is an \<open>int\<close> in the code: the 32-bit value is sign-extended when it is passed.\<close>

definition uvmdealloc ::
    "'a vm_scheme \<Rightarrow> u64 \<Rightarrow> u64 \<Rightarrow> u64 \<Rightarrow> (u64 \<times> 'a vm_scheme) option" where
  "uvmdealloc s pagetable oldsz newsz =
     (if oldsz \<le> newsz then Some (oldsz, s)
      else if PGROUNDUP newsz < PGROUNDUP oldsz
      then let npages = (ucast ((PGROUNDUP oldsz - PGROUNDUP newsz) div PGSIZE) :: u32) in do {
        s \<leftarrow> uvmunmap s pagetable (PGROUNDUP newsz) (scast npages) True;
        Some (newsz, s)
      }
      else Some (newsz, s))"

partial_function (option) uvmalloc_loop ::
    "'a vm_scheme \<Rightarrow> u64 \<Rightarrow> u64 \<Rightarrow> u64 \<Rightarrow> u64 \<Rightarrow> u64 \<Rightarrow> (u64 \<times> 'a vm_scheme) option" where
  "uvmalloc_loop s pagetable a oldsz newsz xperm =
     (if a < newsz then
        (let (mem, s) = kalloc s in
         if mem = 0 then do {
           (_, s) \<leftarrow> uvmdealloc s pagetable a oldsz;
           Some (0, s)
         } else do {
           (r, s) \<leftarrow> mappages (page_memset mem 0 s) pagetable a PGSIZE mem
              (PTE_R (arch s) OR PTE_U (arch s) OR xperm);
           if r \<noteq> 0 then do {
             s \<leftarrow> kfree s mem;
             (_, s) \<leftarrow> uvmdealloc s pagetable a oldsz;
             Some (0, s)
           } else uvmalloc_loop s pagetable (a + PGSIZE) oldsz newsz xperm
         })
      else Some (newsz, s))"

definition uvmalloc ::
    "'a vm_scheme \<Rightarrow> u64 \<Rightarrow> u64 \<Rightarrow> u64 \<Rightarrow> u64 \<Rightarrow> (u64 \<times> 'a vm_scheme) option" where
  "uvmalloc s pagetable oldsz newsz xperm =
     (if newsz < oldsz then Some (oldsz, s)
      else let oldsz = PGROUNDUP oldsz in uvmalloc_loop s pagetable oldsz oldsz newsz xperm)"

text \<open>The \<open>for\<close> loop of \<open>freewalk\<close> from index \<open>i\<close>; a table that reaches itself does not return.\<close>

partial_function (option) freewalk_loop ::
    "'a vm_scheme \<Rightarrow> u64 \<Rightarrow> nat \<Rightarrow> 'a vm_scheme option" where
  "freewalk_loop s pagetable i =
     (if i < 512 then
        (let a = pagetable + 8 * of_nat i; pte = mw s a in
         if pte AND PTE_V (arch s) \<noteq> 0 then do {
           ensure (\<not> hal_pte_is_leaf (arch s) pte) ''freewalk: leaf'';
           s \<leftarrow> freewalk_loop s (PTE2PA (arch s) pte) 0;
           freewalk_loop (s\<lparr>mw := (mw s)(a := 0)\<rparr>) pagetable (Suc i)
         } else freewalk_loop s pagetable (Suc i))
      else kfree s pagetable)"

definition freewalk :: "'a vm_scheme \<Rightarrow> u64 \<Rightarrow> 'a vm_scheme option" where
  "freewalk s pagetable = freewalk_loop s pagetable 0"

definition uvmfree :: "'a vm_scheme \<Rightarrow> u64 \<Rightarrow> u64 \<Rightarrow> 'a vm_scheme option" where
  "uvmfree s pagetable sz = do {
     s \<leftarrow> (if 0 < sz then uvmunmap s pagetable 0 (PGROUNDUP sz div PGSIZE) True else Some s);
     freewalk s pagetable
   }"

text \<open>\<open>memmove(mem, pa, PGSIZE)\<close> between two pages.\<close>

definition page_copy :: "u64 \<Rightarrow> u64 \<Rightarrow> 'a kmem_scheme \<Rightarrow> 'a kmem_scheme" where
  "page_copy mem pa s =
     s\<lparr>mw := (\<lambda>a. if in_page mem a then mw s (pa + (a - mem)) else mw s a),
       mb := (\<lambda>a. if in_page mem a then mb s (pa + (a - mem)) else mb s a)\<rparr>"

partial_function (option) uvmcopy_loop ::
    "'a vm_scheme \<Rightarrow> u64 \<Rightarrow> u64 \<Rightarrow> u64 \<Rightarrow> u64 \<Rightarrow> (int \<times> 'a vm_scheme) option" where
  "uvmcopy_loop s old new i sz =
     (if i < sz then do {
        (pte, s) \<leftarrow> walk s old i False;
        if pte = 0 then uvmcopy_loop s old new (i + PGSIZE) sz
        else if mw s pte AND PTE_V (arch s) = 0 then uvmcopy_loop s old new (i + PGSIZE) sz
        else let pa = PTE2PA (arch s) (mw s pte);
                 flags = (ucast (PTE_FLAGS (arch s) (mw s pte)) :: u32);
                 (mem, s) = kalloc s
          in if mem = 0 then do {
            s \<leftarrow> uvmunmap s new 0 (i div PGSIZE) True;
            Some (-1, s)
          } else do {
            (r, s) \<leftarrow> mappages (page_copy mem pa s) new i PGSIZE mem (scast flags);
            if r \<noteq> 0 then do {
              s \<leftarrow> kfree s mem;
              s \<leftarrow> uvmunmap s new 0 (i div PGSIZE) True;
              Some (-1, s)
            } else uvmcopy_loop s old new (i + PGSIZE) sz
          }
      } else Some (0, s))"

definition uvmcopy :: "'a vm_scheme \<Rightarrow> u64 \<Rightarrow> u64 \<Rightarrow> u64 \<Rightarrow> (int \<times> 'a vm_scheme) option" where
  "uvmcopy s old new sz = uvmcopy_loop s old new 0 sz"

definition uvmclear :: "'a vm_scheme \<Rightarrow> u64 \<Rightarrow> u64 \<Rightarrow> 'a vm_scheme option" where
  "uvmclear s pagetable va = do {
     (pte, s) \<leftarrow> walk s pagetable va False;
     ensure (pte \<noteq> 0) ''uvmclear'';
     Some (s\<lparr>mw := (mw s)(pte := mw s pte AND NOT (PTE_U (arch s)))\<rparr>)
   }"

definition ismapped :: "'a vm_scheme \<Rightarrow> u64 \<Rightarrow> u64 \<Rightarrow> bool option" where
  "ismapped s pagetable va = do {
     (pte, s) \<leftarrow> walk s pagetable va False;
     Some (pte \<noteq> 0 \<and> mw s pte AND PTE_V (arch s) \<noteq> 0)
   }"

subsection \<open>Copying between user and kernel memory\<close>

definition vmfault :: "'a vm_scheme \<Rightarrow> u64 \<Rightarrow> u64 \<Rightarrow> bool \<Rightarrow> (u64 \<times> 'a vm_scheme) option" where
  "vmfault s pagetable va rd =
     (if MAXVA (arch s) \<le> va then Some (0, s)
      else if p_sz s \<le> va then Some (0, s)
      else let va = PGROUNDDOWN va in do {
        (pte, s) \<leftarrow> walk s pagetable va False;
        if pte \<noteq> 0 \<and> mw s pte AND PTE_V (arch s) \<noteq> 0
        then if mw s pte AND PTE_U (arch s) = 0 then Some (0, s)
             else if \<not> rd \<and> mw s pte AND PTE_W (arch s) = 0 then Some (0, s)
             else Some (1, s)
        else let (mem, s) = kalloc s in
          if mem = 0 then Some (0, s)
          else do {
            (r, s) \<leftarrow> mappages (page_memset mem 0 s) (p_pagetable s) va PGSIZE mem
               (PTE_W (arch s) OR PTE_U (arch s) OR PTE_R (arch s));
            if r \<noteq> 0 then do { s \<leftarrow> kfree s mem; Some (0, s) }
            else Some (mem, s)
          }
      })"

text \<open>\<open>memmove\<close> of \<open>n\<close> bytes from \<open>src + k\<close> to the physical address \<open>a\<close>, and of physical memory
  at \<open>a\<close> seen as a byte array.\<close>

definition put_bytes :: "(u64 \<Rightarrow> byte) \<Rightarrow> u64 \<Rightarrow> buffer \<Rightarrow> nat \<Rightarrow> nat \<Rightarrow> (u64 \<Rightarrow> byte)" where
  "put_bytes m a src k n = (\<lambda>x. if unat (x - a) < n then src (k + unat (x - a)) else m x)"

definition get_bytes :: "(u64 \<Rightarrow> byte) \<Rightarrow> u64 \<Rightarrow> buffer" where
  "get_bytes m a = (\<lambda>i. m (a + of_nat i))"

partial_function (option) copyout_loop ::
    "'a vm_scheme \<Rightarrow> u64 \<Rightarrow> u64 \<Rightarrow> buffer \<Rightarrow> nat \<Rightarrow> u64 \<Rightarrow> (int \<times> 'a vm_scheme) option" where
  "copyout_loop s pagetable dstva src k len =
     (if 0 < len then
        (let va0 = PGROUNDDOWN dstva in
         if MAXVA (arch s) \<le> va0 then Some (-1, s)
         else do {
           pa0 \<leftarrow> walkaddr s pagetable va0;
           (pa0, s) \<leftarrow> (if pa0 = 0 then vmfault s pagetable va0 False else Some (pa0, s));
           if pa0 = 0 then Some (-1, s)
           else do {
             (pte, s) \<leftarrow> walk s pagetable va0 False;
             ensure (pte \<noteq> 0) ''null dereference'';
             if mw s pte AND PTE_W (arch s) = 0 then Some (-1, s)
             else let n = PGSIZE - (dstva - va0);
                      n = (if len < n then len else n);
                      s = s\<lparr>mb := put_bytes (mb s) (pa0 + (dstva - va0)) src k (unat n)\<rparr>
               in copyout_loop s pagetable (va0 + PGSIZE) src (k + unat n) (len - n)
           }
         })
      else Some (0, s))"

definition copyout ::
    "'a vm_scheme \<Rightarrow> u64 \<Rightarrow> u64 \<Rightarrow> buffer \<Rightarrow> u64 \<Rightarrow> (int \<times> 'a vm_scheme) option" where
  "copyout s pagetable dstva src len = copyout_loop s pagetable dstva src 0 len"

partial_function (option) copyin_loop ::
    "'a vm_scheme \<Rightarrow> u64 \<Rightarrow> buffer \<Rightarrow> nat \<Rightarrow> u64 \<Rightarrow> u64 \<Rightarrow> (int \<times> buffer \<times> 'a vm_scheme) option" where
  "copyin_loop s pagetable dst k srcva len =
     (if 0 < len then
        (let va0 = PGROUNDDOWN srcva in
         if MAXVA (arch s) \<le> va0 then Some (-1, dst, s)
         else do {
           pa0 \<leftarrow> walkaddr s pagetable va0;
           (pa0, s) \<leftarrow> (if pa0 = 0 then vmfault s pagetable va0 False else Some (pa0, s));
           if pa0 = 0 then Some (-1, dst, s)
           else let n = PGSIZE - (srcva - va0);
                    n = (if len < n then len else n);
                    dst = copy_into dst k (get_bytes (mb s) (pa0 + (srcva - va0))) 0 (unat n)
             in copyin_loop s pagetable dst (k + unat n) (va0 + PGSIZE) (len - n)
         })
      else Some (0, dst, s))"

definition copyin ::
    "'a vm_scheme \<Rightarrow> u64 \<Rightarrow> buffer \<Rightarrow> nat \<Rightarrow> u64 \<Rightarrow> u64 \<Rightarrow> (int \<times> buffer \<times> 'a vm_scheme) option" where
  "copyin s pagetable dst k srcva len = copyin_loop s pagetable dst k srcva len"

text \<open>The inner loop of \<open>copyinstr\<close> over one page: whether the NUL was found, the destination,
  and the number of bytes copied before it.\<close>

fun copyinstr_page :: "(u64 \<Rightarrow> byte) \<Rightarrow> u64 \<Rightarrow> buffer \<Rightarrow> nat \<Rightarrow> nat \<Rightarrow> bool \<times> buffer \<times> nat" where
  "copyinstr_page m p dst k 0 = (False, dst, 0)"
| "copyinstr_page m p dst k (Suc n) =
     (if m p = 0 then (True, dst(k := 0), 0)
      else let (got, dst, c) = copyinstr_page m (p + 1) (dst(k := m p)) (Suc k) n
           in (got, dst, Suc c))"

partial_function (option) copyinstr_loop ::
    "'a vm_scheme \<Rightarrow> u64 \<Rightarrow> buffer \<Rightarrow> nat \<Rightarrow> u64 \<Rightarrow> u64 \<Rightarrow> (int \<times> buffer) option" where
  "copyinstr_loop s pagetable dst k srcva mx =
     (if 0 < mx then
        (let va0 = PGROUNDDOWN srcva in
         if MAXVA (arch s) \<le> va0 then Some (-1, dst)
         else do {
           pa0 \<leftarrow> walkaddr s pagetable va0;
           if pa0 = 0 then Some (-1, dst)
           else let n = PGSIZE - (srcva - va0);
                    n = (if mx < n then mx else n);
                    (got, dst, c) =
                      copyinstr_page (mb s) (pa0 + (srcva - va0)) dst k (unat n)
             in if got then Some (0, dst)
                else copyinstr_loop s pagetable dst (k + c) (va0 + PGSIZE) (mx - of_nat c)
         })
      else Some (-1, dst))"

definition copyinstr ::
    "'a vm_scheme \<Rightarrow> u64 \<Rightarrow> buffer \<Rightarrow> u64 \<Rightarrow> u64 \<Rightarrow> (int \<times> buffer) option" where
  "copyinstr s pagetable dst srcva mx = copyinstr_loop s pagetable dst 0 srcva mx"

text \<open>
  \<open>either_copyout\<close> and \<open>either_copyin\<close> of \<^verbatim>\<open>kernel/proc.c\<close>.  A kernel address is an offset into the
  kernel object \<open>kb\<close> that the caller copies to or from.
\<close>

definition either_copyout ::
    "'a vm_scheme \<Rightarrow> bool \<Rightarrow> u64 \<Rightarrow> buffer \<Rightarrow> buffer \<Rightarrow> nat \<Rightarrow> u64 \<Rightarrow> (int \<times> buffer \<times> 'a vm_scheme) option" where
  "either_copyout s user_dst dst kb src k len =
     (if user_dst then do {
        (r, s) \<leftarrow> copyout s (p_pagetable s) dst (\<lambda>i. src (k + i)) len;
        Some (r, kb, s)
      } else Some (0, copy_into kb (unat dst) src k (unat len), s))"

definition either_copyin ::
    "'a vm_scheme \<Rightarrow> buffer \<Rightarrow> nat \<Rightarrow> bool \<Rightarrow> u64 \<Rightarrow> buffer \<Rightarrow> u64 \<Rightarrow> (int \<times> buffer \<times> 'a vm_scheme) option" where
  "either_copyin s dst k user_src src kb len =
     (if user_src then copyin s (p_pagetable s) dst k src len
      else Some (0, copy_into dst k kb (unat src) (unat len), s))"

subsection \<open>Page tables as finite maps\<close>

text \<open>The page reached from \<open>pt\<close> by following interior entries at the given indices.\<close>

fun node :: "hal_arch \<Rightarrow> (u64 \<Rightarrow> u64) \<Rightarrow> u64 \<Rightarrow> u64 list \<Rightarrow> u64 option" where
  "node A m pt [] = Some pt"
| "node A m pt (i # is) =
     (let e = m (pt + 8 * i) in if e AND PTE_V A \<noteq> 0 then node A m (PTE2PA A e) is else None)"

fun path :: "nat \<Rightarrow> u64 \<Rightarrow> u64 list" where
  "path 0 va = []"
| "path (Suc l) va = PX (Suc l) va # path l va"

definition leaf :: "hal_arch \<Rightarrow> (u64 \<Rightarrow> u64) \<Rightarrow> u64 \<Rightarrow> u64 list \<Rightarrow> u64 \<Rightarrow> u64" where
  "leaf A m pt is i = (case node A m pt is of None \<Rightarrow> 0 | Some p \<Rightarrow> m (p + 8 * i))"

text \<open>The abstract page table: the leaf entry of each virtual address, 0 where there is none.\<close>

definition pte_of :: "'a vm_scheme \<Rightarrow> u64 \<Rightarrow> u64 \<Rightarrow> u64" where
  "pte_of s pt va = leaf (arch s) (mw s) pt (path (PT_LEVELS (arch s) - 1) va) (PX 0 va)"

definition idx_ok :: "u64 list \<Rightarrow> bool" where
  "idx_ok is \<longleftrightarrow> (\<forall>i\<in>set is. i \<le> PXMASK)"

lemma PX_le [simp]: "PX l va \<le> PXMASK"
  unfolding PX_def using word_and_le1 by blast

lemma idx_ok_path [simp]: "idx_ok (path l va)"
  by (induction l) (auto simp: idx_ok_def)

lemma length_path [simp]: "length (path l va) = l"
  by (induction l) auto

lemma node_append:
  "node A m pt (is @ js) = (case node A m pt is of None \<Rightarrow> None | Some p \<Rightarrow> node A m p js)"
  by (induction "is" arbitrary: pt) (auto simp: Let_def)

lemma entry_in_page:
  assumes "i \<le> PXMASK"
  shows "in_page p (p + 8 * i)"
proof -
  have "unat i \<le> 511" using assms by (simp add: PXMASK_def word_le_nat_alt)
  then have "unat (8 * i) < 4096" by (simp add: unat_word_ariths)
  then show ?thesis by (simp add: in_page_def PGSIZE_def word_less_nat_alt)
qed

lemma entry_inj:
  assumes "pg_aligned p" "pg_aligned q" "i \<le> PXMASK" "j \<le> PXMASK" "p + 8 * i = q + 8 * j"
  shows "p = q \<and> i = j"
proof -
  have u: "unat i \<le> 511" "unat j \<le> 511" using assms by (simp_all add: PXMASK_def word_le_nat_alt)
  have e: "in_page p (q + 8 * j)" using entry_in_page [OF assms(3), of p] assms(5) by simp
  have "p = q"
    using page_base [OF assms(1) e] page_base [OF assms(2) entry_in_page [OF assms(4)]] by simp
  then have "8 * i = 8 * j" using assms(5) by simp
  then have "unat (8 * i) = unat (8 * j)" by simp
  then have "unat i = unat j" using u by (simp add: unat_word_ariths)
  with \<open>p = q\<close> show ?thesis by (simp add: word_unat_eq_iff)
qed


lemma idx_ok_simps [simp]:
  "idx_ok []" "idx_ok (i # is) \<longleftrightarrow> i \<le> PXMASK \<and> idx_ok is"
  "idx_ok (is @ js) \<longleftrightarrow> idx_ok is \<and> idx_ok js"
  by (auto simp: idx_ok_def)

definition pt_node :: "'a vm_scheme \<Rightarrow> u64 \<Rightarrow> u64 list \<Rightarrow> u64 \<Rightarrow> bool" where
  "pt_node s pt is p \<longleftrightarrow>
     length is < PT_LEVELS (arch s) \<and> idx_ok is \<and> node (arch s) (mw s) pt is = Some p"

text \<open>The invariant of a page table beside the free list \<open>xs\<close>: its pages are allocated pages, and
  they form a tree.\<close>

definition pt_inv :: "'a vm_scheme \<Rightarrow> u64 \<Rightarrow> u64 list \<Rightarrow> bool" where
  "pt_inv s pt xs \<longleftrightarrow> kmem_inv s xs \<and> phystop s \<le> 0x100000000000000
     \<and> (\<forall>is p. pt_node s pt is p \<longrightarrow> page_ok s p \<and> p \<notin> set xs)
     \<and> (\<forall>is js p. pt_node s pt is p \<and> pt_node s pt js p \<longrightarrow> is = js)"

lemma pt_invD:
  assumes "pt_inv s pt xs"
  shows "kmem_inv s xs" "phystop s \<le> 0x100000000000000"
    "pt_node s pt is p \<Longrightarrow> page_ok s p" "pt_node s pt is p \<Longrightarrow> p \<notin> set xs"
    "pt_node s pt is p \<Longrightarrow> pg_aligned p"
    "pt_node s pt is p \<Longrightarrow> pt_node s pt js p \<Longrightarrow> is = js"
  using assms unfolding pt_inv_def page_ok_def by blast+

text \<open>One interior entry is added: \<open>m'\<close> is \<open>m\<close> with the zeroed page \<open>q\<close> hung below \<open>is @ [i]\<close>.\<close>

lemma node_step:
  assumes fmt: "pte_format A"
    and nodes: "\<And>js r. length js < n \<Longrightarrow> idx_ok js \<Longrightarrow> node A m pt js = Some r \<Longrightarrow>
          pg_aligned r \<and> r \<noteq> q \<and> (r = p \<longrightarrow> js = is)"
    and "pg_aligned p" "canonical_pa q" "i \<le> PXMASK"
    and "node A m pt is = Some p" "m (p + 8 * i) AND PTE_V A = 0"
    and m': "m' (p + 8 * i) = table_pte A q" "\<And>a. in_page q a \<Longrightarrow> m' a = 0"
      "\<And>a. \<not> in_page q a \<Longrightarrow> a \<noteq> p + 8 * i \<Longrightarrow> m' a = m a"
    and "length js \<le> n" "idx_ok js"
  shows "node A m' pt js =
    (if js = is @ [i] then Some q else if take (Suc (length is)) js = is @ [i] then None
     else node A m pt js)"
  using assms(11,12)
proof (induction js rule: rev_induct)
  case Nil
  then show ?case by simp
next
  case (snoc j js)
  note IH = snoc.IH
  have js: "length js < n" "idx_ok js" "j \<le> PXMASK" using snoc.prems by auto
  have q0: "m' (q + 8 * j) = 0" by (rule m'(2)) (rule entry_in_page [OF js(3)])
  show ?case
  proof (cases "take (Suc (length is)) js = is @ [i]")
    case True
    have "length (take (Suc (length is)) js) = Suc (length is)" unfolding True by simp
    then have "Suc (length is) \<le> length js" by simp
    with True have pre: "take (Suc (length is)) (js @ [j]) = is @ [i]" "js @ [j] \<noteq> is @ [i]"
      by auto
    show ?thesis
      using IH js True pre q0 by (auto simp: node_append split: option.splits)
  next
    case False
    then have n': "node A m' pt js = node A m pt js" using IH js by (auto split: if_splits)
    show ?thesis
    proof (cases "node A m pt js")
      case None
      with assms(6) have "js \<noteq> is" by auto
      with False None n' show ?thesis by (auto simp: node_append take_Cons' split: if_splits)
    next
      case (Some r)
      note r = nodes [OF js(1,2) Some]
      show ?thesis
      proof (cases "js = is \<and> j = i")
        case True
        with assms(6) Some have "r = p" by simp
        with True Some n' m'(1) fmt assms(4) show ?thesis
          by (simp add: node_append Let_def pte_format.table_valid pte_format.table_pa)
      next
        case neq: False
        have "r + 8 * j \<noteq> p + 8 * i"
          using entry_inj [OF _ assms(3) js(3) assms(5)] r neq assms(6) Some by metis
        moreover have "\<not> in_page q (r + 8 * j)"
          using page_base [of r "r + 8 * j"] page_base [of q "r + 8 * j"] r entry_in_page [OF js(3), of r]
            assms(4) by (auto simp: canonical_pa_def)
        ultimately have "m' (r + 8 * j) = m (r + 8 * j)" by (rule m'(3) [rotated])
        moreover have "take (Suc (length is)) (js @ [j]) \<noteq> is @ [i]"
          using False neq by (auto simp: take_Cons' split: if_splits)
        ultimately show ?thesis using Some n' neq by (auto simp: node_append Let_def)
      qed
    qed
  qed
qed


lemma table_step:
  fixes s :: "'a vm_scheme"
  assumes fmt: "pte_format (arch s)" and inv: "pt_inv s pt (q # xs)"
    and nd: "pt_node s pt is p" and len: "Suc (length is) < PT_LEVELS (arch s)" and i: "i \<le> PXMASK"
    and invalid: "mw s (p + 8 * i) AND PTE_V (arch s) = 0"
    and s1: "s1 = page_memset q 0 (snd (kalloc s))"
    and s2: "s2 = s1\<lparr>mw := (mw s1)(p + 8 * i := table_pte (arch s) q)\<rparr>"
  shows "fst (kalloc s) = q" "q \<noteq> 0" "arch s2 = arch s" "pt_inv s2 pt xs" "pt_node s2 pt (is @ [i]) q"
    "\<And>js r. pt_node s2 pt js r \<Longrightarrow> pt_node s pt js r \<or> r = q"
    "\<And>js j. Suc (length js) = PT_LEVELS (arch s) \<Longrightarrow> idx_ok js \<Longrightarrow> j \<le> PXMASK \<Longrightarrow>
       leaf (arch s) (mw s2) pt js j = leaf (arch s) (mw s) pt js j"
proof -
  have km: "kmem_inv s (q # xs)" using inv by (simp add: pt_inv_def)
  note ka = kalloc_inv [OF km]
  show "fst (kalloc s) = q" using ka(1) by simp
  have q: "page_ok s q" "q \<notin> set xs" using km by (auto simp: kmem_inv_def)
  then show "q \<noteq> 0" by (simp add: page_ok_def)
  have cq: "canonical_pa q"
    using q inv by (auto simp: page_ok_def canonical_pa_def pt_inv_def)
  have s1': "s1 = page_memset q 0 (s\<lparr>freelist := mw s q\<rparr>)"
    using ka(1) by (simp add: s1 page_memset_def fun_eq_iff) 
  show ar: "arch s2 = arch s" by (simp add: s2 s1' page_memset_def)
  have p: "pg_aligned p" "p \<noteq> q" using nd inv by (auto simp: pt_inv_def page_ok_def)
  have pq: "\<not> in_page q (p + 8 * i)"
    using page_base [OF p(1) entry_in_page [OF i]] page_base [of q "p + 8 * i"] q p
    by (auto simp: page_ok_def)
  have m2: "mw s2 (p + 8 * i) = table_pte (arch s) q" "\<And>a. in_page q a \<Longrightarrow> mw s2 a = 0"
      "\<And>a. \<not> in_page q a \<Longrightarrow> a \<noteq> p + 8 * i \<Longrightarrow> mw s2 a = mw s a"
    using pq by (auto simp: s2 s1' rep8_def)
  have nodes: "pg_aligned r \<and> r \<noteq> q \<and> (r = p \<longrightarrow> js = is)"
    if "length js < PT_LEVELS (arch s) - 1" "idx_ok js" "node (arch s) (mw s) pt js = Some r" for js r
  proof -
    have "pt_node s pt js r" using that by (simp add: pt_node_def)
    with pt_invD(4,5,6) [OF inv] nd show ?thesis by (metis list.set_intros(1))
  qed
  have isp: "node (arch s) (mw s) pt is = Some p" "idx_ok is" using nd by (auto simp: pt_node_def)
  have step: "node (arch s) (mw s2) pt js =
    (if js = is @ [i] then Some q else if take (Suc (length is)) js = is @ [i] then None
     else node (arch s) (mw s) pt js)" if "length js < PT_LEVELS (arch s)" "idx_ok js" for js
    by (rule node_step [OF fmt nodes p(1) cq i isp(1) invalid m2]) (use that in auto)
  have old: "node (arch s) (mw s) pt js = None" if "take (Suc (length is)) js = is @ [i]" for js
  proof -
    have "js = (is @ [i]) @ drop (Suc (length is)) js" using that by (metis append_take_drop_id)
    moreover have "node (arch s) (mw s) pt (is @ [i]) = None"
      using isp(1) invalid by (simp add: node_append)
    ultimately show ?thesis by (metis node_append option.simps(4))
  qed
  show "pt_node s2 pt (is @ [i]) q"
    using step [of "is @ [i]"] len isp i by (simp add: pt_node_def ar)
  have nd2: "pt_node s2 pt js r \<longleftrightarrow> js = is @ [i] \<and> r = q \<or> pt_node s pt js r" for js r
    using step [of js] old [of js] len isp i by (auto simp: pt_node_def ar)
  then show "\<And>js r. pt_node s2 pt js r \<Longrightarrow> pt_node s pt js r \<or> r = q" by blast
  have ok2: "page_ok s2 = page_ok s" by (simp add: fun_eq_iff page_ok_def s2 s1')
  have xs: "x \<noteq> p + 8 * i" "\<not> in_page q x" if "x \<in> set xs" for x
  proof -
    have ok: "page_ok s x" using km that by (auto simp: kmem_inv_def list_all_iff)
    show "\<not> in_page q x" using kmem_inv_disjoint [OF km _ q(1)] that q(2) by auto
    have "p \<noteq> x" using nd inv that by (auto simp: pt_inv_def)
    then show "x \<noteq> p + 8 * i"
      using aligned_pages_disjoint [OF p(1), of x] entry_in_page [OF i, of p] ok by (auto simp: page_ok_def)
  qed
  have "kmem_inv s2 xs"
    by (rule kmem_inv_frame [OF ka(2)]) (use xs m2 in \<open>auto simp: s2 s1' ka(1)\<close>)
  moreover have "phystop s2 = phystop s" by (simp add: s2 s1')
  ultimately show "pt_inv s2 pt xs"
    unfolding pt_inv_def nd2 ok2 using pt_invD [OF inv] q by auto
  fix js j assume js: "Suc (length js) = PT_LEVELS (arch s)" "idx_ok js" "j \<le> PXMASK"
  show "leaf (arch s) (mw s2) pt js j = leaf (arch s) (mw s) pt js j"
  proof (cases "take (Suc (length is)) js = is @ [i]")
    case True
    then show ?thesis using step [of js] old [OF True] js m2(2) [OF entry_in_page [OF js(3)]]
      by (auto simp: leaf_def)
  next
    case False
    then have n: "node (arch s) (mw s2) pt js = node (arch s) (mw s) pt js" using step [of js] js by auto
    have "mw s2 (r + 8 * j) = mw s (r + 8 * j)" if "node (arch s) (mw s) pt js = Some r" for r
    proof (rule m2(3))
      have r: "pt_node s pt js r" using that js by (simp add: pt_node_def)
      have "r \<noteq> p" using pt_invD(6) [OF inv r, of "is"] nd js(1) len by auto
      moreover have "r \<noteq> q" "pg_aligned r" using pt_invD(4,5) [OF inv r] by auto
      ultimately show "\<not> in_page q (r + 8 * j)" "r + 8 * j \<noteq> p + 8 * i"
        using page_base [of r "r + 8 * j"] page_base [of q "r + 8 * j"] entry_in_page [OF js(3), of r] q
          entry_inj [of r p j i] p i js by (auto simp: page_ok_def)
    qed
    then show ?thesis by (auto simp: leaf_def n split: option.splits)
  qed
qed


lemma walk_from_False:
  "walk_from s pt va False l = (case node (arch s) (mw s) pt (path l va) of
     None \<Rightarrow> (0, s) | Some p \<Rightarrow> (p + 8 * PX 0 va, s))"
  by (induction l arbitrary: pt) (auto simp: Let_def)

text \<open>Only memory and the free list differ.\<close>

definition mem_only :: "'a vm_scheme \<Rightarrow> 'a vm_scheme \<Rightarrow> bool" where
  "mem_only s s' \<longleftrightarrow> s' = s\<lparr>freelist := freelist s', mw := mw s', mb := mb s'\<rparr>"

lemma mem_only_refl [simp]: "mem_only s s"
  by (simp add: mem_only_def)

lemma mem_only_iff:
  "mem_only s s' \<longleftrightarrow> kend s' = kend s \<and> phystop s' = phystop s \<and> arch s' = arch s \<and> p_sz s' = p_sz s
     \<and> p_pagetable s' = p_pagetable s \<and> p_pid s' = p_pid s \<and> vm.more s' = vm.more s"
  by (cases s; cases s') (auto simp: mem_only_def)

lemma mem_only_trans: "mem_only s t \<Longrightarrow> mem_only t u \<Longrightarrow> mem_only s u"
  by (simp add: mem_only_iff)

lemma mem_only_memset [simp]: "mem_only s (page_memset p c s)"
  by (cases s) (simp add: mem_only_def page_memset_def)

lemma mem_only_kalloc [simp]: "mem_only s (snd (kalloc s))"
  by (cases s) (simp add: mem_only_def kalloc_def page_memset_def Let_def)

lemma mem_only_mw [simp]: "mem_only s (s\<lparr>mw := m\<rparr>)"
  by (simp add: mem_only_iff)

text \<open>What \<open>walk\<close> may change: pages move from the free list into the table, no leaf entry changes.\<close>

definition grows :: "'a vm_scheme \<Rightarrow> u64 \<Rightarrow> u64 list \<Rightarrow> 'a vm_scheme \<Rightarrow> u64 list \<Rightarrow> bool" where
  "grows s pt xs s' xs' \<longleftrightarrow> pt_inv s' pt xs' \<and> mem_only s s' \<and> (\<exists>ys. xs = ys @ xs')
     \<and> (\<forall>js j. Suc (length js) = PT_LEVELS (arch s) \<longrightarrow> idx_ok js \<longrightarrow> j \<le> PXMASK \<longrightarrow>
          leaf (arch s) (mw s') pt js j = leaf (arch s) (mw s) pt js j)
     \<and> (\<forall>a. (\<forall>q\<in>set xs - set xs'. \<not> in_page q a) \<longrightarrow> mb s' a = mb s a)
     \<and> (\<forall>js r. pt_node s' pt js r \<longrightarrow> pt_node s pt js r \<or> r \<in> set xs - set xs')"

lemma grows_trans:
  assumes "grows s pt xs s2 ys" "grows s2 pt ys s' zs"
  shows "grows s pt xs s' zs"
proof -
  have "mb s' a = mb s a" if "\<forall>q\<in>set xs - set zs. \<not> in_page q a" for a
  proof -
    have "\<forall>q\<in>set ys - set zs. \<not> in_page q a" "\<forall>q\<in>set xs - set ys. \<not> in_page q a"
      using assms that by (auto simp: grows_def)
    then show ?thesis using assms unfolding grows_def by metis
  qed
  moreover have "arch s2 = arch s" "mem_only s s'" using assms by (auto simp: grows_def mem_only_iff)
  moreover have "pt_node s pt js r \<or> r \<in> set xs - set zs" if "pt_node s' pt js r" for js r
    using that assms unfolding grows_def by (metis Diff_iff UnI2 set_append Un_iff)
  ultimately show ?thesis using assms by (auto simp: grows_def)
qed

lemma walk_from_grows:
  assumes "pte_format (arch s)" "pt_inv s root xs" "pt_node s root is pt"
    "length is + l < PT_LEVELS (arch s)"
  shows "\<exists>r s' xs'. walk_from s pt va True l = (r, s') \<and> grows s root xs s' xs' \<and>
    (r = 0 \<and> xs' = [] \<or> (\<exists>p. r = p + 8 * PX 0 va \<and> pt_node s' root (is @ path l va) p))"
  using assms
proof (induction l arbitrary: s xs pt "is")
  case 0
  then show ?case by (auto simp: grows_def)
next
  case (Suc l)
  let ?i = "PX (Suc l) va"
  let ?e = "pt + 8 * ?i"
  show ?case
  proof (cases "mw s ?e AND PTE_V (arch s) = 0")
    case False
    have "pt_node s root (is @ [?i]) (PTE2PA (arch s) (mw s ?e))"
      using Suc.prems(3,4) False by (auto simp: pt_node_def node_append)
    from Suc.IH [OF Suc.prems(1,2) this] Suc.prems(4) False show ?thesis by simp
  next
    case True
    note invalid = True
    show ?thesis
    proof (cases xs)
      case Nil
      then have "kalloc s = (0, s)" using Suc.prems(2) by (auto simp: pt_inv_def intro: kalloc_empty)
      with True Nil Suc.prems(2) show ?thesis by (auto simp: grows_def)
    next
      case (Cons q ys)
      define s1 where "s1 = page_memset q 0 (snd (kalloc s))"
      define s2 where "s2 = s1\<lparr>mw := (mw s1)(?e := table_pte (arch s) q)\<rparr>"
      have len: "Suc (length is) < PT_LEVELS (arch s)" using Suc.prems(4) by simp
      note st = table_step [OF Suc.prems(1) Suc.prems(2) [unfolded Cons] Suc.prems(3) len PX_le invalid s1_def s2_def]
      have "arch s1 = arch s" using st(3) by (simp add: s2_def)
      then have w: "walk_from s pt va True (Suc l) = walk_from s2 q va True l"
        using invalid st(1,2) by (auto simp: Let_def s1_def s2_def table_pte_def split: prod.splits)
      obtain r s' xs' where IH: "walk_from s2 q va True l = (r, s')" "grows s2 root ys s' xs'"
        "r = 0 \<and> xs' = [] \<or> (\<exists>p. r = p + 8 * PX 0 va \<and> pt_node s' root ((is @ [?i]) @ path l va) p)"
        using Suc.IH [of s2 ys "is @ [?i]" q] st(3-5) Suc.prems(1,4) by auto
      have "mb s2 a = mb s a" if "\<not> in_page q a" for a
        using that kalloc_inv(1) [of s q ys] Suc.prems(2) Cons by (simp add: s2_def s1_def pt_inv_def)
      moreover have "q \<notin> set ys"
        using Suc.prems(2) Cons by (auto simp: pt_inv_def kmem_inv_def)
      moreover have "mem_only s s2"
        unfolding s2_def s1_def by (rule mem_only_trans [OF mem_only_trans [OF mem_only_kalloc mem_only_memset] mem_only_mw])
      ultimately have "grows s root xs s2 ys"
        using st(3,4,6,7) Cons by (auto simp: grows_def)
      then have "grows s root xs s' xs'" using IH(2) by (rule grows_trans)
      with IH w show ?thesis by auto
    qed
  qed
qed

lemma leaf_update:
  fixes s :: "'a vm_scheme"
  assumes inv: "pt_inv s pt xs" and nd: "pt_node s pt is p" and len: "Suc (length is) = PT_LEVELS (arch s)"
    and i: "i \<le> PXMASK" and s2: "s2 = s\<lparr>mw := (mw s)(p + 8 * i := e)\<rparr>"
  shows "pt_inv s2 pt xs" "\<And>js r. pt_node s2 pt js r \<longleftrightarrow> pt_node s pt js r"
    "\<And>js j. Suc (length js) = PT_LEVELS (arch s) \<Longrightarrow> idx_ok js \<Longrightarrow> j \<le> PXMASK \<Longrightarrow>
       leaf (arch s) (mw s2) pt js j = (if js = is \<and> j = i then e else leaf (arch s) (mw s) pt js j)"
proof -
  have ar [simp]: "arch s2 = arch s" by (simp add: s2)
  have m2: "mw s2 a = (if a = p + 8 * i then e else mw s a)" for a by (simp add: s2)
  have other: "mw s2 (r + 8 * j) = (if js = is \<and> j = i then e else mw s (r + 8 * j))"
    if "pt_node s pt js r" "j \<le> PXMASK" for js r j
  proof (cases "r + 8 * j = p + 8 * i")
    case True
    then have "r = p \<and> j = i"
      using entry_inj pt_invD(5) [OF inv] nd that i by metis
    moreover have "js = is" using pt_invD(6) [OF inv] nd that calculation by metis
    ultimately show ?thesis by (simp add: m2)
  next
    case False
    then have "\<not> (js = is \<and> j = i)" using nd that by (auto simp: pt_node_def)
    with False show ?thesis by (auto simp: m2)
  qed
  have nodes: "node (arch s) (mw s2) pt js = node (arch s) (mw s) pt js"
    if "length js < PT_LEVELS (arch s)" "idx_ok js" for js
    using that
  proof (induction js rule: rev_induct)
    case (snoc j js)
    show ?case
    proof (cases "node (arch s) (mw s) pt js")
      case (Some r)
      then have "pt_node s pt js r" using snoc.prems by (simp add: pt_node_def)
      moreover have "js \<noteq> is" using snoc.prems len by auto
      ultimately have "mw s2 (r + 8 * j) = mw s (r + 8 * j)" using other snoc.prems by auto
      with Some snoc show ?thesis by (simp add: node_append Let_def)
    qed (use snoc in \<open>simp add: node_append\<close>)
  qed simp
  have nd2: "pt_node s2 pt js r \<longleftrightarrow> pt_node s pt js r" for js r
    using nodes [of js] by (auto simp: pt_node_def)
  show "\<And>js r. pt_node s2 pt js r \<longleftrightarrow> pt_node s pt js r" by (rule nd2)
  have ok2: "page_ok s2 = page_ok s" by (simp add: fun_eq_iff page_ok_def s2)
  have xs: "x \<noteq> p + 8 * i" if "x \<in> set xs" for x
  proof -
    have "p \<noteq> x" "pg_aligned p" "pg_aligned x"
      using pt_invD(1,4,5) [OF inv] nd that by (auto simp: kmem_inv_def list_all_iff page_ok_def)
    then show ?thesis using aligned_pages_disjoint [of p x] entry_in_page [OF i, of p] by auto
  qed
  have "kmem_inv s2 xs"
    by (rule kmem_inv_frame [OF pt_invD(1) [OF inv]]) (use xs in \<open>auto simp: s2\<close>)
  then show "pt_inv s2 pt xs"
    unfolding pt_inv_def nd2 ok2 using pt_invD [OF inv] by (auto simp: s2)
  fix js j assume js: "Suc (length js) = PT_LEVELS (arch s)" "idx_ok js" "j \<le> PXMASK"
  show "leaf (arch s) (mw s2) pt js j = (if js = is \<and> j = i then e else leaf (arch s) (mw s) pt js j)"
  proof (cases "node (arch s) (mw s) pt js")
    case None
    then show ?thesis using nd nodes js by (auto simp: leaf_def pt_node_def)
  next
    case (Some r)
    then have "pt_node s pt js r" using js by (simp add: pt_node_def)
    from other [OF this js(3)] show ?thesis using Some nodes js by (auto simp: leaf_def)
  qed
qed

subsection \<open>Virtual addresses\<close>

lemma PX_eq_bits: "PX k va = PX k wa \<longleftrightarrow> (\<forall>n<9. bit va (12 + 9 * k + n) = bit wa (12 + 9 * k + n))"
proof -
  have m: "PXMASK = mask 9" by (simp add: PXMASK_def mask_eq_exp_minus_1)
  have "bit (PX k v) n \<longleftrightarrow> n < 9 \<and> bit v (12 + 9 * k + n)" for v n
    by (auto simp: PX_def m bit_simps add.assoc)
  then show ?thesis by (auto intro!: bit_word_eqI) metis+
qed

definition same_vpage :: "u64 \<Rightarrow> u64 \<Rightarrow> bool" where
  "same_vpage va wa \<longleftrightarrow> PGROUNDDOWN va = PGROUNDDOWN wa"

lemma PGROUNDDOWN_bits: "bit (PGROUNDDOWN a) n \<longleftrightarrow> 12 \<le> n \<and> bit a n"
proof -
  have "NOT (PGSIZE - 1) = NOT (mask 12)" by (simp add: PGSIZE_def mask_eq_exp_minus_1)
  then show ?thesis unfolding PGROUNDDOWN_def by (auto simp: bit_simps dest: bit_imp_le_length)
qed

lemma path_eq_iff: "path l va = path l wa \<longleftrightarrow> (\<forall>k. 1 \<le> k \<and> k \<le> l \<longrightarrow> PX k va = PX k wa)"
  by (induction l) (auto simp: le_Suc_eq)

lemma small_va_bits: "va < 0x4000000000 \<Longrightarrow> bit va n \<Longrightarrow> n < 38" for va :: u64
proof -
  assume "va < 0x4000000000" "bit va n"
  then have "take_bit 38 va = va"
    by (simp add: word_unat_eq_iff take_bit_eq_mod unat_mod_distrib word_less_nat_alt)
  with \<open>bit va n\<close> show "n < 38" by (metis bit_take_bit_iff)
qed

lemma same_vpage_path:
  assumes "va < 0x4000000000" "wa < 0x4000000000" "2 \<le> l"
  shows "path l va = path l wa \<and> PX 0 va = PX 0 wa \<longleftrightarrow> same_vpage va wa"
proof
  assume a: "path l va = path l wa \<and> PX 0 va = PX 0 wa"
  have "PX k va = PX k wa" if "k < 3" for k
    using a assms(3) that by (cases k) (auto simp: path_eq_iff)
  then have b: "bit va (12 + 9 * k + n) = bit wa (12 + 9 * k + n)" if "k < 3" "n < 9" for k n
    using that by (auto simp: PX_eq_bits)
  have "bit va n = bit wa n" if "12 \<le> n" for n
  proof (cases "n < 38")
    case True
    have "n = 12 + 9 * ((n - 12) div 9) + (n - 12) mod 9" "(n - 12) div 9 < 3" "(n - 12) mod 9 < 9"
      using True that by auto
    then show ?thesis using b by metis
  qed (use small_va_bits assms in blast)
  then show "same_vpage va wa"
    unfolding same_vpage_def by (intro bit_word_eqI) (auto simp: PGROUNDDOWN_bits)
next
  assume "same_vpage va wa"
  then have "bit va n = bit wa n" if "12 \<le> n" for n
    unfolding same_vpage_def using PGROUNDDOWN_bits that by metis
  then have "PX k va = PX k wa" for k by (auto simp: PX_eq_bits)
  then show "path l va = path l wa \<and> PX 0 va = PX 0 wa" by (simp add: path_eq_iff)
qed


subsection \<open>Mapping pages\<close>

text \<open>The memory of user data outside the pages that left the free list is untouched.\<close>

lemma walk_grows:
  assumes fmt: "pte_format (arch s)" and inv: "pt_inv s pt xs" and va: "va < MAXVA (arch s)"
  shows "\<exists>r s' xs'. walk s pt va True = Some (r, s') \<and> grows s pt xs s' xs' \<and>
    (r = 0 \<and> xs' = [] \<or> (\<exists>p. r = p + 8 * PX 0 va \<and> pt_node s' pt (path (PT_LEVELS (arch s) - 1) va) p))"
proof -
  have L: "0 < PT_LEVELS (arch s)" using pte_format.levels_pos [OF fmt] .
  have "pt_node s pt [] pt" using L by (simp add: pt_node_def)
  from walk_from_grows [OF fmt inv this, of "PT_LEVELS (arch s) - 1" va] L
  show ?thesis using pte_format.maxva_valid [OF fmt va] by (auto simp: walk_def)
qed

lemma grows_pte_of:
  "grows s pt xs s' xs' \<Longrightarrow> 0 < PT_LEVELS (arch s) \<Longrightarrow> pte_of s' pt va = pte_of s pt va"
  by (simp add: grows_def pte_of_def mem_only_iff)

lemma pte_of_update:
  assumes fmt: "pte_format (arch s)" and inv: "pt_inv s pt xs"
    and nd: "pt_node s pt (path (PT_LEVELS (arch s) - 1) va) p" and va: "va < MAXVA (arch s)"
    and wa: "wa < MAXVA (arch s)" and s2: "s2 = s\<lparr>mw := (mw s)(p + 8 * PX 0 va := e)\<rparr>"
  shows "pt_inv s2 pt xs" "pt_node s2 pt js r \<Longrightarrow> pt_node s pt js r"
    "pte_of s2 pt wa = (if same_vpage wa va then e else pte_of s pt wa)"
proof -
  note L = pte_format.levels_pos [OF fmt] pte_format.maxva_bits [OF fmt]
  have small: "va < 0x4000000000" "wa < 0x4000000000" using L(2) va wa by auto
  have len: "Suc (length (path (PT_LEVELS (arch s) - 1) va)) = PT_LEVELS (arch s)" using L by simp
  note lu = leaf_update [OF inv nd len PX_le s2]
  show "pt_inv s2 pt xs" "pt_node s2 pt js r \<Longrightarrow> pt_node s pt js r" by (rule lu(1), simp add: lu(2))
  have "same_vpage wa va \<longleftrightarrow> path (PT_LEVELS (arch s) - 1) wa = path (PT_LEVELS (arch s) - 1) va \<and> PX 0 wa = PX 0 va"
    using same_vpage_path [OF small(2,1)] L by simp
  moreover have "arch s2 = arch s" by (simp add: s2)
  ultimately show "pte_of s2 pt wa = (if same_vpage wa va then e else pte_of s pt wa)"
    using lu(3) [of "path (PT_LEVELS (arch s) - 1) wa" "PX 0 wa"] L by (simp add: pte_of_def)
qed

lemma node_pte: "pt_node s pt (path (PT_LEVELS (arch s) - 1) va) p \<Longrightarrow> pte_of s pt va = mw s (p + 8 * PX 0 va)"
  by (simp add: pt_node_def pte_of_def leaf_def)

lemma node_entry_nz: "pt_inv s pt xs \<Longrightarrow> pt_node s pt is p \<Longrightarrow> p + 8 * PX 0 va \<noteq> 0"
proof -
  assume a: "pt_inv s pt xs" "pt_node s pt is p"
  then have "pg_aligned p" "p \<noteq> 0" using pt_invD(3,5) [OF a(1,2)] by (auto simp: page_ok_def)
  then show ?thesis
    using page_base [OF _ entry_in_page [OF PX_le], of p 0 va] page_base [of 0 0]
    by (auto simp: PGROUNDDOWN_def)
qed

lemma same_vpage_aligned:
  assumes "pg_aligned a"
  shows "same_vpage x a \<longleftrightarrow> in_page a x"
  using page_base [OF assms, of x] page_base [OF assms, of a] PGROUNDDOWN_offset [of x]
  by (auto simp: same_vpage_def in_page_def PGSIZE_def word_less_nat_alt)


definition in_range :: "u64 \<Rightarrow> nat \<Rightarrow> u64 \<Rightarrow> bool" where
  "in_range a n x \<longleftrightarrow> unat a \<le> unat x \<and> unat x < unat a + n * 4096"

lemma in_page_range:
  assumes "pg_aligned a" "unat a + 4096 \<le> 2 ^ 64"
  shows "in_page a x \<longleftrightarrow> in_range a 1 x"
proof
  assume "in_page a x"
  then have d: "unat (x - a) < 4096" by (simp add: in_page_def PGSIZE_def word_less_nat_alt)
  then have "unat (a + (x - a)) = unat a + unat (x - a)"
    using assms(2) by (simp only: unat_word_ariths) simp
  then have "unat x = unat a + unat (x - a)" by simp
  with d show "in_range a 1 x" by (simp add: in_range_def)
next
  assume "in_range a 1 x"
  then show "in_page a x"
    by (auto simp: in_page_def in_range_def PGSIZE_def word_less_nat_alt unat_sub word_le_nat_alt)
qed

text \<open>What mapping may change besides the entries that it is asked to set.\<close>

definition maps_frame :: "'a vm_scheme \<Rightarrow> u64 \<Rightarrow> u64 list \<Rightarrow> 'a vm_scheme \<Rightarrow> u64 list \<Rightarrow> bool" where
  "maps_frame s pt xs s' xs' \<longleftrightarrow> pt_inv s' pt xs' \<and> mem_only s s' \<and> (\<exists>ys. xs = ys @ xs')
     \<and> (\<forall>a. (\<forall>q\<in>set xs - set xs'. \<not> in_page q a) \<longrightarrow> mb s' a = mb s a)
     \<and> (\<forall>js r. pt_node s' pt js r \<longrightarrow> pt_node s pt js r \<or> r \<in> set xs - set xs')"

lemma maps_frame_trans:
  assumes "maps_frame s pt xs s2 ys" "maps_frame s2 pt ys s' zs"
  shows "maps_frame s pt xs s' zs"
proof -
  have "mb s' a = mb s a" if "\<forall>q\<in>set xs - set zs. \<not> in_page q a" for a
  proof -
    have "\<forall>q\<in>set ys - set zs. \<not> in_page q a" "\<forall>q\<in>set xs - set ys. \<not> in_page q a"
      using assms that by (auto simp: maps_frame_def)
    then show ?thesis using assms unfolding maps_frame_def by metis
  qed
  moreover have "pt_node s pt js r \<or> r \<in> set xs - set zs" if "pt_node s' pt js r" for js r
    using that assms unfolding maps_frame_def by (metis Diff_iff UnI2 set_append Un_iff)
  ultimately show ?thesis using assms by (auto simp: maps_frame_def mem_only_iff)
qed

lemma grows_frame: "grows s pt xs s' xs' \<Longrightarrow> maps_frame s pt xs s' xs'"
  by (auto simp: grows_def maps_frame_def)

lemma mappages_step:
  assumes fmt: "pte_format (arch s)" and inv: "pt_inv s pt xs"
    and a: "pg_aligned a" "a < MAXVA (arch s)" and free: "pte_of s pt a AND PTE_V (arch s) = 0"
  obtains (nomem) s' where "mappages_loop s pt a z pa perm = Some (-1, s')" "maps_frame s pt xs s' []"
      "\<And>x. pte_of s' pt x = pte_of s pt x"
    | (ok) s' xs' where "mappages_loop s pt a z pa perm =
        (if a = z then Some (0, s') else mappages_loop s' pt (a + PGSIZE) z (pa + PGSIZE) perm)"
      "maps_frame s pt xs s' xs'"
      "\<And>x. x < MAXVA (arch s) \<Longrightarrow>
        pte_of s' pt x = (if in_page a x then leaf_pte (arch s) pa perm else pte_of s pt x)"
proof -
  note L = pte_format.levels_pos [OF fmt]
  obtain r s1 xs1 where w: "walk s pt a True = Some (r, s1)" "grows s pt xs s1 xs1"
    "r = 0 \<and> xs1 = [] \<or> (\<exists>p. r = p + 8 * PX 0 a \<and> pt_node s1 pt (path (PT_LEVELS (arch s) - 1) a) p)"
    using walk_grows [OF fmt inv a(2)] by blast
  have ar: "arch s1 = arch s" and inv1: "pt_inv s1 pt xs1" using w(2) by (auto simp: grows_def mem_only_iff)
  note keep = grows_pte_of [OF w(2) L]
  show thesis
  proof (cases "r = 0")
    case True
    then have "xs1 = []" using w(3) node_entry_nz [OF inv1] by metis
    with True w keep show thesis
      by (intro nomem [of s1]) (auto simp: mappages_loop.simps [of s] grows_frame)
  next
    case False
    then obtain p where p: "r = p + 8 * PX 0 a" "pt_node s1 pt (path (PT_LEVELS (arch s1) - 1) a) p"
      using w(3) ar by auto
    define s2 where "s2 = s1\<lparr>mw := (mw s1)(p + 8 * PX 0 a := leaf_pte (arch s) pa perm)\<rparr>"
    have v: "mw s1 (p + 8 * PX 0 a) AND PTE_V (arch s) = 0"
      using node_pte [OF p(2)] keep [of a] free by simp
    have up: "pt_inv s2 pt xs1"
      "x < MAXVA (arch s) \<Longrightarrow> pte_of s2 pt x = (if same_vpage x a then leaf_pte (arch s) pa perm else pte_of s1 pt x)"
      "pt_node s2 pt js r' \<Longrightarrow> pt_node s1 pt js r'" for x js r'
      using pte_of_update [OF _ inv1 p(2), of _ s2] fmt a s2_def by (auto simp: ar)
    have "maps_frame s1 pt xs1 s2 xs1" using up(1,3) by (simp add: maps_frame_def s2_def)
    then have "maps_frame s pt xs s2 xs1" using grows_frame [OF w(2)] maps_frame_trans by blast
    moreover have "mappages_loop s pt a z pa perm =
        (if a = z then Some (0, s2) else mappages_loop s2 pt (a + PGSIZE) z (pa + PGSIZE) perm)"
      using w(1) False v p(1) by (simp add: mappages_loop.simps [of s] ar s2_def leaf_pte_def)
    ultimately show thesis
      by (intro ok [of s2 xs1]) (use up(2) keep same_vpage_aligned [OF a(1)] in auto)
  qed
qed


lemma mappages_loop_ok:
  assumes "pte_format (arch s)" "pt_inv s pt xs" "pg_aligned a"
    "unat a + Suc n * 4096 \<le> unat (MAXVA (arch s))" "z = a + of_nat n * 4096"
    "\<And>x. in_range a (Suc n) x \<Longrightarrow> pte_of s pt x AND PTE_V (arch s) = 0"
  shows "\<exists>r s' xs'. mappages_loop s pt a z pa perm = Some (r, s') \<and> maps_frame s pt xs s' xs'
     \<and> (r = 0 \<or> r = -1 \<and> xs' = [])
     \<and> (\<forall>x < MAXVA (arch s). pte_of s' pt x = pte_of s pt x \<or> in_range a (Suc n) x)
     \<and> (r = 0 \<longrightarrow> (\<forall>x < MAXVA (arch s). in_range a (Suc n) x \<longrightarrow>
          pte_of s' pt x = leaf_pte (arch s) (pa + (PGROUNDDOWN x - a)) perm))"
  using assms
proof (induction n arbitrary: s xs a pa)
  case (0 s xs a pa)
  have mv: "unat (MAXVA (arch s)) < 2 ^ 64" by (rule unat64_lt)
  have a: "a < MAXVA (arch s)" "pte_of s pt a AND PTE_V (arch s) = 0"
    using 0 by (auto simp: word_less_nat_alt in_range_def)
  have rng: "in_page a x \<longleftrightarrow> in_range a 1 x" for x
    by (rule in_page_range) (use 0 mv in auto)
  have base: "PGROUNDDOWN x = a" if "in_range a 1 x" for x
    using page_base [OF 0(3), of x] rng that by simp
  show ?case
    by (rule mappages_step [OF 0(1,2,3) a, of z pa perm]) (use 0(5) rng base in auto)
next
  case (Suc n s xs a pa)
  have mv: "unat (MAXVA (arch s)) < 2 ^ 64" by (rule unat64_lt)
  have a: "a < MAXVA (arch s)" "pte_of s pt a AND PTE_V (arch s) = 0"
    using Suc.prems by (auto simp: word_less_nat_alt in_range_def)
  have rng: "in_page a x \<longleftrightarrow> in_range a 1 x" for x
    by (rule in_page_range) (use Suc.prems mv in auto)
  have base: "PGROUNDDOWN x = a" if "in_range a 1 x" for x
    using page_base [OF Suc.prems(3), of x] rng that by simp
  have succ: "pg_aligned (a + PGSIZE)" "unat (a + PGSIZE) = unat a + 4096"
    using page_succ [OF Suc.prems(3) _ le_refl] Suc.prems(4) mv by auto
  have "a \<noteq> z"
  proof
    assume "a = z"
    then have "(of_nat (Suc n * 4096) :: u64) = 0" using Suc.prems(5) by (simp add: algebra_simps)
    then have "unat (of_nat (Suc n * 4096) :: u64) = 0" by simp
    moreover have "Suc n * 4096 < 2 ^ LENGTH(64)" using Suc.prems(4) mv by simp
    ultimately show False by (subst (asm) unat_of_nat_small) auto
  qed
  have z: "z = (a + PGSIZE) + of_nat n * 4096" using Suc.prems(5) by (simp add: PGSIZE_def algebra_simps)
  have split_rng: "in_range a (Suc (Suc n)) x \<longleftrightarrow> in_range a 1 x \<or> in_range (a + PGSIZE) (Suc n) x" for x
    using succ(2) by (auto simp: in_range_def)
  have disj: "\<not> (in_range a 1 x \<and> in_range (a + PGSIZE) (Suc n) x)" for x
    using succ(2) by (auto simp: in_range_def)
  show ?case
  proof (rule mappages_step [OF Suc.prems(1,2,3) a, of z pa perm])
    fix s' assume "mappages_loop s pt a z pa perm = Some (-1, s')" "maps_frame s pt xs s' []"
      "\<And>x. pte_of s' pt x = pte_of s pt x"
    then show ?case by auto
  next
    fix s1 xs1 assume st: "mappages_loop s pt a z pa perm =
        (if a = z then Some (0, s1) else mappages_loop s1 pt (a + PGSIZE) z (pa + PGSIZE) perm)"
      "maps_frame s pt xs s1 xs1"
      "\<And>x. x < MAXVA (arch s) \<Longrightarrow>
        pte_of s1 pt x = (if in_page a x then leaf_pte (arch s) pa perm else pte_of s pt x)"
    have ar: "arch s1 = arch s" and inv1: "pt_inv s1 pt xs1" using st(2) by (auto simp: maps_frame_def mem_only_iff)
    have free1: "pte_of s1 pt x AND PTE_V (arch s) = 0" if "in_range (a + PGSIZE) (Suc n) x" for x
    proof -
      have "x < MAXVA (arch s)" using that Suc.prems(4) succ(2) by (auto simp: in_range_def word_less_nat_alt)
      then show ?thesis using st(3) rng disj that Suc.prems(6) split_rng by auto
    qed
    obtain r s' xs' where IH: "mappages_loop s1 pt (a + PGSIZE) z (pa + PGSIZE) perm = Some (r, s')"
      "maps_frame s1 pt xs1 s' xs'" "r = 0 \<or> r = -1 \<and> xs' = []"
      "\<forall>x < MAXVA (arch s). pte_of s' pt x = pte_of s1 pt x \<or> in_range (a + PGSIZE) (Suc n) x"
      "r = 0 \<longrightarrow> (\<forall>x < MAXVA (arch s). in_range (a + PGSIZE) (Suc n) x \<longrightarrow>
          pte_of s' pt x = leaf_pte (arch s) (pa + PGSIZE + (PGROUNDDOWN x - (a + PGSIZE))) perm)"
      using Suc.IH [of s1 xs1 "a + PGSIZE" "pa + PGSIZE"] Suc.prems(1,4) inv1 succ z free1
      by (simp add: ar) blast
    have "pte_of s' pt x = leaf_pte (arch s) (pa + (PGROUNDDOWN x - a)) perm"
      if "r = 0" "x < MAXVA (arch s)" "in_range a (Suc (Suc n)) x" for x
      using that IH(4,5) st(3) rng base disj split_rng by (auto simp: algebra_simps)
    moreover have "maps_frame s pt xs s' xs'" using st(2) IH(2) by (rule maps_frame_trans)
    moreover have "pte_of s' pt x = pte_of s pt x \<or> in_range a (Suc (Suc n)) x"
      if "x < MAXVA (arch s)" for x
      using that IH(4) st(3) [OF that] rng [of x] split_rng [of x] by metis
    ultimately show ?case
      using st(1) \<open>a \<noteq> z\<close> IH(1,3) by (intro exI [of _ r] exI [of _ s'] exI [of _ xs']) auto
  qed
qed


lemma empty_table_inv:
  assumes "\<And>i. i \<le> PXMASK \<Longrightarrow> mw s (pt + 8 * i) AND PTE_V (arch s) = 0"
    and "kmem_inv s xs" "page_ok s pt" "pt \<notin> set xs" "phystop s \<le> 0x100000000000000"
  shows "pt_inv s pt xs" "PT_LEVELS (arch s) = Suc l \<Longrightarrow> pte_of s pt va AND PTE_V (arch s) = 0"
proof -
  have n: "node (arch s) (mw s) pt is = Some p \<Longrightarrow> idx_ok is \<Longrightarrow> is = [] \<and> p = pt" for "is" p
    using assms(1) by (cases "is") (auto simp: Let_def)
  then have "pt_node s pt is p \<Longrightarrow> is = [] \<and> p = pt" for "is" p unfolding pt_node_def by blast
  then show "pt_inv s pt xs" using assms unfolding pt_inv_def by blast
  show "pte_of s pt va AND PTE_V (arch s) = 0"
    using n [of "path (PT_LEVELS (arch s) - 1) va"] assms(1) [of "PX 0 va"]
    by (auto simp: pte_of_def leaf_def split: option.splits)
qed

lemma mappages_ok:
  assumes "pte_format (arch s)" and "pt_inv s pt xs"
    and "pg_aligned va" and "pg_aligned sz" and "0 < sz"
    and "unat va + unat sz \<le> unat (MAXVA (arch s))"
    and "\<And>x. va \<le> x \<Longrightarrow> unat x < unat va + unat sz \<Longrightarrow> pte_of s pt x AND PTE_V (arch s) = 0"
  shows "\<exists>r s' xs'. mappages s pt va sz pa perm = Some (r, s') \<and> maps_frame s pt xs s' xs'
     \<and> (r = 0 \<or> r = -1 \<and> xs' = [])
     \<and> (\<forall>x < MAXVA (arch s). \<not> (va \<le> x \<and> unat x < unat va + unat sz) \<longrightarrow>
          pte_of s' pt x = pte_of s pt x)
     \<and> (r = 0 \<longrightarrow> (\<forall>x < MAXVA (arch s). va \<le> x \<and> unat x < unat va + unat sz \<longrightarrow>
          pte_of s' pt x = leaf_pte (arch s) (pa + (PGROUNDDOWN x - va)) perm))"
proof -
  obtain n where n: "unat sz = Suc n * 4096"
  proof -
    obtain k where k: "unat sz = 4096 * k"
      using assms(4) by (auto simp: pg_aligned_unat mod_eq_0_iff_dvd dvd_def)
    then have "k \<noteq> 0" using assms(5) by (auto simp: word_less_nat_alt)
    then show ?thesis using k that by (cases k) auto
  qed
  have rng: "in_range va (Suc n) x \<longleftrightarrow> va \<le> x \<and> unat x < unat va + unat sz" for x
    by (simp add: in_range_def n word_le_nat_alt)
  have sz: "sz = of_nat (Suc n * 4096)" unfolding n [symmetric] by simp
  then have z: "va + sz - PGSIZE = va + of_nat n * 4096" by (simp add: PGSIZE_def algebra_simps)
  from mappages_loop_ok [OF assms(1-3) _ z, of pa perm] assms(6,7) n rng
  obtain r s' xs' where "mappages_loop s pt va (va + sz - PGSIZE) pa perm = Some (r, s')"
    "maps_frame s pt xs s' xs'" "r = 0 \<or> r = -1 \<and> xs' = []"
    "\<forall>x < MAXVA (arch s). pte_of s' pt x = pte_of s pt x \<or> in_range va (Suc n) x"
    "r = 0 \<longrightarrow> (\<forall>x < MAXVA (arch s). in_range va (Suc n) x \<longrightarrow>
          pte_of s' pt x = leaf_pte (arch s) (pa + (PGROUNDDOWN x - va)) perm)"
    by auto
  moreover have "mappages s pt va sz pa perm = mappages_loop s pt va (va + sz - PGSIZE) pa perm"
    using assms(3-5) by (cases "sz = 0") (auto simp: mappages_def)
  ultimately show ?thesis unfolding rng by metis
qed

text \<open>C20: mapping pages refines an update of the abstract page table.  On a well-formed page table and a
  range of unmapped pages below \<open>MAXVA\<close>, \<open>mappages\<close> returns (it never finds a page to remap); it
  returns \<open>-1\<close> only when physical memory is used up; when it returns 0 every page of the range is mapped
  to the corresponding physical page with the given permissions; no other mapping changes, the table
  stays well-formed, and no user data outside pages taken from the free list changes.\<close>

theorem mappages_refines:
  assumes "arch s \<in> {riscv_arch, loongarch_arch}" and "pt_inv s pt xs"
    and "pg_aligned va" and "pg_aligned sz" and "0 < sz"
    and "unat va + unat sz \<le> unat (MAXVA (arch s))"
    and "\<And>x. va \<le> x \<Longrightarrow> unat x < unat va + unat sz \<Longrightarrow> pte_of s pt x AND PTE_V (arch s) = 0"
  shows "\<exists>r s' xs'. mappages s pt va sz pa perm = Some (r, s') \<and> maps_frame s pt xs s' xs'
     \<and> (r = 0 \<or> r = -1 \<and> xs' = [])
     \<and> (\<forall>x < MAXVA (arch s). \<not> (va \<le> x \<and> unat x < unat va + unat sz) \<longrightarrow>
          pte_of s' pt x = pte_of s pt x)
     \<and> (r = 0 \<longrightarrow> (\<forall>x < MAXVA (arch s). va \<le> x \<and> unat x < unat va + unat sz \<longrightarrow>
          pte_of s' pt x = leaf_pte (arch s) (pa + (PGROUNDDOWN x - va)) perm))"
  using mappages_ok [OF supported_arch_format [OF assms(1)] assms(2-)] .

definition vm_demo :: vm where
  "vm_demo = \<lparr>freelist = 0x5000, mw = (\<lambda>a. if a = 0x5000 then 0x6000 else if a = 0x6000 then 0x7000 else 0),
     mb = (\<lambda>_. 0), kend = 0x1000, phystop = 0x8000,
     arch = riscv_arch, p_sz = 0x9000, p_pagetable = 0x2000, p_pid = 1\<rparr>"

lemma vm_demo_inv:
  "kmem_inv vm_demo [0x5000, 0x6000, 0x7000]" "pt_inv vm_demo 0x2000 [0x5000, 0x6000, 0x7000]"
  "pte_of vm_demo 0x2000 va AND PTE_V (arch vm_demo) = 0"
proof -
  show k: "kmem_inv vm_demo [0x5000, 0x6000, 0x7000]"
    by (simp add: kmem_inv_def vm_demo_def page_ok_def pg_aligned_def PGSIZE_def)
  have i: "0x2000 + 8 * i \<noteq> 0x5000 \<and> 0x2000 + 8 * i \<noteq> (0x6000 :: u64)" if "i \<le> PXMASK" for i
    using entry_in_page [of i "0x2000"] that by (auto simp: in_page_def PGSIZE_def)
  have e: "mw vm_demo (0x2000 + 8 * i) AND PTE_V (arch vm_demo) = 0" if "i \<le> PXMASK" for i
    using i [OF that] by (simp add: vm_demo_def)
  note et = empty_table_inv [OF e k]
  show "pt_inv vm_demo 0x2000 [0x5000, 0x6000, 0x7000]"
    by (rule et(1)) (simp_all add: vm_demo_def page_ok_def pg_aligned_def PGSIZE_def)
  show "pte_of vm_demo 0x2000 va AND PTE_V (arch vm_demo) = 0"
    by (rule et(2) [where l = 2]) (simp_all add: vm_demo_def page_ok_def pg_aligned_def PGSIZE_def)
qed

theorem mappages_refines_witness:
  "\<exists>r s' xs'. mappages vm_demo 0x2000 0x3000 0x2000 0x4000 0x16 = Some (r, s')
     \<and> maps_frame vm_demo 0x2000 [0x5000, 0x6000, 0x7000] s' xs' \<and> (r = 0 \<or> r = -1 \<and> xs' = [])"
  using mappages_refines [OF _ vm_demo_inv(2), of "0x3000" "0x2000" "0x4000" "0x16"] vm_demo_inv(3)
  by (auto simp: vm_demo_def pg_aligned_def PGSIZE_def)

end
