(* ===== verification/Umem.thy ===== *)
theory Umem
  imports Vm
begin

text \<open>
  What the copy routines of \<^verbatim>\<open>kernel/vm.c\<close> do to user memory, seen as a partial map from virtual
  addresses to bytes: \<open>vmfault\<close> adds zero-filled pages, \<open>copyout\<close> and \<open>copyin\<close> move exactly the bytes
  they are asked to.
\<close>

subsection \<open>User memory\<close>

definition user_pte :: "'a vm_scheme \<Rightarrow> u64 \<Rightarrow> u64 \<Rightarrow> bool" where
  "user_pte s pt va \<longleftrightarrow> va < MAXVA (arch s) \<and> pte_of s pt va AND PTE_V (arch s) \<noteq> 0
     \<and> pte_of s pt va AND PTE_U (arch s) \<noteq> 0"

definition upage :: "'a vm_scheme \<Rightarrow> u64 \<Rightarrow> u64 \<Rightarrow> u64" where
  "upage s pt va = PTE2PA (arch s) (pte_of s pt va)"

text \<open>User memory as a partial map from virtual addresses to bytes.\<close>

definition umem :: "'a vm_scheme \<Rightarrow> u64 \<Rightarrow> u64 \<Rightarrow> byte option" where
  "umem s pt va =
     (if user_pte s pt va then Some (mb s (upage s pt va + (va - PGROUNDDOWN va))) else None)"

text \<open>The user pages are allocated, and no two virtual pages share one.\<close>

definition umem_inv :: "'a vm_scheme \<Rightarrow> u64 \<Rightarrow> u64 list \<Rightarrow> bool" where
  "umem_inv s pt xs \<longleftrightarrow> pt_inv s pt xs
     \<and> (\<forall>va. user_pte s pt va \<longrightarrow> pg_aligned (upage s pt va) \<and> upage s pt va \<noteq> 0 \<and> upage s pt va \<notin> set xs)
     \<and> (\<forall>va wa. user_pte s pt va \<longrightarrow> user_pte s pt wa \<longrightarrow> upage s pt va = upage s pt wa \<longrightarrow> same_vpage va wa)"

lemma walk_False:
  assumes "pte_format (arch s)" "va < MAXVA (arch s)"
  shows "walk s pt va False = Some (case node (arch s) (mw s) pt (path (PT_LEVELS (arch s) - 1) va) of
     None \<Rightarrow> (0, s) | Some p \<Rightarrow> (p + 8 * PX 0 va, s))"
  using pte_format.maxva_valid [OF assms] by (simp add: walk_def walk_from_False)

lemma walk_cases:
  assumes fmt: "pte_format (arch s)" and inv: "pt_inv s pt xs" and va: "va < MAXVA (arch s)"
  obtains (none) "walk s pt va False = Some (0, s)" "pte_of s pt va = 0"
  | (pte) e where "walk s pt va False = Some (e, s)" "e \<noteq> 0" "pte_of s pt va = mw s e"
proof (cases "node (arch s) (mw s) pt (path (PT_LEVELS (arch s) - 1) va)")
  case None
  then show thesis using walk_False [OF fmt va] by (intro none) (auto simp: pte_of_def leaf_def)
next
  case (Some p)
  then have nd: "pt_node s pt (path (PT_LEVELS (arch s) - 1) va) p"
    using pte_format.levels_pos [OF fmt] by (simp add: pt_node_def)
  show thesis
    by (rule pte [of "p + 8 * PX 0 va"])
      (use Some nd inv in \<open>auto simp: walk_False [OF fmt va] node_pte node_entry_nz\<close>)
qed

lemma walk_eq:
  assumes "pte_format (arch s)" "pt_inv s pt xs" "va < MAXVA (arch s)"
  shows "\<exists>e. walk s pt va False = Some (e, s) \<and> pte_of s pt va = (if e = 0 then 0 else mw s e)"
  by (rule walk_cases [OF assms]) auto

lemma walkaddr_eq:
  assumes fmt: "pte_format (arch s)" and inv: "pt_inv s pt xs" and va: "va < MAXVA (arch s)"
  shows "walkaddr s pt va = Some (if user_pte s pt va then upage s pt va else 0)"
  using walk_cases [OF assms]
  by (rule; use va in \<open>auto simp: walkaddr_def user_pte_def upage_def not_le\<close>)

lemma same_vpage_pte:
  assumes fmt: "pte_format (arch s)" and "same_vpage va wa"
    and "va < MAXVA (arch s)" "wa < MAXVA (arch s)"
  shows "pte_of s pt va = pte_of s pt wa"
proof -
  note L = pte_format.maxva_bits [OF fmt]
  have "va < 0x4000000000" "wa < 0x4000000000" "2 \<le> PT_LEVELS (arch s) - 1" using L assms by auto
  from same_vpage_path [OF this] assms(2) show ?thesis by (simp add: pte_of_def)
qed

lemma pt_frame:
  assumes lev: "0 < PT_LEVELS (arch s)" and ar: "arch t = arch s"
    and same: "\<And>js r j. pt_node s pt js r \<Longrightarrow> j \<le> PXMASK \<Longrightarrow> mw t (r + 8 * j) = mw s (r + 8 * j)"
  shows "pt_node t pt js r \<longleftrightarrow> pt_node s pt js r" "pte_of t pt va = pte_of s pt va"
proof -
  have nodes: "node (arch s) (mw t) pt js = node (arch s) (mw s) pt js"
    if "length js < PT_LEVELS (arch s)" "idx_ok js" for js
    using that
  proof (induction js rule: rev_induct)
    case (snoc j js)
    show ?case
    proof (cases "node (arch s) (mw s) pt js")
      case (Some r)
      then have "pt_node s pt js r" using snoc.prems by (simp add: pt_node_def)
      then have "mw t (r + 8 * j) = mw s (r + 8 * j)" using same snoc.prems by auto
      with Some snoc show ?thesis by (simp add: node_append Let_def)
    qed (use snoc in \<open>simp add: node_append\<close>)
  qed simp
  then show "pt_node t pt js r \<longleftrightarrow> pt_node s pt js r" by (auto simp: pt_node_def ar)
  show "pte_of t pt va = pte_of s pt va"
    using lev nodes [of "path (PT_LEVELS (arch s) - 1) va"]
      same [of "path (PT_LEVELS (arch s) - 1) va" _ "PX 0 va"]
    by (auto simp: pte_of_def leaf_def ar pt_node_def split: option.splits)
qed

lemma pt_inv_frame:
  assumes inv: "pt_inv s pt xs" and lev: "0 < PT_LEVELS (arch s)" and mo: "mem_only s t"
    and q: "pg_aligned q" "\<And>js. \<not> pt_node s pt js q"
    and same: "\<And>a. \<not> in_page q a \<Longrightarrow> mw t a = mw s a"
    and km: "kmem_inv t ys" "set ys \<subseteq> insert q (set xs)"
  shows "pt_inv t pt ys" "pt_node t pt js r \<longleftrightarrow> pt_node s pt js r" "pte_of t pt va = pte_of s pt va"
proof -
  have ar: "arch t = arch s" using mo by (simp add: mem_only_iff)
  have eq: "mw t (r + 8 * j) = mw s (r + 8 * j)" if "pt_node s pt js r" "j \<le> PXMASK" for js r j
  proof (rule same)
    have "r \<noteq> q" "pg_aligned r" using pt_invD(5) [OF inv that(1)] q that(1) by auto
    then show "\<not> in_page q (r + 8 * j)"
      using page_base [of r "r + 8 * j"] page_base [of q "r + 8 * j"] entry_in_page [OF that(2), of r] q
      by auto
  qed
  have fr: "pt_node t pt js r \<longleftrightarrow> pt_node s pt js r" "pte_of t pt va = pte_of s pt va" for js r va
    using pt_frame [OF lev ar] eq by blast+
  show "pt_node t pt js r \<longleftrightarrow> pt_node s pt js r" "pte_of t pt va = pte_of s pt va" by (simp_all add: fr)
  have "page_ok t = page_ok s" using mo by (auto simp: mem_only_iff page_ok_def)
  then show "pt_inv t pt ys"
    unfolding pt_inv_def fr(1) using pt_invD [OF inv] mo km q by (auto simp: mem_only_iff)
qed

lemma page_taken_pt_inv:
  assumes inv: "pt_inv s pt (q # xs)" and lev: "0 < PT_LEVELS (arch s)"
    and t: "t = page_memset q c (snd (kalloc s))"
  shows "pt_inv t pt xs" "fst (kalloc s) = q" "pte_of t pt va = pte_of s pt va" "mem_only s t"
    "\<And>a. \<not> in_page q a \<Longrightarrow> mb t a = mb s a" "\<And>a. in_page q a \<Longrightarrow> mb t a = c"
    "pt_node t pt js r \<longleftrightarrow> pt_node s pt js r"
proof -
  note km = pt_invD(1) [OF inv]
  note ka = kalloc_inv [OF km]
  have q: "page_ok s q" "q \<notin> set xs" using km by (auto simp: kmem_inv_def)
  show "fst (kalloc s) = q" using ka(1) by simp
  show mo: "mem_only s t" unfolding t by (rule mem_only_trans [OF mem_only_kalloc mem_only_memset])
  show "\<And>a. \<not> in_page q a \<Longrightarrow> mb t a = mb s a" "\<And>a. in_page q a \<Longrightarrow> mb t a = c"
    by (auto simp: t ka(1))
  have "kmem_inv t xs"
    by (rule kmem_inv_frame [OF ka(2)])
      (use kmem_inv_disjoint [OF km _ q(1)] q(2) in \<open>auto simp: t ka(1)\<close>)
  moreover have "mw t a = mw s a" if "\<not> in_page q a" for a using that by (simp add: t ka(1))
  moreover have "\<not> pt_node s pt js q" for js using pt_invD(4) [OF inv, of js q] by auto
  moreover have "pg_aligned q" "set xs \<subseteq> insert q (set (q # xs))" using q by (auto simp: page_ok_def)
  ultimately have "pt_inv t pt xs" "pt_node t pt js r \<longleftrightarrow> pt_node s pt js r"
      "pte_of t pt va = pte_of s pt va" for js r va
    using pt_inv_frame [OF inv lev mo, of q xs] by blast+
  then show "pt_inv t pt xs" "pt_node t pt js r \<longleftrightarrow> pt_node s pt js r" "pte_of t pt va = pte_of s pt va"
    by auto
qed

lemma page_freed_pt_inv:
  assumes inv: "pt_inv s pt xs" and lev: "0 < PT_LEVELS (arch s)"
    and q: "page_ok s q" "q \<notin> set xs" "\<And>js. \<not> pt_node s pt js q"
  shows "\<exists>t. kfree s q = Some t \<and> pt_inv t pt (q # xs) \<and> mem_only s t
    \<and> (\<forall>a. \<not> in_page q a \<longrightarrow> mb t a = mb s a)
    \<and> (\<forall>va. pte_of t pt va = pte_of s pt va) \<and> (\<forall>js r. pt_node t pt js r \<longleftrightarrow> pt_node s pt js r)"
proof -
  obtain t where t: "kfree s q = Some t" "kmem_inv t (q # xs)"
      "\<And>a. \<not> in_page q a \<Longrightarrow> mw t a = mw s a \<and> mb t a = mb s a"
    using kfree_inv [OF pt_invD(1) [OF inv] q(1,2)] by blast
  have mo: "mem_only s t"
    using t(1) by (auto simp: kfree_def Let_def mem_only_iff page_memset_def)
  have "pg_aligned q" "set (q # xs) \<subseteq> insert q (set xs)" using q by (auto simp: page_ok_def)
  then have "pt_inv t pt (q # xs)" "pt_node t pt js r \<longleftrightarrow> pt_node s pt js r"
      "pte_of t pt va = pte_of s pt va" for js r va
    using pt_inv_frame [OF inv lev mo, of q "q # xs"] q(3) t(2,3) by blast+
  with t mo show ?thesis by auto
qed


text \<open>The only change of user memory that a fault may make: zeroed pages appear.\<close>

definition lazily :: "'a vm_scheme \<Rightarrow> 'a vm_scheme \<Rightarrow> u64 \<Rightarrow> bool" where
  "lazily s s' pt \<longleftrightarrow> (\<forall>x. umem s' pt x = umem s pt x \<or> umem s pt x = None \<and> umem s' pt x = Some 0)"

lemma umem_same:
  assumes "mem_only s t" "\<And>x. pte_of t pt x = pte_of s pt x"
    and "\<And>x. user_pte s pt x \<Longrightarrow> mb t (upage s pt x + (x - PGROUNDDOWN x)) = mb s (upage s pt x + (x - PGROUNDDOWN x))"
  shows "umem t pt x = umem s pt x"
  using assms by (auto simp: umem_def user_pte_def upage_def mem_only_iff)

lemma upage_in_page: "in_page (upage s pt x) (upage s pt x + (x - PGROUNDDOWN x))"
  using PGROUNDDOWN_offset [of x] by (simp add: in_page_def PGSIZE_def word_less_nat_alt)

lemma umem_invD:
  assumes "umem_inv s pt xs"
  shows "pt_inv s pt xs" "user_pte s pt va \<Longrightarrow> pg_aligned (upage s pt va)"
    "user_pte s pt va \<Longrightarrow> upage s pt va \<noteq> 0" "user_pte s pt va \<Longrightarrow> upage s pt va \<notin> set xs"
    "user_pte s pt va \<Longrightarrow> user_pte s pt wa \<Longrightarrow> upage s pt va = upage s pt wa \<Longrightarrow> same_vpage va wa"
  using assms unfolding umem_inv_def by blast+

lemma upage_apart:
  assumes "umem_inv s pt xs" "user_pte s pt x" "q \<in> set xs"
  shows "\<not> in_page q (upage s pt x + (x - PGROUNDDOWN x))"
proof -
  have "pg_aligned q"
    using pt_invD(1) [OF umem_invD(1) [OF assms(1)]] assms(3)
    by (auto simp: kmem_inv_def list_all_iff page_ok_def)
  moreover have "upage s pt x \<noteq> q" using umem_invD(4) [OF assms(1,2)] assms(3) by auto
  ultimately show ?thesis
    using page_base [OF _ upage_in_page] page_base umem_invD(2) [OF assms(1,2)] by metis
qed

lemma user_perm_ok: "perm_ok A (PTE_W A OR PTE_U A OR PTE_R A)"
  unfolding perm_ok_def by (rule bit_word_eqI) (auto simp: bit_simps)

lemma user_perm_U: "(PTE_W A OR PTE_U A OR PTE_R A) AND PTE_U A = PTE_U A"
  by (rule bit_word_eqI) (auto simp: bit_simps)

text \<open>A page is taken for the fault.  Either it cannot be mapped and is freed again, \<dots>\<close>

lemma fault_undone:
  assumes inv: "umem_inv s pt (q # ys)" and lev: "0 < PT_LEVELS (arch s)" and t: "t = page_memset q 0 (snd (kalloc s))"
    and u: "maps_frame t pt ys u []" "\<And>x. pte_of u pt x = pte_of t pt x"
  shows "\<exists>v. kfree u q = Some v \<and> umem_inv v pt [q] \<and> mem_only s v \<and> lazily s v pt"
proof -
  note pinv = umem_invD(1) [OF inv]
  note tk = page_taken_pt_inv [OF pinv lev t]
  have q: "page_ok s q" "q \<notin> set ys" using pt_invD(1) [OF pinv] by (auto simp: kmem_inv_def)
  have uinv: "pt_inv u pt []" and uar: "arch u = arch s" and mo: "mem_only s u"
    using u(1) tk(4) mem_only_trans by (auto simp: maps_frame_def mem_only_iff)
  have nn: "\<not> pt_node u pt js q" for js
  proof -
    have "\<not> pt_node t pt js q" using pt_invD(4) [OF pinv, of js q] tk(7) by auto
    then show ?thesis using u(1) q(2) by (auto simp: maps_frame_def)
  qed
  have ok: "page_ok u q" using q(1) mo by (simp add: page_ok_def mem_only_iff)
  obtain v where v: "kfree u q = Some v" "pt_inv v pt [q]" "mem_only u v"
     "\<And>a. \<not> in_page q a \<Longrightarrow> mb v a = mb u a" "\<And>va. pte_of v pt va = pte_of u pt va"
    using page_freed_pt_inv [OF uinv _ ok _ nn] lev uar by auto
  have pte: "pte_of v pt x = pte_of s pt x" for x using v(5) u(2) tk(3) by simp
  have mo': "mem_only s v" using mo v(3) by (rule mem_only_trans)
  have "umem_inv v pt [q]"
    using inv v(2) mo' by (auto simp: umem_inv_def user_pte_def upage_def pte mem_only_iff)
  moreover have "umem v pt x = umem s pt x" for x
  proof (rule umem_same [OF mo' pte])
    fix x assume x: "user_pte s pt x"
    let ?a = "upage s pt x + (x - PGROUNDDOWN x)"
    have "\<not> in_page p ?a" if "p \<in> set (q # ys)" for p using upage_apart [OF inv x that] .
    then show "mb v ?a = mb s ?a" using v(4) u(1) tk(5) by (auto simp: maps_frame_def)
  qed
  ultimately show ?thesis using v(1) mo' by (auto simp: lazily_def)
qed

text \<open>\<dots> or it is mapped: then exactly the page of the fault has become accessible, \<dots>\<close>

lemma fault_pages:
  assumes fmt: "pte_format (arch s)" and inv: "umem_inv s pt (q # ys)" and t: "t = page_memset q 0 (snd (kalloc s))"
    and va: "pg_aligned va" "va < MAXVA (arch s)" "pte_of s pt va AND PTE_V (arch s) = 0" and U: "PTE_U (arch s) \<noteq> 0"
    and u: "maps_frame t pt ys u zs" "\<And>x. x < MAXVA (arch t) \<Longrightarrow> pte_of u pt x =
      (if in_page va x then leaf_pte (arch t) q (PTE_W (arch s) OR PTE_U (arch s) OR PTE_R (arch s)) else pte_of t pt x)"
  shows "user_pte u pt x \<longleftrightarrow> x < MAXVA (arch s) \<and> (in_page va x \<or> user_pte s pt x)"
    "user_pte u pt x \<Longrightarrow> upage u pt x = (if in_page va x then q else upage s pt x)" "in_page va x \<Longrightarrow> \<not> user_pte s pt x" "mem_only s u"
proof -
  note pinv = umem_invD(1) [OF inv]
  note tk = page_taken_pt_inv [OF pinv pte_format.levels_pos [OF fmt] t]
  have ar: "arch t = arch s" using tk(4) by (simp add: mem_only_iff)
  show mo: "mem_only s u" using u(1) tk(4) mem_only_trans by (auto simp: maps_frame_def)
  then have uar: "arch u = arch s" by (simp add: mem_only_iff)
  have "page_ok s q" using pt_invD(1) [OF pinv] by (auto simp: kmem_inv_def)
  then have cq: "canonical_pa q" using pt_invD(2) [OF pinv] by (auto simp: page_ok_def canonical_pa_def)
  let ?e = "leaf_pte (arch s) q (PTE_W (arch s) OR PTE_U (arch s) OR PTE_R (arch s))"
  have e: "PTE2PA (arch s) ?e = q" "?e AND PTE_V (arch s) \<noteq> 0" "?e AND PTE_U (arch s) \<noteq> 0"
    using pte_format.leaf_pa [OF fmt cq user_perm_ok] pte_format.leaf_valid [OF fmt]
      pte_format.leaf_user [OF fmt cq user_perm_ok] U user_perm_U [of "arch s"] by auto
  have pte: "pte_of u pt x = (if in_page va x then ?e else pte_of s pt x)" if "x < MAXVA (arch s)" for x
    using u(2) [of x] that tk(3) ar by simp
  show "in_page va x \<Longrightarrow> \<not> user_pte s pt x"
    using same_vpage_pte [OF fmt, of x va] same_vpage_aligned [OF va(1), of x] va by (auto simp: user_pte_def)
  show "user_pte u pt x \<longleftrightarrow> x < MAXVA (arch s) \<and> (in_page va x \<or> user_pte s pt x)"
    "user_pte u pt x \<Longrightarrow> upage u pt x = (if in_page va x then q else upage s pt x)"
    using pte [of x] e uar by (auto simp: user_pte_def upage_def split: if_splits)
qed

text \<open>\<dots> and it reads as zeroes.\<close>

lemma fault_zeroes:
  assumes inv: "umem_inv s pt (q # ys)" and lev: "0 < PT_LEVELS (arch s)" and t: "t = page_memset q 0 (snd (kalloc s))"
    and u: "maps_frame t pt ys u zs"
    and up: "\<And>x. user_pte u pt x \<longleftrightarrow> x < MAXVA (arch s) \<and> (in_page va x \<or> user_pte s pt x)"
      "\<And>x. user_pte u pt x \<Longrightarrow> upage u pt x = (if in_page va x then q else upage s pt x)" "\<And>x. in_page va x \<Longrightarrow> \<not> user_pte s pt x"
  shows "lazily s u pt"
  unfolding lazily_def
proof
  fix x
  let ?o = "x - PGROUNDDOWN x"
  note pinv = umem_invD(1) [OF inv]
  note tk = page_taken_pt_inv [OF pinv lev t]
  have km: "kmem_inv s (q # ys)" by (rule pt_invD(1) [OF pinv])
  then have q: "pg_aligned q" "q \<notin> set ys" by (auto simp: kmem_inv_def page_ok_def)
  have o: "in_page q (q + ?o)" using PGROUNDDOWN_offset [of x] by (simp add: in_page_def PGSIZE_def word_less_nat_alt)
  have far: "\<not> in_page p (q + ?o)" if "p \<in> set ys" for p
    using km that o page_base [OF q(1) o] page_base [of p "q + ?o"] q(2)
    by (auto simp: kmem_inv_def list_all_iff page_ok_def)
  consider "\<not> user_pte u pt x" | "user_pte u pt x" "in_page va x" | "user_pte u pt x" "\<not> in_page va x" by blast
  then show "umem u pt x = umem s pt x \<or> umem s pt x = None \<and> umem u pt x = Some 0"
  proof cases
    case 1
    then show ?thesis using up(1) [of x] by (auto simp: umem_def user_pte_def)
  next
    case 2
    then have "mb u (q + ?o) = 0" using u far o tk(6) by (auto simp: maps_frame_def)
    then show ?thesis using 2 up(2,3) [of x] by (auto simp: umem_def)
  next
    case 3
    then have x: "user_pte s pt x" using up(1) [of x] by auto
    let ?a = "upage s pt x + ?o"
    have "\<not> in_page p ?a" if "p \<in> set (q # ys)" for p using upage_apart [OF inv x that] .
    then have "mb u ?a = mb s ?a" using u tk(5) by (auto simp: maps_frame_def)
    then show ?thesis using 3 x up(2) [of x] by (auto simp: umem_def)
  qed
qed

lemma fault_inv:
  assumes inv: "umem_inv s pt (q # ys)" and va: "pg_aligned va" and u: "pt_inv u pt zs" "set zs \<subseteq> set ys"
    and up: "\<And>x. user_pte u pt x \<longleftrightarrow> x < MAXVA (arch s) \<and> (in_page va x \<or> user_pte s pt x)"
      "\<And>x. user_pte u pt x \<Longrightarrow> upage u pt x = (if in_page va x then q else upage s pt x)"
  shows "umem_inv u pt zs"
proof -
  have q: "q \<noteq> 0" "pg_aligned q" "q \<notin> set ys" using pt_invD(1) [OF umem_invD(1) [OF inv]] by (auto simp: kmem_inv_def page_ok_def)
  have old: "pg_aligned (upage s pt x) \<and> upage s pt x \<noteq> 0 \<and> upage s pt x \<notin> set (q # ys)" if "user_pte s pt x" for x
    using umem_invD(2-4) [OF inv that] by auto
  have "pg_aligned (upage u pt x) \<and> upage u pt x \<noteq> 0 \<and> upage u pt x \<notin> set zs" if "user_pte u pt x" for x
    using up [of x] that old [of x] u(2) q by auto
  moreover have "same_vpage x y" if "user_pte u pt x" "user_pte u pt y" "upage u pt x = upage u pt y" for x y
    using up [of x] up [of y] that old [of x] old [of y] umem_invD(5) [OF inv, of x y]
      same_vpage_aligned [OF va] by (auto simp: same_vpage_def split: if_splits) metis
  ultimately show ?thesis using u(1) by (auto simp: umem_inv_def)
qed

lemma vmfault_takes_page:
  assumes fmt: "pte_format (arch s)" and inv: "umem_inv s pt (q # ys)" and pt: "pt = p_pagetable s"
    and va: "pg_aligned va" "va < MAXVA (arch s)" "va < p_sz s" "pte_of s pt va AND PTE_V (arch s) = 0"
    and t: "t = page_memset q 0 (snd (kalloc s))"
  shows "vmfault s pt va rd = do {
      (r, s) \<leftarrow> mappages_loop t pt va va q (PTE_W (arch s) OR PTE_U (arch s) OR PTE_R (arch s));
      if r \<noteq> 0 then do { s \<leftarrow> kfree s q; Some (0, s) } else Some (q, s) }"
proof -
  note pinv = umem_invD(1) [OF inv]
  obtain e where w: "walk s pt va False = Some (e, s)" "pte_of s pt va = (if e = 0 then 0 else mw s e)"
    using walk_eq [OF fmt pinv va(2)] by blast
  have base: "PGROUNDDOWN va = va" using page_base [OF va(1), of va] by simp
  have qnz: "q \<noteq> 0" using pt_invD(1) [OF pinv] by (auto simp: kmem_inv_def page_ok_def)
  obtain s0 where s0: "kalloc s = (q, s0)"
    using page_taken_pt_inv(2) [OF pinv pte_format.levels_pos [OF fmt] t] by (metis prod.collapse)
  then have mo: "arch s0 = arch s" "p_pagetable s0 = pt" "t = page_memset q 0 s0"
    using mem_only_kalloc [of s] pt by (auto simp: mem_only_iff t)
  have "pg_aligned PGSIZE" "PGSIZE \<noteq> 0" by (simp_all add: pg_aligned_def PGSIZE_def)
  then have "mappages t pt va PGSIZE q (PTE_W (arch s) OR PTE_U (arch s) OR PTE_R (arch s)) =
      mappages_loop t pt va va q (PTE_W (arch s) OR PTE_U (arch s) OR PTE_R (arch s))"
    using va(1) by (simp add: mappages_def)
  with w va s0 mo qnz show ?thesis
    by (auto simp: vmfault_def base Let_def not_le split: if_splits)
qed

lemma vmfault_ok:
  assumes fmt: "pte_format (arch s)" and inv: "umem_inv s pt xs" and pt: "pt = p_pagetable s"
    and va: "pg_aligned va" "va < MAXVA (arch s)" and nu: "\<not> user_pte s pt va"
    and U: "PTE_U (arch s) \<noteq> 0"
  shows "\<exists>r s' xs'. vmfault s pt va rd = Some (r, s') \<and> umem_inv s' pt xs' \<and> mem_only s s'
    \<and> lazily s s' pt \<and> (r = 0 \<or> user_pte s' pt va \<and> upage s' pt va = r)"
proof -
  note pinv = umem_invD(1) [OF inv] and lev = pte_format.levels_pos [OF fmt]
  have base: "PGROUNDDOWN va = va" using page_base [OF va(1), of va] by simp
  obtain e where w: "walk s pt va False = Some (e, s)" "pte_of s pt va = (if e = 0 then 0 else mw s e)"
    using walk_eq [OF fmt pinv va(2)] by blast
  have triv: ?thesis if "vmfault s pt va rd = Some (0, s)"
    using that inv by (auto simp: lazily_def)
  consider "p_sz s \<le> va" | "va < p_sz s" "pte_of s pt va AND PTE_V (arch s) \<noteq> 0"
    | "va < p_sz s" "pte_of s pt va AND PTE_V (arch s) = 0" "xs = []"
    | q ys where "va < p_sz s" "pte_of s pt va AND PTE_V (arch s) = 0" "xs = q # ys" by (cases xs) fastforce+
  then show ?thesis
  proof cases
    case 1
    then show ?thesis using va by (intro triv) (simp add: vmfault_def)
  next
    case 2
    then have "pte_of s pt va AND PTE_U (arch s) = 0" using nu va by (simp add: user_pte_def)
    with w 2 va(2) show ?thesis
      by (intro triv) (auto simp: vmfault_def base Let_def not_le split: if_splits)
  next
    case 3
    then have "kalloc s = (0, s)" using pt_invD(1) [OF pinv] by (simp add: kalloc_empty)
    with w 3 va(2) show ?thesis
      by (intro triv) (auto simp: vmfault_def base Let_def not_le split: if_splits)
  next
    case 4
    define t where "t = page_memset q 0 (snd (kalloc s))"
    note inv' = inv [unfolded 4(3)]
    note tk = page_taken_pt_inv [OF umem_invD(1) [OF inv'] lev t_def]
    have ar: "arch t = arch s" using tk(4) by (simp add: mem_only_iff)
    note vf = vmfault_takes_page [OF fmt inv' pt va 4(1,2) t_def, of rd]
    show ?thesis
    proof (rule mappages_step [OF fmt [folded ar] tk(1) va(1), of va q "PTE_W (arch s) OR PTE_U (arch s) OR PTE_R (arch s)"])
      show "va < MAXVA (arch t)" "pte_of t pt va AND PTE_V (arch t) = 0" using va 4 tk(3) ar by auto
    next
      fix u assume u: "mappages_loop t pt va va q (PTE_W (arch s) OR PTE_U (arch s) OR PTE_R (arch s)) = Some (-1, u)"
        "maps_frame t pt ys u []" "\<And>x. pte_of u pt x = pte_of t pt x"
      then show ?thesis using vf fault_undone [OF inv' lev t_def u(2,3)] by auto
    next
      fix u zs assume u: "mappages_loop t pt va va q (PTE_W (arch s) OR PTE_U (arch s) OR PTE_R (arch s)) = (if va = va then Some (0, u)
          else mappages_loop u pt (va + PGSIZE) va (q + PGSIZE) (PTE_W (arch s) OR PTE_U (arch s) OR PTE_R (arch s)))"
        "maps_frame t pt ys u zs" "\<And>x. x < MAXVA (arch t) \<Longrightarrow> pte_of u pt x =
           (if in_page va x then leaf_pte (arch t) q (PTE_W (arch s) OR PTE_U (arch s) OR PTE_R (arch s)) else pte_of t pt x)"
      note up = fault_pages [OF fmt inv' t_def va 4(2) U u(2,3)]
      have "pt_inv u pt zs" "set zs \<subseteq> set ys" using u(2) by (auto simp: maps_frame_def)
      then show ?thesis
        using vf u(1) va up(1,2) [of va] up(4) in_page_self fault_inv [OF inv' va(1) _ _ up(1,2)] fault_zeroes [OF inv' lev t_def u(2) up(1-3)]
        by auto
    qed
  qed
qed


text \<open>One round of \<open>copyout\<close> and \<open>copyin\<close> up to the physical address.\<close>

lemma resolve_ok:
  assumes fmt: "pte_format (arch s)" and U: "PTE_U (arch s) \<noteq> 0" and inv: "umem_inv s pt xs"
    and pt: "pt = p_pagetable s" and va: "pg_aligned va" "va < MAXVA (arch s)"
  obtains w pa s' xs' where "walkaddr s pt va = Some w"
    "(if w = 0 then vmfault s pt va False else Some (w, s)) = Some (pa, s')"
    "umem_inv s' pt xs'" "mem_only s s'" "lazily s s' pt"
    "pa = 0 \<or> user_pte s' pt va \<and> upage s' pt va = pa"
proof (cases "user_pte s pt va")
  case True
  then show thesis
    using that [of "upage s pt va" "upage s pt va" s xs] walkaddr_eq [OF fmt umem_invD(1) [OF inv] va(2)] inv
      umem_invD(3) [OF inv] by (auto simp: lazily_def)
next
  case False
  with walkaddr_eq [OF fmt umem_invD(1) [OF inv] va(2)] vmfault_ok [OF fmt inv pt va False U, of False]
  show thesis using that by fastforce
qed

lemma lazily_trans: "lazily s t pt \<Longrightarrow> lazily t u pt \<Longrightarrow> lazily s u pt"
  unfolding lazily_def by metis

lemma PGROUNDDOWN_simps [simp]:
  "pg_aligned (PGROUNDDOWN a)" "PGROUNDDOWN (PGROUNDDOWN a) = PGROUNDDOWN a" "PGROUNDDOWN a \<le> a"
proof -
  show al: "pg_aligned (PGROUNDDOWN a)"
    unfolding pg_aligned_unat PGROUNDDOWN_eq PGSIZE_def
    by (subst unat_sub) (simp_all add: unat_mod_distrib word_le_nat_alt minus_mod_eq_mult_div)
  then show "PGROUNDDOWN (PGROUNDDOWN a) = PGROUNDDOWN a" using page_base [of "PGROUNDDOWN a" "PGROUNDDOWN a"] by simp
  show "PGROUNDDOWN a \<le> a"
    unfolding PGROUNDDOWN_eq PGSIZE_def by (simp add: word_le_nat_alt unat_sub unat_mod_distrib)
qed


lemma vpage_below_MAXVA:
  assumes fmt: "pte_format A" and "pg_aligned v" "v < MAXVA A"
  shows "unat v + 4096 \<le> unat (MAXVA A)" "in_page v x \<Longrightarrow> x < MAXVA A"
proof -
  show le: "unat v + 4096 \<le> unat (MAXVA A)"
    using multiples_apart [of "unat v" 4096 "unat (MAXVA A)"] assms pte_format.maxva_bits(3) [OF fmt]
    by (simp add: pg_aligned_unat word_less_nat_alt)
  assume "in_page v x"
  then have "in_range v 1 x" using in_page_range [OF assms(2), of x] le unat64_lt [of "MAXVA A"] by simp
  then show "x < MAXVA A" using le by (simp add: in_range_def word_less_nat_alt)
qed

lemma unat_add_lt:
  fixes a b :: u64
  assumes "unat a + unat b < 2 ^ 64"
  shows "unat (a + b) = unat a + unat b"
  using assms by (simp add: unat_word_ariths)

text \<open>Writing \<open>n\<close> bytes inside the user page at \<open>va\<close>.\<close>

lemma put_page:
  assumes fmt: "pte_format (arch s)" and inv: "umem_inv s pt xs" and va: "user_pte s pt (PGROUNDDOWN d)"
    and n: "unat (d - PGROUNDDOWN d) + n \<le> 4096"
    and t: "t = s\<lparr>mb := put_bytes (mb s) (upage s pt (PGROUNDDOWN d) + (d - PGROUNDDOWN d)) src k n\<rparr>"
  shows "umem_inv t pt xs" "mem_only s t"
    "umem t pt x = (if unat (x - d) < n then Some (src (k + unat (x - d))) else umem s pt x)"
proof -
  let ?v = "PGROUNDDOWN d" let ?o = "d - PGROUNDDOWN d"
  show mo: "mem_only s t" by (simp add: t mem_only_iff)
  have ar: "arch t = arch s" and mwt: "mw t = mw s" by (simp_all add: t)
  have pte: "pte_of t pt y = pte_of s pt y" for y by (simp add: pte_of_def ar mwt)
  then have up: "user_pte t pt y = user_pte s pt y" "upage t pt y = upage s pt y" for y
    by (simp_all add: user_pte_def upage_def ar)
  have "pt_inv t pt xs"
    using umem_invD(1) [OF inv] kmem_inv_frame [of s xs t]
    by (auto simp: pt_inv_def pt_node_def t page_ok_def)
  then show "umem_inv t pt xs" using inv by (simp add: umem_inv_def up)
  show "umem t pt x = (if unat (x - d) < n then Some (src (k + unat (x - d))) else umem s pt x)"
  proof (cases "unat (x - d) < n")
    case True
    have "unat ((x - d) + ?o) = unat (x - d) + unat ?o" by (rule unat_add_lt) (use True n in simp)
    then have "in_page ?v x" using True n by (simp add: in_page_def PGSIZE_def word_less_nat_alt)
    then have v: "PGROUNDDOWN x = ?v" "x < MAXVA (arch s)"
      using page_base [of ?v x] vpage_below_MAXVA(2) [OF fmt, of ?v x] va by (auto simp: user_pte_def)
    then have "pte_of s pt x = pte_of s pt ?v"
      using same_vpage_pte [OF fmt, of x ?v] va by (simp add: same_vpage_def user_pte_def)
    then have "user_pte s pt x" "upage s pt x = upage s pt ?v"
      using va v by (auto simp: user_pte_def upage_def)
    then show ?thesis using True by (simp add: umem_def up v(1)) (simp add: t put_bytes_def)
  next
    case False
    let ?ox = "x - PGROUNDDOWN x"
    have "put_bytes (mb s) (upage s pt ?v + ?o) src k n (upage s pt x + ?ox) = mb s (upage s pt x + ?ox)"
      if x: "user_pte s pt x"
    proof -
      let ?a = "upage s pt x + ?ox" let ?b = "upage s pt ?v + ?o"
      have "\<not> unat (?a - ?b) < n"
      proof
        assume c: "unat (?a - ?b) < n"
        obtain w where w: "w = ?a - ?b" by blast
        have "?a - upage s pt ?v = w + ?o" by (simp add: w)
        moreover have "unat (w + ?o) = unat w + unat ?o" by (rule unat_add_lt) (use c n w in simp)
        ultimately have "unat (?a - upage s pt ?v) = unat w + unat ?o" by metis
        moreover have "unat w + unat ?o < 4096" using c n unfolding w [symmetric] by linarith
        ultimately have "unat (?a - upage s pt ?v) < 4096" by metis
        then have "in_page (upage s pt ?v) ?a" by (simp add: in_page_def PGSIZE_def word_less_nat_alt)
        then have "upage s pt x = upage s pt ?v"
          using page_base upage_in_page [of s pt x] umem_invD(2) [OF inv] x va by metis
        then have "PGROUNDDOWN x = ?v" using umem_invD(5) [OF inv x va] by (simp add: same_vpage_def)
        with c False \<open>upage s pt x = upage s pt ?v\<close> show False by simp
      qed
      then show ?thesis by (simp add: put_bytes_def)
    qed
    then show ?thesis using False by (simp add: umem_def up) (simp add: t)
  qed
qed


lemma range_split:
  fixes x d n len :: u64
  assumes "n \<le> len"
  shows "unat (x - (d + n)) < unat (len - n) \<longleftrightarrow> unat n \<le> unat (x - d) \<and> unat (x - d) < unat len"
    "unat (x - (d + n)) < unat (len - n) \<Longrightarrow> unat (x - (d + n)) = unat (x - d) - unat n"
proof -
  obtain y where y: "y = x - d" by blast
  obtain z where z: "z = y - n" by blast
  have e: "x - (d + n) = z" by (simp add: y z)
  have l: "unat (len - n) = unat len - unat n" "unat n \<le> unat len"
    using assms by (simp_all add: unat_sub word_le_nat_alt)
  have big: "unat len < 2 ^ 64" by (rule unat64_lt)
  have "unat z = unat y - unat n" if "unat n \<le> unat y"
    unfolding z using that by (simp add: unat_sub word_le_nat_alt)
  moreover have "2 ^ 64 \<le> unat z + unat n" if "\<not> unat n \<le> unat y"
  proof (rule ccontr)
    assume "\<not> 2 ^ 64 \<le> unat z + unat n"
    then have "unat (z + n) = unat z + unat n" by (intro unat_add_lt) simp
    then show False using that by (simp add: z)
  qed
  ultimately show "unat (x - (d + n)) < unat (len - n) \<longleftrightarrow> unat n \<le> unat (x - d) \<and> unat (x - d) < unat len"
    "unat (x - (d + n)) < unat (len - n) \<Longrightarrow> unat (x - (d + n)) = unat (x - d) - unat n"
    unfolding e y [symmetric] l using l(2) big by (cases "unat n \<le> unat y"; linarith)+
qed

text \<open>The number of bytes that one round copies.\<close>

lemma page_chunk:
  fixes d len :: u64
  assumes "0 < len"
  defines "n \<equiv> (if len < PGSIZE - (d - PGROUNDDOWN d) then len else PGSIZE - (d - PGROUNDDOWN d))"
  shows "unat (d - PGROUNDDOWN d) + unat n \<le> 4096" "n \<le> len" "0 < unat n"
    "n \<noteq> len \<Longrightarrow> d + n = PGROUNDDOWN d + PGSIZE"
proof -
  have o: "unat (d - PGROUNDDOWN d) < 4096" by (rule PGROUNDDOWN_offset)
  then have "unat (PGSIZE - (d - PGROUNDDOWN d)) = 4096 - unat (d - PGROUNDDOWN d)"
    by (subst unat_sub) (auto simp: PGSIZE_def word_le_nat_alt)
  with o assms(1) show "unat (d - PGROUNDDOWN d) + unat n \<le> 4096" "n \<le> len" "0 < unat n"
    "n \<noteq> len \<Longrightarrow> d + n = PGROUNDDOWN d + PGSIZE"
    by (auto simp: n_def word_less_nat_alt word_le_nat_alt split: if_splits)
qed

lemma chunk_range:
  fixes x d n len w :: u64
  assumes "n \<le> len" "n \<noteq> len \<Longrightarrow> d + n = w"
  shows "unat (x - w) < unat (len - n) \<longleftrightarrow> unat n \<le> unat (x - d) \<and> unat (x - d) < unat len"
    "unat (x - w) < unat (len - n) \<Longrightarrow> unat (x - w) = unat (x - d) - unat n"
  using range_split [OF assms(1), of x d] assms(2) by (cases "n = len"; auto)+

lemma copyout_loop_ok:
  assumes "pte_format (arch s)" "PTE_U (arch s) \<noteq> 0" "umem_inv s pt xs" "pt = p_pagetable s"
  shows "\<exists>r s' xs'. copyout_loop s pt d src k len = Some (r, s') \<and> umem_inv s' pt xs' \<and> mem_only s s'
    \<and> (r = 0 \<or> r = -1)
    \<and> (r = 0 \<longrightarrow> (\<forall>x. unat (x - d) < unat len \<longrightarrow> umem s' pt x = Some (src (k + unat (x - d)))))
    \<and> (\<forall>x. \<not> unat (x - d) < unat len \<longrightarrow>
         umem s' pt x = umem s pt x \<or> umem s pt x = None \<and> umem s' pt x = Some 0)"
  using assms
proof (induction "unat len" arbitrary: s xs d k len rule: less_induct)
  case less
  note fmt = less.prems(1) and U = less.prems(2) and inv = less.prems(3) and pt = less.prems(4)
  let ?v = "PGROUNDDOWN d" let ?o = "d - PGROUNDDOWN d"
  consider "len = 0" | "0 < len" "MAXVA (arch s) \<le> ?v" | "0 < len" "?v < MAXVA (arch s)"
    by (metis linorder_not_less word_greater_zero_iff)
  then show ?case
  proof cases
    case 1
    then show ?thesis using inv by (auto simp: copyout_loop.simps [of s])
  next
    case 2
    then show ?thesis using inv by (auto simp: copyout_loop.simps [of s] Let_def)
  next
    case 3
    obtain w pa t ys where R: "walkaddr s pt ?v = Some w"
      "(if w = 0 then vmfault s pt ?v False else Some (w, s)) = Some (pa, t)"
      "umem_inv t pt ys" "mem_only s t" "lazily s t pt" "pa = 0 \<or> user_pte t pt ?v \<and> upage t pt ?v = pa"
      by (rule resolve_ok [OF fmt U inv pt PGROUNDDOWN_simps(1) 3(2)])
    have ar: "arch t = arch s" and pt': "pt = p_pagetable t" using R(4) pt by (auto simp: mem_only_iff)
    have fmt': "pte_format (arch t)" using fmt ar by simp
    have v': "?v < MAXVA (arch t)" using 3(2) ar by simp
    obtain e where e: "walk t pt ?v False = Some (e, t)" "pte_of t pt ?v = (if e = 0 then 0 else mw t e)"
      using walk_eq [OF fmt' umem_invD(1) [OF R(3)] v'] by blast
    have stop: ?thesis if "copyout_loop s pt d src k len = Some (-1, t)"
      using that R(3,4,5) by (auto simp: lazily_def)
    show ?thesis
    proof (cases "pa = 0 \<or> mw t e AND PTE_W (arch t) = 0")
      case True
      then show ?thesis
        using R e 3 by (intro stop) (auto simp: copyout_loop.simps [of s] Let_def not_le user_pte_def split: if_splits)
    next
      case False
      then have up: "user_pte t pt ?v" "upage t pt ?v = pa" "e \<noteq> 0"
        using R(6) e by (auto simp: user_pte_def split: if_splits)
      define n where "n = (if len < PGSIZE - ?o then len else PGSIZE - ?o)"
      define t2 where "t2 = t\<lparr>mb := put_bytes (mb t) (pa + ?o) src k (unat n)\<rparr>"
      have n: "unat ?o + unat n \<le> 4096" "n \<le> len" "0 < unat n" "n \<noteq> len \<Longrightarrow> d + n = ?v + PGSIZE"
        using page_chunk [OF 3(1), of d] by (auto simp: n_def)
      note pp = put_page [OF fmt' R(3) up(1) n(1), of t2 src k, unfolded up(2), OF t2_def]
      have eq: "copyout_loop s pt d src k len = copyout_loop t2 pt (?v + PGSIZE) src (k + unat n) (len - n)"
        using R(1,2) e False up 3
        by (auto simp add: copyout_loop.simps [of s] Let_def t2_def n_def [symmetric] dest: leD)
      have ar2: "arch t2 = arch s" "pt = p_pagetable t2" using ar pt' by (simp_all add: t2_def)
      have less': "unat (len - n) < unat len" using n(2,3) by (simp add: unat_sub word_le_nat_alt)
      obtain r s' xs' where IH: "copyout_loop t2 pt (?v + PGSIZE) src (k + unat n) (len - n) = Some (r, s')"
        "umem_inv s' pt xs'" "mem_only t2 s'" "r = 0 \<or> r = -1"
        "r = 0 \<Longrightarrow> unat (x - (?v + PGSIZE)) < unat (len - n) \<Longrightarrow>
           umem s' pt x = Some (src (k + unat n + unat (x - (?v + PGSIZE))))"
        "\<not> unat (x - (?v + PGSIZE)) < unat (len - n) \<Longrightarrow>
         umem s' pt x = umem t2 pt x \<or> umem t2 pt x = None \<and> umem s' pt x = Some 0" for x
        using less.hyps [OF less', of t2 ys "?v + PGSIZE" "k + unat n"] fmt U pp(1) ar2 by metis
      note second = chunk_range [OF n(2,4)]
      have mo: "mem_only s s'" using R(4) pp(2) IH(3) mem_only_trans by blast
      have ok: "umem s' pt x = Some (src (k + unat (x - d)))" if "r = 0" "unat (x - d) < unat len" for x
        using pp(3) [of x] IH(5,6) [of x] second [of x] that by (cases "unat (x - d) < unat n") auto
      have fr: "umem s' pt x = umem s pt x \<or> umem s pt x = None \<and> umem s' pt x = Some 0"
        if "\<not> unat (x - d) < unat len" for x
      proof -
        have "\<not> unat (x - d) < unat n" using that n(2) by (simp add: word_le_nat_alt)
        then have "umem t2 pt x = umem t pt x" using pp(3) [of x] by simp
        moreover have "umem t pt x = umem s pt x \<or> umem s pt x = None \<and> umem t pt x = Some 0"
          using R(5) by (simp add: lazily_def)
        ultimately show ?thesis using IH(6) [of x] second [of x] that by auto
      qed
      show ?thesis using eq IH(1,2,4) mo ok fr by auto
    qed
  qed
qed


lemma get_page:
  assumes fmt: "pte_format (arch s)" and va: "user_pte s pt (PGROUNDDOWN d)"
    and n: "unat (d - PGROUNDDOWN d) + n \<le> 4096" and x: "unat (x - d) < n"
  shows "umem s pt x = Some (get_bytes (mb s) (upage s pt (PGROUNDDOWN d) + (d - PGROUNDDOWN d)) (unat (x - d)))"
proof -
  let ?v = "PGROUNDDOWN d" let ?o = "d - PGROUNDDOWN d"
  have "unat ((x - d) + ?o) = unat (x - d) + unat ?o" by (rule unat_add_lt) (use x n in simp)
  then have "in_page ?v x" using x n by (simp add: in_page_def PGSIZE_def word_less_nat_alt)
  then have v: "PGROUNDDOWN x = ?v" "x < MAXVA (arch s)"
    using page_base [of ?v x] vpage_below_MAXVA(2) [OF fmt, of ?v x] va by (auto simp: user_pte_def)
  then have "pte_of s pt x = pte_of s pt ?v"
    using same_vpage_pte [OF fmt, of x ?v] va by (simp add: same_vpage_def user_pte_def)
  then have "user_pte s pt x" "upage s pt x = upage s pt ?v"
    using va v by (auto simp: user_pte_def upage_def)
  then show ?thesis by (simp add: umem_def v(1) get_bytes_def)
qed

lemma copyin_loop_ok:
  assumes "pte_format (arch s)" "PTE_U (arch s) \<noteq> 0" "umem_inv s pt xs" "pt = p_pagetable s"
  shows "\<exists>r dst' s' xs'. copyin_loop s pt dst k d len = Some (r, dst', s') \<and> umem_inv s' pt xs'
    \<and> mem_only s s' \<and> lazily s s' pt \<and> (r = 0 \<or> r = -1)
    \<and> (r = 0 \<longrightarrow> (\<forall>x. unat (x - d) < unat len \<longrightarrow> umem s' pt x = Some (dst' (k + unat (x - d)))))
    \<and> (\<forall>j. j < k \<or> k + unat len \<le> j \<longrightarrow> dst' j = dst j)"
  using assms
proof (induction "unat len" arbitrary: s xs dst d k len rule: less_induct)
  case less
  note fmt = less.prems(1) and U = less.prems(2) and inv = less.prems(3) and pt = less.prems(4)
  let ?v = "PGROUNDDOWN d" let ?o = "d - PGROUNDDOWN d"
  consider "len = 0" | "0 < len" "MAXVA (arch s) \<le> ?v" | "0 < len" "?v < MAXVA (arch s)"
    by (metis linorder_not_less word_greater_zero_iff)
  then show ?case
  proof cases
    case 1
    then show ?thesis using inv by (auto simp: copyin_loop.simps [of s] lazily_def)
  next
    case 2
    then show ?thesis using inv by (auto simp: copyin_loop.simps [of s] Let_def lazily_def)
  next
    case 3
    obtain w pa t ys where R: "walkaddr s pt ?v = Some w"
      "(if w = 0 then vmfault s pt ?v False else Some (w, s)) = Some (pa, t)"
      "umem_inv t pt ys" "mem_only s t" "lazily s t pt" "pa = 0 \<or> user_pte t pt ?v \<and> upage t pt ?v = pa"
      by (rule resolve_ok [OF fmt U inv pt PGROUNDDOWN_simps(1) 3(2)])
    have ar: "arch t = arch s" and pt': "pt = p_pagetable t" using R(4) pt by (auto simp: mem_only_iff)
    have fmt': "pte_format (arch t)" using fmt ar by simp
    show ?thesis
    proof (cases "pa = 0")
      case True
      then have "copyin_loop s pt dst k d len = Some (-1, dst, t)"
        using R 3 by (auto simp: copyin_loop.simps [of s] Let_def not_le split: if_splits)
      then show ?thesis using R(3,4,5) by auto
    next
      case False
      then have up: "user_pte t pt ?v" "upage t pt ?v = pa" using R(6) by auto
      define n where "n = (if len < PGSIZE - ?o then len else PGSIZE - ?o)"
      define dst2 where "dst2 = copy_into dst k (get_bytes (mb t) (pa + ?o)) 0 (unat n)"
      have n: "unat ?o + unat n \<le> 4096" "n \<le> len" "0 < unat n" "n \<noteq> len \<Longrightarrow> d + n = ?v + PGSIZE"
        using page_chunk [OF 3(1), of d] by (auto simp: n_def)
      have eq: "copyin_loop s pt dst k d len = copyin_loop t pt dst2 (k + unat n) (?v + PGSIZE) (len - n)"
        using R(1,2) False up 3
        by (auto simp add: copyin_loop.simps [of s] Let_def dst2_def n_def [symmetric] dest: leD)
      have less': "unat (len - n) < unat len" using n(2,3) by (simp add: unat_sub word_le_nat_alt)
      obtain r dst' s' xs' where IH: "copyin_loop t pt dst2 (k + unat n) (?v + PGSIZE) (len - n) = Some (r, dst', s')"
        "umem_inv s' pt xs'" "mem_only t s'" "lazily t s' pt" "r = 0 \<or> r = -1"
        "r = 0 \<Longrightarrow> unat (x - (?v + PGSIZE)) < unat (len - n) \<Longrightarrow>
           umem s' pt x = Some (dst' (k + unat n + unat (x - (?v + PGSIZE))))"
        "j < k + unat n \<or> k + unat n + unat (len - n) \<le> j \<Longrightarrow> dst' j = dst2 j" for x j
        using less.hyps [OF less', of t ys dst2 "k + unat n" "?v + PGSIZE"] fmt' U R(3) ar pt' by metis
      have len: "unat (len - n) = unat len - unat n" "unat n \<le> unat len"
        using n(2) by (simp_all add: unat_sub word_le_nat_alt)
      have "umem s' pt x = Some (dst' (k + unat (x - d)))" if "r = 0" "unat (x - d) < unat len" for x
      proof (cases "unat (x - d) < unat n")
        case True
        have "umem t pt x = Some (dst2 (k + unat (x - d)))"
          using get_page [OF fmt' up(1) n(1) True] True up(2) by (simp add: dst2_def)
        then have "umem s' pt x = Some (dst2 (k + unat (x - d)))"
          using IH(4) unfolding lazily_def by (metis option.distinct(1))
        then show ?thesis using IH(7) [of "k + unat (x - d)"] True by simp
      next
        case False
        then have "n \<noteq> len" using that by auto
        then show ?thesis
          using n(4) range_split [OF n(2), of x d] that False IH(6) [of x] by auto
      qed
      moreover have "dst' j = dst j" if "j < k \<or> k + unat len \<le> j" for j
        using IH(7) [of j] that len by (auto simp: dst2_def)
      ultimately show ?thesis
        using eq IH(1,2,5) mem_only_trans [OF R(4) IH(3)] lazily_trans [OF R(5) IH(4)] by auto
    qed
  qed
qed

subsection \<open>Copying to and from mapped memory does not fail\<close>

definition uwritable :: "'a vm_scheme \<Rightarrow> u64 \<Rightarrow> u64 \<Rightarrow> bool" where
  "uwritable s pt va \<longleftrightarrow> user_pte s pt va \<and> pte_of s pt va AND PTE_W (arch s) \<noteq> 0"

lemma mapped_page:
  assumes fmt: "pte_format (arch s)" and d: "user_pte s pt d"
  shows "PGROUNDDOWN d < MAXVA (arch s)" "pte_of s pt (PGROUNDDOWN d) = pte_of s pt d" "user_pte s pt (PGROUNDDOWN d)"
proof -
  have dM: "d < MAXVA (arch s)" using d by (simp add: user_pte_def)
  then show v: "PGROUNDDOWN d < MAXVA (arch s)" using PGROUNDDOWN_simps(3) le_less_trans by blast
  then show e: "pte_of s pt (PGROUNDDOWN d) = pte_of s pt d"
    using same_vpage_pte [OF fmt _ v dM] by (simp add: same_vpage_def)
  show "user_pte s pt (PGROUNDDOWN d)" using d v by (simp add: user_pte_def e)
qed

lemma range_rest:
  assumes "0 < len" "n = (if len < PGSIZE - (d - PGROUNDDOWN d) then len else PGSIZE - (d - PGROUNDDOWN d))"
    and "unat (x - (PGROUNDDOWN d + PGSIZE)) < unat (len - n)"
  shows "unat (x - d) < unat len"
proof (cases "n = len")
  case False
  note n = page_chunk [OF assms(1), of d, folded assms(2)]
  show ?thesis using n(4) [OF False] range_split(1) [OF n(2), of x d] assms(3) by simp
qed (use assms(3) in simp)

lemma copyin_loop_mapped:
  assumes fmt: "pte_format (arch s)" and inv: "umem_inv s pt xs"
    and "\<And>x. unat (x - d) < unat len \<Longrightarrow> user_pte s pt x"
  shows "\<exists>dst'. copyin_loop s pt dst k d len = Some (0, dst', s)"
  using assms(3)
proof (induction "unat len" arbitrary: dst d k len rule: less_induct)
  case less
  show ?case
  proof (cases "len = 0")
    case False
    then have pos: "0 < len" by (simp add: word_greater_zero_iff)
    have d: "user_pte s pt d" using less.prems [of d] pos by (simp add: word_less_nat_alt)
    note v = mapped_page [OF fmt d]
    define n where "n = (if len < PGSIZE - (d - PGROUNDDOWN d) then len else PGSIZE - (d - PGROUNDDOWN d))"
    note n = page_chunk [OF pos, of d, folded n_def]
    have w: "walkaddr s pt (PGROUNDDOWN d) = Some (upage s pt (PGROUNDDOWN d))" "upage s pt (PGROUNDDOWN d) \<noteq> 0"
      using walkaddr_eq [OF fmt umem_invD(1) [OF inv] v(1)] v(3) umem_invD(3) [OF inv v(3)] by simp_all
    define dst2 where "dst2 = copy_into dst k (get_bytes (mb s) (upage s pt (PGROUNDDOWN d) + (d - PGROUNDDOWN d))) 0 (unat n)"
    have "copyin_loop s pt dst k d len = copyin_loop s pt dst2 (k + unat n) (PGROUNDDOWN d + PGSIZE) (len - n)"
      using pos v(1) w by (simp add: copyin_loop.simps [of s pt dst k d] Let_def dst2_def n_def not_le [symmetric])
    moreover have "\<exists>dst'. copyin_loop s pt dst2 (k + unat n) (PGROUNDDOWN d + PGSIZE) (len - n) = Some (0, dst', s)"
      by (rule less.hyps)
        (use n(2,3) less.prems range_rest [OF pos n_def] in \<open>auto simp: unat_sub word_le_nat_alt\<close>)
    ultimately show ?thesis by simp
  qed (simp add: copyin_loop.simps [of s])
qed

lemma mb_irrelevant [simp]:
  "user_pte (s\<lparr>mb := m\<rparr>) pt va = user_pte s pt va" "pte_of (s\<lparr>mb := m\<rparr>) pt va = pte_of s pt va"
  "uwritable (s\<lparr>mb := m\<rparr>) pt va = uwritable s pt va" "umem_inv (s\<lparr>mb := m\<rparr>) pt xs = umem_inv s pt xs"
proof -
  show pte: "pte_of (s\<lparr>mb := m\<rparr>) pt va = pte_of s pt va" for va by (simp add: pte_of_def)
  show up: "user_pte (s\<lparr>mb := m\<rparr>) pt va = user_pte s pt va" for va by (simp add: user_pte_def pte)
  show "uwritable (s\<lparr>mb := m\<rparr>) pt va = uwritable s pt va" by (simp add: uwritable_def pte up)
  have "page_ok (s\<lparr>mb := m\<rparr>) = page_ok s" by (simp add: page_ok_def fun_eq_iff)
  then show "umem_inv (s\<lparr>mb := m\<rparr>) pt xs = umem_inv s pt xs"
    by (simp add: umem_inv_def pt_inv_def up pt_node_def upage_def pte kmem_inv_def)
qed

lemma copyout_loop_mapped:
  assumes "pte_format (arch s)" "umem_inv s pt xs" "\<And>x. unat (x - d) < unat len \<Longrightarrow> uwritable s pt x"
  shows "\<exists>m. copyout_loop s pt d src k len = Some (0, s\<lparr>mb := m\<rparr>)"
  using assms
proof (induction "unat len" arbitrary: s d k len rule: less_induct)
  case less
  show ?case
  proof (cases "len = 0")
    case True
    then show ?thesis by (intro exI [of _ "mb s"]) (simp add: copyout_loop.simps [of s])
  next
    case False
    then have pos: "0 < len" by (simp add: word_greater_zero_iff)
    have d: "user_pte s pt d" "pte_of s pt d AND PTE_W (arch s) \<noteq> 0"
      using less.prems(3) [of d] pos by (simp_all add: word_less_nat_alt uwritable_def)
    note v = mapped_page [OF less.prems(1) d(1)]
    define n where "n = (if len < PGSIZE - (d - PGROUNDDOWN d) then len else PGSIZE - (d - PGROUNDDOWN d))"
    note n = page_chunk [OF pos, of d, folded n_def]
    have w: "walkaddr s pt (PGROUNDDOWN d) = Some (upage s pt (PGROUNDDOWN d))" "upage s pt (PGROUNDDOWN d) \<noteq> 0"
      using walkaddr_eq [OF less.prems(1) umem_invD(1) [OF less.prems(2)] v(1)] v(3) umem_invD(3) [OF less.prems(2) v(3)]
      by simp_all
    obtain e where e: "walk s pt (PGROUNDDOWN d) False = Some (e, s)"
        "pte_of s pt (PGROUNDDOWN d) = (if e = 0 then 0 else mw s e)"
      using walk_eq [OF less.prems(1) umem_invD(1) [OF less.prems(2)] v(1)] by blast
    have e': "e \<noteq> 0" "mw s e AND PTE_W (arch s) \<noteq> 0" using e(2) d(2) v(2) by (auto split: if_splits)
    define m where "m = put_bytes (mb s) (upage s pt (PGROUNDDOWN d) + (d - PGROUNDDOWN d)) src k (unat n)"
    have "copyout_loop s pt d src k len
        = copyout_loop (s\<lparr>mb := m\<rparr>) pt (PGROUNDDOWN d + PGSIZE) src (k + unat n) (len - n)"
      using pos v(1) w e(1) e' by (simp add: copyout_loop.simps [of s pt d] Let_def m_def n_def not_le [symmetric])
    moreover have "\<exists>m'. copyout_loop (s\<lparr>mb := m\<rparr>) pt (PGROUNDDOWN d + PGSIZE) src (k + unat n) (len - n)
        = Some (0, s\<lparr>mb := m, mb := m'\<rparr>)"
      by (rule less.hyps)
        (use n(2,3) less.prems range_rest [OF pos n_def] in \<open>auto simp: unat_sub word_le_nat_alt\<close>)
    ultimately show ?thesis by auto
  qed
qed

lemma supported_U: "A \<in> {riscv_arch, loongarch_arch} \<Longrightarrow> PTE_U A \<noteq> 0"
  by auto

text \<open>C18: \<open>copyout\<close> writes exactly the requested user bytes.  For the current process' page table it
  always returns, with 0 or -1; when it returns 0, every byte of \<open>[dstva, dstva + len)\<close> holds the byte
  of the source; outside that range user memory is unchanged except that zero-filled pages may
  have appeared; the page table stays well-formed and two virtual pages never share a frame; when all
  the bytes are mapped and writable, it returns 0.\<close>

theorem copyout_correct:
  assumes "arch s \<in> {riscv_arch, loongarch_arch}" and "umem_inv s (p_pagetable s) xs"
  shows "\<exists>r s' xs'. copyout s (p_pagetable s) dstva src len = Some (r, s')
    \<and> umem_inv s' (p_pagetable s) xs' \<and> mem_only s s' \<and> (r = 0 \<or> r = -1)
    \<and> (r = 0 \<longrightarrow> (\<forall>x. unat (x - dstva) < unat len \<longrightarrow> umem s' (p_pagetable s) x = Some (src (unat (x - dstva)))))
    \<and> (\<forall>x. \<not> unat (x - dstva) < unat len \<longrightarrow>
         umem s' (p_pagetable s) x = umem s (p_pagetable s) x
         \<or> umem s (p_pagetable s) x = None \<and> umem s' (p_pagetable s) x = Some 0)
    \<and> ((\<forall>x. unat (x - dstva) < unat len \<longrightarrow> uwritable s (p_pagetable s) x) \<longrightarrow> r = 0)"
proof -
  note fmt = supported_arch_format [OF assms(1)]
  have "r = 0" if "\<forall>x. unat (x - dstva) < unat len \<longrightarrow> uwritable s (p_pagetable s) x"
      "copyout_loop s (p_pagetable s) dstva src 0 len = Some (r, s')" for r s'
    using copyout_loop_mapped [OF fmt assms(2), of dstva len src 0] that by auto
  then show ?thesis
    using copyout_loop_ok [OF fmt supported_U [OF assms(1)] assms(2) refl, of dstva src 0 len]
    unfolding copyout_def add_0 by blast
qed

text \<open>C19: \<open>copyin\<close> reads exactly the requested user bytes.  For the current process' page table it
  always returns; when it returns 0, the destination holds the user bytes of \<open>[srcva, srcva + len)\<close> and is
  unchanged outside; user memory changes only by zero-filled pages that appear; when all the bytes are
  mapped, it returns 0.\<close>

theorem copyin_correct:
  assumes "arch s \<in> {riscv_arch, loongarch_arch}" and "umem_inv s (p_pagetable s) xs"
  shows "\<exists>r dst' s' xs'. copyin s (p_pagetable s) dst k srcva len = Some (r, dst', s')
    \<and> umem_inv s' (p_pagetable s) xs' \<and> mem_only s s' \<and> lazily s s' (p_pagetable s) \<and> (r = 0 \<or> r = -1)
    \<and> (r = 0 \<longrightarrow> (\<forall>x. unat (x - srcva) < unat len \<longrightarrow>
         umem s' (p_pagetable s) x = Some (dst' (k + unat (x - srcva)))))
    \<and> (\<forall>j. j < k \<or> k + unat len \<le> j \<longrightarrow> dst' j = dst j)
    \<and> ((\<forall>x. unat (x - srcva) < unat len \<longrightarrow> umem s (p_pagetable s) x \<noteq> None) \<longrightarrow> r = 0)"
proof -
  note fmt = supported_arch_format [OF assms(1)]
  have "r = 0" if "\<forall>x. unat (x - srcva) < unat len \<longrightarrow> umem s (p_pagetable s) x \<noteq> None"
      "copyin_loop s (p_pagetable s) dst k srcva len = Some (r, dst', s')" for r dst' s'
    using copyin_loop_mapped [OF fmt assms(2), of srcva len dst k] that by (auto simp: umem_def split: if_splits)
  then show ?thesis
    using copyin_loop_ok [OF fmt supported_U [OF assms(1)] assms(2) refl, of dst k srcva len]
    unfolding copyin_def by blast
qed

lemma vm_demo_umem: "umem_inv vm_demo (p_pagetable vm_demo) [0x5000, 0x6000, 0x7000]"
  "arch vm_demo \<in> {riscv_arch, loongarch_arch}"
proof -
  have "\<not> user_pte vm_demo 0x2000 va" for va using vm_demo_inv(3) by (simp add: user_pte_def)
  moreover have "p_pagetable vm_demo = 0x2000" by (simp add: vm_demo_def)
  ultimately show "umem_inv vm_demo (p_pagetable vm_demo) [0x5000, 0x6000, 0x7000]"
    using vm_demo_inv(2) by (simp add: umem_inv_def)
qed (simp add: vm_demo_def)

theorem copyout_correct_witness:
  "\<exists>r s' xs'. copyout vm_demo (p_pagetable vm_demo) 0x1FFE (\<lambda>i. 7) 4 = Some (r, s')
    \<and> umem_inv s' (p_pagetable vm_demo) xs' \<and> (r = 0 \<or> r = -1)"
  using copyout_correct [OF vm_demo_umem(2,1), of "0x1FFE" "\<lambda>i. 7" 4] by blast

theorem copyin_correct_witness:
  "\<exists>r dst' s' xs'. copyin vm_demo (p_pagetable vm_demo) (\<lambda>_. 1) 0 0x10 8 = Some (r, dst', s')
    \<and> umem_inv s' (p_pagetable vm_demo) xs' \<and> dst' 8 = 1"
  using copyin_correct [OF vm_demo_umem(2,1), of "\<lambda>_. 1" 0 "0x10" 8] by auto

subsection \<open>What copying cannot change\<close>

lemma kalloc_frame: "kalloc s = (r, s') \<Longrightarrow> mem_only s s'"
  using mem_only_kalloc [of s] by simp

lemma kfree_frame: "kfree s p = Some s' \<Longrightarrow> mem_only s s'"
  by (cases s) (auto simp: kfree_def ensure_def Let_def mem_only_def page_memset_def split: if_splits)

lemma walk_from_frame: "walk_from s pt va al l = (r, s') \<Longrightarrow> mem_only s s'"
proof (induction l arbitrary: s pt)
  case (Suc l)
  obtain q t where k: "kalloc s = (q, t)" by fastforce
  let ?pte = "pt + 8 * PX (Suc l) va"
  let ?u = "page_memset q 0 t"
  have st: "mem_only s t" by (rule kalloc_frame [OF k])
  have "mem_only s (?u\<lparr>mw := (mw ?u)(?pte := PA2PTE (arch ?u) q OR PTE_V (arch ?u))\<rparr>)"
    by (rule mem_only_trans [OF st mem_only_trans [OF mem_only_memset mem_only_mw]])
  then show ?case
    using Suc.prems Suc.IH mem_only_trans st
    by (auto simp: Let_def k split: if_splits) blast+
qed simp

lemma walk_frame: "walk s pt va al = Some (r, s') \<Longrightarrow> mem_only s s'"
  by (auto simp: walk_def ensure_def split: if_splits intro: walk_from_frame)

lemma mappages_loop_frame: "mappages_loop s pt a e pa perm = Some y \<Longrightarrow> mem_only s (snd y)"
proof (erule mappages_loop.raw_induct [where P = "\<lambda>s _ _ _ _ _ y. mem_only s (snd y)", rotated], goal_cases)
  case (1 f s pt a e pa perm y)
  then obtain pte t where w: "walk s pt a True = Some (pte, t)" by (auto simp: bind_eq_Some_conv)
  define u where "u = t\<lparr>mw := (mw t)(pte := PA2PTE (arch t) pa OR hal_pte_encode_perm (arch t) perm OR PTE_V_CACHE (arch t))\<rparr>"
  have st: "mem_only s t" "mem_only t u" using walk_frame [OF w] by (simp_all add: u_def)
  have f: "f u pt (a + PGSIZE) e (pa + PGSIZE) perm = Some y \<Longrightarrow> mem_only s (snd y)"
    using 1(1) st mem_only_trans by blast
  have "mem_only s u" using st by (rule mem_only_trans)
  with 1(2) st f show ?case
    unfolding w by (simp add: ensure_def u_def [symmetric] Let_def split: if_splits) auto
qed

lemma mappages_frame: "mappages s pt va sz pa perm = Some (r, s') \<Longrightarrow> mem_only s s'"
  using mappages_loop_frame by (fastforce simp: mappages_def ensure_def split: if_splits)

lemma vmfault_frame:
  assumes "vmfault s pt va rd = Some (r, s')"
  shows "mem_only s s'"
proof (cases "MAXVA (arch s) \<le> va \<or> p_sz s \<le> va")
  case True
  then show ?thesis using assms by (auto simp: vmfault_def split: if_splits)
next
  case False
  then obtain pte t where w: "walk s pt (PGROUNDDOWN va) False = Some (pte, t)"
    using assms by (auto simp: vmfault_def Let_def bind_eq_Some_conv)
  obtain q u where k: "kalloc t = (q, u)" by fastforce
  have 1: "mem_only s t" "mem_only t u" "mem_only u (page_memset q 0 u)" using walk_frame [OF w] kalloc_frame [OF k] by auto
  have m: "mem_only s v" if "mappages (page_memset q 0 u) pp va' sz q pm = Some (x, v)" for pp va' sz pm x v
    using 1 mappages_frame [OF that] by (meson mem_only_trans)
  have tu: "mem_only s u" using 1 by (meson mem_only_trans)
  have kf: "mem_only s v" if "mappages (page_memset q 0 u) pp va' sz q pm = Some (x, t')" "kfree t' q = Some v" for pp va' sz pm x t' v
    using m [OF that(1)] kfree_frame [OF that(2)] by (rule mem_only_trans)
  show ?thesis
    using assms False w 1(1) tu m kf
    by (simp add: vmfault_def Let_def k bind_eq_Some_conv split: if_splits) blast+
qed


lemma mem_only_mb [simp]: "mem_only s (s\<lparr>mb := m\<rparr>)"
  by (simp add: mem_only_iff)

lemma copyout_loop_frame: "copyout_loop s pt va src k len = Some y \<Longrightarrow> mem_only s (snd y)"
proof (erule copyout_loop.raw_induct [where P = "\<lambda>s _ _ _ _ _ y. mem_only s (snd y)", rotated], goal_cases)
  case (1 f s pt va src k len y)
  show ?case
  proof (cases "0 < len \<and> \<not> MAXVA (arch s) \<le> PGROUNDDOWN va")
    case True
    with 1(2) obtain pa pa' t where w: "walkaddr s pt (PGROUNDDOWN va) = Some pa"
        "(if pa = 0 then vmfault s pt (PGROUNDDOWN va) False else Some (pa, s)) = Some (pa', t)"
      by (auto simp: Let_def bind_eq_Some_conv split: if_splits)
    have st: "mem_only s t" using w(2) vmfault_frame by (auto split: if_splits)
    show ?thesis
    proof (cases "pa' = 0")
      case True': True
      then show ?thesis using 1(2) True w st by (auto simp: Let_def)
    next
      case False
      with 1(2) True w obtain pte u where u: "walk t pt (PGROUNDDOWN va) False = Some (pte, u)"
        by (auto simp: Let_def bind_eq_Some_conv)
      have su: "mem_only s u" using st walk_frame [OF u] by (rule mem_only_trans)
      have "mem_only s (snd y)" if "f (u\<lparr>mb := m\<rparr>) p v q j l = Some y" for m p v q j l
        using 1(1) [OF that] su mem_only_mb mem_only_trans by blast
      then show ?thesis
        using 1(2) True w False u su by (auto simp: Let_def ensure_def split: if_splits)
    qed
  qed (use 1(2) in \<open>auto simp: Let_def split: if_splits\<close>)
qed

lemma copyin_loop_frame: "copyin_loop s pt dst k va len = Some y \<Longrightarrow> mem_only s (snd (snd y))"
proof (erule copyin_loop.raw_induct [where P = "\<lambda>s _ _ _ _ _ y. mem_only s (snd (snd y))", rotated], goal_cases)
  case (1 f s pt dst k va len y)
  show ?case
  proof (cases "0 < len \<and> \<not> MAXVA (arch s) \<le> PGROUNDDOWN va")
    case True
    with 1(2) obtain pa pa' t where w: "walkaddr s pt (PGROUNDDOWN va) = Some pa"
        "(if pa = 0 then vmfault s pt (PGROUNDDOWN va) False else Some (pa, s)) = Some (pa', t)"
      by (auto simp: Let_def bind_eq_Some_conv split: if_splits)
    have st: "mem_only s t" using w(2) vmfault_frame by (auto split: if_splits)
    have "mem_only s (snd (snd y))" if "f t p d j v l = Some y" for p d j v l
      using 1(1) [OF that] st mem_only_trans by blast
    then show ?thesis using 1(2) True w st by (auto simp: Let_def split: if_splits)
  qed (use 1(2) in \<open>auto simp: Let_def split: if_splits\<close>)
qed

lemma either_copyout_frame: "either_copyout s u dst kb src k len = Some (r, kb', s') \<Longrightarrow> mem_only s s'"
  by (auto simp: either_copyout_def copyout_def bind_eq_Some_conv split: if_splits dest!: copyout_loop_frame)

lemma either_copyin_frame: "either_copyin s dst k u src kb len = Some (r, d', s') \<Longrightarrow> mem_only s s'"
  by (auto simp: either_copyin_def copyin_def split: if_splits dest!: copyin_loop_frame)

end
