(* ===== verification/Bio.thy ===== *)
theory Bio
  imports Umem
begin

text \<open>
  \<^verbatim>\<open>kernel/sleeplock.c\<close>, \<^verbatim>\<open>kernel/bio.c\<close> and the RAM disk \<^verbatim>\<open>hal/loongarch/hal_ramdisk.c\<close> below it.

  A process that finds a sleep lock taken does not return until another process gives the lock up;
  in the model of one running process \<open>acquiresleep\<close> is then \<^const>\<open>None\<close>.  Buffers are indices
  into \<open>bcache.buf\<close>; the doubly linked list through \<open>prev\<close>/\<open>next\<close> is the list \<open>lru\<close> of indices, most
  recently used first.  A block is copied as a whole by the disk driver.  The field \<open>dwrites\<close> is a
  ghost: the sequence of block writes the disk has performed.
\<close>

subsection \<open>Sleep locks\<close>

record sleeplock =
  locked :: bool
  lk_pid :: u32

definition initsleeplock :: sleeplock where
  "initsleeplock = \<lparr>locked = False, lk_pid = 0\<rparr>"

definition acquiresleep :: "u32 \<Rightarrow> sleeplock \<Rightarrow> sleeplock option" where
  "acquiresleep pid lk = (if locked lk then None else Some \<lparr>locked = True, lk_pid = pid\<rparr>)"

definition releasesleep :: "sleeplock \<Rightarrow> sleeplock" where
  "releasesleep lk = lk\<lparr>locked := False, lk_pid := 0\<rparr>"

definition holdingsleep :: "u32 \<Rightarrow> sleeplock \<Rightarrow> bool" where
  "holdingsleep pid lk \<longleftrightarrow> locked lk \<and> lk_pid lk = pid"

subsection \<open>The buffer cache\<close>

definition NBUF :: nat where
  "NBUF = 30"

definition BSIZE :: nat where
  "BSIZE = 1024"

definition HAL_NDISK :: u32 where
  "HAL_NDISK = 3"

record buf =
  b_valid :: bool
  b_disk :: bool
  b_dev :: u32
  b_blockno :: u32
  b_lock :: sleeplock
  b_refcnt :: u32
  b_data :: buffer

record bio = vm +
  bufs :: "nat \<Rightarrow> buf"
  lru :: "nat list"
  disk :: "u32 \<Rightarrow> u32 \<Rightarrow> buffer"
  dwrites :: "(u32 \<times> u32 \<times> buffer) list"

definition upd_buf :: "nat \<Rightarrow> (buf \<Rightarrow> buf) \<Rightarrow> 'a bio_scheme \<Rightarrow> 'a bio_scheme" where
  "upd_buf b f s = s\<lparr>bufs := (bufs s)(b := f (bufs s b))\<rparr>"

definition binit :: "'a bio_scheme \<Rightarrow> 'a bio_scheme" where
  "binit s = s\<lparr>bufs := (\<lambda>b. (bufs s b)\<lparr>b_lock := initsleeplock\<rparr>), lru := rev [0..<NBUF]\<rparr>"

definition acquire_buf :: "'a bio_scheme \<Rightarrow> nat \<Rightarrow> 'a bio_scheme option" where
  "acquire_buf s b = do {
     lk \<leftarrow> acquiresleep (p_pid s) (b_lock (bufs s b));
     Some (upd_buf b (b_lock_update (\<lambda>_. lk)) s)
   }"

definition bget :: "'a bio_scheme \<Rightarrow> u32 \<Rightarrow> u32 \<Rightarrow> (nat \<times> 'a bio_scheme) option" where
  "bget s dev blockno =
     (case find (\<lambda>b. b_dev (bufs s b) = dev \<and> b_blockno (bufs s b) = blockno) (lru s) of
        Some b \<Rightarrow> do {
          s \<leftarrow> acquire_buf (upd_buf b (b_refcnt_update (\<lambda>r. r + 1)) s) b;
          Some (b, s)
        }
      | None \<Rightarrow>
          (case find (\<lambda>b. b_refcnt (bufs s b) = 0) (rev (lru s)) of
             Some b \<Rightarrow> do {
               s \<leftarrow> acquire_buf (upd_buf b (\<lambda>B. B\<lparr>b_dev := dev, b_blockno := blockno,
                       b_valid := False, b_refcnt := 1\<rparr>) s) b;
               Some (b, s)
             }
           | None \<Rightarrow> panic ''bget: no buffers''))"

text \<open>\<open>RAMDISK_STRIDE / BSIZE\<close> blocks per RAM disk.\<close>

definition RAMDISK_BLOCKS :: u32 where
  "RAMDISK_BLOCKS = 16384"

definition hal_disk_rw :: "'a bio_scheme \<Rightarrow> nat \<Rightarrow> bool \<Rightarrow> 'a bio_scheme option" where
  "hal_disk_rw s b wr =
     (let dev = b_dev (bufs s b); blockno = b_blockno (bufs s b) in do {
        ensure (1 \<le> dev \<and> dev \<le> HAL_NDISK) ''ramdisk_for_dev'';
        ensure (blockno < RAMDISK_BLOCKS) ''hal_disk_rw: beyond ramdisk'';
        let s = (if wr
          then s\<lparr>disk := (disk s)(dev := (disk s dev)(blockno := b_data (bufs s b))),
                 dwrites := dwrites s @ [(dev, blockno, b_data (bufs s b))]\<rparr>
          else upd_buf b (b_data_update (\<lambda>_. disk s dev blockno)) s);
        Some (upd_buf b (b_disk_update (\<lambda>_. False)) s)
      })"

definition bread :: "'a bio_scheme \<Rightarrow> u32 \<Rightarrow> u32 \<Rightarrow> (nat option \<times> 'a bio_scheme) option" where
  "bread s dev blockno =
     (if dev < 1 \<or> HAL_NDISK < dev then Some (None, s)
      else do {
        (b, s) \<leftarrow> bget s dev blockno;
        if \<not> b_valid (bufs s b) then do {
          s \<leftarrow> hal_disk_rw s b False;
          Some (Some b, upd_buf b (b_valid_update (\<lambda>_. True)) s)
        } else Some (Some b, s)
      })"

definition bwrite :: "'a bio_scheme \<Rightarrow> nat \<Rightarrow> 'a bio_scheme option" where
  "bwrite s b = do {
     ensure (holdingsleep (p_pid s) (b_lock (bufs s b))) ''bwrite'';
     hal_disk_rw s b True
   }"

definition brelse :: "'a bio_scheme \<Rightarrow> nat \<Rightarrow> 'a bio_scheme option" where
  "brelse s b = do {
     ensure (holdingsleep (p_pid s) (b_lock (bufs s b))) ''brelse'';
     let s = upd_buf b (b_lock_update releasesleep) s;
     let s = upd_buf b (b_refcnt_update (\<lambda>r. r - 1)) s;
     Some (if b_refcnt (bufs s b) = 0 then s\<lparr>lru := b # remove1 b (lru s)\<rparr> else s)
   }"

definition bpin :: "'a bio_scheme \<Rightarrow> nat \<Rightarrow> 'a bio_scheme" where
  "bpin s b = upd_buf b (b_refcnt_update (\<lambda>r. r + 1)) s"

definition bunpin :: "'a bio_scheme \<Rightarrow> nat \<Rightarrow> 'a bio_scheme" where
  "bunpin s b = upd_buf b (b_refcnt_update (\<lambda>r. r - 1)) s"

text \<open>A client that changes the bytes of a buffer it holds.\<close>

definition set_data :: "'a bio_scheme \<Rightarrow> nat \<Rightarrow> buffer \<Rightarrow> 'a bio_scheme" where
  "set_data s b x = upd_buf b (b_data_update (\<lambda>_. x)) s"

abbreviation bdata :: "'a bio_scheme \<Rightarrow> nat \<Rightarrow> buffer" where
  "bdata s b \<equiv> b_data (bufs s b)"

subsection \<open>Invariant and logical contents\<close>

definition cached :: "'a bio_scheme \<Rightarrow> nat \<Rightarrow> u32 \<Rightarrow> u32 \<Rightarrow> bool" where
  "cached s b d n \<longleftrightarrow> b < NBUF \<and> b_dev (bufs s b) = d \<and> b_blockno (bufs s b) = n"

definition on_disk :: "u32 \<Rightarrow> u32 \<Rightarrow> bool" where
  "on_disk d n \<longleftrightarrow> 1 \<le> d \<and> d \<le> HAL_NDISK \<and> n < RAMDISK_BLOCKS"

abbreviation block_locked :: "'a bio_scheme \<Rightarrow> nat \<Rightarrow> bool" where
  "block_locked s b \<equiv> locked (b_lock (bufs s b))"

text \<open>The contents of a block as readers see them: the cached copy if there is one.\<close>

definition cview :: "'a bio_scheme \<Rightarrow> u32 \<Rightarrow> u32 \<Rightarrow> buffer" where
  "cview s d n =
     (case find (\<lambda>b. cached s b d n \<and> b_valid (bufs s b)) [0..<NBUF] of
        Some b \<Rightarrow> bdata s b | None \<Rightarrow> disk s d n)"

text \<open>What holds of one buffer with \<open>p\<close> pins (\<open>bpin\<close>s that are not undone): the reference count
  is exact, only the running process holds locks, a buffer that is neither locked nor pinned
  agrees with the disk.\<close>

definition buf_ok :: "'a bio_scheme \<Rightarrow> nat \<Rightarrow> buf \<Rightarrow> bool" where
  "buf_ok s p B \<longleftrightarrow> b_refcnt B = of_nat ((if locked (b_lock B) then 1 else 0) + p) \<and> p < 1000
     \<and> (locked (b_lock B) \<longrightarrow> lk_pid (b_lock B) = p_pid s \<and> b_valid B)
     \<and> (b_valid B \<longrightarrow> on_disk (b_dev B) (b_blockno B)) \<and> (b_dev B \<noteq> 0 \<longrightarrow> b_valid B)
     \<and> (b_valid B \<and> \<not> locked (b_lock B) \<and> p = 0 \<longrightarrow> b_data B = disk s (b_dev B) (b_blockno B))"

definition bio_inv :: "'a bio_scheme \<Rightarrow> (nat \<Rightarrow> nat) \<Rightarrow> bool" where
  "bio_inv s pins \<longleftrightarrow> distinct (lru s) \<and> set (lru s) = {..<NBUF}
     \<and> (\<forall>b<NBUF. buf_ok s (pins b) (bufs s b))
     \<and> (\<forall>a b d n. cached s a d n \<and> cached s b d n \<and> d \<noteq> 0 \<longrightarrow> a = b)"

lemma bio_invD:
  assumes "bio_inv s P"
  shows "distinct (lru s)" "set (lru s) = {..<NBUF}" "b < NBUF \<Longrightarrow> buf_ok s (P b) (bufs s b)"
    "cached s a d n \<Longrightarrow> cached s b d n \<Longrightarrow> d \<noteq> 0 \<Longrightarrow> a = b"
  using assms unfolding bio_inv_def by blast+

lemma bio_inv_upd:
  assumes inv: "bio_inv s P" and s': "s' = s\<lparr>bufs := (bufs s)(b := B), lru := l\<rparr>" and b: "b < NBUF"
    and l: "distinct l" "set l = set (lru s)"
    and P': "\<And>a. a \<noteq> b \<Longrightarrow> P' a = P a" and B: "buf_ok s (P' b) B"
    and new: "\<And>a. b_dev B \<noteq> 0 \<Longrightarrow> cached s a (b_dev B) (b_blockno B) \<Longrightarrow> a = b"
  shows "bio_inv s' P'"
proof -
  have ok: "buf_ok s' = buf_ok s" by (simp add: buf_ok_def s' fun_eq_iff)
  have c: "cached s' a d n \<longleftrightarrow> (if a = b then b_dev B = d \<and> b_blockno B = n else cached s a d n)" for a d n
    using b by (auto simp: cached_def s')
  have lr: "lru s' = l" by (simp add: s')
  have A: "buf_ok s (P' a) (bufs s' a)" if "a < NBUF" for a
    using bio_invD(3) [OF inv that] B P' by (cases "a = b") (auto simp: s')
  have D: "a = b" if "cached s' b d n" "cached s' a d n" "d \<noteq> 0" for a d n
  proof (rule ccontr)
    assume "a \<noteq> b"
    then have "b_dev B = d" "b_blockno B = n" "cached s a d n" using that c by simp_all
    with new [of a] \<open>a \<noteq> b\<close> that(3) show False by simp
  qed
  have C: "a = a'" if "cached s' a d n" "cached s' a' d n" "d \<noteq> 0" for a a' d n
  proof (cases "a = b \<or> a' = b")
    case True
    then show ?thesis using that D by metis
  next
    case False
    then have "cached s a d n" "cached s a' d n" using that c by simp_all
    then show ?thesis using bio_invD(4) [OF inv] that(3) by blast
  qed
  show ?thesis
    unfolding bio_inv_def ok lr
  proof (intro conjI allI impI)
    show "set l = {..<NBUF}" using l bio_invD(2) [OF inv] by simp
  qed (use l A C in blast)+
qed

subsection \<open>Operations\<close>

lemma refcnt_zero_iff:
  assumes "buf_ok s p B"
  shows "b_refcnt B = 0 \<longleftrightarrow> \<not> locked (b_lock B) \<and> p = 0"
proof -
  have r: "b_refcnt B = of_nat ((if locked (b_lock B) then 1 else 0) + p)" and "p < 1000"
    using assms by (auto simp: buf_ok_def)
  then have u: "unat (b_refcnt B) = (if locked (b_lock B) then 1 else 0) + p"
    unfolding r by (intro unat_of_nat_small) simp
  have "b_refcnt B = 0 \<longleftrightarrow> unat (b_refcnt B) = 0" by (simp add: unat_eq_0)
  then show ?thesis unfolding u by auto
qed

lemma on_disk_nz: "on_disk d n \<Longrightarrow> d \<noteq> 0"
  by (auto simp: on_disk_def)

lemma cached_valid: "bio_inv s P \<Longrightarrow> cached s b d n \<Longrightarrow> d \<noteq> 0 \<Longrightarrow> b_valid (bufs s b)"
  using bio_invD(3) [of s P b] by (auto simp: cached_def buf_ok_def)

lemma cview_cached:
  assumes "bio_inv s P" "cached s b d n" "d \<noteq> 0"
  shows "cview s d n = bdata s b"
proof -
  have v: "b_valid (bufs s b)" using cached_valid [OF assms] .
  have "\<exists>a. find (\<lambda>b. cached s b d n \<and> b_valid (bufs s b)) [0..<NBUF] = Some a"
    using assms(2) v by (auto simp: cached_def find_None_iff simp flip: not_None_eq)
  then obtain a where a: "find (\<lambda>b. cached s b d n \<and> b_valid (bufs s b)) [0..<NBUF] = Some a" ..
  then have "cached s a d n" by (auto simp: find_Some_iff)
  then have "a = b" using bio_invD(4) [OF assms(1) _ assms(2,3)] by blast
  with a show ?thesis by (simp add: cview_def)
qed

lemma cview_uncached:
  assumes "\<And>b. \<not> cached s b d n"
  shows "cview s d n = disk s d n"
  using assms by (simp add: cview_def find_None_iff [THEN iffD2])

lemma cview_eq:
  "bio_inv s P \<Longrightarrow> d \<noteq> 0 \<Longrightarrow> cview s d n = x \<longleftrightarrow>
    (\<forall>b. cached s b d n \<longrightarrow> bdata s b = x) \<and> ((\<forall>b. \<not> cached s b d n) \<longrightarrow> disk s d n = x)"
  by (metis cview_cached cview_uncached)

lemma bio_inv_buf:
  assumes inv: "bio_inv s P" and "b < NBUF" "buf_ok s (P b) B"
    and "\<And>a. b_dev B \<noteq> 0 \<Longrightarrow> cached s a (b_dev B) (b_blockno B) \<Longrightarrow> a = b"
  shows "bio_inv (s\<lparr>bufs := (bufs s)(b := B)\<rparr>) P"
  by (rule bio_inv_upd [OF inv _ assms(2) bio_invD(1) [OF inv] refl refl assms(3,4)]) simp_all

text \<open>\<open>bread\<close> returns the block locked, with its current contents.\<close>

lemma bread_locks:
  assumes inv: "bio_inv s P" and od: "on_disk d n"
    and free: "\<And>b. cached s b d n \<Longrightarrow> \<not> block_locked s b"
    and room: "(\<exists>b. cached s b d n) \<or> (\<exists>b<NBUF. \<not> block_locked s b \<and> P b = 0)"
  shows "\<exists>b B s'. bread s d n = Some (Some b, s') \<and> b < NBUF \<and> \<not> block_locked s b
    \<and> (cached s b d n \<or> P b = 0 \<and> (\<forall>a. \<not> cached s a d n))
    \<and> s' = s\<lparr>bufs := (bufs s)(b := B)\<rparr> \<and> b_dev B = d \<and> b_blockno B = n \<and> locked (b_lock B)
    \<and> b_data B = cview s d n \<and> bio_inv s' P"
proof -
  have dev: "\<not> (d < 1 \<or> HAL_NDISK < d)" "n < RAMDISK_BLOCKS" "1 \<le> d \<and> d \<le> HAL_NDISK"
    using od by (auto simp: on_disk_def not_less)
  note nz = on_disk_nz [OF od]
  let ?P1 = "\<lambda>b. b_dev (bufs s b) = d \<and> b_blockno (bufs s b) = n"
  show ?thesis
  proof (cases "find ?P1 (lru s)")
    case (Some b)
    then have c: "cached s b d n"
      using bio_invD(2) [OF inv] by (auto simp: find_Some_iff cached_def dest: nth_mem)
    note v = cached_valid [OF inv c nz]
    let ?B = "b_refcnt_update (\<lambda>r. r + 1) (bufs s b)\<lparr>b_lock := \<lparr>locked = True, lk_pid = p_pid s\<rparr>\<rparr>"
    let ?s = "s\<lparr>bufs := (bufs s)(b := ?B)\<rparr>"
    have eq: "bread s d n = Some (Some b, ?s)"
      using Some free [OF c] dev v
      by (simp add: bread_def bget_def acquire_buf_def acquiresleep_def upd_buf_def)
    have "bio_inv ?s P"
    proof (rule bio_inv_buf [OF inv])
      show "b < NBUF" using c by (simp add: cached_def)
      then show "buf_ok s (P b) ?B"
        using free [OF c] bio_invD(3) [OF inv, of b] v by (auto simp: buf_ok_def)
      fix a assume "cached s a (b_dev ?B) (b_blockno ?B)"
      with c have "cached s a d n" by (simp add: cached_def)
      then show "a = b" by (rule bio_invD(4) [OF inv _ c nz])
    qed
    then show ?thesis
      using eq c cview_cached [OF inv c nz] free [OF c] by (force simp: cached_def)
  next
    case None
    then have nc: "\<not> cached s a d n" for a
      using bio_invD(2) [OF inv] by (auto simp: find_None_iff cached_def)
    then obtain a where a: "a < NBUF" "b_refcnt (bufs s a) = 0"
      using room refcnt_zero_iff bio_invD(3) [OF inv] by metis
    have "\<exists>b. find (\<lambda>b. b_refcnt (bufs s b) = 0) (rev (lru s)) = Some b"
      using a bio_invD(2) [OF inv] by (auto simp: find_None_iff simp flip: not_None_eq)
    then obtain b where fb: "find (\<lambda>b. b_refcnt (bufs s b) = 0) (rev (lru s)) = Some b" ..
    then have "b \<in> set (rev (lru s))" "b_refcnt (bufs s b) = 0" using find_SomeD by fastforce+
    then have b: "b < NBUF" "\<not> block_locked s b" "P b = 0"
      using bio_invD(2) [OF inv] refcnt_zero_iff [OF bio_invD(3) [OF inv, of b]] by auto
    let ?B = "(bufs s b)\<lparr>b_dev := d, b_blockno := n, b_refcnt := 1,
      b_lock := \<lparr>locked = True, lk_pid = p_pid s\<rparr>, b_data := disk s d n, b_disk := False, b_valid := True\<rparr>"
    let ?s = "s\<lparr>bufs := (bufs s)(b := ?B)\<rparr>"
    have eq: "bread s d n = Some (Some b, ?s)"
      using None fb b dev
      by (simp add: bread_def bget_def acquire_buf_def acquiresleep_def upd_buf_def hal_disk_rw_def Let_def)
    have "bio_inv ?s P"
      by (rule bio_inv_buf [OF inv b(1)]) (use b od nc in \<open>auto simp: buf_ok_def\<close>)
    then show ?thesis
      using eq b nc cview_uncached [OF nc] by (intro exI [of _ b] exI [of _ ?B] exI [of _ ?s]) auto
  qed
qed


text \<open>Contents after one buffer changes.\<close>

lemma cview_dev0: "bio_inv s P \<Longrightarrow> cview s 0 m = disk s 0 m"
proof -
  assume inv: "bio_inv s P"
  have "\<not> (cached s b 0 m \<and> b_valid (bufs s b))" for b
    using bio_invD(3) [OF inv, of b] by (auto simp: cached_def buf_ok_def on_disk_def)
  then show ?thesis by (simp add: cview_def find_None_iff [THEN iffD2])
qed

lemma cview_buf:
  assumes inv: "bio_inv s P" and inv': "bio_inv s' P'" and s': "s' = s\<lparr>bufs := (bufs s)(b := B), lru := l\<rparr>"
    and b: "b < NBUF" and B: "b_dev B = d" "b_blockno B = n" and d: "d \<noteq> 0"
    and old: "cached s b d n \<or> b_dev (bufs s b) = 0 \<or> bdata s b = disk s (b_dev (bufs s b)) (b_blockno (bufs s b))"
  shows "cview s' = (cview s)(d := (cview s d)(n := b_data B))"
proof (intro ext)
  fix e m i
  have "cview s' e m = ((cview s)(d := (cview s d)(n := b_data B))) e m"
  proof (cases "e = 0 \<or> e = d \<and> m = n")
    case True
    then have "e = 0 \<or> cached s' b e m" using b B by (auto simp: cached_def s')
    then show ?thesis using True cview_cached [OF inv'] cview_dev0 [OF inv] cview_dev0 [OF inv'] d
      by (auto simp: s')
  next
    case False
    have c: "cached s' a e m \<longleftrightarrow> a \<noteq> b \<and> cached s a e m" for a
      using False B by (auto simp: cached_def s')
    have e: "e \<noteq> 0" using False by simp
    consider a where "a \<noteq> b" "cached s a e m" | "cached s b e m" "\<forall>a. a \<noteq> b \<longrightarrow> \<not> cached s a e m"
      | "\<forall>a. \<not> cached s a e m" by metis
    then show ?thesis
    proof cases
      case 1
      then have "cached s' a e m" using c by blast
      then have "cview s' e m = bdata s' a" using cview_cached [OF inv' _ e] by blast
      also have "\<dots> = cview s e m" using cview_cached [OF inv 1(2) e] 1(1) by (simp add: s')
      finally show ?thesis using False by auto
    next
      case 2
      then have "bdata s b = disk s e m" using old False by (auto simp: cached_def)
      moreover have "cview s' e m = disk s' e m" by (rule cview_uncached) (use c 2 in blast)
      moreover have "disk s' = disk s" by (simp add: s')
      ultimately have "cview s' e m = cview s e m" using cview_cached [OF inv 2(1) e] by simp
      then show ?thesis using False by auto
    next
      case 3
      then have "cview s' e m = disk s' e m" "cview s e m = disk s e m"
        using c by (blast intro: cview_uncached)+
      moreover have "disk s' = disk s" by (simp add: s')
      ultimately show ?thesis using False by auto
    qed
  qed
  then show "cview s' e m i = ((cview s)(d := (cview s d)(n := b_data B))) e m i" by simp
qed

text \<open>\<open>bread\<close> returns the block locked, with its current contents; no contents change.\<close>

lemma bread_ok:
  assumes inv: "bio_inv s P" and od: "on_disk d n"
    and free: "\<And>b. cached s b d n \<Longrightarrow> \<not> block_locked s b"
    and room: "(\<exists>b. cached s b d n) \<or> (\<exists>b<NBUF. \<not> block_locked s b \<and> P b = 0)"
  shows "\<exists>b B s'. bread s d n = Some (Some b, s') \<and> b < NBUF \<and> \<not> block_locked s b
    \<and> (cached s b d n \<or> P b = 0 \<and> (\<forall>a. \<not> cached s a d n))
    \<and> s' = s\<lparr>bufs := (bufs s)(b := B)\<rparr> \<and> b_dev B = d \<and> b_blockno B = n \<and> locked (b_lock B)
    \<and> b_data B = cview s d n \<and> bio_inv s' P \<and> cview s' = cview s"
proof -
  obtain b B s' where r: "bread s d n = Some (Some b, s')" "b < NBUF" "\<not> block_locked s b"
    "cached s b d n \<or> P b = 0 \<and> (\<forall>a. \<not> cached s a d n)"
    "s' = s\<lparr>bufs := (bufs s)(b := B)\<rparr>" "b_dev B = d" "b_blockno B = n" "locked (b_lock B)"
    "b_data B = cview s d n" "bio_inv s' P"
    using bread_locks [OF assms] by blast
  have s': "s' = s\<lparr>bufs := (bufs s)(b := B), lru := lru s\<rparr>" using r(5) by simp
  have "cached s b d n \<or> b_dev (bufs s b) = 0 \<or> bdata s b = disk s (b_dev (bufs s b)) (b_blockno (bufs s b))"
    using bio_invD(3) [OF inv r(2)] r(3,4) by (auto simp: buf_ok_def)
  from cview_buf [OF inv r(10) s' r(2,6,7) on_disk_nz [OF od] this] r(9)
  have "cview s' = cview s" by simp
  with r show ?thesis by blast
qed

lemma set_data_ok:
  assumes inv: "bio_inv s P" and b: "b < NBUF" "block_locked s b" and c: "cached s b d n"
  shows "bio_inv (set_data s b x) P" "cview (set_data s b x) = (cview s)(d := (cview s d)(n := x))"
proof -
  have ok: "buf_ok s (P b) (bufs s b)" by (rule bio_invD(3) [OF inv b(1)])
  let ?B = "(bufs s b)\<lparr>b_data := x\<rparr>"
  have eq: "set_data s b x = s\<lparr>bufs := (bufs s)(b := ?B), lru := lru s\<rparr>"
    by (simp add: set_data_def upd_buf_def)
  have d: "d \<noteq> 0" using ok b c on_disk_nz by (auto simp: buf_ok_def cached_def)
  have "bio_inv (s\<lparr>bufs := (bufs s)(b := ?B)\<rparr>) P"
  proof (rule bio_inv_buf [OF inv b(1)])
    show "buf_ok s (P b) ?B" using ok b(2) by (auto simp: buf_ok_def)
    fix a assume "cached s a (b_dev ?B) (b_blockno ?B)"
    then have "cached s a d n" using c by (simp add: cached_def)
    then show "a = b" by (rule bio_invD(4) [OF inv _ c d])
  qed
  then show inv': "bio_inv (set_data s b x) P" by (simp add: eq)
  from cview_buf [OF inv this eq b(1) _ _ d] c
  show "cview (set_data s b x) = (cview s)(d := (cview s d)(n := x))" by (simp add: cached_def)
qed

lemma brelse_ok:
  assumes inv: "bio_inv s P" and b: "b < NBUF" "block_locked s b" and c: "cached s b d n"
    and clean: "P b = 0 \<Longrightarrow> bdata s b = disk s d n"
  shows "\<exists>B l s'. brelse s b = Some s' \<and> s' = s\<lparr>bufs := (bufs s)(b := B), lru := l\<rparr>
    \<and> \<not> locked (b_lock B) \<and> b_dev B = d \<and> b_blockno B = n \<and> b_data B = bdata s b
    \<and> bio_inv s' P \<and> cview s' = cview s"
proof -
  have ok: "buf_ok s (P b) (bufs s b)" by (rule bio_invD(3) [OF inv b(1)])
  let ?B = "b_refcnt_update (\<lambda>r. r - 1) (b_lock_update releasesleep (bufs s b))"
  let ?l = "if b_refcnt ?B = 0 then b # remove1 b (lru s) else lru s"
  let ?s = "s\<lparr>bufs := (bufs s)(b := ?B), lru := ?l\<rparr>"
  have eq: "brelse s b = Some ?s"
    using ok b(2) by (auto simp: brelse_def buf_ok_def holdingsleep_def upd_buf_def Let_def)
  have d: "d \<noteq> 0" using ok b c on_disk_nz by (auto simp: buf_ok_def cached_def)
  have l: "distinct ?l" "set ?l = set (lru s)"
    using bio_invD(1,2) [OF inv] b(1) by auto
  have inv': "bio_inv ?s P"
  proof (rule bio_inv_upd [OF inv refl b(1) l refl])
    show "buf_ok s (P b) ?B"
      using ok b(2) clean c by (auto simp: buf_ok_def releasesleep_def cached_def)
    fix a assume "cached s a (b_dev ?B) (b_blockno ?B)"
    then have "cached s a d n" using c by (simp add: cached_def)
    then show "a = b" by (rule bio_invD(4) [OF inv _ c d])
  qed
  have "cview ?s = (cview s)(d := (cview s d)(n := b_data ?B))"
    by (rule cview_buf [OF inv inv' refl b(1) _ _ d]) (use c in \<open>auto simp: cached_def\<close>)
  then have "cview ?s = cview s" using cview_cached [OF inv c d] by (simp add: fun_upd_idem)
  with eq inv' c show ?thesis
    by (intro exI [of _ ?B] exI [of _ ?l] exI [of _ ?s]) (auto simp: releasesleep_def cached_def)
qed

lemma bwrite_ok:
  assumes inv: "bio_inv s P" and b: "b < NBUF" "block_locked s b" and c: "cached s b d n"
  shows "\<exists>B s'. bwrite s b = Some s' \<and> B = (bufs s b)\<lparr>b_disk := False\<rparr>
    \<and> s' = s\<lparr>bufs := (bufs s)(b := B), disk := (disk s)(d := (disk s d)(n := bdata s b)),
         dwrites := dwrites s @ [(d, n, bdata s b)]\<rparr>
    \<and> bio_inv s' P \<and> cview s' = cview s"
proof -
  have ok: "buf_ok s (P b) (bufs s b)" by (rule bio_invD(3) [OF inv b(1)])
  have dn: "b_dev (bufs s b) = d" "b_blockno (bufs s b) = n" using c by (auto simp: cached_def)
  let ?B = "(bufs s b)\<lparr>b_disk := False\<rparr>"
  let ?s = "s\<lparr>bufs := (bufs s)(b := ?B), disk := (disk s)(d := (disk s d)(n := bdata s b)),
         dwrites := dwrites s @ [(d, n, bdata s b)]\<rparr>"
  have od: "on_disk d n" using ok b(2) dn by (auto simp: buf_ok_def)
  have eq: "bwrite s b = Some ?s"
    using ok b(2) od dn
    by (auto simp: bwrite_def buf_ok_def holdingsleep_def hal_disk_rw_def upd_buf_def Let_def on_disk_def)
  note nz = on_disk_nz [OF od]
  have cs: "cached ?s a e m \<longleftrightarrow> cached s a e m" for a e m by (auto simp: cached_def)
  have "buf_ok ?s (P a) (bufs ?s a)" if "a < NBUF" for a
  proof (cases "a = b")
    case True
    then show ?thesis using ok b(2) by (auto simp: buf_ok_def)
  next
    case False
    then have "\<not> cached s a d n" using bio_invD(4) [OF inv _ c nz, of a] by blast
    then have "\<not> (b_dev (bufs s a) = d \<and> b_blockno (bufs s a) = n)" using that by (auto simp: cached_def)
    then show ?thesis using bio_invD(3) [OF inv that] False by (auto simp: buf_ok_def)
  qed
  moreover have "distinct (lru ?s)" "set (lru ?s) = {..<NBUF}" using bio_invD(1,2) [OF inv] by simp_all
  moreover have "\<forall>a b d n. cached s a d n \<and> cached s b d n \<and> d \<noteq> 0 \<longrightarrow> a = b"
    using inv unfolding bio_inv_def by (elim conjE)
  ultimately have inv': "bio_inv ?s P" unfolding bio_inv_def cs by blast
  have "cview ?s e m = cview s e m" for e m
  proof (cases "e = 0")
    case True
    then show ?thesis using cview_dev0 [OF inv] cview_dev0 [OF inv'] nz by simp
  next
    case False
    show ?thesis
    proof (cases "\<exists>a. cached s a e m")
      case True
      then obtain a where a: "cached s a e m" ..
      then show ?thesis using cview_cached [OF inv a False] cview_cached [OF inv', of a e m] cs False by auto
    next
      case none: False
      then have "\<not> (e = d \<and> m = n)" using c by auto
      then show ?thesis using none cview_uncached [of s e m] cview_uncached [of ?s e m] cs by auto
    qed
  qed
  then have "cview ?s = cview s" by blast
  with eq inv' show ?thesis by blast
qed


lemma bpin_ok:
  assumes inv: "bio_inv s P" and b: "b < NBUF" and c: "cached s b d n" and d: "d \<noteq> 0" and p: "P b < 999"
  shows "bio_inv (bpin s b) (P(b := Suc (P b)))" "cview (bpin s b) = cview s"
    "bpin s b = s\<lparr>bufs := (bufs s)(b := b_refcnt_update (\<lambda>r. r + 1) (bufs s b)), lru := lru s\<rparr>"
proof -
  let ?B = "b_refcnt_update (\<lambda>r. r + 1) (bufs s b)"
  show eq: "bpin s b = s\<lparr>bufs := (bufs s)(b := ?B), lru := lru s\<rparr>"
    by (simp add: bpin_def upd_buf_def)
  show inv': "bio_inv (bpin s b) (P(b := Suc (P b)))"
  proof (rule bio_inv_upd [OF inv eq b bio_invD(1) [OF inv] refl])
    show "buf_ok s ((P(b := Suc (P b))) b) ?B"
      using bio_invD(3) [OF inv b] p by (auto simp: buf_ok_def)
    fix a assume "cached s a (b_dev ?B) (b_blockno ?B)"
    then have "cached s a d n" using c by (simp add: cached_def)
    then show "a = b" by (rule bio_invD(4) [OF inv _ c d])
  qed simp
  show "cview (bpin s b) = cview s"
    using cview_buf [OF inv inv' eq b _ _ d] c cview_cached [OF inv c d]
    by (auto simp: cached_def fun_upd_idem)
qed

lemma bunpin_ok:
  assumes inv: "bio_inv s P" and b: "b < NBUF" "block_locked s b" and c: "cached s b d n" and p: "0 < P b"
  shows "bio_inv (bunpin s b) (P(b := P b - 1))" "cview (bunpin s b) = cview s"
    "bunpin s b = s\<lparr>bufs := (bufs s)(b := b_refcnt_update (\<lambda>r. r - 1) (bufs s b)), lru := lru s\<rparr>"
proof -
  let ?B = "b_refcnt_update (\<lambda>r. r - 1) (bufs s b)"
  have ok: "buf_ok s (P b) (bufs s b)" by (rule bio_invD(3) [OF inv b(1)])
  have d: "d \<noteq> 0" using ok b c on_disk_nz by (auto simp: buf_ok_def cached_def)
  show eq: "bunpin s b = s\<lparr>bufs := (bufs s)(b := ?B), lru := lru s\<rparr>"
    by (simp add: bunpin_def upd_buf_def)
  show inv': "bio_inv (bunpin s b) (P(b := P b - 1))"
  proof (rule bio_inv_upd [OF inv eq b(1) bio_invD(1) [OF inv] refl])
    show "buf_ok s ((P(b := P b - 1)) b) ?B"
      using ok p b(2) by (auto simp: buf_ok_def)
    fix a assume "cached s a (b_dev ?B) (b_blockno ?B)"
    then have "cached s a d n" using c by (simp add: cached_def)
    then show "a = b" by (rule bio_invD(4) [OF inv _ c d])
  qed simp
  show "cview (bunpin s b) = cview s"
    using cview_buf [OF inv inv' eq b(1) _ _ d] c cview_cached [OF inv c d]
    by (auto simp: cached_def fun_upd_idem)
qed

subsection \<open>Holding buffers\<close>

text \<open>\<open>holds s P L\<close>: the cache is well-formed with pins \<open>P\<close>, and the running process holds exactly the
  buffers \<open>L\<close>.\<close>

definition holds :: "'a bio_scheme \<Rightarrow> (nat \<Rightarrow> nat) \<Rightarrow> nat set \<Rightarrow> bool" where
  "holds s P L \<longleftrightarrow> bio_inv s P \<and> L \<subseteq> {..<NBUF} \<and> (\<forall>b<NBUF. block_locked s b \<longleftrightarrow> b \<in> L)"

text \<open>What the operations of the cache leave alone.\<close>

definition bio_only :: "'a bio_scheme \<Rightarrow> 'a bio_scheme \<Rightarrow> bool" where
  "bio_only s s' \<longleftrightarrow> s' = s\<lparr>bufs := bufs s', lru := lru s', disk := disk s', dwrites := dwrites s'\<rparr>"

lemma bio_only_refl [simp]: "bio_only s s"
  by (simp add: bio_only_def)

lemma bio_only_trans: "bio_only s t \<Longrightarrow> bio_only t u \<Longrightarrow> bio_only s u"
  by (cases s; cases t; cases u) (auto simp: bio_only_def)

lemma bio_only_more: "bio_only s s' \<Longrightarrow> bio.more s' = bio.more s" "bio_only s s' \<Longrightarrow> p_pid s' = p_pid s"
  by (cases s; cases s'; simp add: bio_only_def)+

lemma bread_holds:
  assumes h: "holds s P L" and od: "on_disk d n" and free: "\<And>b. b \<in> L \<Longrightarrow> \<not> cached s b d n"
    and room: "(\<exists>b. cached s b d n) \<or> (\<exists>b<NBUF. b \<notin> L \<and> P b = 0)"
  shows "\<exists>b s'. bread s d n = Some (Some b, s') \<and> holds s' P (insert b L) \<and> b \<notin> L \<and> b < NBUF
    \<and> cached s' b d n \<and> bdata s' b = cview s d n \<and> cview s' = cview s \<and> disk s' = disk s
    \<and> dwrites s' = dwrites s \<and> bio_only s s' \<and> (\<forall>a. a \<noteq> b \<longrightarrow> bufs s' a = bufs s a)
    \<and> (cached s b d n \<or> P b = 0 \<and> (\<forall>a. \<not> cached s a d n))"
proof -
  have inv: "bio_inv s P" and L: "\<And>b. b < NBUF \<Longrightarrow> block_locked s b \<longleftrightarrow> b \<in> L" "L \<subseteq> {..<NBUF}"
    using h by (auto simp: holds_def)
  have "\<And>b. cached s b d n \<Longrightarrow> \<not> block_locked s b" using free L(1) by (auto simp: cached_def)
  moreover have "(\<exists>b. cached s b d n) \<or> (\<exists>b<NBUF. \<not> block_locked s b \<and> P b = 0)"
    using room L(1) by blast
  ultimately obtain b B s' where r: "bread s d n = Some (Some b, s')" "b < NBUF" "\<not> block_locked s b"
    "cached s b d n \<or> P b = 0 \<and> (\<forall>a. \<not> cached s a d n)"
    "s' = s\<lparr>bufs := (bufs s)(b := B)\<rparr>" "b_dev B = d" "b_blockno B = n" "locked (b_lock B)"
    "b_data B = cview s d n" "bio_inv s' P" "cview s' = cview s"
    using bread_ok [OF inv od] by blast
  have "holds s' P (insert b L)" using r(2,5,8,10) L by (auto simp: holds_def)
  moreover have "bio_only s s'" by (simp add: bio_only_def r(5))
  ultimately show ?thesis
    using r L by (intro exI [of _ b] exI [of _ s']) (auto simp: cached_def)
qed

lemma set_data_holds:
  assumes h: "holds s P L" and b: "b \<in> L" and c: "cached s b d n"
  shows "holds (set_data s b x) P L" "cview (set_data s b x) = (cview s)(d := (cview s d)(n := x))"
    "disk (set_data s b x) = disk s" "dwrites (set_data s b x) = dwrites s" "bio_only s (set_data s b x)"
    "bdata (set_data s b x) a = (if a = b then x else bdata s a)"
    "cached (set_data s b x) a e m \<longleftrightarrow> cached s a e m"
proof -
  have inv: "bio_inv s P" and bl: "b < NBUF" "block_locked s b" using h b by (auto simp: holds_def)
  note sd = set_data_ok [OF inv bl c, of x]
  show "holds (set_data s b x) P L" using h sd(1) by (auto simp: holds_def set_data_def upd_buf_def)
  show "cview (set_data s b x) = (cview s)(d := (cview s d)(n := x))" by (rule sd(2))
qed (auto simp: set_data_def upd_buf_def bio_only_def cached_def)

lemma bwrite_holds:
  assumes h: "holds s P L" and b: "b \<in> L" and c: "cached s b d n"
  shows "\<exists>s'. bwrite s b = Some s' \<and> holds s' P L \<and> cview s' = cview s
    \<and> disk s' = (disk s)(d := (disk s d)(n := bdata s b)) \<and> dwrites s' = dwrites s @ [(d, n, bdata s b)]
    \<and> bio_only s s' \<and> (\<forall>a. bdata s' a = bdata s a) \<and> (\<forall>a e m. cached s' a e m \<longleftrightarrow> cached s a e m)"
proof -
  have inv: "bio_inv s P" and bl: "b < NBUF" "block_locked s b" using h b by (auto simp: holds_def)
  from bwrite_ok [OF inv bl c] obtain B s' where r: "bwrite s b = Some s'" "B = (bufs s b)\<lparr>b_disk := False\<rparr>"
    "s' = s\<lparr>bufs := (bufs s)(b := B), disk := (disk s)(d := (disk s d)(n := bdata s b)),
         dwrites := dwrites s @ [(d, n, bdata s b)]\<rparr>" "bio_inv s' P" "cview s' = cview s" by blast
  have "holds s' P L" using h r(4) by (auto simp: holds_def r(2,3))
  with r(1,5) show ?thesis by (auto simp: r(2,3) bio_only_def cached_def)
qed

lemma brelse_holds:
  assumes h: "holds s P L" and b: "b \<in> L" and c: "cached s b d n"
    and clean: "P b = 0 \<Longrightarrow> bdata s b = disk s d n"
  shows "\<exists>s'. brelse s b = Some s' \<and> holds s' P (L - {b}) \<and> cview s' = cview s
    \<and> disk s' = disk s \<and> dwrites s' = dwrites s \<and> bio_only s s' \<and> (\<forall>a. bdata s' a = bdata s a)
    \<and> (\<forall>a e m. cached s' a e m \<longleftrightarrow> cached s a e m)"
proof -
  have inv: "bio_inv s P" and bl: "b < NBUF" "block_locked s b" using h b by (auto simp: holds_def)
  from brelse_ok [OF inv bl c clean] obtain B l s' where r: "brelse s b = Some s'"
    "s' = s\<lparr>bufs := (bufs s)(b := B), lru := l\<rparr>" "\<not> locked (b_lock B)" "b_dev B = d" "b_blockno B = n"
    "b_data B = bdata s b" "bio_inv s' P" "cview s' = cview s" by blast
  have "holds s' P (L - {b})" using h r(3,7) by (auto simp: holds_def r(2))
  moreover have "cached s' a e m \<longleftrightarrow> cached s a e m" for a e m using c r(4,5) by (auto simp: cached_def r(2))
  ultimately show ?thesis using r(1,6,8) by (auto simp: r(2) bio_only_def)
qed

lemma bpin_holds:
  assumes h: "holds s P L" and b: "b \<in> L" and c: "cached s b d n" and p: "P b < 999"
  shows "holds (bpin s b) (P(b := Suc (P b))) L" "cview (bpin s b) = cview s"
    "disk (bpin s b) = disk s" "dwrites (bpin s b) = dwrites s" "bio_only s (bpin s b)"
    "bdata (bpin s b) a = bdata s a" "cached (bpin s b) a e m \<longleftrightarrow> cached s a e m"
proof -
  have inv: "bio_inv s P" and bl: "b < NBUF" "block_locked s b" using h b by (auto simp: holds_def)
  have d: "d \<noteq> 0" using bio_invD(3) [OF inv bl(1)] bl c on_disk_nz by (auto simp: buf_ok_def cached_def)
  note bp = bpin_ok [OF inv bl(1) c d p]
  show "holds (bpin s b) (P(b := Suc (P b))) L" using h bp(1) by (auto simp: holds_def bp(3))
  show "cview (bpin s b) = cview s" by (rule bp(2))
qed (auto simp: bpin_def upd_buf_def bio_only_def cached_def)

lemma bunpin_holds:
  assumes h: "holds s P L" and b: "b \<in> L" and c: "cached s b d n" and p: "0 < P b"
  shows "holds (bunpin s b) (P(b := P b - 1)) L" "cview (bunpin s b) = cview s"
    "disk (bunpin s b) = disk s" "dwrites (bunpin s b) = dwrites s" "bio_only s (bunpin s b)"
    "bdata (bunpin s b) a = bdata s a" "cached (bunpin s b) a e m \<longleftrightarrow> cached s a e m"
proof -
  have inv: "bio_inv s P" and bl: "b < NBUF" "block_locked s b" using h b by (auto simp: holds_def)
  note bp = bunpin_ok [OF inv bl c p]
  show "holds (bunpin s b) (P(b := P b - 1)) L" using h bp(1) by (auto simp: holds_def bp(3))
  show "cview (bunpin s b) = cview s" by (rule bp(2))
qed (auto simp: bunpin_def upd_buf_def bio_only_def cached_def)

end
