(* ===== verification/Log.thy ===== *)
theory Log
  imports Bio
begin

text \<open>
  \<^verbatim>\<open>kernel/log.c\<close>: the write-ahead log.  The record adds \<open>struct log\<close>.  The counters are C \<open>int\<close>s;
  the log is far too small for them to overflow.  A process that has to wait in \<open>begin_op\<close> does
  not return in the model of one running process; the waiting protocol itself is the step
  relation of theory \<open>Log_Space\<close>.
\<close>

definition MAXOPBLOCKS :: int where
  "MAXOPBLOCKS = 10"

definition LOGBLOCKS :: int where
  "LOGBLOCKS = MAXOPBLOCKS * 3"

record log = bio +
  log_start :: u32
  log_outstanding :: int
  log_committing :: bool
  log_dev :: u32
  lh_n :: int
  lh_block :: "nat \<Rightarrow> u32"

subsection \<open>Copying blocks\<close>

text \<open>The loops of \<open>install_trans\<close> and \<open>write_log\<close> from index \<open>tail\<close>, for \<open>k\<close> more rounds.\<close>

fun install_loop :: "'a log_scheme \<Rightarrow> bool \<Rightarrow> nat \<Rightarrow> nat \<Rightarrow> 'a log_scheme option" where
  "install_loop s recovering tail 0 = Some s"
| "install_loop s recovering tail (Suc k) = do {
     (lb, s) \<leftarrow> bread s (log_dev s) (log_start s + of_nat tail + 1);
     lbuf \<leftarrow> lb;
     (db, s) \<leftarrow> bread s (log_dev s) (lh_block s tail);
     dbuf \<leftarrow> db;
     let s = set_data s dbuf (bdata s lbuf);
     s \<leftarrow> bwrite s dbuf;
     let s = (if \<not> recovering then bunpin s dbuf else s);
     s \<leftarrow> brelse s lbuf;
     s \<leftarrow> brelse s dbuf;
     install_loop s recovering (Suc tail) k
   }"

definition install_trans :: "'a log_scheme \<Rightarrow> bool \<Rightarrow> 'a log_scheme option" where
  "install_trans s recovering = install_loop s recovering 0 (nat (lh_n s))"

fun write_log_loop :: "'a log_scheme \<Rightarrow> nat \<Rightarrow> nat \<Rightarrow> 'a log_scheme option" where
  "write_log_loop s tail 0 = Some s"
| "write_log_loop s tail (Suc k) = do {
     (tb, s) \<leftarrow> bread s (log_dev s) (log_start s + of_nat tail + 1);
     to \<leftarrow> tb;
     (fb, s) \<leftarrow> bread s (log_dev s) (lh_block s tail);
     from' \<leftarrow> fb;
     let s = set_data s to (bdata s from');
     s \<leftarrow> bwrite s to;
     s \<leftarrow> brelse s from';
     s \<leftarrow> brelse s to;
     write_log_loop s (Suc tail) k
   }"

definition write_log :: "'a log_scheme \<Rightarrow> 'a log_scheme option" where
  "write_log s = write_log_loop s 0 (nat (lh_n s))"

subsection \<open>The header block\<close>

text \<open>\<open>struct logheader\<close> on disk: \<open>n\<close> at offset 0, \<open>block[i]\<close> at offset \<open>4 + 4 i\<close>.  A header with more
  than \<open>LOGBLOCKS\<close> entries does not fit the array \<open>log.lh.block\<close>.\<close>

definition read_head :: "'a log_scheme \<Rightarrow> 'a log_scheme option" where
  "read_head s = do {
     (b, s) \<leftarrow> bread s (log_dev s) (log_start s);
     buf \<leftarrow> b;
     let lh = bdata s buf;
     let n = sint (le32 lh 0);
     ensure (n \<le> LOGBLOCKS) ''log.lh.block overrun'';
     let s = s\<lparr>lh_n := n, lh_block := (\<lambda>i. if i < nat n then le32 lh (4 + 4 * i) else lh_block s i)\<rparr>;
     brelse s buf
   }"

fun put_blocks :: "buffer \<Rightarrow> (nat \<Rightarrow> u32) \<Rightarrow> nat \<Rightarrow> nat \<Rightarrow> buffer" where
  "put_blocks hb blk i 0 = hb"
| "put_blocks hb blk i (Suc k) = put_blocks (put32 hb (4 + 4 * i) (blk i)) blk (Suc i) k"

definition write_head :: "'a log_scheme \<Rightarrow> 'a log_scheme option" where
  "write_head s = do {
     (b, s) \<leftarrow> bread s (log_dev s) (log_start s);
     buf \<leftarrow> b;
     let hb = put32 (bdata s buf) 0 (word_of_int (lh_n s));
     let s = set_data s buf (put_blocks hb (lh_block s) 0 (nat (lh_n s)));
     s \<leftarrow> bwrite s buf;
     brelse s buf
   }"

definition recover_from_log :: "'a log_scheme \<Rightarrow> 'a log_scheme option" where
  "recover_from_log s = do {
     s \<leftarrow> read_head s;
     s \<leftarrow> install_trans s True;
     write_head (s\<lparr>lh_n := 0\<rparr>)
   }"

definition initlog :: "'a log_scheme \<Rightarrow> u32 \<Rightarrow> u32 \<Rightarrow> 'a log_scheme option" where
  "initlog s dev logstart = do {
     ensure (4 + 4 * nat LOGBLOCKS < BSIZE) ''initlog: too big logheader'';
     recover_from_log (s\<lparr>log_start := logstart, log_dev := dev\<rparr>)
   }"

subsection \<open>Transactions\<close>

definition begin_op :: "'a log_scheme \<Rightarrow> 'a log_scheme option" where
  "begin_op s =
     (if log_committing s then None
      else if lh_n s + (log_outstanding s + 1) * MAXOPBLOCKS > LOGBLOCKS then None
      else Some (s\<lparr>log_outstanding := log_outstanding s + 1\<rparr>))"

definition commit :: "'a log_scheme \<Rightarrow> 'a log_scheme option" where
  "commit s =
     (if lh_n s > 0 then do {
        s \<leftarrow> write_log s;
        s \<leftarrow> write_head s;
        s \<leftarrow> install_trans s False;
        write_head (s\<lparr>lh_n := 0\<rparr>)
      } else Some s)"

definition end_op :: "'a log_scheme \<Rightarrow> 'a log_scheme option" where
  "end_op s = do {
     let s = s\<lparr>log_outstanding := log_outstanding s - 1\<rparr>;
     ensure (\<not> log_committing s) ''log.committing'';
     if log_outstanding s = 0 then do {
       s \<leftarrow> commit (s\<lparr>log_committing := True\<rparr>);
       Some (s\<lparr>log_committing := False\<rparr>)
     } else Some s
   }"

definition log_write :: "'a log_scheme \<Rightarrow> nat \<Rightarrow> 'a log_scheme option" where
  "log_write s b = do {
     ensure (lh_n s < LOGBLOCKS) ''too big a transaction'';
     ensure (1 \<le> log_outstanding s) ''log_write outside of trans'';
     let n = nat (lh_n s);
     let i = (case scan (\<lambda>i. lh_block s i = b_blockno (bufs s b)) 0 n of Some i \<Rightarrow> i | None \<Rightarrow> n);
     let s = s\<lparr>lh_block := (lh_block s)(i := b_blockno (bufs s b))\<rparr>;
     Some (if i = n then (bpin s b)\<lparr>lh_n := lh_n s + 1\<rparr> else s)
   }"

subsection \<open>Invariant\<close>

definition logged :: "'a log_scheme \<Rightarrow> u32 set" where
  "logged s = lh_block s ` {..<nat (lh_n s)}"

text \<open>The pins of a log that pins the cached copy of each block of \<open>B\<close> once.\<close>

definition pins_of :: "'a log_scheme \<Rightarrow> u32 set \<Rightarrow> nat \<Rightarrow> nat" where
  "pins_of s B b = (if \<exists>n\<in>B. cached s b (log_dev s) n then 1 else 0)"

definition in_log_region :: "'a log_scheme \<Rightarrow> u32 \<Rightarrow> bool" where
  "in_log_region s n \<longleftrightarrow> unat (log_start s) \<le> unat n \<and> unat n \<le> unat (log_start s) + 30"

definition log_ok :: "'a log_scheme \<Rightarrow> bool" where
  "log_ok s \<longleftrightarrow> 0 \<le> lh_n s \<and> lh_n s \<le> LOGBLOCKS \<and> inj_on (lh_block s) {..<nat (lh_n s)}
     \<and> (\<forall>n\<in>logged s. on_disk (log_dev s) n \<and> \<not> in_log_region s n)
     \<and> 1 \<le> log_dev s \<and> log_dev s \<le> HAL_NDISK \<and> unat (log_start s) + 30 < 16384"

definition log_holds :: "'a log_scheme \<Rightarrow> u32 set \<Rightarrow> nat set \<Rightarrow> bool" where
  "log_holds s B L \<longleftrightarrow> log_ok s \<and> holds s (pins_of s B) L \<and> finite B
     \<and> (\<forall>n\<in>B. \<exists>b. cached s b (log_dev s) n)"

text \<open>Between operations exactly the logged blocks are pinned.\<close>

definition log_inv :: "'a log_scheme \<Rightarrow> nat set \<Rightarrow> bool" where
  "log_inv s L \<longleftrightarrow> log_holds s (logged s) L"

lemma bio_only_log:
  assumes "bio_only s s'"
  shows "log_start s' = log_start s" "log_outstanding s' = log_outstanding s"
    "log_committing s' = log_committing s" "log_dev s' = log_dev s" "lh_n s' = lh_n s"
    "lh_block s' = lh_block s" "log.more s' = log.more s"
  using assms by (cases s; cases s'; simp add: bio_only_def)+

lemma bio_only_logged: "bio_only s s' \<Longrightarrow> logged s' = logged s" "bio_only s s' \<Longrightarrow> log_ok s' = log_ok s"
  "bio_only s s' \<Longrightarrow> in_log_region s' n = in_log_region s n"
  by (simp_all add: logged_def log_ok_def in_log_region_def bio_only_log)

lemma log_holds_frame:
  assumes "log_holds s B L" "bio_only s s'" "\<And>a e m. cached s' a e m \<longleftrightarrow> cached s a e m"
    "holds s' (pins_of s B) L'"
  shows "log_holds s' B L'"
proof -
  have "pins_of s' B = pins_of s B"
    using assms(2,3) by (simp add: pins_of_def fun_eq_iff bio_only_log bio_only_logged)
  then show ?thesis using assms by (simp add: log_holds_def bio_only_log bio_only_logged)
qed

lemma log_dev_nz: "log_ok s \<Longrightarrow> log_dev s \<noteq> 0"
  by (auto simp: log_ok_def)

lemma log_block_on_disk:
  assumes "log_ok s" "i \<le> 30"
  shows "on_disk (log_dev s) (log_start s + of_nat i)" "in_log_region s (log_start s + of_nat i)"
    "unat (log_start s + of_nat i) = unat (log_start s) + i"
proof -
  have st: "unat (log_start s) + 30 < 16384" using assms(1) by (simp add: log_ok_def)
  have "unat (of_nat i :: u32) = i" using assms(2) by (intro unat_of_nat_small) simp
  then show u: "unat (log_start s + of_nat i) = unat (log_start s) + i"
    using st assms(2) by (simp add: unat_word_ariths)
  show "on_disk (log_dev s) (log_start s + of_nat i)" "in_log_region s (log_start s + of_nat i)"
    using st assms u by (auto simp: on_disk_def log_ok_def RAMDISK_BLOCKS_def word_less_nat_alt in_log_region_def)
qed

text \<open>There is a free buffer as long as the log pins few enough.\<close>

lemma log_room:
  assumes inv: "log_holds s B L" and card: "card B + card L < NBUF"
  shows "\<exists>b<NBUF. b \<notin> L \<and> pins_of s B b = 0"
proof (rule ccontr)
  assume "\<not> ?thesis"
  then have sub: "{..<NBUF} \<subseteq> L \<union> {b. pins_of s B b \<noteq> 0}" by auto
  let ?f = "\<lambda>b. b_blockno (bufs s b)"
  have "inj_on ?f {b. pins_of s B b \<noteq> 0}"
  proof (rule inj_onI)
    fix a b assume ab: "a \<in> {b. pins_of s B b \<noteq> 0}" "b \<in> {b. pins_of s B b \<noteq> 0}" "?f a = ?f b"
    then have "cached s a (log_dev s) (?f a)" "cached s b (log_dev s) (?f a)"
      by (auto simp: pins_of_def cached_def split: if_splits)
    then show "a = b"
      using inv bio_invD(4) log_dev_nz unfolding log_holds_def holds_def by metis
  qed
  moreover have "?f ` {b. pins_of s B b \<noteq> 0} \<subseteq> B"
    by (auto simp: pins_of_def cached_def split: if_splits)
  moreover have "finite B" using inv by (simp add: log_holds_def)
  ultimately have c: "card {b. pins_of s B b \<noteq> 0} \<le> card B" by (rule card_inj_on_le)
  have "finite {b. pins_of s B b \<noteq> 0}"
    by (rule finite_subset [of _ "{..<NBUF}"]) (auto simp: pins_of_def cached_def split: if_splits)
  moreover have "finite L" using inv finite_subset [of L "{..<NBUF}"] by (simp add: log_holds_def holds_def)
  ultimately have "NBUF \<le> card (L \<union> {b. pins_of s B b \<noteq> 0})" using card_mono [OF _ sub] by simp
  also have "\<dots> \<le> card L + card {b. pins_of s B b \<noteq> 0}" by (rule card_Un_le)
  finally show False using card c by linarith
qed

lemma log_bread:
  assumes inv: "log_holds s B L" and od: "on_disk d n" and free: "\<And>b. b \<in> L \<Longrightarrow> \<not> cached s b d n"
    and room: "(\<exists>b. cached s b d n) \<or> card B + card L < NBUF"
  shows "\<exists>b s'. bread s d n = Some (Some b, s') \<and> log_holds s' B (insert b L) \<and> b \<notin> L \<and> b < NBUF
    \<and> cached s' b d n \<and> bdata s' b = cview s d n \<and> cview s' = cview s \<and> disk s' = disk s
    \<and> dwrites s' = dwrites s \<and> bio_only s s' \<and> (\<forall>a. a \<noteq> b \<longrightarrow> bufs s' a = bufs s a)"
proof -
  have h: "holds s (pins_of s B) L" using inv by (simp add: log_holds_def)
  obtain b s' where r: "bread s d n = Some (Some b, s')" "holds s' (pins_of s B) (insert b L)" "b \<notin> L" "b < NBUF"
    "cached s' b d n" "bdata s' b = cview s d n" "cview s' = cview s" "disk s' = disk s"
    "dwrites s' = dwrites s" "bio_only s s'" "\<And>a. a \<noteq> b \<Longrightarrow> bufs s' a = bufs s a"
    "cached s b d n \<or> pins_of s B b = 0 \<and> (\<forall>a. \<not> cached s a d n)"
    using bread_holds [OF h od free] room log_room [OF inv] by blast
  have c: "cached s' a e m \<longleftrightarrow> (if a = b then e = d \<and> m = n else cached s a e m)" for a e m
    using r(4,5,11) by (auto simp: cached_def)
  have lg: "log_dev s' = log_dev s" using r(10) by (rule bio_only_log)
  have stay: "cached s' a (log_dev s) m" if "m \<in> B" "cached s a (log_dev s) m" for a m
  proof (cases "a = b")
    case True
    then have "pins_of s B b = 1" using that by (auto simp: pins_of_def)
    then have "cached s b d n" using r(12) by simp
    then have "log_dev s = d" "m = n" using that(2) True by (auto simp: cached_def)
    then show ?thesis using True c by simp
  qed (use that c in simp)
  have orig: "cached s a (log_dev s) m" if "m \<in> B" "cached s' a (log_dev s) m" for a m
  proof (cases "a = b")
    case True
    then have "log_dev s = d" "m = n" using that c by auto
    moreover have "\<exists>a. cached s a (log_dev s) m" using inv that(1) by (simp add: log_holds_def)
    ultimately show ?thesis using r(12) True by auto
  qed (use that c in auto)
  have "(\<exists>m\<in>B. cached s' x (log_dev s) m) \<longleftrightarrow> (\<exists>m\<in>B. cached s x (log_dev s) m)" for x
    using stay orig by blast
  then have "pins_of s' B = pins_of s B" by (simp add: pins_of_def fun_eq_iff lg)
  moreover have "\<forall>m\<in>B. \<exists>a. cached s' a (log_dev s) m" using inv stay unfolding log_holds_def by blast
  ultimately have "log_holds s' B (insert b L)"
    using inv r(2,10) by (simp add: log_holds_def lg bio_only_logged)
  with r show ?thesis by blast
qed


lemma log_set_data:
  assumes "log_holds s B L" "b \<in> L" "cached s b d n"
  shows "log_holds (set_data s b x) B L"
  using assms set_data_holds [of s "pins_of s B" L b d n x]
  by (intro log_holds_frame [OF assms(1)]) (auto simp: log_holds_def)

lemma log_bwrite:
  assumes inv: "log_holds s B L" "b \<in> L" "cached s b d n"
  shows "\<exists>s'. bwrite s b = Some s' \<and> log_holds s' B L \<and> cview s' = cview s
    \<and> disk s' = (disk s)(d := (disk s d)(n := bdata s b)) \<and> dwrites s' = dwrites s @ [(d, n, bdata s b)]
    \<and> bio_only s s' \<and> (\<forall>a. bdata s' a = bdata s a) \<and> (\<forall>a e m. cached s' a e m \<longleftrightarrow> cached s a e m)"
proof -
  have h: "holds s (pins_of s B) L" using inv(1) by (simp add: log_holds_def)
  from bwrite_holds [OF h inv(2,3)] obtain s' where r: "bwrite s b = Some s'" "holds s' (pins_of s B) L"
    "cview s' = cview s" "disk s' = (disk s)(d := (disk s d)(n := bdata s b))"
    "dwrites s' = dwrites s @ [(d, n, bdata s b)]" "bio_only s s'" "\<forall>a. bdata s' a = bdata s a"
    "\<And>a e m. cached s' a e m \<longleftrightarrow> cached s a e m" by blast
  with log_holds_frame [OF inv(1) r(6) r(8) r(2)] show ?thesis by blast
qed

lemma log_brelse:
  assumes inv: "log_holds s B L" "b \<in> L" "cached s b d n"
    and clean: "d = log_dev s \<and> n \<in> B \<or> bdata s b = disk s d n"
  shows "\<exists>s'. brelse s b = Some s' \<and> log_holds s' B (L - {b}) \<and> cview s' = cview s
    \<and> disk s' = disk s \<and> dwrites s' = dwrites s \<and> bio_only s s' \<and> (\<forall>a. bdata s' a = bdata s a)
    \<and> (\<forall>a e m. cached s' a e m \<longleftrightarrow> cached s a e m)"
proof -
  have c: "pins_of s B b = 0 \<Longrightarrow> bdata s b = disk s d n"
    using clean inv(3) by (auto simp: pins_of_def split: if_splits)
  have h: "holds s (pins_of s B) L" using inv(1) by (simp add: log_holds_def)
  from brelse_holds [OF h inv(2,3) c] obtain s' where r: "brelse s b = Some s'" "holds s' (pins_of s B) (L - {b})"
    "cview s' = cview s" "disk s' = disk s" "dwrites s' = dwrites s" "bio_only s s'" "\<forall>a. bdata s' a = bdata s a"
    "\<And>a e m. cached s' a e m \<longleftrightarrow> cached s a e m" by blast
  with log_holds_frame [OF inv(1) r(6) r(8) r(2)] show ?thesis by blast
qed

text \<open>The effect of a sequence of block writes.\<close>

definition put_block :: "u32 \<times> u32 \<times> buffer \<Rightarrow> (u32 \<Rightarrow> u32 \<Rightarrow> buffer) \<Rightarrow> (u32 \<Rightarrow> u32 \<Rightarrow> buffer)" where
  "put_block w D = (case w of (d, n, x) \<Rightarrow> D(d := (D d)(n := x)))"

definition wrote :: "'a log_scheme \<Rightarrow> (u32 \<times> u32 \<times> buffer) list \<Rightarrow> 'a log_scheme \<Rightarrow> bool" where
  "wrote s W s' \<longleftrightarrow> bio_only s s' \<and> cview s' = fold put_block W (cview s)
     \<and> disk s' = fold put_block W (disk s) \<and> dwrites s' = dwrites s @ W"

lemma wrote_trans: "wrote s V t \<Longrightarrow> wrote t W u \<Longrightarrow> wrote s (V @ W) u"
  by (auto simp: wrote_def intro: bio_only_trans)

lemma wrote_Nil [simp]: "wrote s [] s"
  by (simp add: wrote_def)

lemma write_log_step:
  assumes inv: "log_holds s B {}" and tail: "tail < nat (lh_n s)" and ml: "lh_block s tail \<in> B" and room: "card B < NBUF"
  shows "\<exists>s'. write_log_loop s tail (Suc k) = write_log_loop s' (Suc tail) k \<and> log_holds s' B {}
    \<and> wrote s [(log_dev s, log_start s + of_nat (Suc tail), cview s (log_dev s) (lh_block s tail))] s'"
proof -
  let ?d = "log_dev s" let ?l = "log_start s + of_nat (Suc tail)" let ?n = "lh_block s tail"
  have ok: "log_ok s" using inv by (simp add: log_holds_def)
  have tl: "Suc tail \<le> 30" using tail ok by (auto simp: log_ok_def LOGBLOCKS_def MAXOPBLOCKS_def)
  note lb = log_block_on_disk [OF ok tl]
  have "?n \<in> logged s" using tail by (simp add: logged_def)
  then have nl: "on_disk ?d ?n" "?n \<noteq> ?l" using ok lb(2) by (auto simp: log_ok_def)
  obtain a s1 where 1: "bread s ?d ?l = Some (Some a, s1)" "log_holds s1 B {a}" "cached s1 a ?d ?l"
      "cview s1 = cview s" "disk s1 = disk s" "dwrites s1 = dwrites s" "bio_only s s1" "bdata s1 a = cview s ?d ?l"
    using log_bread [OF inv lb(1)] room by auto
  note f1 = bio_only_log [OF 1(7)] bio_only_logged(1) [OF 1(7)]
  have "\<exists>b. cached s1 b ?d ?n" using 1(2) ml by (auto simp: log_holds_def f1)
  then obtain b s2 where 2: "bread s1 ?d ?n = Some (Some b, s2)" "log_holds s2 B {b, a}" "b \<noteq> a" "cached s2 b ?d ?n"
      "bdata s2 b = cview s ?d ?n" "cview s2 = cview s" "disk s2 = disk s" "dwrites s2 = dwrites s" "bio_only s1 s2"
      "bufs s2 a = bufs s1 a"
    using log_bread [OF 1(2) nl(1)] 1(3,4,5,6) nl(2) by (auto simp: cached_def)
  have c2: "cached s2 a ?d ?l" using 1(3) 2(10) by (simp add: cached_def)
  define s3 where "s3 = set_data s2 a (bdata s2 b)"
  have h2: "holds s2 (pins_of s2 B) {b, a}" using 2(2) by (simp add: log_holds_def)
  have ain: "a \<in> {b, a}" by simp
  note sd = set_data_holds [OF h2 ain c2, of "bdata s2 b", folded s3_def]
  have 3: "log_holds s3 B {b, a}" unfolding s3_def by (rule log_set_data [OF 2(2) _ c2]) simp
  have c3: "cached s3 a ?d ?l" "cached s3 b ?d ?n" using sd(7) c2 2(4) by auto
  obtain s4 where 4: "bwrite s3 a = Some s4" "log_holds s4 B {b, a}" "cview s4 = cview s3"
      "disk s4 = (disk s3)(?d := (disk s3 ?d)(?l := bdata s3 a))" "dwrites s4 = dwrites s3 @ [(?d, ?l, bdata s3 a)]"
      "bio_only s3 s4" "\<And>c. bdata s4 c = bdata s3 c" "\<And>c e m. cached s4 c e m \<longleftrightarrow> cached s3 c e m"
    using log_bwrite [OF 3 _ c3(1)] by auto
  note f3 = bio_only_log [OF bio_only_trans [OF bio_only_trans [OF 1(7) 2(9)] sd(5)]]
  have lg4: "log_dev s4 = ?d" using f3 bio_only_log [OF 4(6)] by auto
  have c4: "cached s4 a ?d ?l" "cached s4 b ?d ?n" using c3 4(8) by auto
  obtain s5 where 5: "brelse s4 b = Some s5" "log_holds s5 B ({b, a} - {b})" "cview s5 = cview s4" "disk s5 = disk s4"
      "dwrites s5 = dwrites s4" "bio_only s4 s5" "\<And>c. bdata s5 c = bdata s4 c"
      "\<And>c e m. cached s5 c e m \<longleftrightarrow> cached s4 c e m"
    using log_brelse [OF 4(2) _ c4(2)] ml lg4 by auto
  have "{b, a} - {b} = {a}" using 2(3) by auto
  then have inv5: "log_holds s5 B {a}" using 5(2) by simp
  have c5: "cached s5 a ?d ?l" using c4 5(8) by auto
  have "bdata s5 a = disk s5 ?d ?l" using 5(4,7) 4(4,7) by simp
  then obtain s6 where 6: "brelse s5 a = Some s6" "log_holds s6 B {}" "cview s6 = cview s5" "disk s6 = disk s5"
      "dwrites s6 = dwrites s5" "bio_only s5 s6"
    using log_brelse [OF inv5 _ c5] by auto
  have x: "bdata s3 a = cview s ?d ?n" using sd(6) 2(5) by simp
  have "bio_only s s6"
    using 1(7) 2(9) sd(5) 4(6) 5(6) 6(6) by (meson bio_only_trans)
  moreover have "cview s6 = (cview s)(?d := (cview s ?d)(?l := cview s ?d ?n))"
    using 6(3) 5(3) 4(3) sd(2) 2(5,6) by simp
  moreover have "disk s6 = (disk s)(?d := (disk s ?d)(?l := cview s ?d ?n))"
    using 6(4) 5(4) 4(4) sd(3) 2(7) x by simp
  moreover have "dwrites s6 = dwrites s @ [(?d, ?l, cview s ?d ?n)]"
    using 6(5) 5(5) 4(5) sd(4) 2(8) x by simp
  ultimately have w: "wrote s [(?d, ?l, cview s ?d ?n)] s6" by (simp add: wrote_def put_block_def)
  have "log_start s + of_nat tail + 1 = ?l" by simp
  then have "write_log_loop s tail (Suc k) = write_log_loop s6 (Suc tail) k"
    using 1(1) 2(1) 4(1) 5(1) 6(1) f1 by (simp add: s3_def Let_def add.commute add.left_commute)
  with 6(2) w show ?thesis by blast
qed


lemma log_bunpin:
  assumes inv: "log_holds s B L" and b: "b \<in> L" and c: "cached s b (log_dev s) n" and n: "n \<in> B"
  shows "log_holds (bunpin s b) (B - {n}) L" "cview (bunpin s b) = cview s"
    "disk (bunpin s b) = disk s" "dwrites (bunpin s b) = dwrites s" "bio_only s (bunpin s b)"
    "bdata (bunpin s b) a = bdata s a" "cached (bunpin s b) a e m \<longleftrightarrow> cached s a e m"
proof -
  have h: "holds s (pins_of s B) L" and ok: "log_ok s" using inv by (auto simp: log_holds_def)
  have one: "pins_of s B b = 1" using c n by (auto simp: pins_of_def)
  note bp = bunpin_holds [OF h b c, unfolded one]
  show "cview (bunpin s b) = cview s" "disk (bunpin s b) = disk s" "dwrites (bunpin s b) = dwrites s"
    "bio_only s (bunpin s b)" "bdata (bunpin s b) a = bdata s a"
    "cached (bunpin s b) a e m \<longleftrightarrow> cached s a e m" for a e m
    by (auto simp: bp)
  note lg = bio_only_log [OF bp(5), simplified] bio_only_logged [OF bp(5), simplified]
  have "pins_of (bunpin s b) (B - {n}) a = ((pins_of s B)(b := 1 - 1)) a" for a
  proof (cases "a = b")
    case True
    then show ?thesis using c bp(7) by (auto simp: pins_of_def lg cached_def)
  next
    case False
    then have "\<not> cached s a (log_dev s) n"
      using bio_invD(4) [of s "pins_of s B" a "log_dev s" n b] h c log_dev_nz [OF ok] by (auto simp: holds_def)
    then show ?thesis using False bp(7) by (auto simp: pins_of_def lg)
  qed
  then have "pins_of (bunpin s b) (B - {n}) = (pins_of s B)(b := 1 - 1)" by (rule ext)
  then show "log_holds (bunpin s b) (B - {n}) L"
    using inv bp(1) bp(7) by (simp add: log_holds_def lg)
qed

lemma install_step:
  assumes inv: "log_holds s B {}" and tail: "tail < nat (lh_n s)"
    and ml: "\<not> recovering \<Longrightarrow> lh_block s tail \<in> B" and room: "card B + 1 < NBUF"
    and B': "B' = (if recovering then B else B - {lh_block s tail})"
    and clean: "cview s (log_dev s) (log_start s + of_nat (Suc tail)) = disk s (log_dev s) (log_start s + of_nat (Suc tail))"
  shows "\<exists>s'. install_loop s recovering tail (Suc k) = install_loop s' recovering (Suc tail) k \<and> log_holds s' B' {}
    \<and> wrote s [(log_dev s, lh_block s tail, cview s (log_dev s) (log_start s + of_nat (Suc tail)))] s'"
proof -
  let ?d = "log_dev s" let ?l = "log_start s + of_nat (Suc tail)" let ?n = "lh_block s tail"
  have ok: "log_ok s" using inv by (simp add: log_holds_def)
  have tl: "Suc tail \<le> 30" using tail ok by (auto simp: log_ok_def LOGBLOCKS_def MAXOPBLOCKS_def)
  note lb = log_block_on_disk [OF ok tl]
  have "?n \<in> logged s" using tail by (simp add: logged_def)
  then have nl: "on_disk ?d ?n" "?n \<noteq> ?l" using ok lb(2) by (auto simp: log_ok_def)
  obtain a s1 where 1: "bread s ?d ?l = Some (Some a, s1)" "log_holds s1 B {a}" "cached s1 a ?d ?l"
      "cview s1 = cview s" "disk s1 = disk s" "dwrites s1 = dwrites s" "bio_only s s1" "bdata s1 a = cview s ?d ?l"
    using log_bread [OF inv lb(1)] room by auto
  note f1 = bio_only_log [OF 1(7)]
  obtain b s2 where 2: "bread s1 ?d ?n = Some (Some b, s2)" "log_holds s2 B {b, a}" "b \<noteq> a" "cached s2 b ?d ?n"
      "cview s2 = cview s" "disk s2 = disk s" "dwrites s2 = dwrites s" "bio_only s1 s2" "bufs s2 a = bufs s1 a"
    using log_bread [OF 1(2) nl(1)] 1(3,4,5,6) nl(2) room by (auto simp: cached_def)
  have c2: "cached s2 a ?d ?l" "bdata s2 a = cview s ?d ?l" using 1(3,8) 2(9) by (simp_all add: cached_def)
  define s3 where "s3 = set_data s2 b (bdata s2 a)"
  have h2: "holds s2 (pins_of s2 B) {b, a}" using 2(2) by (simp add: log_holds_def)
  have bin: "b \<in> {b, a}" "a \<in> {b, a}" by simp_all
  note sd = set_data_holds [OF h2 bin(1) 2(4), of "bdata s2 a", folded s3_def]
  have 3: "log_holds s3 B {b, a}" unfolding s3_def by (rule log_set_data [OF 2(2) bin(1) 2(4)])
  have c3: "cached s3 a ?d ?l" "cached s3 b ?d ?n" using sd(7) c2 2(4) by auto
  obtain s4 where 4: "bwrite s3 b = Some s4" "log_holds s4 B {b, a}" "cview s4 = cview s3"
      "disk s4 = (disk s3)(?d := (disk s3 ?d)(?n := bdata s3 b))" "dwrites s4 = dwrites s3 @ [(?d, ?n, bdata s3 b)]"
      "bio_only s3 s4" "\<And>c. bdata s4 c = bdata s3 c" "\<And>c e m. cached s4 c e m \<longleftrightarrow> cached s3 c e m"
    using log_bwrite [OF 3 bin(1) c3(2)] by auto
  have f3: "bio_only s s3" using 1(7) 2(8) sd(5) by (meson bio_only_trans)
  have f4: "bio_only s s4" using f3 4(6) by (rule bio_only_trans)
  have c4: "cached s4 a ?d ?l" "cached s4 b (log_dev s4) ?n" using c3 4(8) bio_only_log(4) [OF f4] by auto
  define t where "t = (if \<not> recovering then bunpin s4 b else s4)"
  have 5: "log_holds t B' {b, a}" "cview t = cview s4" "disk t = disk s4" "dwrites t = dwrites s4" "bio_only s4 t"
      "\<And>c. bdata t c = bdata s4 c" "\<And>c e m. cached t c e m \<longleftrightarrow> cached s4 c e m"
    using log_bunpin [OF 4(2) bin(1) c4(2)] ml 4(2) by (auto simp: t_def B')
  have x: "bdata s3 b = cview s ?d ?l" "bdata s3 a = cview s ?d ?l" using sd(6) c2 2(3) by auto
  have ca: "bdata t a = disk t ?d ?l" using 5(3,6) 4(4,7) x clean nl(2) sd(3) 2(6) by simp
  have "cached t a ?d ?l" using 5(7) c4(1) by simp
  then obtain s5 where 6: "brelse t a = Some s5" "log_holds s5 B' ({b, a} - {a})" "cview s5 = cview t" "disk s5 = disk t"
      "dwrites s5 = dwrites t" "bio_only t s5" "\<And>c. bdata s5 c = bdata t c" "\<And>c e m. cached s5 c e m \<longleftrightarrow> cached t c e m"
    using log_brelse [OF 5(1) bin(2)] ca by blast
  have "{b, a} - {a} = {b}" using 2(3) by auto
  then have inv5: "log_holds s5 B' {b}" using 6(2) by simp
  have "cached s5 b ?d ?n" using 6(8) 5(7) 4(8) c3 by simp
  moreover have "bdata s5 b = disk s5 ?d ?n" using 6(4,7) 5(3,6) 4(4,7) by simp
  ultimately obtain s6 where 7: "brelse s5 b = Some s6" "log_holds s6 B' {}" "cview s6 = cview s5" "disk s6 = disk s5"
      "dwrites s6 = dwrites s5" "bio_only s5 s6"
    using log_brelse [OF inv5, of b ?d ?n] by auto
  have "bio_only s s6" using f4 5(5) 6(6) 7(6) by (meson bio_only_trans)
  moreover have "cview s6 = (cview s)(?d := (cview s ?d)(?n := cview s ?d ?l))"
    using 7(3) 6(3) 5(2) 4(3) sd(2) c2(2) 2(5) by simp
  moreover have "disk s6 = (disk s)(?d := (disk s ?d)(?n := cview s ?d ?l))"
    using 7(4) 6(4) 5(3) 4(4) sd(3) 2(6) x by simp
  moreover have "dwrites s6 = dwrites s @ [(?d, ?n, cview s ?d ?l)]"
    using 7(5) 6(5) 5(4) 4(5) sd(4) 2(7) x by simp
  ultimately have w: "wrote s [(?d, ?n, cview s ?d ?l)] s6" by (simp add: wrote_def put_block_def)
  have "install_loop s recovering tail (Suc k) = install_loop s6 recovering (Suc tail) k"
    using 1(1) 2(1) 4(1) 6(1) 7(1) f1
    by (simp add: s3_def t_def Let_def add.commute add.left_commute split: if_splits)
  with 7(2) w show ?thesis by blast
qed

subsection \<open>The loops\<close>

lemma put_block_simp [simp]: "put_block (d, n, x) D = D(d := (D d)(n := x))"
  by (simp add: put_block_def)

lemma fold_put_other:
  "(\<And>d n x. (d, n, x) \<in> set W \<Longrightarrow> \<not> (d = e \<and> n = m)) \<Longrightarrow> fold put_block W D e m = D e m"
proof (induction W arbitrary: D)
  case (Cons w W)
  obtain d n x where w: "w = (d, n, x)" by (cases w)
  then have "\<not> (d = e \<and> n = m)" using Cons.prems [of d n x] by simp
  moreover have "fold put_block W (put_block w D) e m = put_block w D e m"
    by (rule Cons.IH) (use Cons.prems in auto)
  ultimately show ?case by (auto simp: w)
qed simp

lemma wrote_other:
  assumes "wrote s W s'" "\<And>d n x. (d, n, x) \<in> set W \<Longrightarrow> \<not> (d = e \<and> n = m)"
  shows "cview s' e m = cview s e m" "disk s' e m = disk s e m"
  using assms by (simp_all add: wrote_def fold_put_other)

lemma wrote_log:
  assumes "wrote s W s'"
  shows "log_start s' = log_start s" "log_outstanding s' = log_outstanding s"
    "log_committing s' = log_committing s" "log_dev s' = log_dev s" "lh_n s' = lh_n s"
    "lh_block s' = lh_block s" "log.more s' = log.more s"
  using assms bio_only_log [of s s'] by (simp_all add: wrote_def)

lemma home_not_log:
  assumes "log_ok s" "i < nat (lh_n s)" "j \<le> 30"
  shows "lh_block s i \<noteq> log_start s + of_nat j"
proof -
  have "lh_block s i \<in> logged s" using assms(2) by (simp add: logged_def)
  then have "\<not> in_log_region s (lh_block s i)" using assms(1) by (simp add: log_ok_def)
  then show ?thesis using log_block_on_disk(2) [OF assms(1,3)] by metis
qed

definition log_copies :: "'a log_scheme \<Rightarrow> (nat \<Rightarrow> buffer) \<Rightarrow> nat \<Rightarrow> nat \<Rightarrow> (u32 \<times> u32 \<times> buffer) list" where
  "log_copies s x i j = map (\<lambda>i. (log_dev s, log_start s + of_nat (Suc i), x i)) [i..<j]"

definition home_copies :: "'a log_scheme \<Rightarrow> (nat \<Rightarrow> buffer) \<Rightarrow> nat \<Rightarrow> nat \<Rightarrow> (u32 \<times> u32 \<times> buffer) list" where
  "home_copies s x i j = map (\<lambda>i. (log_dev s, lh_block s i, x i)) [i..<j]"

lemma write_log_loop_ok:
  assumes "log_holds s B {}" "tail + k = nat (lh_n s)" "\<And>i. i < nat (lh_n s) \<Longrightarrow> lh_block s i \<in> B"
    "card B < NBUF" "\<And>i. i < nat (lh_n s) \<Longrightarrow> cview s (log_dev s) (lh_block s i) = x i"
  shows "\<exists>s'. write_log_loop s tail k = Some s' \<and> log_holds s' B {} \<and> wrote s (log_copies s x tail (tail + k)) s'"
  using assms
proof (induction k arbitrary: s tail)
  case (Suc k)
  have tail: "tail < nat (lh_n s)" using Suc.prems(2) by simp
  have ok: "log_ok s" using Suc.prems(1) by (simp add: log_holds_def)
  then have t30: "Suc tail \<le> 30" using tail by (auto simp: log_ok_def LOGBLOCKS_def MAXOPBLOCKS_def)
  obtain s1 where s1: "write_log_loop s tail (Suc k) = write_log_loop s1 (Suc tail) k" "log_holds s1 B {}"
      "wrote s [(log_dev s, log_start s + of_nat (Suc tail), x tail)] s1"
    using write_log_step [OF Suc.prems(1) tail Suc.prems(3) [OF tail] Suc.prems(4), of k] Suc.prems(5) [OF tail] by auto
  note f = wrote_log [OF s1(3)]
  have "cview s1 (log_dev s1) (lh_block s1 i) = x i" if "i < nat (lh_n s1)" for i
  proof -
    have i: "i < nat (lh_n s)" using that f by simp
    have "cview s1 (log_dev s) (lh_block s i) = cview s (log_dev s) (lh_block s i)"
      by (rule wrote_other(1) [OF s1(3)]) (use home_not_log [OF ok i t30] in auto)
    then show ?thesis using Suc.prems(5) [OF i] f by simp
  qed
  then obtain s' where s': "write_log_loop s1 (Suc tail) k = Some s'" "log_holds s' B {}"
      "wrote s1 (log_copies s x (Suc tail) (tail + Suc k)) s'"
    using Suc.IH [OF s1(2), of "Suc tail"] Suc.prems(2,3,4) f by (auto simp: log_copies_def)
  have "log_copies s x tail (tail + Suc k) =
      [(log_dev s, log_start s + of_nat (Suc tail), x tail)] @ log_copies s x (Suc tail) (tail + Suc k)"
    by (simp add: log_copies_def upt_conv_Cons del: upt_Suc)
  with s1(1) s' wrote_trans [OF s1(3) s'(3)] show ?case by (simp del: write_log_loop.simps)
qed (auto simp: log_copies_def)

lemma install_loop_ok:
  assumes "log_holds s B {}" "tail + k = nat (lh_n s)" "\<not> recovering \<Longrightarrow> lh_block s ` {tail..<nat (lh_n s)} \<subseteq> B"
    "card B + 1 < NBUF"
    "\<And>i. i < nat (lh_n s) \<Longrightarrow> cview s (log_dev s) (log_start s + of_nat (Suc i)) = x i
        \<and> disk s (log_dev s) (log_start s + of_nat (Suc i)) = x i"
  shows "\<exists>s'. install_loop s recovering tail k = Some s'
    \<and> log_holds s' (if recovering then B else B - lh_block s ` {tail..<tail + k}) {}
    \<and> wrote s (home_copies s x tail (tail + k)) s'"
  using assms
proof (induction k arbitrary: s tail B)
  case (Suc k)
  have tail: "tail < nat (lh_n s)" using Suc.prems(2) by simp
  have ok: "log_ok s" using Suc.prems(1) by (simp add: log_holds_def)
  let ?B = "if recovering then B else B - {lh_block s tail}"
  have ml: "\<not> recovering \<Longrightarrow> lh_block s tail \<in> B" using Suc.prems(2,3) by auto
  obtain s1 where s1: "install_loop s recovering tail (Suc k) = install_loop s1 recovering (Suc tail) k"
      "log_holds s1 ?B {}" "wrote s [(log_dev s, lh_block s tail, x tail)] s1"
    using install_step [OF Suc.prems(1) tail ml Suc.prems(4) refl, where k = k] Suc.prems(5) [OF tail] by auto
  note f = wrote_log [OF s1(3)]
  have n30: "Suc i \<le> 30" if "i < nat (lh_n s)" for i
    using ok that by (auto simp: log_ok_def LOGBLOCKS_def MAXOPBLOCKS_def)
  have x: "cview s1 (log_dev s1) (log_start s1 + of_nat (Suc i)) = x i \<and> disk s1 (log_dev s1) (log_start s1 + of_nat (Suc i)) = x i"
    if "i < nat (lh_n s1)" for i
  proof -
    have i: "i < nat (lh_n s)" using that f by simp
    have "cview s1 (log_dev s) (log_start s + of_nat (Suc i)) = cview s (log_dev s) (log_start s + of_nat (Suc i))"
      "disk s1 (log_dev s) (log_start s + of_nat (Suc i)) = disk s (log_dev s) (log_start s + of_nat (Suc i))"
      by (rule wrote_other [OF s1(3)], use home_not_log [OF ok tail n30 [OF i]] in auto)+
    then show ?thesis using Suc.prems(5) [OF i] f by simp
  qed
  have inj: "inj_on (lh_block s) {..<nat (lh_n s)}" using ok by (simp add: log_ok_def)
  have sub: "\<not> recovering \<Longrightarrow> lh_block s1 ` {Suc tail..<nat (lh_n s1)} \<subseteq> ?B"
  proof -
    have "lh_block s i \<noteq> lh_block s tail" if "i \<in> {Suc tail..<nat (lh_n s)}" for i
      using inj_onD [OF inj, of i tail] that tail by auto
    then show "\<not> recovering \<Longrightarrow> ?thesis" using Suc.prems(3) unfolding f by auto
  qed
  have fin: "finite B" using Suc.prems(1) by (simp add: log_holds_def)
  have cB: "card ?B + 1 < NBUF" using Suc.prems(4) card_mono [of B ?B] fin by auto
  have k1: "Suc tail + k = nat (lh_n s1)" using Suc.prems(2) f by simp
  from Suc.IH [OF s1(2) k1 sub cB x, unfolded f(6)]
  obtain s' where s': "install_loop s1 recovering (Suc tail) k = Some s'"
      "log_holds s' (if recovering then ?B else ?B - lh_block s ` {Suc tail..<Suc tail + k}) {}"
      "wrote s1 (home_copies s1 x (Suc tail) (Suc tail + k)) s'"
    by blast
  have "{tail..<tail + Suc k} = insert tail {Suc tail..<Suc tail + k}" by auto
  then have "(if recovering then ?B else ?B - lh_block s ` {Suc tail..<Suc tail + k}) =
      (if recovering then B else B - lh_block s ` {tail..<tail + Suc k})" by auto
  moreover have "home_copies s x tail (tail + Suc k) = (log_dev s, lh_block s tail, x tail) # home_copies s1 x (Suc tail) (Suc tail + k)"
    by (simp add: home_copies_def f upt_conv_Cons del: upt_Suc)
  ultimately show ?case using s1(1) s' wrote_trans [OF s1(3) s'(3)] by (simp del: install_loop.simps)
qed (auto simp: home_copies_def)


subsection \<open>The header and the commit\<close>

definition header :: "buffer \<Rightarrow> int \<Rightarrow> (nat \<Rightarrow> u32) \<Rightarrow> buffer" where
  "header h n blk = put_blocks (put32 h 0 (word_of_int n)) blk 0 (nat n)"

lemma put_blocks_below: "j + 4 \<le> 4 + 4 * i \<Longrightarrow> le32 (put_blocks hb blk i k) j = le32 hb j"
  by (induction k arbitrary: hb i) auto

lemma put_blocks_at: "i \<le> m \<Longrightarrow> m < i + k \<Longrightarrow> le32 (put_blocks hb blk i k) (4 + 4 * m) = blk m"
proof (induction k arbitrary: hb i)
  case (Suc k)
  show ?case
  proof (cases "m = i")
    case True
    then show ?thesis by (simp add: put_blocks_below)
  next
    case False
    then show ?thesis using Suc by simp
  qed
qed simp

lemma header_fields:
  assumes "0 \<le> n" "n \<le> LOGBLOCKS"
  shows "sint (le32 (header h n blk) 0) = n" "i < nat n \<Longrightarrow> le32 (header h n blk) (4 + 4 * i) = blk i"
proof -
  have "le32 (header h n blk) 0 = word_of_int n" by (simp add: header_def put_blocks_below)
  moreover have "sint (word_of_int n :: u32) = n"
    using assms by (simp add: sint_sbintrunc' LOGBLOCKS_def MAXOPBLOCKS_def signed_take_bit_int_eq_self)
  ultimately show "sint (le32 (header h n blk) 0) = n" by simp
  show "i < nat n \<Longrightarrow> le32 (header h n blk) (4 + 4 * i) = blk i"
    unfolding header_def by (rule put_blocks_at) simp_all
qed

lemma write_head_ok:
  assumes inv: "log_holds s B {}" and room: "card B < NBUF"
  shows "\<exists>s'. write_head s = Some s' \<and> log_holds s' B {}
    \<and> wrote s [(log_dev s, log_start s, header (cview s (log_dev s) (log_start s)) (lh_n s) (lh_block s))] s'"
proof -
  let ?d = "log_dev s" let ?n = "log_start s"
  have ok: "log_ok s" using inv by (simp add: log_holds_def)
  have od: "on_disk ?d ?n" using log_block_on_disk(1) [OF ok, of 0] by simp
  obtain b s1 where 1: "bread s ?d ?n = Some (Some b, s1)" "log_holds s1 B {b}" "cached s1 b ?d ?n"
      "cview s1 = cview s" "disk s1 = disk s" "dwrites s1 = dwrites s" "bio_only s s1" "bdata s1 b = cview s ?d ?n"
    using log_bread [OF inv od] room by auto
  note f1 = bio_only_log [OF 1(7)]
  let ?h = "header (cview s ?d ?n) (lh_n s) (lh_block s)"
  define s2 where "s2 = set_data s1 b ?h"
  have h1: "holds s1 (pins_of s1 B) {b}" using 1(2) by (simp add: log_holds_def)
  note sd = set_data_holds [OF h1 singletonI 1(3), of ?h, folded s2_def]
  have 2: "log_holds s2 B {b}" unfolding s2_def by (rule log_set_data [OF 1(2) singletonI 1(3)])
  have c2: "cached s2 b ?d ?n" using sd(7) 1(3) by simp
  obtain s3 where 3: "bwrite s2 b = Some s3" "log_holds s3 B {b}" "cview s3 = cview s2"
      "disk s3 = (disk s2)(?d := (disk s2 ?d)(?n := bdata s2 b))" "dwrites s3 = dwrites s2 @ [(?d, ?n, bdata s2 b)]"
      "bio_only s2 s3" "\<And>c. bdata s3 c = bdata s2 c" "\<And>c e m. cached s3 c e m \<longleftrightarrow> cached s2 c e m"
    using log_bwrite [OF 2 singletonI c2] by auto
  have "cached s3 b ?d ?n" "bdata s3 b = disk s3 ?d ?n" using 3(4,7,8) c2 by auto
  then obtain s4 where 4: "brelse s3 b = Some s4" "log_holds s4 B {}" "cview s4 = cview s3" "disk s4 = disk s3"
      "dwrites s4 = dwrites s3" "bio_only s3 s4"
    using log_brelse [OF 3(2), of b ?d ?n] by auto
  have "bio_only s s4" using 1(7) sd(5) 3(6) 4(6) by (meson bio_only_trans)
  moreover have "cview s4 = (cview s)(?d := (cview s ?d)(?n := ?h))" using 4(3) 3(3) sd(2) 1(4) by simp
  moreover have "disk s4 = (disk s)(?d := (disk s ?d)(?n := ?h))" using 4(4) 3(4) sd(3,6) 1(5) by simp
  moreover have "dwrites s4 = dwrites s @ [(?d, ?n, ?h)]" using 4(5) 3(5) sd(4,6) 1(6) by simp
  ultimately have "wrote s [(?d, ?n, ?h)] s4" by (simp add: wrote_def)
  moreover have "write_head s = Some s4"
    using 1(1,8) 3(1) 4(1) f1 by (simp add: write_head_def Let_def s2_def header_def)
  ultimately show ?thesis using 4(2) by blast
qed

definition commit_data :: "'a log_scheme \<Rightarrow> nat \<Rightarrow> buffer" where
  "commit_data s i = cview s (log_dev s) (lh_block s i)"

definition commit_header :: "'a log_scheme \<Rightarrow> buffer" where
  "commit_header s = header (cview s (log_dev s) (log_start s)) (lh_n s) (lh_block s)"

text \<open>The block writes of a commit, in order: the log blocks, the header that commits, the home blocks, the
  header that erases the transaction.\<close>

definition commit_writes :: "'a log_scheme \<Rightarrow> (u32 \<times> u32 \<times> buffer) list" where
  "commit_writes s =
     (let n = nat (lh_n s) in
      log_copies s (commit_data s) 0 n @ [(log_dev s, log_start s, commit_header s)]
      @ home_copies s (commit_data s) 0 n
      @ [(log_dev s, log_start s, header (commit_header s) 0 (lh_block s))])"

lemma fold_log_copies:
  assumes "log_ok s" "i < nat (lh_n s)"
  shows "fold put_block (log_copies s x 0 (nat (lh_n s))) D (log_dev s) (log_start s + of_nat (Suc i)) = x i"
proof -
  have "fold put_block (log_copies s x 0 k) D (log_dev s) (log_start s + of_nat (Suc i)) = x i"
    if "i < k" "k \<le> nat (lh_n s)" for k
    using that
  proof (induction k)
    case (Suc k)
    have le: "Suc i \<le> 30" "Suc k \<le> 30"
      using assms Suc.prems by (auto simp: log_ok_def LOGBLOCKS_def MAXOPBLOCKS_def)
    have "i \<noteq> k \<Longrightarrow> log_start s + of_nat (Suc i) \<noteq> log_start s + of_nat (Suc k)"
      using log_block_on_disk(3) [OF assms(1) le(1)] log_block_on_disk(3) [OF assms(1) le(2)] by (metis add_left_cancel nat.inject)
    then show ?case using Suc by (cases "i = k") (auto simp: log_copies_def)
  qed simp
  then show ?thesis using assms(2) by blast
qed

lemma lh_n_upd [simp]:
  "cached (s\<lparr>lh_n := x\<rparr>) = cached s" "cview (s\<lparr>lh_n := x\<rparr>) = cview s" "holds (s\<lparr>lh_n := x\<rparr>) = holds s"
  "pins_of (s\<lparr>lh_n := x\<rparr>) = pins_of s"
proof -
  show c: "cached (s\<lparr>lh_n := x\<rparr>) = cached s" by (simp add: cached_def fun_eq_iff)
  show "cview (s\<lparr>lh_n := x\<rparr>) = cview s" by (simp add: cview_def fun_eq_iff c split: option.split)
  show "holds (s\<lparr>lh_n := x\<rparr>) = holds s" by (simp add: holds_def bio_inv_def buf_ok_def fun_eq_iff c)
  show "pins_of (s\<lparr>lh_n := x\<rparr>) = pins_of s" by (simp add: pins_of_def fun_eq_iff c)
qed

lemma wrote_lh_n: "wrote s W s' \<Longrightarrow> wrote (s\<lparr>lh_n := x\<rparr>) W (s'\<lparr>lh_n := x\<rparr>)"
proof -
  assume w: "wrote s W s'"
  then have "bio_only (s\<lparr>lh_n := x\<rparr>) (s'\<lparr>lh_n := x\<rparr>)"
    by (cases s; cases s') (simp add: wrote_def bio_only_def)
  with w show ?thesis by (simp add: wrote_def)
qed

lemma commit_ok:
  assumes inv: "log_inv s {}" and pos: "0 < lh_n s" and room: "nat (lh_n s) + 1 < NBUF"
  shows "\<exists>s'. commit s = Some s' \<and> log_inv s' {} \<and> wrote (s\<lparr>lh_n := 0\<rparr>) (commit_writes s) s'"
proof -
  let ?n = "nat (lh_n s)" let ?B = "logged s" let ?d = "log_dev s"
  have h: "log_holds s ?B {}" using inv by (simp add: log_inv_def)
  then have ok: "log_ok s" by (simp add: log_holds_def)
  have "card ?B \<le> ?n" unfolding logged_def using card_image_le [of "{..<?n}"] by simp
  then have cB: "card ?B < NBUF" "card ?B + 1 < NBUF" using room by auto
  obtain s1 where 1: "write_log s = Some s1" "log_holds s1 ?B {}" "wrote s (log_copies s (commit_data s) 0 ?n) s1"
    using write_log_loop_ok [OF h, of 0 ?n "commit_data s"] cB by (auto simp: write_log_def commit_data_def logged_def)
  note f1 = wrote_log [OF 1(3)]
  have hd: "cview s1 ?d (log_start s) = cview s ?d (log_start s)"
  proof (rule wrote_other(1) [OF 1(3)])
    fix d n y assume "(d, n, y) \<in> set (log_copies s (commit_data s) 0 ?n)"
    then obtain i where i: "i < ?n" "n = log_start s + of_nat (Suc i)" by (auto simp: log_copies_def)
    have "Suc i \<le> 30" using i(1) ok by (auto simp: log_ok_def LOGBLOCKS_def MAXOPBLOCKS_def)
    from log_block_on_disk(3) [OF ok this] i(2) show "\<not> (d = ?d \<and> n = log_start s)" by auto
  qed
  obtain s2 where 2: "write_head s1 = Some s2" "log_holds s2 ?B {}" "wrote s1 [(?d, log_start s, commit_header s)] s2"
    using write_head_ok [OF 1(2) cB(1)] f1 hd by (auto simp: commit_header_def)
  have w2: "wrote s (log_copies s (commit_data s) 0 ?n @ [(?d, log_start s, commit_header s)]) s2"
    using 1(3) 2(3) by (rule wrote_trans)
  note f2 = wrote_log [OF w2]
  have x: "cview s2 (log_dev s2) (log_start s2 + of_nat (Suc i)) = commit_data s i
      \<and> disk s2 (log_dev s2) (log_start s2 + of_nat (Suc i)) = commit_data s i" if "i < nat (lh_n s2)" for i
  proof -
    have i: "i < ?n" using that f2 by simp
    then have "Suc i \<le> 30" using ok by (auto simp: log_ok_def LOGBLOCKS_def MAXOPBLOCKS_def)
    from log_block_on_disk(3) [OF ok this] have "log_start s + of_nat (Suc i) \<noteq> log_start s" by auto
    then show ?thesis using w2 fold_log_copies [OF ok i] f2 by (simp add: wrote_def)
  qed
  obtain s3 where 3: "install_trans s2 False = Some s3"
      "log_holds s3 (?B - lh_block s2 ` {0..<nat (lh_n s2)}) {}" "wrote s2 (home_copies s2 (commit_data s) 0 (nat (lh_n s2))) s3"
    using install_loop_ok [OF 2(2), of 0 "nat (lh_n s2)" False "commit_data s", OF _ _ cB(2) x] f2
    by (auto simp: install_trans_def logged_def lessThan_atLeast0)
  have f3: "bio_only s s3" using w2 3(3) by (auto simp: wrote_def intro: bio_only_trans)
  have "?B - lh_block s2 ` {0..<nat (lh_n s2)} = {}" using f2 by (auto simp: logged_def lessThan_atLeast0)
  then have "log_holds s3 {} {}" using 3(2) by (simp only:)
  then have h3: "log_holds (s3\<lparr>lh_n := 0\<rparr>) {} {}"
    by (auto simp: log_holds_def log_ok_def logged_def pins_of_def LOGBLOCKS_def MAXOPBLOCKS_def)
  have w3: "wrote s (log_copies s (commit_data s) 0 ?n @ [(?d, log_start s, commit_header s)]
      @ home_copies s (commit_data s) 0 ?n) s3"
    using wrote_trans [OF w2 3(3)] f2 by (simp add: home_copies_def)
  have hd3: "cview s3 ?d (log_start s) = commit_header s"
  proof -
    have "cview s3 ?d (log_start s) = cview s2 ?d (log_start s)"
    proof (rule wrote_other(1) [OF 3(3)])
      fix d n y assume "(d, n, y) \<in> set (home_copies s2 (commit_data s) 0 (nat (lh_n s2)))"
      then obtain i where "i < ?n" "n = lh_block s i" using f2 by (auto simp: home_copies_def)
      then show "\<not> (d = ?d \<and> n = log_start s)" using home_not_log [OF ok, of i 0] by auto
    qed
    then show ?thesis using 2(3) by (simp add: wrote_def)
  qed
  obtain s4 where 4: "write_head (s3\<lparr>lh_n := 0\<rparr>) = Some s4" "log_holds s4 {} {}"
      "wrote (s3\<lparr>lh_n := 0\<rparr>) [(?d, log_start s, header (commit_header s) 0 (lh_block s))] s4"
    using write_head_ok [OF h3] bio_only_log [OF f3] hd3 by (auto simp: NBUF_def)
  have "wrote (s\<lparr>lh_n := 0\<rparr>) (commit_writes s) s4"
    using wrote_trans [OF wrote_lh_n [OF w3] 4(3)] by (simp add: commit_writes_def Let_def)
  moreover have "logged s4 = {}" using wrote_log(5) [OF 4(3)] by (simp add: logged_def)
  then have "log_inv s4 {}" using 4(2) by (simp add: log_inv_def)
  moreover have "commit s = Some s4" using pos 1(1) 2(1) 3(1) 4(1) by (simp add: commit_def)
  ultimately show ?thesis by blast
qed

end
