(* ===== verification/Recovery.thy ===== *)
theory Recovery
  imports Log
begin

text \<open>
  Recovery and crash atomicity of \<^verbatim>\<open>kernel/log.c\<close>.  A crash keeps a prefix of the block writes that
  the disk has performed (the ghost field \<open>dwrites\<close>) and loses everything else; the next boot runs
  \<open>initlog\<close> on an empty cache.
\<close>

definition booted :: "'a log_scheme \<Rightarrow> (u32 \<Rightarrow> u32 \<Rightarrow> buffer) \<Rightarrow> bool" where
  "booted s D \<longleftrightarrow> holds s (\<lambda>_. 0) {} \<and> disk s = D"

lemma clean_cview:
  assumes inv: "bio_inv s P" and b: "\<And>b. cached s b d n \<Longrightarrow> \<not> block_locked s b \<and> P b = 0" and d: "d \<noteq> 0"
  shows "cview s d n = disk s d n"
proof (cases "\<exists>b. cached s b d n")
  case True
  then obtain b where c: "cached s b d n" by blast
  then have "buf_ok s (P b) (bufs s b)" "b_valid (bufs s b)"
    using bio_invD(3) [OF inv] cached_valid [OF inv c d] by (auto simp: cached_def)
  then have "bdata s b = disk s d n" using b [OF c] c by (simp add: buf_ok_def cached_def)
  then show ?thesis using cview_cached [OF inv c] d by simp
qed (simp add: cview_uncached)

lemma booted_cview:
  assumes "booted s D"
  shows "cview s = D"
proof (rule ext, rule ext)
  fix d n
  from assms have h: "bio_inv s (\<lambda>_. 0)" "\<forall>b<NBUF. \<not> block_locked s b" "disk s = D" by (auto simp: booted_def holds_def)
  show "cview s d n = D d n"
    using clean_cview [OF h(1), of d n] cview_dev0 [OF h(1)] h(2,3) by (cases "d = 0") (auto simp: cached_def)
qed

text \<open>The header that a disk holds, and what makes it usable.\<close>

definition hdr_n :: "buffer \<Rightarrow> int" where
  "hdr_n h = sint (le32 h 0)"

definition hdr_block :: "buffer \<Rightarrow> nat \<Rightarrow> u32" where
  "hdr_block h i = le32 h (4 + 4 * i)"

definition hdr_ok :: "'a log_scheme \<Rightarrow> buffer \<Rightarrow> bool" where
  "hdr_ok s h \<longleftrightarrow> log_ok (s\<lparr>lh_n := hdr_n h, lh_block := hdr_block h\<rparr>)"

lemma lh_upd [simp]:
  "cached (s\<lparr>lh_n := x, lh_block := y\<rparr>) = cached s" "cview (s\<lparr>lh_n := x, lh_block := y\<rparr>) = cview s"
  "holds (s\<lparr>lh_n := x, lh_block := y\<rparr>) = holds s"
  "pins_of (s\<lparr>lh_n := x, lh_block := y\<rparr>) = pins_of s"
proof -
  show c: "cached (s\<lparr>lh_n := x, lh_block := y\<rparr>) = cached s" by (simp add: cached_def fun_eq_iff)
  show "cview (s\<lparr>lh_n := x, lh_block := y\<rparr>) = cview s" by (simp add: cview_def fun_eq_iff c split: option.split)
  show "holds (s\<lparr>lh_n := x, lh_block := y\<rparr>) = holds s" by (simp add: holds_def bio_inv_def buf_ok_def fun_eq_iff c)
  show "pins_of (s\<lparr>lh_n := x, lh_block := y\<rparr>) = pins_of s" by (simp add: pins_of_def fun_eq_iff c)
qed

lemma log_ok_cong:
  assumes "log_dev s' = log_dev s" "log_start s' = log_start s" "lh_n s' = lh_n s"
    "\<And>i. i < nat (lh_n s) \<Longrightarrow> lh_block s' i = lh_block s i"
  shows "log_ok s' = log_ok s" "logged s' = logged s"
proof -
  show l: "logged s' = logged s" using assms by (auto simp: logged_def)
  have "inj_on (lh_block s') {..<nat (lh_n s)} = inj_on (lh_block s) {..<nat (lh_n s)}"
    using assms(4) by (intro inj_on_cong) simp
  then show "log_ok s' = log_ok s" using assms l by (simp add: log_ok_def in_log_region_def)
qed


lemma read_head_ok:
  assumes h: "booted s D" and ok: "log_ok (s\<lparr>lh_n := 0\<rparr>)" and hdr: "hdr_ok s (D (log_dev s) (log_start s))"
  shows "\<exists>s'. read_head s = Some s' \<and> log_holds s' {} {} \<and> cview s' = D \<and> disk s' = D \<and> dwrites s' = dwrites s
    \<and> log_dev s' = log_dev s \<and> log_start s' = log_start s \<and> lh_n s' = hdr_n (D (log_dev s) (log_start s))
    \<and> (\<forall>i<nat (lh_n s'). lh_block s' i = hdr_block (D (log_dev s) (log_start s)) i)
    \<and> log_outstanding s' = log_outstanding s \<and> log_committing s' = log_committing s"
proof -
  let ?d = "log_dev s" let ?n = "log_start s" let ?h = "D ?d ?n"
  let ?s0 = "s\<lparr>lh_n := 0\<rparr>"
  have od: "on_disk ?d ?n" using log_block_on_disk(1) [OF ok, of 0] by simp
  have p0: "pins_of s {} = (\<lambda>_. 0)" for s :: "'a log_scheme" by (simp add: pins_of_def fun_eq_iff)
  have hs: "holds s (\<lambda>_. 0) {}" and D: "disk s = D" using h by (auto simp: booted_def)
  have room: "(\<exists>b. cached s b ?d ?n) \<or> (\<exists>b<NBUF. b \<notin> {} \<and> (0::nat) = 0)"
    by (intro disjI2 exI [of _ 0]) (simp add: NBUF_def)
  obtain b s1 where 1: "bread s ?d ?n = Some (Some b, s1)" "holds s1 (\<lambda>_. 0) {b}" "cached s1 b ?d ?n"
      "cview s1 = D" "disk s1 = D" "dwrites s1 = dwrites s" "bio_only s s1" "bdata s1 b = ?h" "b < NBUF"
    using bread_holds [OF hs od _ room] booted_cview [OF h] D by auto
  note f1 = bio_only_log [OF 1(7)]
  let ?blk = "\<lambda>i. if i < nat (hdr_n ?h) then hdr_block ?h i else lh_block s i"
  define s2 where "s2 = s1\<lparr>lh_n := hdr_n ?h, lh_block := ?blk\<rparr>"
  have le: "hdr_n ?h \<le> LOGBLOCKS" using hdr by (simp add: hdr_ok_def log_ok_def)
  have s2: "holds s2 (\<lambda>_. 0) {b}" "cached s2 b ?d ?n" "cview s2 = D" "disk s2 = D" "dwrites s2 = dwrites s"
      "bdata s2 b = ?h"
    using 1 by (simp_all add: s2_def)
  obtain s3 where 3: "brelse s2 b = Some s3" "holds s3 (\<lambda>_. 0) {}" "cview s3 = D" "disk s3 = D"
      "dwrites s3 = dwrites s" "bio_only s2 s3"
    using brelse_holds [OF s2(1) singletonI s2(2)] s2(3-6) by auto
  note f3 = bio_only_log [OF 3(6)]
  have "log_ok s3 = log_ok (s\<lparr>lh_n := hdr_n ?h, lh_block := hdr_block ?h\<rparr>)"
    by (rule log_ok_cong) (simp_all add: f3 f1 s2_def)
  then have "log_holds s3 {} {}" using hdr 3(2) by (simp add: log_holds_def p0 hdr_ok_def)
  moreover have "read_head s = Some s3"
    using 1(1,8) 3(1) f1 le
    by (simp add: read_head_def Let_def s2_def ensure_def hdr_n_def hdr_block_def cong: if_cong)
  moreover have "\<forall>i<nat (lh_n s3). lh_block s3 i = hdr_block ?h i" by (simp add: f3 s2_def)
  ultimately show ?thesis using 3 by (auto simp: f3 f1 s2_def)
qed

lemma recover_ok:
  assumes h: "booted s D" and ok: "log_ok (s\<lparr>lh_n := 0\<rparr>)" and hdr: "hdr_ok s (D (log_dev s) (log_start s))"
  shows "\<exists>s'. recover_from_log s = Some s' \<and> log_inv s' {} \<and> lh_n s' = 0 \<and> cview s' = disk s'
    \<and> log_dev s' = log_dev s \<and> log_start s' = log_start s
    \<and> log_outstanding s' = log_outstanding s \<and> log_committing s' = log_committing s
    \<and> (\<exists>h' W. hdr_n h' = 0 \<and> W = map (\<lambda>i. (log_dev s, hdr_block (D (log_dev s) (log_start s)) i,
              D (log_dev s) (log_start s + of_nat (Suc i)))) [0..<nat (hdr_n (D (log_dev s) (log_start s)))]
          @ [(log_dev s, log_start s, h')] \<and> disk s' = fold put_block W D)"
proof -
  let ?d = "log_dev s" let ?n = "log_start s" let ?h = "D ?d ?n" let ?k = "nat (hdr_n ?h)"
  obtain s1 where 1: "read_head s = Some s1" "log_holds s1 {} {}" "cview s1 = D" "disk s1 = D"
      "log_dev s1 = ?d" "log_start s1 = ?n" "lh_n s1 = hdr_n ?h" "\<And>i. i < ?k \<Longrightarrow> lh_block s1 i = hdr_block ?h i"
      "log_outstanding s1 = log_outstanding s" "log_committing s1 = log_committing s"
    using read_head_ok [OF assms] by auto
  let ?x = "\<lambda>i. D ?d (?n + of_nat (Suc i))"
  obtain s2 where 2: "install_trans s1 True = Some s2" "log_holds s2 {} {}" "wrote s1 (home_copies s1 ?x 0 ?k) s2"
    using install_loop_ok [OF 1(2), of 0 ?k True ?x] 1(3-7) by (auto simp: install_trans_def NBUF_def)
  note f2 = wrote_log [OF 2(3)]
  have hc: "home_copies s1 ?x 0 ?k = map (\<lambda>i. (?d, hdr_block ?h i, ?x i)) [0..<?k]"
    using 1(5,8) by (simp add: home_copies_def)
  have h2: "log_holds (s2\<lparr>lh_n := 0\<rparr>) {} {}"
    using 2(2) by (auto simp: log_holds_def log_ok_def logged_def LOGBLOCKS_def MAXOPBLOCKS_def)
  let ?h' = "header (cview s2 ?d ?n) 0 (lh_block s2)"
  obtain s3 where 3: "write_head (s2\<lparr>lh_n := 0\<rparr>) = Some s3" "log_holds s3 {} {}" "wrote (s2\<lparr>lh_n := 0\<rparr>) [(?d, ?n, ?h')] s3"
    using write_head_ok [OF h2] f2 1(5,6) by (auto simp: NBUF_def)
  note f3 = wrote_log [OF 3(3)]
  have "log_inv s3 {}" using 3(2) f3 by (simp add: log_inv_def logged_def)
  moreover have "hdr_n ?h' = 0" unfolding hdr_n_def by (rule header_fields(1)) (simp_all add: LOGBLOCKS_def MAXOPBLOCKS_def)
  moreover have "disk s3 = fold put_block (map (\<lambda>i. (?d, hdr_block ?h i, ?x i)) [0..<?k] @ [(?d, ?n, ?h')]) D"
    using 2(3) 3(3) 1(4) hc by (simp add: wrote_def)
  moreover have "cview s3 = disk s3" using 2(3) 3(3) 1(3,4) by (simp add: wrote_def)
  moreover have "recover_from_log s = Some s3" using 1(1) 2(1) 3(1) by (simp add: recover_from_log_def)
  ultimately show ?thesis using f2 f3 1(5,6,9,10) by auto
qed


subsection \<open>Every prefix of a commit recovers to the old or to the new contents\<close>

lemma unlogged_clean:
  assumes inv: "log_inv s {}" and m: "d \<noteq> log_dev s \<or> m \<notin> logged s"
  shows "cview s d m = disk s d m"
proof (cases "d = 0")
  case True
  then show ?thesis using inv cview_dev0 by (auto simp: log_inv_def log_holds_def holds_def)
next
  case False
  have h: "holds s (pins_of s (logged s)) {}" using inv by (simp add: log_inv_def log_holds_def)
  show ?thesis
  proof (rule clean_cview)
    show "bio_inv s (pins_of s (logged s))" using h by (simp add: holds_def)
    fix b assume c: "cached s b d m"
    then show "\<not> block_locked s b \<and> pins_of s (logged s) b = 0"
      using h m by (auto simp: holds_def pins_of_def cached_def)
  qed (rule False)
qed

lemma fold_home:
  "fold put_block (home_copies s (commit_data s) 0 k) D d m =
     (if d = log_dev s \<and> m \<in> lh_block s ` {..<k} then cview s d m else D d m)"
proof (induction k)
  case (Suc k)
  have "home_copies s (commit_data s) 0 (Suc k) =
      home_copies s (commit_data s) 0 k @ [(log_dev s, lh_block s k, commit_data s k)]"
    by (simp add: home_copies_def)
  moreover have "commit_data s k = cview s (log_dev s) (lh_block s k)" by (simp add: commit_data_def)
  ultimately show ?case using Suc by (auto simp: lessThan_Suc)
qed (simp add: home_copies_def)

lemma log_copies_region:
  assumes "log_ok s" "(d, m, x) \<in> set (log_copies s f 0 (nat (lh_n s)))"
  shows "d = log_dev s" "in_log_region s m" "m \<noteq> log_start s"
proof -
  obtain i where i: "d = log_dev s" "m = log_start s + of_nat (Suc i)" "i < nat (lh_n s)"
    using assms(2) by (auto simp: log_copies_def)
  then have le: "Suc i \<le> 30" using assms(1) by (auto simp: log_ok_def LOGBLOCKS_def MAXOPBLOCKS_def)
  show "d = log_dev s" "in_log_region s m" "m \<noteq> log_start s"
    using i(1,2) log_block_on_disk [OF assms(1) le] by auto
qed

lemma home_copies_region:
  assumes "log_ok s" "(d, m, x) \<in> set (home_copies s f 0 (nat (lh_n s)))"
  shows "d = log_dev s" "m \<in> logged s" "\<not> in_log_region s m"
  using assms by (auto simp: home_copies_def logged_def log_ok_def)

text \<open>The state of the log region in a prefix of the writes of a commit.\<close>

lemma commit_prefix:
  fixes s :: "'a log_scheme"
  assumes ok: "log_ok s" and pre: "P = take k (commit_writes s)" and n: "n = nat (lh_n s)"
    and hdr: "hdr_n (D (log_dev s) (log_start s)) = 0"
  defines "D' \<equiv> fold put_block P D"
  obtains (old) "k \<le> n" "hdr_n (D' (log_dev s) (log_start s)) = 0"
      "\<And>d m. d \<noteq> log_dev s \<or> \<not> in_log_region s m \<Longrightarrow> D' d m = D d m"
  | (log) "n < k" "D' (log_dev s) (log_start s) = commit_header s"
      "\<And>i. i < n \<Longrightarrow> D' (log_dev s) (log_start s + of_nat (Suc i)) = commit_data s i"
      "\<And>d m. d \<noteq> log_dev s \<or> m \<notin> logged s \<and> \<not> in_log_region s m \<Longrightarrow> D' d m = D d m"
  | (new) "n < k" "hdr_n (D' (log_dev s) (log_start s)) = 0"
      "\<And>d m. d \<noteq> log_dev s \<or> \<not> in_log_region s m \<Longrightarrow>
         D' d m = (if d = log_dev s \<and> m \<in> logged s then cview s d m else D d m)"
proof -
  let ?LC = "log_copies s (commit_data s) 0 n" let ?HC = "home_copies s (commit_data s) 0 n"
  let ?d = "log_dev s" let ?st = "log_start s"
  let ?Z = "header (commit_header s) 0 (lh_block s)"
  have W: "commit_writes s = ?LC @ (?d, ?st, commit_header s) # ?HC @ [(?d, ?st, ?Z)]"
    by (simp add: commit_writes_def Let_def n)
  have len: "length ?LC = n" "length ?HC = n" by (simp_all add: log_copies_def home_copies_def)
  note lc = log_copies_region [OF ok, where f = "commit_data s", folded n]
  note hc = home_copies_region [OF ok, where f = "commit_data s", folded n]
  have st: "in_log_region s ?st" by (simp add: in_log_region_def)
  consider "k \<le> n" | "n < k" "k \<le> 2 * n + 1" | "2 * n + 1 < k" by linarith
  then show thesis
  proof cases
    case 1
    then have P: "P = take k ?LC" using pre W len by simp
    then have sub: "w \<in> set P \<Longrightarrow> w \<in> set ?LC" for w using set_take_subset [of k ?LC] by auto
    have "D' ?d ?st = D ?d ?st" unfolding D'_def by (rule fold_put_other) (use sub lc in blast)
    moreover have "D' d m = D d m" if "d \<noteq> ?d \<or> \<not> in_log_region s m" for d m
      unfolding D'_def by (rule fold_put_other) (use sub lc that in blast)
    ultimately show ?thesis using old 1 hdr by simp
  next
    case 2
    let ?H = "take (k - n - 1) ?HC"
    have "k = Suc (n + (k - n - 1))" using 2 by simp
    then have P: "P = ?LC @ (?d, ?st, commit_header s) # ?H"
      using pre W len 2 by (cases "k - n") auto
    have sub: "w \<in> set ?H \<Longrightarrow> w \<in> set ?HC" for w using set_take_subset [of "k - n - 1" ?HC] by auto
    let ?D1 = "fold put_block ?LC D" let ?D2 = "put_block (?d, ?st, commit_header s) ?D1"
    have D': "D' = fold put_block ?H ?D2" by (simp add: D'_def P)
    have home: "D' d m = ?D2 d m" if "d \<noteq> ?d \<or> m \<notin> logged s" for d m
      unfolding D' by (rule fold_put_other) (use sub hc that in blast)
    have other: "D' d m = D d m" if "d \<noteq> ?d \<or> m \<notin> logged s \<and> \<not> in_log_region s m" for d m
    proof -
      have "?D1 d m = D d m" by (rule fold_put_other) (use lc that in blast)
      then show ?thesis using home [of d m] that st by auto
    qed
    have nl: "m \<notin> logged s" if "in_log_region s m" for m using ok that by (auto simp: log_ok_def)
    have "D' ?d ?st = commit_header s" using home [of ?d ?st] nl [OF st] by simp
    moreover have "D' ?d (?st + of_nat (Suc i)) = commit_data s i" if "i < n" for i
    proof -
      have "Suc i \<le> 30" using ok that n by (auto simp: log_ok_def LOGBLOCKS_def MAXOPBLOCKS_def)
      note lb = log_block_on_disk [OF ok this]
      have "?st + of_nat (Suc i) \<noteq> ?st" using lb(3) by auto
      then show ?thesis
        using home [of ?d "?st + of_nat (Suc i)"] nl [OF lb(2)] fold_log_copies [OF ok] that n by simp
    qed
    ultimately show ?thesis using log 2(1) other by blast
  next
    case 3
    then have P: "P = ?LC @ (?d, ?st, commit_header s) # ?HC @ [(?d, ?st, ?Z)]"
      using pre W len by simp
    let ?D1 = "fold put_block ?LC D" let ?D2 = "put_block (?d, ?st, commit_header s) ?D1"
    have D': "D' = put_block (?d, ?st, ?Z) (fold put_block ?HC ?D2)" by (simp add: D'_def P)
    have "D' d m = (if d = ?d \<and> m \<in> logged s then cview s d m else D d m)"
      if "d \<noteq> ?d \<or> \<not> in_log_region s m" for d m
    proof -
      have "?D1 d m = D d m" by (rule fold_put_other) (use lc that in blast)
      then show ?thesis using that st by (auto simp: D' fold_home logged_def n)
    qed
    moreover have "hdr_n (D' ?d ?st) = 0"
      unfolding hdr_n_def D' using header_fields(1) [of 0] by (simp add: LOGBLOCKS_def MAXOPBLOCKS_def)
    ultimately show ?thesis using new 3 by simp
  qed
qed


lemma recover_prefix:
  fixes s :: "'a log_scheme" and s0 :: "'b log_scheme"
  assumes inv: "log_inv s {}" and hdr: "hdr_n (disk s (log_dev s) (log_start s)) = 0"
    and boot: "booted s0 (fold put_block (take k (commit_writes s)) (disk s))"
  shows "\<exists>s'. initlog s0 (log_dev s) (log_start s) = Some s' \<and> log_inv s' {} \<and> lh_n s' = 0
    \<and> (\<forall>d m. d \<noteq> log_dev s \<or> \<not> in_log_region s m \<longrightarrow> cview s' d m = disk s' d m
         \<and> disk s' d m = (if k \<le> nat (lh_n s) then disk s d m else cview s d m))"
proof -
  define D where "D = fold put_block (take k (commit_writes s)) (disk s)"
  let ?d = "log_dev s" let ?st = "log_start s" let ?h = "D ?d ?st" let ?k = "nat (hdr_n ?h)"
  let ?s0 = "s0\<lparr>log_start := ?st, log_dev := ?d\<rparr>"
  have ok: "log_ok s" using inv by (simp add: log_inv_def log_holds_def)
  have "holds ?s0 = holds s0" by (simp add: holds_def bio_inv_def buf_ok_def fun_eq_iff cached_def)
  then have b0: "booted ?s0 D" using boot by (simp add: booted_def D_def)
  have ok0: "log_ok (?s0\<lparr>lh_n := 0\<rparr>)"
    using ok by (simp add: log_ok_def logged_def LOGBLOCKS_def MAXOPBLOCKS_def)
  have hok: "hdr_ok ?s0 ?h" if "hdr_n ?h = 0"
    using that ok by (simp add: hdr_ok_def log_ok_def logged_def LOGBLOCKS_def MAXOPBLOCKS_def)
  have hch: "hdr_n (commit_header s) = lh_n s" "\<And>i. i < nat (lh_n s) \<Longrightarrow> hdr_block (commit_header s) i = lh_block s i"
    using ok by (auto simp: hdr_n_def hdr_block_def commit_header_def header_fields log_ok_def)
  have hok2: "hdr_ok ?s0 ?h" if "?h = commit_header s"
  proof -
    have "log_ok (?s0\<lparr>lh_n := hdr_n ?h, lh_block := hdr_block ?h\<rparr>) =
        log_ok (?s0\<lparr>lh_n := lh_n s, lh_block := lh_block s\<rparr>)"
      by (rule log_ok_cong) (simp_all add: that hch)
    also have "\<dots> = log_ok s" by (simp add: log_ok_def logged_def in_log_region_def)
    finally show ?thesis using ok by (simp add: hdr_ok_def)
  qed
  have init: "initlog s0 ?d ?st = recover_from_log ?s0"
    by (simp add: initlog_def ensure_def LOGBLOCKS_def MAXOPBLOCKS_def BSIZE_def)
  have fin: "\<exists>s'. initlog s0 ?d ?st = Some s' \<and> log_inv s' {} \<and> lh_n s' = 0 \<and> cview s' = disk s'
     \<and> (\<forall>d m. d \<noteq> ?d \<or> \<not> in_log_region s m \<longrightarrow> disk s' d m =
        fold put_block (map (\<lambda>i. (?d, hdr_block ?h i, D ?d (?st + of_nat (Suc i)))) [0..<?k]) D d m)"
    if "hdr_ok ?s0 ?h"
  proof -
    have "hdr_ok ?s0 (D (log_dev ?s0) (log_start ?s0))" using that by simp
    from recover_ok [OF b0 ok0 this] obtain s' h' where s': "recover_from_log ?s0 = Some s'" "log_inv s' {}"
      "lh_n s' = 0" "cview s' = disk s'"
      "disk s' = put_block (?d, ?st, h') (fold put_block (map (\<lambda>i. (?d, hdr_block ?h i, D ?d (?st + of_nat (Suc i)))) [0..<?k]) D)"
      by auto
    moreover have "in_log_region s ?st" by (simp add: in_log_region_def)
    ultimately show ?thesis by (intro exI [of _ s']) (auto simp: init)
  qed
  from ok refl refl hdr show ?thesis
  proof (cases rule: commit_prefix [where k = k and D = "disk s"])
    case old
    then have "hdr_n ?h = 0" by (simp add: D_def)
    with fin [OF hok] old show ?thesis by (auto simp: D_def)
  next
    case log
    have h: "?h = commit_header s" using log by (simp add: D_def)
    have eq: "map (\<lambda>i. (?d, hdr_block ?h i, D ?d (?st + of_nat (Suc i)))) [0..<?k]
        = home_copies s (commit_data s) 0 (nat (lh_n s))"
      using log(3) unfolding h by (simp add: home_copies_def hch flip: D_def)
    have "fold put_block (home_copies s (commit_data s) 0 (nat (lh_n s))) D d m = cview s d m"
      if "d \<noteq> ?d \<or> \<not> in_log_region s m" for d m
      using that log(4) unlogged_clean [OF inv, of d m] by (auto simp: fold_home logged_def D_def)
    then show ?thesis using fin [OF hok2 [OF h]] log(1) unfolding eq by force
  next
    case new
    then have "hdr_n ?h = 0" by (simp add: D_def)
    with fin [OF hok] new unlogged_clean [OF inv] show ?thesis by (auto simp: D_def)
  qed
qed

subsection \<open>The end of a transaction\<close>

lemma commit_contents:
  assumes inv: "log_inv s {}" and w: "wrote t (commit_writes s) s'" and t: "disk t = disk s"
    and m: "d \<noteq> log_dev s \<or> \<not> in_log_region s m"
  shows "disk s' d m = cview s d m"
proof -
  have ok: "log_ok s" using inv by (simp add: log_inv_def log_holds_def)
  have st: "in_log_region s (log_start s)" by (simp add: in_log_region_def)
  let ?n = "nat (lh_n s)"
  let ?D = "fold put_block (log_copies s (commit_data s) 0 ?n) (disk s)"
  have "?D d m = disk s d m"
    by (rule fold_put_other) (use log_copies_region [OF ok] m in blast)
  moreover have "disk s' = put_block (log_dev s, log_start s, header (commit_header s) 0 (lh_block s))
      (fold put_block (home_copies s (commit_data s) 0 ?n) (put_block (log_dev s, log_start s, commit_header s) ?D))"
    using w t by (simp add: wrote_def commit_writes_def Let_def)
  ultimately show ?thesis using m st unlogged_clean [OF inv, of d m] by (auto simp: fold_home logged_def)
qed

lemma log_flags [simp]:
  "cached (s\<lparr>log_outstanding := x\<rparr>) = cached s" "cview (s\<lparr>log_outstanding := x\<rparr>) = cview s"
  "log_inv (s\<lparr>log_outstanding := x\<rparr>) = log_inv s" "in_log_region (s\<lparr>log_outstanding := x\<rparr>) = in_log_region s"
  "cached (s\<lparr>log_committing := c\<rparr>) = cached s" "cview (s\<lparr>log_committing := c\<rparr>) = cview s"
  "log_inv (s\<lparr>log_committing := c\<rparr>) = log_inv s" "in_log_region (s\<lparr>log_committing := c\<rparr>) = in_log_region s"
  by (simp_all add: cached_def cview_def log_inv_def log_holds_def log_ok_def logged_def in_log_region_def holds_def
      pins_of_def bio_inv_def buf_ok_def fun_eq_iff split: option.split)

text \<open>C2: ending a transaction makes it durable.  When the last outstanding operation ends, \<open>end_op\<close> commits and
  returns with an empty log; outside the log region the disk and the cache then both hold the contents that
  readers saw before, so every block that the transaction wrote is on disk.\<close>

theorem end_op_durable:
  assumes "log_inv s {}" "log_outstanding s = 1" "\<not> log_committing s" "nat (lh_n s) + 1 < NBUF"
  shows "\<exists>s'. end_op s = Some s' \<and> log_inv s' {} \<and> lh_n s' = 0 \<and> log_outstanding s' = 0 \<and> \<not> log_committing s'
    \<and> (\<forall>d m. d \<noteq> log_dev s \<or> \<not> in_log_region s m \<longrightarrow> disk s' d m = cview s d m \<and> cview s' d m = cview s d m)"
proof -
  define t where "t = s\<lparr>log_outstanding := 0, log_committing := True\<rparr>"
  have inv: "log_inv t {}" and lh: "lh_n t = lh_n s" and pos: "0 \<le> lh_n s"
    using assms(1) by (auto simp: t_def log_inv_def log_holds_def log_ok_def)
  show ?thesis
  proof (cases "lh_n s = 0")
    case True
    then have "end_op s = Some (t\<lparr>log_committing := False\<rparr>)"
      using assms by (simp add: end_op_def ensure_def Let_def commit_def t_def)
    moreover have "logged s = {}" using True by (simp add: logged_def)
    ultimately show ?thesis using assms True unlogged_clean [OF assms(1)] by (auto simp: t_def)
  next
    case False
    then have n: "0 < lh_n t" "nat (lh_n t) + 1 < NBUF" using pos assms(4) lh by auto
    obtain s' where s': "commit t = Some s'" "log_inv s' {}" "wrote (t\<lparr>lh_n := 0\<rparr>) (commit_writes t) s'"
      using commit_ok [OF inv n] by blast
    have f: "lh_n s' = 0" "log_outstanding s' = 0" "log_dev s' = log_dev s" "log_start s' = log_start s"
      using wrote_log [OF s'(3)] by (simp_all add: t_def)
    have eo: "end_op s = Some (s'\<lparr>log_committing := False\<rparr>)"
      using assms s'(1) by (simp add: end_op_def ensure_def Let_def t_def)
    have "logged s' = {}" using f by (simp add: logged_def)
    then have "cview s' d m = disk s' d m" for d m using unlogged_clean [OF s'(2)] by auto
    moreover have "disk s' d m = cview s d m" if "d \<noteq> log_dev s \<or> \<not> in_log_region s m" for d m
      using commit_contents [OF inv s'(3)] that by (auto simp: t_def)
    ultimately show ?thesis using eo s'(2) f by auto
  qed
qed

subsection \<open>Commits and crashes\<close>

text \<open>C1: a commit is atomic with respect to crashes.  From a state in which the log holds \<open>n\<close> blocks and the
  header on disk is empty, \<open>commit\<close> returns; however many of its block writes reach the disk before a
  crash, booting on that disk and running \<open>initlog\<close> gives a disk and cache whose contents, outside the log
  region and on all other devices, are those before the transaction if at most the \<open>n\<close> log blocks were
  written, and those of the whole transaction otherwise.  The log is empty again.\<close>

theorem commit_crash_atomic:
  fixes s :: "'a log_scheme"
  assumes "log_inv s {}" "0 < lh_n s" "nat (lh_n s) + 1 < NBUF"
    and "hdr_n (disk s (log_dev s) (log_start s)) = 0"
  shows "\<exists>s1 W. commit s = Some s1 \<and> dwrites s1 = dwrites s @ W \<and> length W = 2 * nat (lh_n s) + 2
    \<and> (\<forall>k (s0 :: 'b log_scheme). booted s0 (fold put_block (take k W) (disk s)) \<longrightarrow>
        (\<exists>s'. initlog s0 (log_dev s) (log_start s) = Some s' \<and> log_inv s' {} \<and> lh_n s' = 0
          \<and> (\<forall>d m. d \<noteq> log_dev s \<or> \<not> in_log_region s m \<longrightarrow> cview s' d m = disk s' d m
               \<and> disk s' d m = (if k \<le> nat (lh_n s) then disk s d m else cview s d m))))"
proof -
  obtain s1 where s1: "commit s = Some s1" "wrote (s\<lparr>lh_n := 0\<rparr>) (commit_writes s) s1"
    using commit_ok [OF assms(1-3)] by blast
  have "length (commit_writes s) = 2 * nat (lh_n s) + 2"
    by (simp add: commit_writes_def Let_def log_copies_def home_copies_def)
  moreover have "dwrites s1 = dwrites s @ commit_writes s" using s1(2) by (simp add: wrote_def)
  ultimately show ?thesis using s1(1) recover_prefix [OF assms(1,4)] by blast
qed


subsection \<open>A concrete transaction\<close>

text \<open>A cache with one logged block, block 50 of device 1, over the disk \<open>D\<close>.\<close>

definition log_demo :: "(u32 \<Rightarrow> u32 \<Rightarrow> buffer) \<Rightarrow> 'a \<Rightarrow> 'a log_scheme" where
  "log_demo D m = \<lparr>freelist = 0, mw = (\<lambda>_. 0), mb = (\<lambda>_. 0), kend = 0x1000, phystop = 0x8000,
     arch = riscv_arch, p_sz = 0, p_pagetable = 0x2000, p_pid = 1,
     bufs = (\<lambda>b. \<lparr>b_valid = b = 0, b_disk = False, b_dev = (if b = 0 then 1 else 0),
       b_blockno = (if b = 0 then 50 else 0), b_lock = initsleeplock, b_refcnt = (if b = 0 then 1 else 0),
       b_data = (\<lambda>_. 7)\<rparr>),
     lru = [0..<30], disk = D, dwrites = [],
     log_start = 2, log_outstanding = 1, log_committing = False, log_dev = 1, lh_n = 1, lh_block = (\<lambda>_. 50),
     \<dots> = m\<rparr>"

lemma log_demo_sel [simp]:
  "log_dev (log_demo D m) = 1" "log_start (log_demo D m) = 2" "lh_n (log_demo D m) = 1" "lh_block (log_demo D m) i = 50"
  "log_outstanding (log_demo D m) = 1" "\<not> log_committing (log_demo D m)" "disk (log_demo D m) = D"
  "lru (log_demo D m) = [0..<30]" "p_pid (log_demo D m) = 1" "log.more (log_demo D m) = m" "dwrites (log_demo D m) = []"
  "bufs (log_demo D m) b = \<lparr>b_valid = b = 0, b_disk = False, b_dev = (if b = 0 then 1 else 0),
       b_blockno = (if b = 0 then 50 else 0), b_lock = initsleeplock, b_refcnt = (if b = 0 then 1 else 0),
       b_data = (\<lambda>_. 7)\<rparr>"
  by (simp_all add: log_demo_def)

lemma log_demo_inv: "log_inv (log_demo D m) {}"
proof -
  have lg: "logged (log_demo D m) = {50}" by (auto simp: logged_def)
  have ok: "log_ok (log_demo D m)"
    unfolding log_ok_def lg
    by (auto simp: LOGBLOCKS_def MAXOPBLOCKS_def HAL_NDISK_def on_disk_def RAMDISK_BLOCKS_def
        in_log_region_def inj_on_def)
  have c: "cached (log_demo D m) b d n \<longleftrightarrow> b < 30 \<and> (if b = 0 then d = 1 \<and> n = 50 else d = 0 \<and> n = 0)" for b d n
    by (auto simp: cached_def NBUF_def)
  have pins: "pins_of (log_demo D m) {50} b = (if b = 0 then 1 else 0)" for b
    by (simp add: pins_of_def c)
  have "bio_inv (log_demo D m) (pins_of (log_demo D m) {50})"
    unfolding bio_inv_def c pins
    by (auto simp: buf_ok_def NBUF_def initsleeplock_def on_disk_def HAL_NDISK_def
        RAMDISK_BLOCKS_def split: if_splits)
  then have "holds (log_demo D m) (pins_of (log_demo D m) {50}) {}"
    by (auto simp: holds_def initsleeplock_def)
  then show ?thesis unfolding log_inv_def log_holds_def lg using ok c by (auto intro!: exI [of _ 0])
qed

lemma log_demo_cview: "cview (log_demo D m) d n = (if d = 1 \<and> n = 50 then (\<lambda>_. 7) else D d n)"
proof (cases "d = 1 \<and> n = 50")
  case True
  have "bio_inv (log_demo D m) (pins_of (log_demo D m) (logged (log_demo D m)))"
    using log_demo_inv [of D m] by (simp add: log_inv_def log_holds_def holds_def)
  then show ?thesis using cview_cached [of "log_demo D m" _ 0 d n] True by (simp add: cached_def NBUF_def)
next
  case False
  then have "\<not> (cached (log_demo D m) b d n \<and> b_valid (bufs (log_demo D m) b))" for b by (auto simp: cached_def)
  then have "find (\<lambda>b. cached (log_demo D m) b d n \<and> b_valid (bufs (log_demo D m) b)) [0..<NBUF] = None"
    unfolding find_None_iff by blast
  then show ?thesis unfolding cview_def using False by auto
qed

theorem end_op_durable_witness:
  "\<exists>s'. end_op (log_demo (\<lambda>_ _ _. 0) ()) = Some s' \<and> log_inv s' {} \<and> lh_n s' = 0 \<and> log_outstanding s' = 0 \<and> \<not> log_committing s'
    \<and> (\<forall>d m. d \<noteq> log_dev (log_demo (\<lambda>_ _ _. 0) ()) \<or> \<not> in_log_region (log_demo (\<lambda>_ _ _. 0) ()) m \<longrightarrow>
         disk s' d m = cview (log_demo (\<lambda>_ _ _. 0) ()) d m \<and> cview s' d m = cview (log_demo (\<lambda>_ _ _. 0) ()) d m)"
  by (rule end_op_durable [OF log_demo_inv]) (simp_all add: NBUF_def)

theorem commit_crash_atomic_witness:
  "\<exists>s1 W. commit (log_demo (\<lambda>_ _ _. 0) ()) = Some s1 \<and> dwrites s1 = dwrites (log_demo (\<lambda>_ _ _. 0) ()) @ W
    \<and> length W = 2 * nat (lh_n (log_demo (\<lambda>_ _ _. 0) ())) + 2
    \<and> (\<forall>k (s0 :: log). booted s0 (fold put_block (take k W) (disk (log_demo (\<lambda>_ _ _. 0) ()))) \<longrightarrow>
        (\<exists>s'. initlog s0 (log_dev (log_demo (\<lambda>_ _ _. 0) ())) (log_start (log_demo (\<lambda>_ _ _. 0) ())) = Some s' \<and> log_inv s' {} \<and> lh_n s' = 0
          \<and> (\<forall>d m. d \<noteq> log_dev (log_demo (\<lambda>_ _ _. 0) ()) \<or> \<not> in_log_region (log_demo (\<lambda>_ _ _. 0) ()) m \<longrightarrow> cview s' d m = disk s' d m
               \<and> disk s' d m = (if k \<le> nat (lh_n (log_demo (\<lambda>_ _ _. 0) ())) then disk (log_demo (\<lambda>_ _ _. 0) ()) d m
                                else cview (log_demo (\<lambda>_ _ _. 0) ()) d m))))"
  by (rule commit_crash_atomic [OF log_demo_inv]) (simp_all add: NBUF_def hdr_n_def le32_def le16_def)

end
