(* ===== verification/Trans.thy ===== *)
theory Trans
  imports Recovery
begin

text \<open>
  Transactions as the file system uses them: blocks are read with \<open>bread\<close>/\<open>brelse\<close> and written with
  \<open>log_write\<close>.  The relation \<open>evolves L s W s'\<close> describes code that runs inside a transaction while the
  process holds the buffers \<open>L\<close>: the contents that readers see change by the block writes \<open>W\<close>, all of
  them logged, nothing reaches the disk, and the cache and log stay well-formed.
\<close>

definition log_only :: "'a log_scheme \<Rightarrow> 'a log_scheme \<Rightarrow> bool" where
  "log_only s s' \<longleftrightarrow> s' = s\<lparr>bufs := bufs s', lru := lru s', disk := disk s', dwrites := dwrites s',
     lh_n := lh_n s', lh_block := lh_block s'\<rparr>"

lemma log_only_refl [simp]: "log_only s s"
  by (simp add: log_only_def)

lemma log_only_trans: "log_only s t \<Longrightarrow> log_only t u \<Longrightarrow> log_only s u"
  by (cases s; cases t; cases u) (auto simp: log_only_def)

lemma bio_log_only: "bio_only s s' \<Longrightarrow> log_only s s'"
  by (cases s; cases s') (auto simp: log_only_def bio_only_def)

lemma log_onlyD:
  assumes "log_only s s'"
  shows "log_start s' = log_start s" "log_outstanding s' = log_outstanding s"
    "log_committing s' = log_committing s" "log_dev s' = log_dev s" "log.more s' = log.more s"
    "p_pid s' = p_pid s" "arch s' = arch s" "p_sz s' = p_sz s" "p_pagetable s' = p_pagetable s"
    "in_log_region s' n = in_log_region s n"
  using assms by (cases s; cases s'; simp add: log_only_def in_log_region_def)+

definition evolves :: "nat set \<Rightarrow> 'a log_scheme \<Rightarrow> (u32 \<times> buffer) list \<Rightarrow> 'a log_scheme \<Rightarrow> bool" where
  "evolves L s W s' \<longleftrightarrow> log_only s s' \<and> disk s' = disk s \<and> dwrites s' = dwrites s
     \<and> cview s' = fold put_block (map (\<lambda>(n, x). (log_dev s, n, x)) W) (cview s)
     \<and> logged s' = logged s \<union> fst ` set W
     \<and> (\<forall>b d n. b \<in> L \<longrightarrow> (cached s' b d n \<longleftrightarrow> cached s b d n))"

lemma evolves_refl [simp]: "evolves L s [] s"
  by (auto simp: evolves_def)

lemma evolves_trans:
  assumes "evolves L s V t" "evolves L t W u"
  shows "evolves L s (V @ W) u"
  using assms log_only_trans [of s t u] log_onlyD(4) [of s t]
  by (auto simp: evolves_def)

lemma evolves_mono: "evolves L s W s' \<Longrightarrow> L' \<subseteq> L \<Longrightarrow> evolves L' s W s'"
  by (auto simp: evolves_def)

lemma evolvesD:
  assumes "evolves L s W s'"
  shows "log_only s s'" "log_dev s' = log_dev s" "logged s' = logged s \<union> fst ` set W"
    "cview s' = fold put_block (map (\<lambda>(n, x). (log_dev s, n, x)) W) (cview s)"
  using assms log_onlyD(4) by (auto simp: evolves_def)

lemma card_logged: "log_ok s \<Longrightarrow> card (logged s) = nat (lh_n s)" "finite (logged s)"
  by (simp_all add: log_ok_def logged_def card_image)

lemma log_inv_ok: "log_inv s L \<Longrightarrow> log_ok s"
  by (simp add: log_inv_def log_holds_def)

subsection \<open>Logging a block\<close>

lemma log_write_ok:
  assumes inv: "log_inv s L" and b: "b \<in> L" and c: "cached s b (log_dev s) n"
    and n: "\<not> in_log_region s n" and room: "lh_n s < LOGBLOCKS" and out: "1 \<le> log_outstanding s"
  shows "\<exists>s'. log_write s b = Some s' \<and> log_inv s' L \<and> logged s' = insert n (logged s)
    \<and> log_only s s' \<and> cview s' = cview s \<and> disk s' = disk s \<and> dwrites s' = dwrites s
    \<and> (\<forall>a. bdata s' a = bdata s a) \<and> (\<forall>a e m. cached s' a e m \<longleftrightarrow> cached s a e m)"
proof (cases "n \<in> logged s")
  case True
  then obtain i where i: "i < nat (lh_n s)" "lh_block s i = n" by (auto simp: logged_def)
  have bn: "b_blockno (bufs s b) = n" using c by (simp add: cached_def)
  obtain j where j: "scan (\<lambda>i. lh_block s i = n) 0 (nat (lh_n s)) = Some j" "j < nat (lh_n s)" "lh_block s j = n"
    using i by (cases "scan (\<lambda>i. lh_block s i = n) 0 (nat (lh_n s))")
      (auto simp: scan_def find_None_iff dest: find_SomeD)
  have "(lh_block s)(j := n) = lh_block s" using j(3) by auto
  then have "log_write s b = Some s"
    using room out j bn by (simp add: log_write_def ensure_def Let_def)
  then show ?thesis using inv True by (intro exI [of _ s]) (auto simp: insert_absorb)
next
  case False
  have bn: "b_blockno (bufs s b) = n" using c by (simp add: cached_def)
  have h: "log_holds s (logged s) L" and ok: "log_ok s" using inv log_inv_ok by (auto simp: log_inv_def)
  then have hs: "holds s (pins_of s (logged s)) L" and bc: "\<forall>n\<in>logged s. \<exists>b. cached s b (log_dev s) n"
    by (auto simp: log_holds_def)
  have none: "scan (\<lambda>i. lh_block s i = n) 0 (nat (lh_n s)) = None"
    using False by (auto simp: scan_def find_None_iff logged_def)
  define t where "t = s\<lparr>lh_block := (lh_block s)(nat (lh_n s) := n)\<rparr>"
  define s' where "s' = (bpin t b)\<lparr>lh_n := lh_n s + 1\<rparr>"
  have lw: "log_write s b = Some s'"
    using room out none bn by (simp add: log_write_def ensure_def Let_def s'_def t_def)
  have t: "cached t = cached s" "cview t = cview s" "holds t = holds s"
    by (simp_all add: t_def cached_def cview_def holds_def bio_inv_def buf_ok_def fun_eq_iff split: option.split)
  have p0: "pins_of s (logged s) b = 0" using False c by (auto simp: pins_of_def cached_def)
  have ht: "holds t (pins_of s (logged s)) L" "cached t b (log_dev s) n" using hs c t by simp_all
  note bp = bpin_holds [OF ht(1) b ht(2), unfolded p0]
  have pos: "0 \<le> lh_n s" using ok by (simp add: log_ok_def)
  then have "nat (lh_n s + 1) = Suc (nat (lh_n s))" by simp
  then have lg: "logged s' = insert n (logged s)"
    by (auto simp: logged_def s'_def t_def bpin_def upd_buf_def lessThan_Suc)
  have c': "cached s' a e m \<longleftrightarrow> cached s a e m" for a e m using bp(7) t by (simp add: s'_def)
  have cv: "cview s' = cview s" using bp(2) t by (simp add: s'_def)
  have fr: "log_only s s'" by (simp add: s'_def t_def bpin_def upd_buf_def log_only_def)
  note f = log_onlyD [OF fr]
  have bi: "bio_inv s (pins_of s (logged s))" using hs by (simp add: holds_def)
  have uniq: "\<not> cached s a (log_dev s) n" if "a \<noteq> b" for a
    using bio_invD(4) [OF bi _ c log_dev_nz [OF ok], of a] that by blast
  have "pins_of s' (logged s') a = ((pins_of s (logged s))(b := Suc 0)) a" for a
    using uniq [of a] c by (cases "a = b") (auto simp: pins_of_def f c' lg)
  then have pins: "pins_of s' (logged s') = (pins_of s (logged s))(b := Suc 0)" by (rule ext)
  have od: "on_disk (log_dev s) n"
    using hs b c by (auto simp: holds_def bio_inv_def buf_ok_def cached_def)
  have inj: "inj_on (lh_block s') {..<nat (lh_n s')}"
  proof -
    have "lh_block s' ` {..<nat (lh_n s')} = insert n (logged s)" using lg by (simp add: logged_def)
    moreover have "card (insert n (logged s)) = Suc (nat (lh_n s))"
      using False card_logged(1) [OF ok] by (simp add: card_logged(2))
    moreover have "nat (lh_n s') = Suc (nat (lh_n s))" using pos by (simp add: s'_def)
    ultimately show ?thesis by (intro eq_card_imp_inj_on) simp_all
  qed
  have "log_ok s'"
    unfolding log_ok_def lg f using ok od n inj room pos
    by (auto simp: log_ok_def s'_def)
  moreover have "holds s' (pins_of s' (logged s')) L" unfolding pins using bp(1) by (simp add: s'_def)
  moreover have "\<forall>m\<in>logged s'. \<exists>a. cached s' a (log_dev s') m" using bc c by (auto simp: lg f c')
  ultimately have "log_inv s' L" by (simp add: log_inv_def log_holds_def card_logged)
  moreover have "bdata s' a = bdata s a" for a by (simp add: s'_def t_def bpin_def upd_buf_def)
  ultimately show ?thesis
    using lw lg fr cv c' by (intro exI [of _ s']) (auto simp: s'_def t_def bpin_def upd_buf_def)
qed


subsection \<open>Reading and updating one block\<close>

lemma holds_cached:
  assumes "log_inv s L" "b \<in> L"
  shows "cached s b (b_dev (bufs s b)) (b_blockno (bufs s b))"
  using assms by (auto simp: log_inv_def log_holds_def holds_def cached_def)

definition free_block :: "'a log_scheme \<Rightarrow> nat set \<Rightarrow> u32 \<Rightarrow> bool" where
  "free_block s L n \<longleftrightarrow> (\<forall>b\<in>L. \<not> cached s b (log_dev s) n)"

lemma evolves_free: "evolves L s W s' \<Longrightarrow> free_block s' L n = free_block s L n"
  using evolvesD(2) [of L s W s'] by (auto simp: free_block_def evolves_def)

lemma get_block:
  assumes inv: "log_inv s L" and od: "on_disk (log_dev s) n" and free: "free_block s L n"
    and room: "card (logged s) + card L < NBUF"
  obtains b s' where "bread s (log_dev s) n = Some (Some b, s')" "b \<notin> L" "evolves L s [] s'"
    "log_inv s' (insert b L)" "cached s' b (log_dev s) n" "bdata s' b = cview s (log_dev s) n"
proof -
  have h: "log_holds s (logged s) L" using inv by (simp add: log_inv_def)
  obtain b s' where r: "bread s (log_dev s) n = Some (Some b, s')" "log_holds s' (logged s) (insert b L)" "b \<notin> L"
    "cached s' b (log_dev s) n" "bdata s' b = cview s (log_dev s) n" "cview s' = cview s" "disk s' = disk s"
    "dwrites s' = dwrites s" "bio_only s s'" "\<forall>a. a \<noteq> b \<longrightarrow> bufs s' a = bufs s a"
    using log_bread [OF h od] free room unfolding free_block_def by blast
  show ?thesis
  proof (rule that [OF r(1,3) _ _ r(4,5)])
    have "cached s' a e m \<longleftrightarrow> cached s a e m" if "a \<in> L" for a e m
      using r(3,10) that by (auto simp: cached_def)
    then show "evolves L s [] s'"
      using r(6-9) by (auto simp: evolves_def bio_log_only bio_only_logged)
    show "log_inv s' (insert b L)" using r(2,9) by (simp add: log_inv_def bio_only_logged)
  qed
qed


lemma free_clean:
  assumes inv: "log_inv s L" and free: "free_block s L n" and n: "n \<notin> logged s"
  shows "cview s (log_dev s) n = disk s (log_dev s) n"
proof (rule clean_cview)
  have h: "holds s (pins_of s (logged s)) L" and ok: "log_ok s" using inv by (auto simp: log_inv_def log_holds_def)
  show "bio_inv s (pins_of s (logged s))" using h by (simp add: holds_def)
  show "log_dev s \<noteq> 0" by (rule log_dev_nz [OF ok])
  fix b assume c: "cached s b (log_dev s) n"
  then have "b \<notin> L" using free by (auto simp: free_block_def)
  then show "\<not> block_locked s b \<and> pins_of s (logged s) b = 0"
    using h n c by (auto simp: holds_def pins_of_def cached_def)
qed

lemma held_cview:
  assumes "log_inv s L" "cached s b (log_dev s) n"
  shows "cview s (log_dev s) n = bdata s b"
proof -
  have bi: "bio_inv s (pins_of s (logged s))" and ok: "log_ok s"
    using assms(1) by (auto simp: log_inv_def log_holds_def holds_def)
  show ?thesis by (rule cview_cached [OF bi assms(2) log_dev_nz [OF ok]])
qed

lemma release_block:
  assumes inv: "log_inv s (insert b L)" and b: "b \<notin> L" and c: "cached s b (log_dev s) n"
    and clean: "n \<in> logged s \<or> cview s (log_dev s) n = disk s (log_dev s) n"
  obtains s' where "brelse s b = Some s'" "evolves L s [] s'" "log_inv s' L"
proof -
  have h: "log_holds s (logged s) (insert b L)" using inv by (simp add: log_inv_def)
  have cl: "log_dev s = log_dev s \<and> n \<in> logged s \<or> bdata s b = disk s (log_dev s) n"
    using clean held_cview [OF inv c] by simp
  obtain s' where r: "brelse s b = Some s'" "log_holds s' (logged s) (insert b L - {b})" "cview s' = cview s"
    "disk s' = disk s" "dwrites s' = dwrites s" "bio_only s s'" "\<forall>a. bdata s' a = bdata s a"
    "\<forall>a e m. cached s' a e m \<longleftrightarrow> cached s a e m"
    using log_brelse [OF h insertI1 c cl] by blast
  have "insert b L - {b} = L" using b by blast
  then have "log_inv s' L" using r(2) bio_only_logged(1) [OF r(6)] by (simp add: log_inv_def)
  moreover have "evolves L s [] s'" using r(3-6,8) by (auto simp: evolves_def bio_log_only bio_only_logged)
  ultimately show ?thesis using that r(1) by blast
qed

lemma store_block:
  assumes inv: "log_inv s L" and b: "b \<in> L" and c: "cached s b (log_dev s) n"
    and n: "\<not> in_log_region s n" and room: "card (logged s) < 30" and out: "1 \<le> log_outstanding s"
  obtains s' where "log_write (set_data s b x) b = Some s'" "evolves L s [(n, x)] s'" "log_inv s' L"
proof -
  let ?t = "set_data s b x"
  have h: "log_holds s (logged s) L" and hs: "holds s (pins_of s (logged s)) L" and ok: "log_ok s"
    using inv by (auto simp: log_inv_def log_holds_def)
  note sd = set_data_holds [OF hs b c, of x]
  note f = bio_only_log [OF sd(5)] bio_only_logged [OF sd(5)]
  have ti: "log_inv ?t L" using log_set_data [OF h b c] f by (simp add: log_inv_def)
  have tc: "cached ?t b (log_dev ?t) n" using c sd(7) f by simp
  have "lh_n s < LOGBLOCKS"
    using room card_logged(1) [OF ok] ok by (simp add: log_ok_def LOGBLOCKS_def MAXOPBLOCKS_def)
  then obtain s' where r: "log_write ?t b = Some s'" "log_inv s' L" "logged s' = insert n (logged ?t)"
    "log_only ?t s'" "cview s' = cview ?t" "disk s' = disk ?t" "dwrites s' = dwrites ?t"
    "\<forall>a e m. cached s' a e m \<longleftrightarrow> cached ?t a e m"
    using log_write_ok [OF ti b tc] n out f by auto
  have "log_only s s'" using bio_log_only [OF sd(5)] r(4) by (rule log_only_trans)
  then have "evolves L s [(n, x)] s'" using r sd(2-4,7) f by (auto simp: evolves_def)
  then show ?thesis using that r(1,2) by blast
qed

text \<open>The two idioms of the file system code.\<close>

lemma peek:
  assumes inv: "log_inv s L" and od: "on_disk (log_dev s) n" and free: "free_block s L n"
    and room: "card (logged s) + card L < NBUF"
  obtains b s1 s2 where "bread s (log_dev s) n = Some (Some b, s1)" "bdata s1 b = cview s (log_dev s) n"
    "log_only s s1" "brelse s1 b = Some s2" "evolves L s [] s2" "log_inv s2 L"
proof -
  obtain b s1 where 1: "bread s (log_dev s) n = Some (Some b, s1)" "b \<notin> L" "evolves L s [] s1"
    "log_inv s1 (insert b L)" "cached s1 b (log_dev s) n" "bdata s1 b = cview s (log_dev s) n"
    by (rule get_block [OF assms])
  note f = evolvesD [OF 1(3), simplified]
  have "n \<in> logged s1 \<or> cview s1 (log_dev s1) n = disk s1 (log_dev s1) n"
    using free_clean [OF inv free] 1(3) f by (auto simp: evolves_def)
  with 1(5) f(2) obtain s2 where 2: "brelse s1 b = Some s2" "evolves L s1 [] s2" "log_inv s2 L"
    using release_block [OF 1(4,2), of n] by metis
  then show ?thesis using that [OF 1(1,6) f(1) 2(1)] evolves_trans [OF 1(3) 2(2)] by simp
qed

lemma poke:
  assumes inv: "log_inv s L" and od: "on_disk (log_dev s) n" and free: "free_block s L n"
    and n: "\<not> in_log_region s n" and out: "1 \<le> log_outstanding s"
    and room: "card (logged s) + card L < NBUF"
  obtains b s1 where "bread s (log_dev s) n = Some (Some b, s1)" "bdata s1 b = cview s (log_dev s) n"
    "log_only s s1" "\<And>x. \<exists>s2 s3. log_write (set_data s1 b x) b = Some s2 \<and> brelse s2 b = Some s3
       \<and> evolves L s [(n, x)] s3 \<and> log_inv s3 L"
proof -
  obtain b s1 where 1: "bread s (log_dev s) n = Some (Some b, s1)" "b \<notin> L" "evolves L s [] s1"
    "log_inv s1 (insert b L)" "cached s1 b (log_dev s) n" "bdata s1 b = cview s (log_dev s) n"
    by (rule get_block [OF inv od free room])
  note f = evolvesD [OF 1(3), simplified]
  note g = log_onlyD [OF f(1)]
  have c: "cached s1 b (log_dev s1) n" using 1(5) f by simp
  have "\<exists>s2 s3. log_write (set_data s1 b x) b = Some s2 \<and> brelse s2 b = Some s3
       \<and> evolves L s [(n, x)] s3 \<and> log_inv s3 L" for x
  proof -
    obtain s2 where 2: "log_write (set_data s1 b x) b = Some s2" "evolves (insert b L) s1 [(n, x)] s2"
        "log_inv s2 (insert b L)"
      using store_block [OF 1(4) insertI1 c, of x] n out room f g by (auto simp: NBUF_def)
    note f2 = evolvesD [OF 2(2)]
    have "cached s2 b (log_dev s2) n" "n \<in> logged s2" using c 2(2) f2 by (auto simp: evolves_def)
    then obtain s3 where 3: "brelse s2 b = Some s3" "evolves L s2 [] s3" "log_inv s3 L"
      using release_block [OF 2(3) 1(2)] by metis
    have "evolves L s [(n, x)] s3"
      using evolves_trans [OF evolves_trans [OF 1(3) evolves_mono [OF 2(2)]] 3(2)] by auto
    with 2(1) 3 show ?thesis by blast
  qed
  then show ?thesis using that 1(1,6) f(1) by blast
qed

subsection \<open>What an operation cannot change\<close>

lemma upd_buf_frame [simp]: "bio_only s (upd_buf b f s)"
  by (simp add: upd_buf_def bio_only_def)

lemma bio_only_upd: "bio_only s t \<Longrightarrow> bio_only s (upd_buf b f t)"
  by (rule bio_only_trans [OF _ upd_buf_frame])

lemma acquire_buf_frame: "acquire_buf s b = Some s' \<Longrightarrow> bio_only s s'"
  by (auto simp: acquire_buf_def split: Option.bind_splits)

lemma bget_frame: "bget s d n = Some (b, s') \<Longrightarrow> bio_only s s'"
  by (auto simp: bget_def split: option.splits Option.bind_splits
      dest!: acquire_buf_frame intro: bio_only_trans [OF upd_buf_frame])

lemma hal_disk_rw_frame: "hal_disk_rw s b w = Some s' \<Longrightarrow> bio_only s s'"
  by (auto simp: hal_disk_rw_def Let_def ensure_def bio_only_def upd_buf_def split: if_splits)

lemma bread_frame: "bread s d n = Some (bo, s') \<Longrightarrow> bio_only s s'"
  by (auto simp: bread_def split: if_splits Option.bind_splits
      dest!: bget_frame hal_disk_rw_frame) (meson bio_only_trans bio_only_upd)

lemma bwrite_frame: "bwrite s b = Some s' \<Longrightarrow> bio_only s s'"
  by (auto simp: bwrite_def ensure_def split: if_splits dest!: hal_disk_rw_frame)

lemma brelse_frame: "brelse s b = Some s' \<Longrightarrow> bio_only s s'"
  by (auto simp: brelse_def ensure_def Let_def upd_buf_def bio_only_def split: if_splits)

lemma log_write_frame: "log_write s b = Some s' \<Longrightarrow> log_only s s'"
  by (auto simp: log_write_def ensure_def Let_def bpin_def upd_buf_def log_only_def split: if_splits option.splits)

lemma set_data_frame [simp]: "bio_only s (set_data s b x)"
  by (simp add: set_data_def)

lemma bunpin_frame [simp]: "bio_only s (bunpin s b)"
  by (simp add: bunpin_def)

text \<open>Recovery and transactions change only the cache, the disk and the log.\<close>

definition same_rest :: "'a log_scheme \<Rightarrow> 'a log_scheme \<Rightarrow> bool" where
  "same_rest s s' \<longleftrightarrow> log.more s' = log.more s \<and> p_pid s' = p_pid s \<and> p_sz s' = p_sz s
     \<and> p_pagetable s' = p_pagetable s \<and> arch s' = arch s \<and> freelist s' = freelist s \<and> mw s' = mw s \<and> mb s' = mb s
     \<and> kend s' = kend s \<and> phystop s' = phystop s"

lemma same_rest_refl [simp]: "same_rest s s"
  by (simp add: same_rest_def)

lemma same_rest_trans: "same_rest s t \<Longrightarrow> same_rest t u \<Longrightarrow> same_rest s u"
  by (simp add: same_rest_def)

lemma same_restI: "log_only s s' \<Longrightarrow> same_rest s s'" "bio_only s s' \<Longrightarrow> same_rest s s'"
  by (cases s; cases s'; simp add: same_rest_def log_only_def bio_only_def)+

lemma same_rest_log [simp]:
  "same_rest (s\<lparr>lh_n := a\<rparr>) t = same_rest s t" "same_rest s (t\<lparr>lh_n := a\<rparr>) = same_rest s t"
  "same_rest (s\<lparr>log_outstanding := b\<rparr>) t = same_rest s t" "same_rest s (t\<lparr>log_outstanding := b\<rparr>) = same_rest s t"
  "same_rest (s\<lparr>log_committing := c\<rparr>) t = same_rest s t" "same_rest s (t\<lparr>log_committing := c\<rparr>) = same_rest s t"
  "same_rest (s\<lparr>log_start := d, log_dev := e\<rparr>) t = same_rest s t"
  "same_rest (s\<lparr>lh_n := a, lh_block := f\<rparr>) t = same_rest s t"
  "same_rest s (t\<lparr>lh_n := a, lh_block := f\<rparr>) = same_rest s t"
  by (simp_all add: same_rest_def)

lemma install_loop_frame: "install_loop s r i k = Some s' \<Longrightarrow> same_rest s s'"
proof (induction k arbitrary: s i)
  case (Suc k)
  from Suc.prems obtain a s1 b s2 s4 s5 s6 where
    1: "bread s (log_dev s) (log_start s + of_nat i + 1) = Some (Some a, s1)"
    and 2: "bread s1 (log_dev s1) (lh_block s1 i) = Some (Some b, s2)"
    and 4: "bwrite (set_data s2 b (bdata s2 a)) b = Some s4"
    and 5: "brelse (if r then s4 else bunpin s4 b) a = Some s5"
    and 6: "brelse s5 b = Some s6" and 7: "install_loop s6 r (Suc i) k = Some s'"
    by (auto simp: Let_def split: Option.bind_splits if_splits)
  have "bio_only s4 (if r then s4 else bunpin s4 b)" by simp
  then have "bio_only s s6"
    using bread_frame [OF 1] bread_frame [OF 2] set_data_frame [of s2 b "bdata s2 a"] bwrite_frame [OF 4]
      brelse_frame [OF 5] brelse_frame [OF 6] by (meson bio_only_trans)
  then show ?case using Suc.IH [OF 7] same_restI(2) same_rest_trans by blast
qed simp

lemma write_log_loop_frame: "write_log_loop s i k = Some s' \<Longrightarrow> same_rest s s'"
proof (induction k arbitrary: s i)
  case (Suc k)
  from Suc.prems obtain a s1 b s2 s4 s5 s6 where
    1: "bread s (log_dev s) (log_start s + of_nat i + 1) = Some (Some a, s1)"
    and 2: "bread s1 (log_dev s1) (lh_block s1 i) = Some (Some b, s2)"
    and 4: "bwrite (set_data s2 a (bdata s2 b)) a = Some s4" and 5: "brelse s4 b = Some s5"
    and 6: "brelse s5 a = Some s6" and 7: "write_log_loop s6 (Suc i) k = Some s'"
    by (auto simp: Let_def split: Option.bind_splits)
  have "bio_only s s6"
    using bread_frame [OF 1] bread_frame [OF 2] set_data_frame [of s2 a "bdata s2 b"] bwrite_frame [OF 4]
      brelse_frame [OF 5] brelse_frame [OF 6] by (meson bio_only_trans)
  then show ?case using Suc.IH [OF 7] same_restI(2) same_rest_trans by blast
qed simp

lemma write_head_frame: "write_head s = Some s' \<Longrightarrow> same_rest s s'"
  by (auto simp: write_head_def Let_def split: Option.bind_splits
      dest!: bread_frame bwrite_frame brelse_frame)
    (meson bio_only_trans set_data_frame same_restI(2))

lemma read_head_frame: "read_head s = Some s' \<Longrightarrow> same_rest s s'"
  by (auto simp: read_head_def Let_def ensure_def split: Option.bind_splits if_splits
      dest!: bread_frame brelse_frame same_restI(2)) (meson same_rest_trans)

lemma commit_frame: "commit s = Some s' \<Longrightarrow> same_rest s s'"
  by (auto simp: commit_def write_log_def install_trans_def split: Option.bind_splits if_splits
      dest!: write_log_loop_frame write_head_frame install_loop_frame) (meson same_rest_trans)

lemma begin_op_frame: "begin_op s = Some s' \<Longrightarrow> same_rest s s'"
  by (auto simp: begin_op_def split: if_splits)

lemma end_op_frame: "end_op s = Some s' \<Longrightarrow> same_rest s s'"
  by (auto simp: end_op_def Let_def ensure_def split: Option.bind_splits if_splits dest!: commit_frame)

lemma initlog_frame: "initlog s d n = Some s' \<Longrightarrow> same_rest s s'"
  by (auto simp: initlog_def recover_from_log_def install_trans_def ensure_def split: Option.bind_splits if_splits
      dest!: read_head_frame write_head_frame install_loop_frame) (meson same_rest_trans)

end
