(* ===== verification/Log_Space.thy ===== *)
theory Log_Space
  imports Recovery Trans
begin

text \<open>
  Several processes use the log of \<^verbatim>\<open>kernel/log.c\<close> at the same time.  A state of the protocol is the state of the log and,
  for each process between its \<open>begin_op\<close> and its \<open>end_op\<close>, the number of \<open>log_write\<close>s it has done.  The calls are the
  steps: \<open>log.lock\<close> is held in each of them, and a process whose \<open>begin_op\<close> has to sleep has no step until another process
  changes the log.  A commit runs without the lock but with \<open>log.committing\<close> set and no operation outstanding, so no other
  step of the protocol is possible in the meantime.
\<close>

inductive log_step :: "'a log_scheme \<times> (nat \<rightharpoonup> nat) \<Rightarrow> 'a log_scheme \<times> (nat \<rightharpoonup> nat) \<Rightarrow> bool" where
  Begin: "w p = None \<Longrightarrow> begin_op s = Some s' \<Longrightarrow> log_step (s, w) (s', w(p \<mapsto> 0))"
| Write: "w p = Some k \<Longrightarrow> k < nat MAXOPBLOCKS \<Longrightarrow> log_write s b = Some s' \<Longrightarrow> log_step (s, w) (s', w(p \<mapsto> Suc k))"
| End: "w p = Some k \<Longrightarrow> end_op s = Some s' \<Longrightarrow> log_step (s, w) (s', w(p := None))"
| Cache: "bio_only s s' \<Longrightarrow> log_step (s, w) (s', w)"

inductive_cases log_stepE: "log_step (s, w) (s', w')"

text \<open>The blocks that the outstanding operations may still add to the log.\<close>

definition reserved :: "(nat \<rightharpoonup> nat) \<Rightarrow> int" where
  "reserved w = (\<Sum>p\<in>dom w. MAXOPBLOCKS - int (the (w p)))"

definition space_ok :: "'a log_scheme \<times> (nat \<rightharpoonup> nat) \<Rightarrow> bool" where
  "space_ok = (\<lambda>(s, w). finite (dom w) \<and> (\<forall>p k. w p = Some k \<longrightarrow> int k \<le> MAXOPBLOCKS) \<and> \<not> log_committing s
     \<and> log_outstanding s = int (card (dom w)) \<and> 0 \<le> lh_n s \<and> lh_n s + reserved w \<le> LOGBLOCKS
     \<and> (w = Map.empty \<longrightarrow> lh_n s = 0))"

lemma reserved_upd:
  assumes "finite (dom w)"
  shows "reserved (w(p \<mapsto> k)) = MAXOPBLOCKS - int k + reserved (w(p := None))"
    "w p = Some k \<Longrightarrow> reserved w = MAXOPBLOCKS - int k + reserved (w(p := None))"
proof -
  have *: "reserved (w(p \<mapsto> k)) = MAXOPBLOCKS - int k + reserved (w(p := None))" for k
  proof -
    have d: "dom (w(p \<mapsto> k)) = insert p (dom w - {p})" "dom (w(p := None)) = dom w - {p}" by auto
    have "(\<Sum>q\<in>dom w - {p}. MAXOPBLOCKS - int (the ((w(p \<mapsto> k)) q))) = reserved (w(p := None))"
      unfolding reserved_def d by (rule sum.cong) auto
    then show ?thesis using assms unfolding reserved_def d(1) by (subst sum.insert) auto
  qed
  show "reserved (w(p \<mapsto> k)) = MAXOPBLOCKS - int k + reserved (w(p := None))" by (rule *)
  show "reserved w = MAXOPBLOCKS - int k + reserved (w(p := None))" if "w p = Some k"
    using * [of k] that by (simp add: map_upd_triv)
qed

lemma reserved_bounds:
  assumes "finite (dom w)" "\<forall>p k. w p = Some k \<longrightarrow> int k \<le> MAXOPBLOCKS"
  shows "0 \<le> reserved w" "reserved w \<le> int (card (dom w)) * MAXOPBLOCKS"
proof -
  show "0 \<le> reserved w" unfolding reserved_def using assms(2) by (intro sum_nonneg) auto
  have "reserved w \<le> (\<Sum>p\<in>dom w. MAXOPBLOCKS)" unfolding reserved_def by (intro sum_mono) auto
  then show "reserved w \<le> int (card (dom w)) * MAXOPBLOCKS" by simp
qed

subsection \<open>Steps keep the reservation\<close>

lemma cache_log:
  "bread s d n = Some (bo, s') \<Longrightarrow> log_outstanding s' = log_outstanding s \<and> lh_n s' = lh_n s"
  "bwrite s b = Some s' \<Longrightarrow> log_outstanding s' = log_outstanding s \<and> lh_n s' = lh_n s"
  "brelse s b = Some s' \<Longrightarrow> log_outstanding s' = log_outstanding s \<and> lh_n s' = lh_n s"
  "log_outstanding (set_data s b x) = log_outstanding s \<and> lh_n (set_data s b x) = lh_n s"
  "log_outstanding (bunpin s b) = log_outstanding s \<and> lh_n (bunpin s b) = lh_n s"
  using bio_only_log(2,5) bread_frame bwrite_frame brelse_frame set_data_frame bunpin_frame by blast+

lemma write_log_outstanding: "write_log_loop s i k = Some s' \<Longrightarrow> log_outstanding s' = log_outstanding s"
proof (induction k arbitrary: s i)
  case (Suc k)
  then show ?case by (auto simp: Let_def cache_log(4) split: Option.bind_splits dest!: cache_log(1-3))
qed simp

lemma install_outstanding: "install_loop s r i k = Some s' \<Longrightarrow> log_outstanding s' = log_outstanding s"
proof (induction k arbitrary: s i)
  case (Suc k)
  then show ?case by (auto simp: Let_def cache_log(4,5) split: Option.bind_splits if_splits dest!: cache_log(1-3))
qed simp

lemma write_head_log: "write_head s = Some s' \<Longrightarrow> log_outstanding s' = log_outstanding s \<and> lh_n s' = lh_n s"
  by (auto simp: write_head_def Let_def cache_log(4) split: Option.bind_splits dest!: cache_log(1-3))

lemma commit_empties: "commit s = Some s' \<Longrightarrow> 0 \<le> lh_n s \<Longrightarrow> lh_n s' = 0 \<and> log_outstanding s' = log_outstanding s"
  by (auto simp: commit_def write_log_def install_trans_def split: Option.bind_splits if_splits
      dest!: write_log_outstanding install_outstanding write_head_log)

lemma space_begin:
  assumes "space_ok (s, w)" "w p = None" "begin_op s = Some s'"
  shows "space_ok (s', w(p \<mapsto> 0))"
proof -
  have f: "finite (dom w)" and k: "\<forall>p k. w p = Some k \<longrightarrow> int k \<le> MAXOPBLOCKS" using assms(1) by (auto simp: space_ok_def)
  have "w(p := None) = w" "p \<notin> dom w" using assms(2) by auto
  then show ?thesis
    using assms reserved_upd(1) [OF f, of p 0] reserved_bounds(2) [OF f k]
    by (auto simp: space_ok_def begin_op_def MAXOPBLOCKS_def LOGBLOCKS_def split: if_splits)
qed

lemma space_write:
  assumes "space_ok (s, w)" "w p = Some k" "k < nat MAXOPBLOCKS" "log_write s b = Some s'"
  shows "space_ok (s', w(p \<mapsto> Suc k))"
proof -
  have f: "finite (dom w)" using assms(1) by (auto simp: space_ok_def)
  have "insert p (dom w) = dom w" using assms(2) by auto
  moreover have "lh_n s' = lh_n s \<or> lh_n s' = lh_n s + 1" "log_outstanding s' = log_outstanding s" "log_committing s' = log_committing s"
    using assms(4) by (auto simp: log_write_def ensure_def Let_def bpin_def upd_buf_def split: if_splits)
  ultimately show ?thesis
    using assms reserved_upd(1) [OF f, of p "Suc k"] reserved_upd(2) [where w = w and p = p and k = k, OF f]
    by (auto simp: space_ok_def MAXOPBLOCKS_def LOGBLOCKS_def)
qed

lemma space_end:
  assumes "space_ok (s, w)" "w p = Some k" "end_op s = Some s'"
  shows "space_ok (s', w(p := None))"
proof -
  have f: "finite (dom w)" and k: "int k \<le> MAXOPBLOCKS" "\<forall>p k. w p = Some k \<longrightarrow> int k \<le> MAXOPBLOCKS"
    using assms(1,2) by (auto simp: space_ok_def)
  have c: "card (dom w) = Suc (card (dom w - {p}))" using f assms(2) by (metis card.remove domI)
  note r = reserved_upd(2) [where w = w and p = p and k = k, OF f assms(2)]
  show ?thesis
  proof (cases "log_outstanding s = 1")
    case True
    then have "dom w - {p} = {}" using assms(1) c f by (simp add: space_ok_def)
    then have "w(p := None) = Map.empty" by (simp add: dom_eq_empty_conv [symmetric])
    then show ?thesis using assms True
      by (auto simp: space_ok_def end_op_def ensure_def Let_def reserved_def LOGBLOCKS_def MAXOPBLOCKS_def
          split: Option.bind_splits if_splits dest!: commit_empties)
  next
    case False
    then have "dom w - {p} \<noteq> {}" using assms(1) c by (auto simp: space_ok_def)
    then have "dom (w(p := None)) \<noteq> {}" by simp
    then have "w(p := None) \<noteq> Map.empty" by force
    moreover have "reserved (w(p := None)) \<le> reserved w" using r k(1) by linarith
    ultimately show ?thesis using assms False c
      by (auto simp: space_ok_def end_op_def ensure_def Let_def split: if_splits)
  qed
qed

lemma space_step: "log_step c c' \<Longrightarrow> space_ok c \<Longrightarrow> space_ok c'"
proof (induction rule: log_step.induct)
  case (Cache s s' w)
  then show ?case by (simp add: space_ok_def bio_only_log)
qed (auto intro: space_begin space_write space_end)

lemma space_reachable: "log_step\<^sup>*\<^sup>* c c' \<Longrightarrow> space_ok c \<Longrightarrow> space_ok c'"
  by (induction rule: rtranclp_induct) (auto intro: space_step)


text \<open>An idle log, and its state after two processes have begun an operation.\<close>

definition idle_log :: log where
  "idle_log = (log_demo (\<lambda>_ _ _. 0) ())\<lparr>lh_n := 0, log_outstanding := 0\<rparr>"


subsection \<open>A full log and the buffer cache\<close>

lemma full_log_pins:
  assumes inv: "log_inv s {}" and full: "lh_n s = LOGBLOCKS" and b: "b < NBUF"
  shows "b_refcnt (bufs s b) \<noteq> 0 \<and> (\<exists>n\<in>logged s. cached s b (log_dev s) n)"
proof -
  have h: "holds s (pins_of s (logged s)) {}" and ok: "log_ok s" using inv by (auto simp: log_inv_def log_holds_def)
  have c: "card (logged s) = NBUF" using card_logged(1) [OF ok] full by (simp add: LOGBLOCKS_def MAXOPBLOCKS_def NBUF_def)
  have "\<forall>n\<in>logged s. \<exists>b. cached s b (log_dev s) n" using inv by (simp add: log_inv_def log_holds_def)
  then obtain f where f: "\<forall>n\<in>logged s. cached s (f n) (log_dev s) n" by (rule bchoice [elim_format]) blast
  have "inj_on f (logged s)" using f by (intro inj_onI) (metis cached_def)
  then have "card (f ` logged s) = card {..<NBUF}" using c by (simp add: card_image)
  moreover have "f ` logged s \<subseteq> {..<NBUF}" using f by (auto simp: cached_def)
  ultimately have "f ` logged s = {..<NBUF}" by (intro card_subset_eq) auto
  then have e: "\<exists>n\<in>logged s. cached s b (log_dev s) n" using b f by (metis imageE lessThan_iff)
  then have "pins_of s (logged s) b = 1" by (simp add: pins_of_def)
  moreover have "buf_ok s (pins_of s (logged s) b) (bufs s b)" using h b by (simp add: holds_def bio_inv_def)
  ultimately show ?thesis using refcnt_zero_iff e by fastforce
qed

lemma bread_no_buffers:
  assumes "\<forall>b\<in>set (lru s). b_refcnt (bufs s b) \<noteq> 0 \<and> \<not> (b_dev (bufs s b) = d \<and> b_blockno (bufs s b) = n)"
    and "1 \<le> d" "d \<le> HAL_NDISK"
  shows "bread s d n = None"
proof -
  have "find (\<lambda>b. b_dev (bufs s b) = d \<and> b_blockno (bufs s b) = n) (lru s) = None"
    "find (\<lambda>b. b_refcnt (bufs s b) = 0) (rev (lru s)) = None"
    using assms(1) unfolding find_None_iff by auto
  then have "bget s d n = None" by (simp add: bget_def)
  moreover have "\<not> (d < 1 \<or> HAL_NDISK < d)" using assms(2,3) by (auto simp: not_less)
  ultimately show ?thesis unfolding bread_def by simp
qed

text \<open>C37: The reservations do not make the buffer cache large enough.  The cache has as many buffers as the log has blocks, and
  every logged block stays pinned in the cache until it is installed: when the log is full the first \<open>bread\<close> of
  \<open>write_log\<close> finds no buffer for the log block, so the last \<open>end_op\<close> of the transaction panics instead of committing.\<close>

theorem full_log_cannot_commit:
  assumes "log_inv s {}" "lh_n s = LOGBLOCKS" "log_outstanding s = 1"
  shows "end_op s = None"
proof -
  have ok: "log_ok s" using assms(1) by (rule log_inv_ok)
  let ?t = "s\<lparr>log_outstanding := 0, log_committing := True\<rparr>"
  have lru: "set (lru s) = {..<NBUF}" using assms(1) by (simp add: log_inv_def log_holds_def holds_def bio_inv_def)
  have "in_log_region s (log_start s + of_nat 1)" using log_block_on_disk(2) [OF ok, of 1] by simp
  then have "log_start s + 1 \<notin> logged s" using ok by (auto simp: log_ok_def)
  then have "\<forall>b\<in>set (lru ?t). b_refcnt (bufs ?t b) \<noteq> 0
      \<and> \<not> (b_dev (bufs ?t b) = log_dev s \<and> b_blockno (bufs ?t b) = log_start s + 1)"
    using full_log_pins [OF assms(1,2)] lru by (auto simp: cached_def) metis
  then have "bread ?t (log_dev s) (log_start s + 1) = None"
    using ok by (intro bread_no_buffers) (auto simp: log_ok_def)
  then have "write_log_loop ?t 0 (Suc 29) = None" by (subst write_log_loop.simps) simp
  then have "write_log ?t = None" using assms(2) by (simp add: write_log_def LOGBLOCKS_def MAXOPBLOCKS_def)
  then show ?thesis
    using assms(2,3) by (simp add: end_op_def ensure_def Let_def commit_def LOGBLOCKS_def MAXOPBLOCKS_def)
qed

text \<open>A cache all of whose buffers hold logged blocks, blocks 50 to 79 of device 1.\<close>

definition full_log :: log where
  "full_log = (log_demo (\<lambda>_ _ _. 0) ())\<lparr>lh_n := 30, lh_block := (\<lambda>i. 50 + of_nat i),
     bufs := (\<lambda>b. \<lparr>b_valid = True, b_disk = False, b_dev = 1, b_blockno = 50 + of_nat b, b_lock = initsleeplock, b_refcnt = 1,
       b_data = (\<lambda>_. 7)\<rparr>)\<rparr>"

lemma full_log_block:
  assumes "i < 30"
  shows "unat (50 + of_nat i :: u32) = 50 + i" "j < 30 \<Longrightarrow> (of_nat i :: u32) = of_nat j \<longleftrightarrow> i = j"
proof -
  have u: "unat (of_nat k :: u32) = k" if "k < 30" for k using that by (simp add: unat_of_nat)
  show "unat (50 + of_nat i :: u32) = 50 + i" using u [OF assms] assms by (simp add: unat_word_ariths)
  show "(of_nat i :: u32) = of_nat j \<longleftrightarrow> i = j" if "j < 30" using u [OF assms] u [OF that] by metis
qed

lemma full_log_inv: "log_inv full_log {}"
proof -
  have lg: "logged full_log = (\<lambda>i. 50 + of_nat i) ` {..<30}" by (simp add: logged_def full_log_def)
  have ok: "log_ok full_log"
    unfolding log_ok_def lg
    by (auto simp: full_log_def LOGBLOCKS_def MAXOPBLOCKS_def HAL_NDISK_def on_disk_def RAMDISK_BLOCKS_def
        in_log_region_def full_log_block word_less_nat_alt inj_on_def)
  have c: "cached full_log b d n \<longleftrightarrow> b < 30 \<and> d = 1 \<and> n = 50 + of_nat b" for b d n
    by (auto simp: cached_def NBUF_def full_log_def)
  have pins: "b < 30 \<Longrightarrow> pins_of full_log (logged full_log) b = 1" for b
    unfolding pins_of_def lg c by (auto simp: full_log_def)
  have "bio_inv full_log (pins_of full_log (logged full_log))"
    unfolding bio_inv_def c
    by (auto simp: pins NBUF_def buf_ok_def full_log_block)
      (auto simp: full_log_def initsleeplock_def on_disk_def HAL_NDISK_def RAMDISK_BLOCKS_def full_log_block word_less_nat_alt)
  then have "holds full_log (pins_of full_log (logged full_log)) {}"
    by (auto simp: holds_def initsleeplock_def full_log_def)
  moreover have "\<forall>n\<in>logged full_log. \<exists>b. cached full_log b (log_dev full_log) n" unfolding lg c by (auto simp: full_log_def)
  ultimately show ?thesis unfolding log_inv_def log_holds_def using ok by (simp add: lg)
qed

theorem full_log_cannot_commit_witness: "end_op full_log = None"
  by (rule full_log_cannot_commit [OF full_log_inv]) (simp_all add: full_log_def LOGBLOCKS_def MAXOPBLOCKS_def)

end
