(* ===== verification/Fs.thy ===== *)
theory Fs
  imports Trans
begin

text \<open>
  \<^verbatim>\<open>kernel/fs.c\<close> and \<^verbatim>\<open>kernel/fs.h\<close>: the block allocator, inodes, their contents and directories of the
  native file system.  The record adds the super block and the inode table; an \<open>inode\<close> pointer is an index
  into the table.  This theory holds the operations; \<open>Balloc\<close>, \<open>Inode\<close> and \<open>Filedata\<close> hold what they
  guarantee.
\<close>

subsection \<open>On-disk format\<close>

definition FSMAGIC :: u32 where
  "FSMAGIC = 0x10203040"

definition NDIRECT :: nat where
  "NDIRECT = 12"

definition NINDIRECT :: nat where
  "NINDIRECT = BSIZE div 4"

definition MAXFILE :: nat where
  "MAXFILE = NDIRECT + NINDIRECT"

definition IPB :: u32 where
  "IPB = 16"

definition BPB :: nat where
  "BPB = BSIZE * 8"

definition DIRSIZ :: nat where
  "DIRSIZ = 14"

definition T_DIR :: u16 where
  "T_DIR = 1"

definition T_FILE :: u16 where
  "T_FILE = 2"

definition T_DEVICE :: u16 where
  "T_DEVICE = 3"

record superblock =
  sb_magic :: u32
  sb_size :: u32
  sb_nblocks :: u32
  sb_ninodes :: u32
  sb_nlog :: u32
  sb_logstart :: u32
  sb_inodestart :: u32
  sb_bmapstart :: u32

definition IBLOCK :: "u32 \<Rightarrow> superblock \<Rightarrow> u32" where
  "IBLOCK i sb = i div IPB + sb_inodestart sb"

definition BBLOCK :: "u32 \<Rightarrow> superblock \<Rightarrow> u32" where
  "BBLOCK b sb = b div of_nat BPB + sb_bmapstart sb"

record inode =
  i_dev :: u32
  i_inum :: u32
  i_ref :: int
  i_lock :: sleeplock
  i_valid :: bool
  i_type :: u16
  i_major :: u16
  i_minor :: u16
  i_nlink :: u16
  i_size :: u32
  i_addrs :: "nat \<Rightarrow> u32"

definition NINODE :: nat where
  "NINODE = 50"

record fs = log +
  sb :: superblock
  itable :: "nat \<Rightarrow> inode"

definition upd_inode :: "nat \<Rightarrow> (inode \<Rightarrow> inode) \<Rightarrow> 'a fs_scheme \<Rightarrow> 'a fs_scheme" where
  "upd_inode ip f s = s\<lparr>itable := upd ip f (itable s)\<rparr>"

text \<open>\<open>struct superblock\<close> and \<open>struct dinode\<close> in a block, at byte offset \<open>o\<close>.\<close>

definition get_superblock :: "buffer \<Rightarrow> superblock" where
  "get_superblock d = \<lparr>sb_magic = le32 d 0, sb_size = le32 d 4, sb_nblocks = le32 d 8, sb_ninodes = le32 d 12,
     sb_nlog = le32 d 16, sb_logstart = le32 d 20, sb_inodestart = le32 d 24, sb_bmapstart = le32 d 28\<rparr>"

definition dinode_off :: "u32 \<Rightarrow> nat" where
  "dinode_off inum = unat (inum mod IPB) * 64"

definition get_dinode :: "buffer \<Rightarrow> nat \<Rightarrow> inode \<Rightarrow> inode" where
  "get_dinode d k ip = ip\<lparr>i_type := le16 d k, i_major := le16 d (k + 2), i_minor := le16 d (k + 4),
     i_nlink := le16 d (k + 6), i_size := le32 d (k + 8),
     i_addrs := (\<lambda>i. if i \<le> NDIRECT then le32 d (k + 12 + 4 * i) else i_addrs ip i)\<rparr>"

fun put_addrs :: "buffer \<Rightarrow> nat \<Rightarrow> (nat \<Rightarrow> u32) \<Rightarrow> nat \<Rightarrow> buffer" where
  "put_addrs d k a 0 = d"
| "put_addrs d k a (Suc i) = put32 (put_addrs d k a i) (k + 12 + 4 * i) (a i)"

definition put_dinode :: "buffer \<Rightarrow> nat \<Rightarrow> inode \<Rightarrow> buffer" where
  "put_dinode d k ip =
     (let d = put16 d k (i_type ip);
          d = put16 d (k + 2) (i_major ip);
          d = put16 d (k + 4) (i_minor ip);
          d = put16 d (k + 6) (i_nlink ip);
          d = put32 d (k + 8) (i_size ip)
      in put_addrs d k (i_addrs ip) (Suc NDIRECT))"

subsection \<open>Blocks\<close>

definition readsb :: "'a fs_scheme \<Rightarrow> u32 \<Rightarrow> 'a fs_scheme option" where
  "readsb s dev = do {
     (bo, s) \<leftarrow> bread s dev 1;
     bp \<leftarrow> bo;
     let s = s\<lparr>sb := get_superblock (bdata s bp)\<rparr>;
     brelse s bp
   }"

definition bzero :: "'a fs_scheme \<Rightarrow> u32 \<Rightarrow> u32 \<Rightarrow> 'a fs_scheme option" where
  "bzero s dev bno = do {
     (bo, s) \<leftarrow> bread s dev bno;
     bp \<leftarrow> bo;
     let s = set_data s bp (fill (bdata s bp) 0 0 BSIZE);
     s \<leftarrow> log_write s bp;
     brelse s bp
   }"

definition bit_mask :: "nat \<Rightarrow> byte" where
  "bit_mask bi = push_bit (bi mod 8) 1"

text \<open>The loop of \<open>balloc\<close> over the bitmap blocks from block number \<open>b\<close>, for \<open>k\<close> more rounds; the inner loop
  stops at \<open>BPB\<close> bits or at \<open>sb.size\<close>.\<close>

fun balloc_loop :: "'a fs_scheme \<Rightarrow> u32 \<Rightarrow> nat \<Rightarrow> nat \<Rightarrow> (u32 \<times> 'a fs_scheme) option" where
  "balloc_loop s dev b 0 = Some (0, s)"
| "balloc_loop s dev b (Suc k) = do {
     (bo, s) \<leftarrow> bread s dev (BBLOCK (of_nat b) (sb s));
     bp \<leftarrow> bo;
     (case scan (\<lambda>bi. bdata s bp (bi div 8) AND bit_mask bi = 0) 0 (min BPB (unat (sb_size (sb s)) - b)) of
        Some bi \<Rightarrow> do {
          let s = set_data s bp ((bdata s bp)(bi div 8 := bdata s bp (bi div 8) OR bit_mask bi));
          s \<leftarrow> log_write s bp;
          s \<leftarrow> brelse s bp;
          s \<leftarrow> bzero s dev (of_nat (b + bi));
          Some (of_nat (b + bi), s)
        }
      | None \<Rightarrow> do {
          s \<leftarrow> brelse s bp;
          balloc_loop s dev (b + BPB) k
        })
   }"

definition balloc :: "'a fs_scheme \<Rightarrow> u32 \<Rightarrow> (u32 \<times> 'a fs_scheme) option" where
  "balloc s dev = balloc_loop s dev 0 ((unat (sb_size (sb s)) + BPB - 1) div BPB)"

definition bfree :: "'a fs_scheme \<Rightarrow> u32 \<Rightarrow> u32 \<Rightarrow> 'a fs_scheme option" where
  "bfree s dev b = do {
     (bo, s) \<leftarrow> bread s dev (BBLOCK b (sb s));
     bp \<leftarrow> bo;
     let bi = unat b mod BPB;
     ensure (bdata s bp (bi div 8) AND bit_mask bi \<noteq> 0) ''freeing free block'';
     let s = set_data s bp ((bdata s bp)(bi div 8 := bdata s bp (bi div 8) AND NOT (bit_mask bi)));
     s \<leftarrow> log_write s bp;
     brelse s bp
   }"

subsection \<open>Inodes\<close>

definition iinit :: "'a fs_scheme \<Rightarrow> 'a fs_scheme" where
  "iinit s = s\<lparr>itable := (\<lambda>i. if i < NINODE then (itable s i)\<lparr>i_lock := initsleeplock\<rparr> else itable s i)\<rparr>"

definition iget :: "'a fs_scheme \<Rightarrow> u32 \<Rightarrow> u32 \<Rightarrow> (nat \<times> 'a fs_scheme) option" where
  "iget s dev inum =
     (case scan (\<lambda>ip. i_ref (itable s ip) > 0 \<and> i_dev (itable s ip) = dev \<and> i_inum (itable s ip) = inum) 0 NINODE of
        Some ip \<Rightarrow> Some (ip, upd_inode ip (i_ref_update (\<lambda>r. r + 1)) s)
      | None \<Rightarrow>
          (case scan (\<lambda>ip. i_ref (itable s ip) = 0) 0 NINODE of
             None \<Rightarrow> panic ''iget: no inodes''
           | Some ip \<Rightarrow>
               Some (ip, upd_inode ip (\<lambda>i. i\<lparr>i_dev := dev, i_inum := inum, i_ref := 1, i_valid := False\<rparr>) s)))"

text \<open>The loop of \<open>ialloc\<close> from \<open>inum\<close>, for \<open>k\<close> more rounds; a null result is \<^const>\<open>None\<close>.\<close>

fun ialloc_loop :: "'a fs_scheme \<Rightarrow> u32 \<Rightarrow> u16 \<Rightarrow> nat \<Rightarrow> nat \<Rightarrow> (nat option \<times> 'a fs_scheme) option" where
  "ialloc_loop s dev type inum 0 = Some (None, s)"
| "ialloc_loop s dev type inum (Suc k) = do {
     (bo, s) \<leftarrow> bread s dev (IBLOCK (of_nat inum) (sb s));
     bp \<leftarrow> bo;
     let dip = dinode_off (of_nat inum);
     if le16 (bdata s bp) dip = 0 then do {
       let s = set_data s bp (put16 (fill (bdata s bp) dip 0 64) dip type);
       s \<leftarrow> log_write s bp;
       s \<leftarrow> brelse s bp;
       (ip, s) \<leftarrow> iget s dev (of_nat inum);
       Some (Some ip, s)
     } else do {
       s \<leftarrow> brelse s bp;
       ialloc_loop s dev type (Suc inum) k
     }
   }"

definition ialloc :: "'a fs_scheme \<Rightarrow> u32 \<Rightarrow> u16 \<Rightarrow> (nat option \<times> 'a fs_scheme) option" where
  "ialloc s dev type = ialloc_loop s dev type 1 (unat (sb_ninodes (sb s)) - 1)"

definition iupdate :: "'a fs_scheme \<Rightarrow> nat \<Rightarrow> 'a fs_scheme option" where
  "iupdate s ip = do {
     (bo, s) \<leftarrow> bread s (i_dev (itable s ip)) (IBLOCK (i_inum (itable s ip)) (sb s));
     bp \<leftarrow> bo;
     let s = set_data s bp (put_dinode (bdata s bp) (dinode_off (i_inum (itable s ip))) (itable s ip));
     s \<leftarrow> log_write s bp;
     brelse s bp
   }"

definition idup :: "'a fs_scheme \<Rightarrow> nat \<Rightarrow> nat \<times> 'a fs_scheme" where
  "idup s ip = (ip, upd_inode ip (i_ref_update (\<lambda>r. r + 1)) s)"

definition ilock :: "'a fs_scheme \<Rightarrow> nat \<Rightarrow> 'a fs_scheme option" where
  "ilock s ip = do {
     ensure (1 \<le> i_ref (itable s ip)) ''ilock'';
     lk \<leftarrow> acquiresleep (p_pid s) (i_lock (itable s ip));
     let s = upd_inode ip (i_lock_update (\<lambda>_. lk)) s;
     if \<not> i_valid (itable s ip) then do {
       (bo, s) \<leftarrow> bread s (i_dev (itable s ip)) (IBLOCK (i_inum (itable s ip)) (sb s));
       bp \<leftarrow> bo;
       let s = upd_inode ip (get_dinode (bdata s bp) (dinode_off (i_inum (itable s ip)))) s;
       s \<leftarrow> brelse s bp;
       let s = upd_inode ip (i_valid_update (\<lambda>_. True)) s;
       ensure (i_type (itable s ip) \<noteq> 0) ''ilock: no type'';
       Some s
     } else Some s
   }"

definition iunlock :: "'a fs_scheme \<Rightarrow> nat \<Rightarrow> 'a fs_scheme option" where
  "iunlock s ip = do {
     ensure (holdingsleep (p_pid s) (i_lock (itable s ip)) \<and> 1 \<le> i_ref (itable s ip)) ''iunlock'';
     Some (upd_inode ip (i_lock_update releasesleep) s)
   }"

subsection \<open>Inode content\<close>

text \<open>\<open>bmap\<close> in three parts: the address in slot \<open>i\<close> of \<open>ip->addrs\<close>, allocated if it is 0; the address in
  entry \<open>k\<close> of the locked indirect block \<open>bp\<close>, allocated if it is 0; and the choice between them.\<close>

definition bmap_slot :: "'a fs_scheme \<Rightarrow> nat \<Rightarrow> nat \<Rightarrow> (u32 \<times> 'a fs_scheme) option" where
  "bmap_slot s ip i =
     (if i_addrs (itable s ip) i = 0 then do {
        (addr, s) \<leftarrow> balloc s (i_dev (itable s ip));
        if addr = 0 then Some (0, s)
        else Some (addr, upd_inode ip (i_addrs_update (\<lambda>a. a(i := addr))) s)
      } else Some (i_addrs (itable s ip) i, s))"

definition bmap_entry :: "'a fs_scheme \<Rightarrow> nat \<Rightarrow> nat \<Rightarrow> nat \<Rightarrow> (u32 \<times> 'a fs_scheme) option" where
  "bmap_entry s ip bp k =
     (if le32 (bdata s bp) (4 * k) = 0 then do {
        (addr, s) \<leftarrow> balloc s (i_dev (itable s ip));
        if addr \<noteq> 0 then do {
          s \<leftarrow> log_write (set_data s bp (put32 (bdata s bp) (4 * k) addr)) bp;
          Some (addr, s)
        } else Some (addr, s)
      } else Some (le32 (bdata s bp) (4 * k), s))"

definition bmap :: "'a fs_scheme \<Rightarrow> nat \<Rightarrow> u32 \<Rightarrow> (u32 \<times> 'a fs_scheme) option" where
  "bmap s ip bn =
     (if unat bn < NDIRECT then bmap_slot s ip (unat bn)
      else
        (let bn = bn - of_nat NDIRECT in
         if unat bn < NINDIRECT then do {
           (addr, s) \<leftarrow> bmap_slot s ip NDIRECT;
           if addr = 0 then Some (0, s)
           else do {
             (bo, s) \<leftarrow> bread s (i_dev (itable s ip)) addr;
             bp \<leftarrow> bo;
             (addr, s) \<leftarrow> bmap_entry s ip bp (unat bn);
             s \<leftarrow> brelse s bp;
             Some (addr, s)
           }
         } else panic ''bmap: out of range''))"

fun itrunc_direct :: "'a fs_scheme \<Rightarrow> nat \<Rightarrow> nat \<Rightarrow> nat \<Rightarrow> 'a fs_scheme option" where
  "itrunc_direct s ip i 0 = Some s"
| "itrunc_direct s ip i (Suc k) =
     (if i_addrs (itable s ip) i \<noteq> 0 then do {
        s \<leftarrow> bfree s (i_dev (itable s ip)) (i_addrs (itable s ip) i);
        itrunc_direct (upd_inode ip (i_addrs_update (\<lambda>a. a(i := 0))) s) ip (Suc i) k
      } else itrunc_direct s ip (Suc i) k)"

fun itrunc_indirect :: "'a fs_scheme \<Rightarrow> nat \<Rightarrow> nat \<Rightarrow> nat \<Rightarrow> nat \<Rightarrow> 'a fs_scheme option" where
  "itrunc_indirect s ip bp j 0 = Some s"
| "itrunc_indirect s ip bp j (Suc k) = do {
     s \<leftarrow> (if le32 (bdata s bp) (4 * j) \<noteq> 0
           then bfree s (i_dev (itable s ip)) (le32 (bdata s bp) (4 * j)) else Some s);
     itrunc_indirect s ip bp (Suc j) k
   }"

definition itrunc :: "'a fs_scheme \<Rightarrow> nat \<Rightarrow> 'a fs_scheme option" where
  "itrunc s ip = do {
     s \<leftarrow> itrunc_direct s ip 0 NDIRECT;
     s \<leftarrow> (if i_addrs (itable s ip) NDIRECT \<noteq> 0 then do {
            (bo, s) \<leftarrow> bread s (i_dev (itable s ip)) (i_addrs (itable s ip) NDIRECT);
            bp \<leftarrow> bo;
            s \<leftarrow> itrunc_indirect s ip bp 0 NINDIRECT;
            s \<leftarrow> brelse s bp;
            s \<leftarrow> bfree s (i_dev (itable s ip)) (i_addrs (itable s ip) NDIRECT);
            Some (upd_inode ip (i_addrs_update (\<lambda>a. a(NDIRECT := 0))) s)
          } else Some s);
     let s = upd_inode ip (i_size_update (\<lambda>_. 0)) s;
     iupdate s ip
   }"

definition iput :: "'a fs_scheme \<Rightarrow> nat \<Rightarrow> 'a fs_scheme option" where
  "iput s ip = do {
     s \<leftarrow> (if i_ref (itable s ip) = 1 \<and> i_valid (itable s ip) \<and> i_nlink (itable s ip) = 0 then do {
            lk \<leftarrow> acquiresleep (p_pid s) (i_lock (itable s ip));
            let s = upd_inode ip (i_lock_update (\<lambda>_. lk)) s;
            s \<leftarrow> itrunc s ip;
            let s = upd_inode ip (i_type_update (\<lambda>_. 0)) s;
            s \<leftarrow> iupdate s ip;
            let s = upd_inode ip (i_valid_update (\<lambda>_. False)) s;
            Some (upd_inode ip (i_lock_update releasesleep) s)
          } else Some s);
     Some (upd_inode ip (i_ref_update (\<lambda>r. r - 1)) s)
   }"

definition iunlockput :: "'a fs_scheme \<Rightarrow> nat \<Rightarrow> 'a fs_scheme option" where
  "iunlockput s ip = do {
     s \<leftarrow> iunlock s ip;
     iput s ip
   }"

fun ireclaim_loop :: "'a fs_scheme \<Rightarrow> u32 \<Rightarrow> nat \<Rightarrow> nat \<Rightarrow> 'a fs_scheme option" where
  "ireclaim_loop s dev inum 0 = Some s"
| "ireclaim_loop s dev inum (Suc k) = do {
     (bo, s) \<leftarrow> bread s dev (IBLOCK (of_nat inum) (sb s));
     bp \<leftarrow> bo;
     let dip = dinode_off (of_nat inum);
     (ipo, s) \<leftarrow> (if le16 (bdata s bp) dip \<noteq> 0 \<and> le16 (bdata s bp) (dip + 6) = 0 then do {
                   (ip, s) \<leftarrow> iget s dev (of_nat inum);
                   Some (Some ip, s)
                 } else Some (None, s));
     s \<leftarrow> brelse s bp;
     s \<leftarrow> (case ipo of None \<Rightarrow> Some s | Some ip \<Rightarrow> do {
            s \<leftarrow> begin_op s;
            s \<leftarrow> ilock s ip;
            s \<leftarrow> iunlock s ip;
            s \<leftarrow> iput s ip;
            end_op s
          });
     ireclaim_loop s dev (Suc inum) k
   }"

definition ireclaim :: "'a fs_scheme \<Rightarrow> u32 \<Rightarrow> 'a fs_scheme option" where
  "ireclaim s dev = ireclaim_loop s dev 1 (unat (sb_ninodes (sb s)) - 1)"

definition fsinit :: "'a fs_scheme \<Rightarrow> u32 \<Rightarrow> 'a fs_scheme option" where
  "fsinit s dev = do {
     s \<leftarrow> readsb s dev;
     ensure (sb_magic (sb s) = FSMAGIC) ''invalid file system'';
     s \<leftarrow> initlog s dev (sb_logstart (sb s));
     ireclaim s dev
   }"

record stat =
  st_dev :: u32
  st_ino :: u32
  st_type :: u16
  st_nlink :: u16
  st_size :: u64

definition stati :: "'a fs_scheme \<Rightarrow> nat \<Rightarrow> stat" where
  "stati s ip = \<lparr>st_dev = i_dev (itable s ip), st_ino = i_inum (itable s ip), st_type = i_type (itable s ip),
     st_nlink = i_nlink (itable s ip), st_size = ucast (i_size (itable s ip))\<rparr>"

text \<open>The loop of \<open>readi\<close>.  A kernel destination is the object \<open>kb\<close> and the offset \<open>dst\<close> into it; \<open>tot\<close> is
  unsigned in the code and converted to \<open>int\<close> when it is returned.\<close>

partial_function (option) readi_loop ::
    "'a fs_scheme \<Rightarrow> nat \<Rightarrow> bool \<Rightarrow> u64 \<Rightarrow> buffer \<Rightarrow> u32 \<Rightarrow> u32 \<Rightarrow> u32 \<Rightarrow> (u32 \<times> buffer \<times> 'a fs_scheme) option" where
  "readi_loop s ip user_dst dst kb off n tot =
     (if tot < n then do {
        (addr, s) \<leftarrow> bmap s ip (off div of_nat BSIZE);
        if addr = 0 then Some (tot, kb, s)
        else do {
          (bo, s) \<leftarrow> bread s (i_dev (itable s ip)) addr;
          bp \<leftarrow> bo;
          let m = min (n - tot) (of_nat BSIZE - off mod of_nat BSIZE);
          (r, kb, s) \<leftarrow> either_copyout s user_dst dst kb (bdata s bp) (unat off mod BSIZE) (ucast m);
          if r = -1 then do {
            s \<leftarrow> brelse s bp;
            Some (-1, kb, s)
          } else do {
            s \<leftarrow> brelse s bp;
            readi_loop s ip user_dst (dst + ucast m) kb (off + m) n (tot + m)
          }
        }
      } else Some (tot, kb, s))"

definition readi ::
    "'a fs_scheme \<Rightarrow> nat \<Rightarrow> bool \<Rightarrow> u64 \<Rightarrow> buffer \<Rightarrow> u32 \<Rightarrow> u32 \<Rightarrow> (int \<times> buffer \<times> 'a fs_scheme) option" where
  "readi s ip user_dst dst kb off n =
     (if off > i_size (itable s ip) \<or> off + n < off then Some (0, kb, s)
      else do {
        let n = (if off + n > i_size (itable s ip) then i_size (itable s ip) - off else n);
        (tot, kb, s) \<leftarrow> readi_loop s ip user_dst dst kb off n 0;
        Some (sint tot, kb, s)
      })"

partial_function (option) writei_loop ::
    "'a fs_scheme \<Rightarrow> nat \<Rightarrow> bool \<Rightarrow> u64 \<Rightarrow> buffer \<Rightarrow> u32 \<Rightarrow> u32 \<Rightarrow> u32 \<Rightarrow> (u32 \<times> u32 \<times> 'a fs_scheme) option" where
  "writei_loop s ip user_src src kb off n tot =
     (if tot < n then do {
        (addr, s) \<leftarrow> bmap s ip (off div of_nat BSIZE);
        if addr = 0 then Some (tot, off, s)
        else do {
          (bo, s) \<leftarrow> bread s (i_dev (itable s ip)) addr;
          bp \<leftarrow> bo;
          let m = min (n - tot) (of_nat BSIZE - off mod of_nat BSIZE);
          (r, data, s) \<leftarrow> either_copyin s (bdata s bp) (unat off mod BSIZE) user_src src kb (ucast m);
          let s = set_data s bp data;
          if r = -1 then do {
            s \<leftarrow> brelse s bp;
            Some (tot, off, s)
          } else do {
            s \<leftarrow> log_write s bp;
            s \<leftarrow> brelse s bp;
            writei_loop s ip user_src (src + ucast m) kb (off + m) n (tot + m)
          }
        }
      } else Some (tot, off, s))"

definition writei ::
    "'a fs_scheme \<Rightarrow> nat \<Rightarrow> bool \<Rightarrow> u64 \<Rightarrow> buffer \<Rightarrow> u32 \<Rightarrow> u32 \<Rightarrow> (int \<times> 'a fs_scheme) option" where
  "writei s ip user_src src kb off n =
     (if off > i_size (itable s ip) \<or> off + n < off then Some (-1, s)
      else if off + n > of_nat (MAXFILE * BSIZE) then Some (-1, s)
      else do {
        (tot, off, s) \<leftarrow> writei_loop s ip user_src src kb off n 0;
        let s = (if off > i_size (itable s ip) then upd_inode ip (i_size_update (\<lambda>_. off)) s else s);
        s \<leftarrow> iupdate s ip;
        Some (sint tot, s)
      })"

subsection \<open>Directories\<close>

definition namecmp :: "buffer \<Rightarrow> buffer \<Rightarrow> int" where
  "namecmp s t = strncmp s t DIRSIZ"

text \<open>\<open>struct dirent\<close> as 16 bytes: \<open>inum\<close>, then the name.  A search returns the inode or null and the
  offset of the entry found.\<close>

definition de_inum :: "buffer \<Rightarrow> u16" where
  "de_inum de = le16 de 0"

definition de_name :: "buffer \<Rightarrow> buffer" where
  "de_name de = (\<lambda>i. de (2 + i))"

partial_function (option) dirlookup_loop ::
    "'a fs_scheme \<Rightarrow> nat \<Rightarrow> buffer \<Rightarrow> u32 \<Rightarrow> ((nat \<times> u32) option \<times> 'a fs_scheme) option" where
  "dirlookup_loop s dp name off =
     (if off < i_size (itable s dp) then do {
        (r, de, s) \<leftarrow> readi s dp False 0 (\<lambda>_. 0) off 16;
        ensure (r = 16) ''dirlookup read'';
        if de_inum de = 0 then dirlookup_loop s dp name (off + 16)
        else if namecmp name (de_name de) = 0 then do {
          (ip, s) \<leftarrow> iget s (i_dev (itable s dp)) (ucast (de_inum de));
          Some (Some (ip, off), s)
        }
        else dirlookup_loop s dp name (off + 16)
      } else Some (None, s))"

definition dirlookup :: "'a fs_scheme \<Rightarrow> nat \<Rightarrow> buffer \<Rightarrow> ((nat \<times> u32) option \<times> 'a fs_scheme) option" where
  "dirlookup s dp name = do {
     ensure (i_type (itable s dp) = T_DIR) ''dirlookup not DIR'';
     dirlookup_loop s dp name 0
   }"

partial_function (option) dirlink_loop ::
    "'a fs_scheme \<Rightarrow> nat \<Rightarrow> buffer \<Rightarrow> u32 \<Rightarrow> (u32 \<times> buffer \<times> 'a fs_scheme) option" where
  "dirlink_loop s dp de off =
     (if off < i_size (itable s dp) then do {
        (r, de, s) \<leftarrow> readi s dp False 0 de off 16;
        ensure (r = 16) ''dirlink read'';
        if de_inum de = 0 then Some (off, de, s) else dirlink_loop s dp de (off + 16)
      } else Some (off, de, s))"

definition dirlink :: "'a fs_scheme \<Rightarrow> nat \<Rightarrow> buffer \<Rightarrow> u32 \<Rightarrow> (int \<times> 'a fs_scheme) option" where
  "dirlink s dp name inum = do {
     (found, s) \<leftarrow> dirlookup s dp name;
     (case found of
        Some (ip, _) \<Rightarrow> do {
          s \<leftarrow> iput s ip;
          Some (-1, s)
        }
      | None \<Rightarrow> do {
          (off, de, s) \<leftarrow> dirlink_loop s dp (\<lambda>_. 0) 0;
          let de = copy_into de 2 (strncpy (de_name de) name (int DIRSIZ)) 0 DIRSIZ;
          let de = put16 de 0 (ucast inum);
          (r, s) \<leftarrow> writei s dp False 0 de off 16;
          Some (if r \<noteq> 16 then -1 else 0, s)
        })
   }"

end
