(* ===== verification/Balloc.thy ===== *)
theory Balloc
  imports Fs
begin

text \<open>
  What the block allocator of \<^verbatim>\<open>kernel/fs.c\<close> guarantees, inside a transaction.  \<open>layout\<close> is the disk
  layout that \<^verbatim>\<open>mkfs\<close> writes and \<open>used\<close> the free bitmap as a predicate on block numbers.
\<close>

definition data_start :: "superblock \<Rightarrow> nat" where
  "data_start b = unat (sb_bmapstart b) + (unat (sb_size b) + BPB - 1) div BPB"

definition layout :: "superblock \<Rightarrow> bool" where
  "layout b \<longleftrightarrow> 2 \<le> unat (sb_logstart b) \<and> unat (sb_logstart b) + 30 < unat (sb_inodestart b)
     \<and> unat (sb_inodestart b) + unat (sb_ninodes b) div 16 < unat (sb_bmapstart b)
     \<and> data_start b \<le> unat (sb_size b) \<and> unat (sb_size b) \<le> 16384"

definition used :: "'a fs_scheme \<Rightarrow> nat \<Rightarrow> bool" where
  "used s b \<longleftrightarrow> cview s (log_dev s) (BBLOCK (of_nat b) (sb s)) (b mod BPB div 8) AND bit_mask (b mod BPB) \<noteq> 0"

text \<open>The file system is mounted on the device of the log, and the blocks that hold its structures are
  marked as used.\<close>

definition mounted :: "'a fs_scheme \<Rightarrow> bool" where
  "mounted s \<longleftrightarrow> layout (sb s) \<and> sb_logstart (sb s) = log_start s \<and> (\<forall>b<data_start (sb s). used s b)"

lemma bit_mask_and: "x AND bit_mask i = 0 \<longleftrightarrow> \<not> bit x (i mod 8)"
proof -
  have "x AND push_bit (i mod 8) 1 = (if bit x (i mod 8) then push_bit (i mod 8) 1 else 0)"
    by (rule bit_word_eqI) (auto simp: bit_simps)
  moreover have "\<not> 8 \<le> i mod 8" using mod_less_divisor [of 8 i] by linarith
  ultimately show ?thesis by (simp add: bit_mask_def)
qed

lemma bit_or_mask: "bit (x OR bit_mask i) j \<longleftrightarrow> bit x j \<or> j = i mod 8"
  by (auto simp: bit_mask_def bit_simps)

lemma bit_clear_mask: "j < 8 \<Longrightarrow> bit (x AND NOT (bit_mask i)) j \<longleftrightarrow> bit x j \<and> j \<noteq> i mod 8"
  by (auto simp: bit_mask_def bit_simps)

lemma BBLOCK_unat:
  assumes "layout b" "n < unat (sb_size b)"
  shows "unat (BBLOCK (of_nat n) b) = unat (sb_bmapstart b) + n div BPB"
    "unat (sb_bmapstart b) + n div BPB < data_start b"
proof -
  have n: "n < 16384" using assms by (simp add: layout_def)
  have q: "unat (of_nat n :: u32) = n" using n by (intro unat_of_nat_small) simp
  have d: "n div BPB \<le> (unat (sb_size b) - 1) div BPB" using assms(2) by (intro div_le_mono) simp
  have "unat (sb_size b) + BPB - 1 = (unat (sb_size b) - 1) + BPB" using assms(2) by simp
  then have e: "(unat (sb_size b) + BPB - 1) div BPB = Suc ((unat (sb_size b) - 1) div BPB)"
    by (simp add: BPB_def BSIZE_def)
  show lt: "unat (sb_bmapstart b) + n div BPB < data_start b" using d unfolding data_start_def e by linarith
  have "data_start b \<le> 16384" using assms(1) by (simp add: layout_def)
  then show "unat (BBLOCK (of_nat n) b) = unat (sb_bmapstart b) + n div BPB"
    using lt q by (simp add: BBLOCK_def unat_word_ariths unat_div BPB_def BSIZE_def)
qed

text \<open>Blocks of the file system and where they lie.\<close>

lemma fs_block:
  assumes "mounted s" "log_ok s" "n < unat (sb_size (sb s))"
  shows "on_disk (log_dev s) (of_nat n)" "unat (of_nat n :: u32) = n"
    "log_start s + 30 < of_nat n \<Longrightarrow> \<not> in_log_region s (of_nat n)"
proof -
  have n: "n < 16384" using assms by (simp add: layout_def mounted_def)
  show u: "unat (of_nat n :: u32) = n" using n by (intro unat_of_nat_small) simp
  show "on_disk (log_dev s) (of_nat n)"
    using assms(2) n u by (auto simp: on_disk_def log_ok_def RAMDISK_BLOCKS_def word_less_nat_alt)
  have "unat (log_start s + 30) = unat (log_start s) + 30"
    using assms(2) by (simp add: log_ok_def unat_word_ariths)
  then show "log_start s + 30 < of_nat n \<Longrightarrow> \<not> in_log_region s (of_nat n)"
    using u by (auto simp: in_log_region_def word_less_nat_alt)
qed

lemma bitmap_block:
  assumes "mounted s" "log_ok s" "n < unat (sb_size (sb s))"
  shows "on_disk (log_dev s) (BBLOCK (of_nat n) (sb s))" "\<not> in_log_region s (BBLOCK (of_nat n) (sb s))"
    "unat (BBLOCK (of_nat n) (sb s)) < data_start (sb s)"
proof -
  have l: "layout (sb s)" using assms(1) by (simp add: mounted_def)
  note b = BBLOCK_unat [OF l assms(3)]
  show "unat (BBLOCK (of_nat n) (sb s)) < data_start (sb s)" using b by simp
  show "\<not> in_log_region s (BBLOCK (of_nat n) (sb s))"
    using b assms(1) by (auto simp: in_log_region_def mounted_def layout_def)
  show "on_disk (log_dev s) (BBLOCK (of_nat n) (sb s))"
    using b assms(2) l by (auto simp: on_disk_def log_ok_def layout_def RAMDISK_BLOCKS_def word_less_nat_alt)
qed

lemma data_block:
  assumes "mounted s" "log_ok s" "n < unat (sb_size (sb s))" "data_start (sb s) \<le> n"
  shows "on_disk (log_dev s) (of_nat n)" "unat (of_nat n :: u32) = n" "\<not> in_log_region s (of_nat n)" "0 < n"
proof -
  note f = fs_block [OF assms(1-3)]
  show "on_disk (log_dev s) (of_nat n)" "unat (of_nat n :: u32) = n" by (fact f)+
  show "\<not> in_log_region s (of_nat n)" "0 < n"
    using assms(1,4) f(2) by (auto simp: in_log_region_def mounted_def layout_def data_start_def)
qed

lemma evolves_fs:
  assumes "evolves L s W s'"
  shows "sb s' = sb s" "itable s' = itable s" "log_dev s' = log_dev s" "log_start s' = log_start s"
    "log_outstanding s' = log_outstanding s" "fs.more s' = fs.more s" "p_pid s' = p_pid s"
  using assms log_onlyD [of s s'] by (cases s; cases s'; simp add: evolves_def)+


lemma evolves_used:
  assumes "evolves L s [] s'"
  shows "used s' b = used s b" "mounted s' = mounted s" "cview s' = cview s" "logged s' = logged s"
  using evolvesD [OF assms] evolves_fs [OF assms] by (simp_all add: used_def mounted_def)

text \<open>Code that runs in a transaction and may log \<open>k\<close> more blocks; \<open>L\<close> are buffers that it holds, none of a
  bitmap block or of a free block.\<close>

definition in_trans :: "'a fs_scheme \<Rightarrow> nat set \<Rightarrow> nat \<Rightarrow> bool" where
  "in_trans s L k \<longleftrightarrow> log_inv s L \<and> mounted s \<and> 1 \<le> log_outstanding s \<and> card (logged s) + card L + k < NBUF
     \<and> (\<forall>n<data_start (sb s). free_block s L (of_nat n))
     \<and> (\<forall>n<unat (sb_size (sb s)). \<not> used s n \<longrightarrow> free_block s L (of_nat n))"

lemma in_transD:
  assumes "in_trans s L k"
  shows "log_inv s L" "mounted s" "1 \<le> log_outstanding s" "card (logged s) + card L + k < NBUF" "log_ok s"
    "layout (sb s)" "n < data_start (sb s) \<Longrightarrow> free_block s L (of_nat n)"
    "n < unat (sb_size (sb s)) \<Longrightarrow> \<not> used s n \<Longrightarrow> free_block s L (of_nat n)"
  using assms log_inv_ok [of s L] by (auto simp: in_trans_def mounted_def)

lemma in_trans_quiet:
  assumes "in_trans s L k" "evolves L s [] s'" "log_inv s' L"
  shows "in_trans s' L k"
  using assms evolves_used [OF assms(2)] evolves_fs [OF assms(2)] evolves_free [OF assms(2)]
  by (simp add: in_trans_def)

lemma bzero_ok:
  assumes inv: "log_inv s L" and od: "on_disk (log_dev s) n" and free: "free_block s L n"
    and n: "\<not> in_log_region s n" and out: "1 \<le> log_outstanding s" and room: "card (logged s) + card L < NBUF"
  shows "\<exists>s'. bzero s (log_dev s) n = Some s' \<and> log_inv s' L
    \<and> evolves L s [(n, fill (cview s (log_dev s) n) 0 0 BSIZE)] s'"
proof -
  obtain b s1 where 1: "bread s (log_dev s) n = Some (Some b, s1)" "bdata s1 b = cview s (log_dev s) n"
    "\<And>x. \<exists>s2 s3. log_write (set_data s1 b x) b = Some s2 \<and> brelse s2 b = Some s3
       \<and> evolves L s [(n, x)] s3 \<and> log_inv s3 L"
    by (rule poke [OF assms]) blast
  from 1(3) [of "fill (bdata s1 b) 0 0 BSIZE"] obtain s2 s3 where
    "log_write (set_data s1 b (fill (bdata s1 b) 0 0 BSIZE)) b = Some s2" "brelse s2 b = Some s3"
    "evolves L s [(n, fill (bdata s1 b) 0 0 BSIZE)] s3" "log_inv s3 L" by blast
  then show ?thesis using 1(1,2) by (auto simp: bzero_def Let_def)
qed

definition set_used :: "buffer \<Rightarrow> nat \<Rightarrow> buffer" where
  "set_used d c = d(c mod BPB div 8 := d (c mod BPB div 8) OR bit_mask (c mod BPB))"

definition clr_used :: "buffer \<Rightarrow> nat \<Rightarrow> buffer" where
  "clr_used d c = d(c mod BPB div 8 := d (c mod BPB div 8) AND NOT (bit_mask (c mod BPB)))"

text \<open>The block writes of a successful \<open>balloc\<close> and of \<open>bfree\<close>.\<close>

definition balloc_writes :: "'a fs_scheme \<Rightarrow> nat \<Rightarrow> (u32 \<times> buffer) list" where
  "balloc_writes s c =
     [(BBLOCK (of_nat c) (sb s), set_used (cview s (log_dev s) (BBLOCK (of_nat c) (sb s))) c),
      (of_nat c, fill (cview s (log_dev s) (of_nat c)) 0 0 BSIZE)]"

definition bfree_writes :: "'a fs_scheme \<Rightarrow> nat \<Rightarrow> (u32 \<times> buffer) list" where
  "bfree_writes s c =
     [(BBLOCK (of_nat c) (sb s), clr_used (cview s (log_dev s) (BBLOCK (of_nat c) (sb s))) c)]"

lemma bfree_ok:
  assumes tr: "in_trans s L 0" and b: "unat b < unat (sb_size (sb s))" and u: "used s (unat b)"
  shows "\<exists>s'. bfree s (log_dev s) b = Some s' \<and> log_inv s' L \<and> evolves L s (bfree_writes s (unat b)) s'"
proof -
  note t = in_transD [OF tr]
  note bb = bitmap_block [OF t(2,5) b]
  let ?n = "BBLOCK b (sb s)"
  have fr: "free_block s L ?n" using t(7) [OF bb(3)] by simp
  have od: "on_disk (log_dev s) ?n" "\<not> in_log_region s ?n" using bb by simp_all
  have rm: "card (logged s) + card L < NBUF" using t(4) by simp
  obtain bp s1 where 1: "bread s (log_dev s) ?n = Some (Some bp, s1)" "bdata s1 bp = cview s (log_dev s) ?n"
    "\<And>x. \<exists>s2 s3. log_write (set_data s1 bp x) bp = Some s2 \<and> brelse s2 bp = Some s3
       \<and> evolves L s [(?n, x)] s3 \<and> log_inv s3 L"
    by (rule poke [OF t(1) od(1) fr od(2) t(3) rm]) blast
  let ?x = "clr_used (bdata s1 bp) (unat b)"
  from 1(3) [of ?x] obtain s2 s3 where
    "log_write (set_data s1 bp ?x) bp = Some s2" "brelse s2 bp = Some s3" "evolves L s [(?n, ?x)] s3" "log_inv s3 L" by blast
  moreover have "bdata s1 bp (unat b mod BPB div 8) AND bit_mask (unat b mod BPB) \<noteq> 0"
    using u 1(2) by (simp add: used_def)
  ultimately show ?thesis
    using 1(1,2) by (auto simp: bfree_def Let_def ensure_def bfree_writes_def clr_used_def)
qed


lemma balloc_round:
  assumes tr: "in_trans s L 1" and b: "b mod BPB = 0" "b < unat (sb_size (sb s))"
  defines "P \<equiv> \<lambda>c. c < unat (sb_size (sb s)) \<and> c < b + BPB \<and> b \<le> c \<and> \<not> used s c"
  shows "(\<forall>c. \<not> P c) \<longrightarrow> (\<exists>s'. balloc_loop s (log_dev s) b (Suc k) = balloc_loop s' (log_dev s) (b + BPB) k
        \<and> evolves L s [] s' \<and> log_inv s' L)"
    "P c \<Longrightarrow> \<forall>e. e < c \<longrightarrow> \<not> P e \<Longrightarrow> \<exists>s'. balloc_loop s (log_dev s) b (Suc k) = Some (of_nat c, s')
        \<and> evolves L s (balloc_writes s c) s' \<and> log_inv s' L"
proof -
  note t = in_transD [OF tr]
  note bb = bitmap_block [OF t(2,5) b(2)]
  let ?n = "BBLOCK (of_nat b) (sb s)" let ?d = "log_dev s"
  have fr: "free_block s L ?n" using t(7) [OF bb(3)] by simp
  have rm: "card (logged s) + card L < NBUF" using t(4) by simp
  have B: "0 < BPB" by (simp add: BPB_def BSIZE_def)
  have same: "BBLOCK (of_nat (b + bi)) (sb s) = ?n" "(b + bi) mod BPB = bi"
    if "bi < BPB" "b + bi < unat (sb_size (sb s))" for bi
  proof -
    have "(b + bi) div BPB = b div BPB" using b(1) that(1) by (auto simp: mod_eq_0_iff_dvd)
    then have "unat (BBLOCK (of_nat (b + bi)) (sb s)) = unat ?n"
      using BBLOCK_unat(1) [OF t(6) that(2)] BBLOCK_unat(1) [OF t(6) b(2)] by simp
    then show "BBLOCK (of_nat (b + bi)) (sb s) = ?n" by (simp only: word_unat_eq_iff)
    show "(b + bi) mod BPB = bi" using b(1) that(1) by (auto simp: mod_eq_0_iff_dvd)
  qed
  let ?Q = "\<lambda>d bi. d (bi div 8) AND bit_mask bi = 0"
  let ?h = "min BPB (unat (sb_size (sb s)) - b)"
  have PQ: "P (b + bi) \<longleftrightarrow> bi < ?h \<and> ?Q (cview s ?d ?n) bi" for bi
    using same [of bi] by (auto simp: P_def used_def)
  have Pb: "P c \<Longrightarrow> c = b + (c - b)" for c by (simp add: P_def)
  show "(\<forall>c. \<not> P c) \<longrightarrow> (\<exists>s'. balloc_loop s ?d b (Suc k) = balloc_loop s' ?d (b + BPB) k \<and> evolves L s [] s' \<and> log_inv s' L)"
  proof
    assume no: "\<forall>c. \<not> P c"
    obtain bp s1 s2 where 1: "bread s ?d ?n = Some (Some bp, s1)" "bdata s1 bp = cview s ?d ?n"
      "log_only s s1" "brelse s1 bp = Some s2" "evolves L s [] s2" "log_inv s2 L"
      by (rule peek [OF t(1) bb(1) fr rm])
    have sb1: "sb s1 = sb s" using log_onlyD(5) [OF 1(3)] by (cases s; cases s1) simp
    have "scan (?Q (bdata s1 bp)) 0 ?h = None"
      using no PQ 1(2) by (auto simp: scan_def find_None_iff)
    then show "\<exists>s'. balloc_loop s ?d b (Suc k) = balloc_loop s' ?d (b + BPB) k \<and> evolves L s [] s' \<and> log_inv s' L"
      using 1 sb1 by (intro exI [of _ s2]) simp
  qed
  assume Pc: "P c" and least: "\<forall>e. e < c \<longrightarrow> \<not> P e"
  define bi where "bi = c - b"
  have c: "c = b + bi" and bi: "bi < ?h" "?Q (cview s ?d ?n) bi"
    using Pb [OF Pc] PQ [of bi] Pc by (auto simp: bi_def)
  have cs: "c < unat (sb_size (sb s))" "bi < BPB" "\<not> used s c" using Pc c by (auto simp: P_def)
  obtain bp s1 where 1: "bread s ?d ?n = Some (Some bp, s1)" "bdata s1 bp = cview s ?d ?n" "log_only s s1"
    "\<And>x. \<exists>s2 s3. log_write (set_data s1 bp x) bp = Some s2 \<and> brelse s2 bp = Some s3
       \<and> evolves L s [(?n, x)] s3 \<and> log_inv s3 L"
    by (rule poke [OF t(1) bb(1) fr bb(2) t(3) rm]) blast
  have sb1: "sb s1 = sb s" using log_onlyD(5) [OF 1(3)] by (cases s; cases s1) simp
  have sc: "scan (?Q (bdata s1 bp)) 0 ?h = Some bi"
  proof (rule scan_SomeI)
    have "\<not> P (b + j)" if "j < bi" for j using least that c by simp
    then show "\<forall>j. 0 \<le> j \<and> j < bi \<longrightarrow> \<not> ?Q (bdata s1 bp) j"
      unfolding PQ 1(2) using bi(1) by auto
  qed (use bi 1(2) in auto)
  let ?x = "set_used (cview s ?d ?n) c"
  have x: "(bdata s1 bp)(bi div 8 := bdata s1 bp (bi div 8) OR bit_mask bi) = ?x"
    using same(2) [of bi] cs c 1(2) by (simp add: set_used_def)
  obtain s2 s3 where 2: "log_write (set_data s1 bp ?x) bp = Some s2" "brelse s2 bp = Some s3"
    "evolves L s [(?n, ?x)] s3" "log_inv s3 L" using 1(4) by blast
  note f = evolves_fs [OF 2(3)] evolvesD [OF 2(3)]
  have ds: "data_start (sb s) \<le> c" using cs(3) t(2) by (meson mounted_def not_le)
  note db = data_block [OF t(2,5) cs(1) ds]
  have ne: "?n \<noteq> of_nat c" using bb(3) db(2) ds by auto
  have "card (insert ?n (logged s)) \<le> Suc (card (logged s))" by (rule card_insert_le_m1) simp_all
  then have rm3: "card (logged s3) + card L < NBUF" using t(4) f by simp
  obtain s4 where 4: "bzero s3 (log_dev s3) (of_nat c) = Some s4" "log_inv s4 L"
    "evolves L s3 [(of_nat c, fill (cview s3 (log_dev s3) (of_nat c)) 0 0 BSIZE)] s4"
    using bzero_ok [OF 2(4), of "of_nat c"] db f t(3,8) cs evolves_free [OF 2(3)] rm3 log_onlyD(10) [OF f(8)]
    by auto
  have cv: "cview s3 ?d (of_nat c) = cview s ?d (of_nat c)" using f ne by simp
  have "evolves L s (balloc_writes s c) s4"
    using evolves_trans [OF 2(3) 4(3)] f cv same(1) [of bi] cs c by (simp add: balloc_writes_def)
  moreover have "balloc_loop s ?d b (Suc k) = Some (of_nat c, s4)"
    using 1(1) sb1 sc x 2(1,2) 4(1) f c by simp
  ultimately show "\<exists>s'. balloc_loop s ?d b (Suc k) = Some (of_nat c, s') \<and> evolves L s (balloc_writes s c) s' \<and> log_inv s' L"
    using 4(2) by blast
qed


lemma balloc_loop_ok:
  assumes "in_trans s L 1" "b mod BPB = 0" "\<forall>c<b. c < unat (sb_size (sb s)) \<longrightarrow> used s c"
    "k = (unat (sb_size (sb s)) - b + BPB - 1) div BPB"
  shows "(\<forall>c<unat (sb_size (sb s)). used s c) \<and>
      (\<exists>s'. balloc_loop s (log_dev s) b k = Some (0, s') \<and> evolves L s [] s' \<and> log_inv s' L)
    \<or> (\<exists>c s'. c < unat (sb_size (sb s)) \<and> \<not> used s c \<and> (\<forall>e<c. used s e)
        \<and> balloc_loop s (log_dev s) b k = Some (of_nat c, s') \<and> evolves L s (balloc_writes s c) s' \<and> log_inv s' L)"
  using assms
proof (induction k arbitrary: s b)
  case 0
  then have "unat (sb_size (sb s)) \<le> b" by (simp add: BPB_def BSIZE_def div_eq_0_iff)
  then show ?case using 0 in_transD(1) [OF 0(1)] by auto
next
  case (Suc k)
  let ?sz = "unat (sb_size (sb s))"
  have B: "0 < BPB" by (simp add: BPB_def BSIZE_def)
  have b: "b < ?sz"
  proof (rule ccontr)
    assume "\<not> ?thesis"
    then have "(?sz - b + BPB - 1) div BPB = 0" using B by simp
    then show False using Suc.prems(4) by simp
  qed
  let ?P = "\<lambda>c. c < ?sz \<and> c < b + BPB \<and> b \<le> c \<and> \<not> used s c"
  note rd = balloc_round [OF Suc.prems(1,2) b, where k = k]
  show ?case
  proof (cases "\<exists>c. ?P c")
    case True
    then obtain c where c: "?P c" "\<And>e. e < c \<Longrightarrow> \<not> ?P e" using exists_least_iff [of ?P] by blast
    have "used s e" if "e < c" for e using c that Suc.prems(3) by (cases "e < b") auto
    moreover obtain s' where "balloc_loop s (log_dev s) b (Suc k) = Some (of_nat c, s')"
        "evolves L s (balloc_writes s c) s'" "log_inv s' L"
      using rd(2) [of c] c by blast
    ultimately show ?thesis using c(1) by blast
  next
    case False
    then obtain s' where s': "balloc_loop s (log_dev s) b (Suc k) = balloc_loop s' (log_dev s) (b + BPB) k"
        "evolves L s [] s'" "log_inv s' L"
      using rd(1) by blast
    note f = evolves_fs [OF s'(2)] evolves_used [OF s'(2)]
    have e: "?sz - b + BPB - 1 = (?sz - b - 1) + BPB" using b by simp
    have "Suc k = Suc ((?sz - b - 1) div BPB)" unfolding Suc.prems(4) e using B by (simp add: div_add_self2)
    moreover have "(?sz - (b + BPB) + BPB - 1) div BPB = (?sz - b - 1) div BPB"
      using B by (cases "b + BPB \<le> ?sz") auto
    ultimately have k: "k = (unat (sb_size (sb s')) - (b + BPB) + BPB - 1) div BPB" using f by simp
    have "\<forall>c<b + BPB. c < unat (sb_size (sb s')) \<longrightarrow> used s' c"
      using False Suc.prems(3) f by (metis not_le)
    note IH = Suc.IH [OF in_trans_quiet [OF Suc.prems(1) s'(2,3)] _ this k]
    have bw: "balloc_writes s' c = balloc_writes s c" for c using f by (simp add: balloc_writes_def)
    have "(b + BPB) mod BPB = 0" using Suc.prems(2) by simp
    from IH [OF this] show ?thesis
      unfolding s'(1) f bw using evolves_trans [OF s'(2)] by (metis append_Nil)
  qed
qed

text \<open>How the bitmap changes.\<close>

lemma used_set:
  assumes m: "mounted s" and c: "c < unat (sb_size (sb s))" "e < unat (sb_size (sb s))"
    and s': "sb s' = sb s" "log_dev s' = log_dev s"
    and v: "\<And>n. unat n < data_start (sb s) \<Longrightarrow> cview s' (log_dev s) n =
      (if n = BBLOCK (of_nat c) (sb s) then D (cview s (log_dev s) n) c else cview s (log_dev s) n)"
    and D: "D = set_used \<and> v \<or> D = clr_used \<and> \<not> v"
  shows "used s' e \<longleftrightarrow> (if e = c then v else used s e)"
proof -
  have l: "layout (sb s)" using m by (simp add: mounted_def)
  note bc = BBLOCK_unat [OF l c(1)]
  note be = BBLOCK_unat [OF l c(2)]
  let ?n = "BBLOCK (of_nat e) (sb s)"
  have i8: "i mod 8 < 8" "(i::nat) = j \<longleftrightarrow> i div 8 = j div 8 \<and> i mod 8 = j mod 8" for i j :: nat
    by (simp, metis div_mult_mod_eq)
  have eq: "e = c \<longleftrightarrow> ?n = BBLOCK (of_nat c) (sb s) \<and> e mod BPB = c mod BPB"
  proof -
    have "?n = BBLOCK (of_nat c) (sb s) \<longleftrightarrow> e div BPB = c div BPB"
      using bc(1) be(1) by (simp add: word_unat_eq_iff)
    then show ?thesis by (metis div_mult_mod_eq)
  qed
  have be': "unat ?n < data_start (sb s)" using be by simp
  show ?thesis
    unfolding used_def s' v [OF be'] eq
    using D i8(1) [of "e mod BPB"] i8(2) [of "e mod BPB" "c mod BPB"]
    by (auto simp: set_used_def clr_used_def bit_mask_and bit_or_mask bit_clear_mask split: if_splits)
qed


lemma balloc_effect:
  assumes m: "mounted s" and ok: "log_ok s" and c: "c < unat (sb_size (sb s))" "\<not> used s c"
    and ev: "evolves L s (balloc_writes s c) s'"
  shows "mounted s'" "data_start (sb s) \<le> c"
    "e < unat (sb_size (sb s)) \<Longrightarrow> used s' e \<longleftrightarrow> e = c \<or> used s e"
    "cview s' (log_dev s) (of_nat c) = fill (cview s (log_dev s) (of_nat c)) 0 0 BSIZE"
    "d \<noteq> log_dev s \<or> n \<noteq> of_nat c \<and> n \<noteq> BBLOCK (of_nat c) (sb s) \<Longrightarrow> cview s' d n = cview s d n"
proof -
  note f = evolves_fs [OF ev] evolvesD [OF ev]
  show ds: "data_start (sb s) \<le> c" using c(2) m by (meson mounted_def not_le)
  note db = data_block [OF m ok c(1) ds] and bb = bitmap_block [OF m ok c(1)]
  have ne: "BBLOCK (of_nat c) (sb s) \<noteq> of_nat c" using bb(3) db(2) ds by auto
  have v: "cview s' (log_dev s) n = (if n = BBLOCK (of_nat c) (sb s) then set_used (cview s (log_dev s) n) c
      else cview s (log_dev s) n)" if "unat n < data_start (sb s)" for n
    using that f ne db(2) ds by (auto simp: balloc_writes_def)
  have us: "used s' e \<longleftrightarrow> (if e = c then True else used s e)" if "e < unat (sb_size (sb s))" for e
    by (rule used_set [where D = set_used, OF m c(1) that f(1,3) v]) simp_all
  then show "e < unat (sb_size (sb s)) \<Longrightarrow> used s' e \<longleftrightarrow> e = c \<or> used s e" by simp
  have "data_start (sb s) \<le> unat (sb_size (sb s))" using m by (simp add: mounted_def layout_def)
  then show "mounted s'" using m us f by (auto simp: mounted_def)
  show "cview s' (log_dev s) (of_nat c) = fill (cview s (log_dev s) (of_nat c)) 0 0 BSIZE"
    using f ne by (simp add: balloc_writes_def)
  show "d \<noteq> log_dev s \<or> n \<noteq> of_nat c \<and> n \<noteq> BBLOCK (of_nat c) (sb s) \<Longrightarrow> cview s' d n = cview s d n"
    using f by (auto simp: balloc_writes_def)
qed

lemma bfree_effect:
  assumes m: "mounted s" and ok: "log_ok s" and c: "c < unat (sb_size (sb s))" "data_start (sb s) \<le> c"
    and ev: "evolves L s (bfree_writes s c) s'"
  shows "mounted s'" "e < unat (sb_size (sb s)) \<Longrightarrow> used s' e \<longleftrightarrow> e \<noteq> c \<and> used s e"
    "d \<noteq> log_dev s \<or> n \<noteq> BBLOCK (of_nat c) (sb s) \<Longrightarrow> cview s' d n = cview s d n"
proof -
  note f = evolves_fs [OF ev] evolvesD [OF ev]
  have v: "cview s' (log_dev s) n = (if n = BBLOCK (of_nat c) (sb s) then clr_used (cview s (log_dev s) n) c
      else cview s (log_dev s) n)" for n
    using f by (auto simp: bfree_writes_def)
  have us: "used s' e \<longleftrightarrow> (if e = c then False else used s e)" if "e < unat (sb_size (sb s))" for e
    by (rule used_set [where D = clr_used, OF m c(1) that f(1,3) v]) simp_all
  then show "e < unat (sb_size (sb s)) \<Longrightarrow> used s' e \<longleftrightarrow> e \<noteq> c \<and> used s e" by simp
  have "data_start (sb s) \<le> unat (sb_size (sb s))" using m by (simp add: mounted_def layout_def)
  then show "mounted s'" using m us f c(2) by (auto simp: mounted_def)
  show "d \<noteq> log_dev s \<or> n \<noteq> BBLOCK (of_nat c) (sb s) \<Longrightarrow> cview s' d n = cview s d n"
    using f by (auto simp: bfree_writes_def)
qed

lemma balloc_ok:
  assumes tr: "in_trans s L 1"
  obtains (full) s' where "\<forall>c<unat (sb_size (sb s)). used s c" "balloc s (log_dev s) = Some (0, s')"
      "evolves L s [] s'" "log_inv s' L"
  | (new) c s' where "c < unat (sb_size (sb s))" "\<not> used s c" "\<forall>e<c. used s e"
      "balloc s (log_dev s) = Some (of_nat c, s')" "evolves L s (balloc_writes s c) s'" "log_inv s' L"
proof -
  have B: "(0::nat) mod BPB = 0" "\<forall>c<0. c < unat (sb_size (sb s)) \<longrightarrow> used s c" by simp_all
  have "balloc_loop s (log_dev s) 0 ((unat (sb_size (sb s)) - 0 + BPB - 1) div BPB) = balloc s (log_dev s)"
    by (simp add: balloc_def)
  with balloc_loop_ok [OF tr B refl] show ?thesis using full new by metis
qed

text \<open>C7: the block allocator.  In a transaction with room in the log, \<open>balloc\<close> returns 0 exactly when every
  block of the file system is in use, and then changes nothing; otherwise it returns the lowest free
  block, which lies in the data area, marks exactly that block as used, zeroes it, leaves every other block
  alone except the bitmap block, and writes nothing to the disk itself.\<close>

theorem balloc_correct:
  assumes "in_trans s L 1"
  shows "\<exists>r s'. balloc s (log_dev s) = Some (r, s') \<and> log_inv s' L \<and> mounted s' \<and> disk s' = disk s
    \<and> (r = 0 \<longleftrightarrow> (\<forall>c<unat (sb_size (sb s)). used s c)) \<and> (r = 0 \<longrightarrow> cview s' = cview s)
    \<and> (r \<noteq> 0 \<longrightarrow> data_start (sb s) \<le> unat r \<and> unat r < unat (sb_size (sb s)) \<and> \<not> used s (unat r)
         \<and> (\<forall>e<unat r. used s e)
         \<and> (\<forall>e<unat (sb_size (sb s)). used s' e \<longleftrightarrow> e = unat r \<or> used s e)
         \<and> (\<forall>i<BSIZE. cview s' (log_dev s) r i = 0)
         \<and> (\<forall>d n. d \<noteq> log_dev s \<or> n \<noteq> r \<and> n \<noteq> BBLOCK r (sb s) \<longrightarrow> cview s' d n = cview s d n))"
proof (rule balloc_ok [OF assms])
  fix s' assume h: "\<forall>c<unat (sb_size (sb s)). used s c" "balloc s (log_dev s) = Some (0, s')"
    "evolves L s [] s'" "log_inv s' L"
  then show ?thesis
    using evolves_used [OF h(3)] in_transD(2) [OF assms] by (auto simp: evolves_def)
next
  fix c s' assume h: "c < unat (sb_size (sb s))" "\<not> used s c" "\<forall>e<c. used s e"
    "balloc s (log_dev s) = Some (of_nat c, s')" "evolves L s (balloc_writes s c) s'" "log_inv s' L"
  note t = in_transD [OF assms]
  note e = balloc_effect [OF t(2,5) h(1,2,5)]
  note db = data_block [OF t(2,5) h(1) e(2)]
  have "(of_nat c :: u32) \<noteq> 0" using db(2,4) by auto
  moreover have "disk s' = disk s" using h(5) by (simp add: evolves_def)
  ultimately show ?thesis
    using h e(1,2,4) db(2) by (intro exI [of _ "of_nat c"] exI [of _ s'] conjI) (use e(3,5) in auto)
qed

text \<open>C8: freeing a block.  In a transaction with room in the log, \<open>bfree\<close> of a data block that is in use returns,
  marks exactly that block as free and leaves the contents of every block but its bitmap block alone;
  freeing a block that is not in use panics.\<close>

theorem bfree_correct:
  assumes "in_trans s L 0" "data_start (sb s) \<le> unat b" "unat b < unat (sb_size (sb s))"
  shows "if used s (unat b)
    then \<exists>s'. bfree s (log_dev s) b = Some s' \<and> log_inv s' L \<and> mounted s' \<and> disk s' = disk s
      \<and> (\<forall>e<unat (sb_size (sb s)). used s' e \<longleftrightarrow> e \<noteq> unat b \<and> used s e)
      \<and> (\<forall>d n. d \<noteq> log_dev s \<or> n \<noteq> BBLOCK b (sb s) \<longrightarrow> cview s' d n = cview s d n)
    else bfree s (log_dev s) b = None"
proof -
  note t = in_transD [OF assms(1)]
  show ?thesis
  proof (cases "used s (unat b)")
    case True
    then obtain s' where s': "bfree s (log_dev s) b = Some s'" "log_inv s' L"
        "evolves L s (bfree_writes s (unat b)) s'"
      using bfree_ok [OF assms(1,3)] by blast
    note e = bfree_effect [OF t(2,5) assms(3,2) s'(3)]
    have "disk s' = disk s" using s'(3) by (simp add: evolves_def)
    then show ?thesis
      unfolding if_P [OF True] using s'(1,2) e(1) by (intro exI [of _ s'] conjI) (use e(2,3) in auto)
  next
    case False
    note bb = bitmap_block [OF t(2,5) assms(3)]
    have fr: "free_block s L (BBLOCK b (sb s))" and od: "on_disk (log_dev s) (BBLOCK b (sb s))"
      using t(7) [OF bb(3)] bb(1) by simp_all
    have rm: "card (logged s) + card L < NBUF" using t(4) by simp
    obtain bp s1 where "bread s (log_dev s) (BBLOCK b (sb s)) = Some (Some bp, s1)"
        "bdata s1 bp = cview s (log_dev s) (BBLOCK b (sb s))"
      by (rule peek [OF t(1) od fr rm])
    then show ?thesis using False by (simp add: bfree_def Let_def ensure_def used_def)
  qed
qed


subsection \<open>A concrete file system\<close>

definition sb_demo :: superblock where
  "sb_demo = \<lparr>sb_magic = FSMAGIC, sb_size = 200, sb_nblocks = 164, sb_ninodes = 16, sb_nlog = 31,
     sb_logstart = 2, sb_inodestart = 33, sb_bmapstart = 35\<rparr>"

text \<open>Blocks 0 to 55 in use, one block logged.\<close>

definition fs_demo :: "(nat \<Rightarrow> inode) \<Rightarrow> 'a \<Rightarrow> 'a fs_scheme" where
  "fs_demo T m = log_demo (\<lambda>d n i. if n = 35 \<and> i < 7 then 0xFF else 0) \<lparr>sb = sb_demo, itable = T, \<dots> = m\<rparr>"

definition itable_demo :: "nat \<Rightarrow> inode" where
  "itable_demo i = \<lparr>i_dev = 1, i_inum = 2, i_ref = (if i = 0 then 1 else 0), i_lock = \<lparr>locked = i = 0, lk_pid = 1\<rparr>,
     i_valid = i = 0, i_type = T_FILE, i_major = 0, i_minor = 0, i_nlink = 1, i_size = 1500,
     i_addrs = (\<lambda>k. if k = 0 then 50 else if k = 1 then 51 else 0)\<rparr>"

lemma fs_demo_sel [simp]:
  "sb (fs_demo T m) = sb_demo" "itable (fs_demo T m) = T" "log_dev (fs_demo T m) = 1" "log_start (fs_demo T m) = 2"
  "log_outstanding (fs_demo T m) = 1" "logged (fs_demo T m) = {50}" "p_pid (fs_demo T m) = 1"
  "cview (fs_demo T m) d n i = (if d = 1 \<and> n = 50 then 7 else if n = 35 \<and> i < 7 then 0xFF else 0)"
  by (auto simp: fs_demo_def log_demo_cview logged_def) (simp_all add: log_demo_def)

lemma fs_demo_used: "n < 200 \<Longrightarrow> used (fs_demo T m) n \<longleftrightarrow> n < 56"
proof -
  assume n: "n < 200"
  have l: "layout sb_demo" by (simp add: layout_def data_start_def sb_demo_def BPB_def BSIZE_def)
  have "unat (BBLOCK (of_nat n) sb_demo) = 35"
    using BBLOCK_unat(1) [OF l, of n] n by (simp add: sb_demo_def BPB_def BSIZE_def)
  then have b: "BBLOCK (of_nat n) sb_demo = 35" by (metis of_nat_numeral of_nat_unat ucast_id)
  have "bit (0xFF :: byte) (n mod 8)"
  proof -
    have "n mod 8 < 8" by simp
    then have "n mod 8 \<in> {0,1,2,3,4,5,6,7}" by auto
    then show ?thesis by auto
  qed
  moreover have "n div 8 < 7 \<longleftrightarrow> n < 56" by (simp add: less_mult_imp_div_less div_less_iff_less_mult)
  moreover have "n mod BPB = n" using n by (simp add: BPB_def BSIZE_def)
  ultimately show ?thesis by (auto simp: used_def b bit_mask_and)
qed

lemma fs_demo_trans: "k < 29 \<Longrightarrow> in_trans (fs_demo T m) {} k"
proof -
  assume k: "k < 29"
  have d: "data_start sb_demo = 36" by (simp add: data_start_def sb_demo_def BPB_def BSIZE_def)
  have "log_inv (fs_demo T m) {}" by (simp add: fs_demo_def log_demo_inv)
  moreover have "mounted (fs_demo T m)"
    using fs_demo_used [of _ T m] d
    by (simp add: mounted_def layout_def) (simp add: sb_demo_def)
  ultimately show ?thesis using k by (simp add: in_trans_def free_block_def NBUF_def)
qed

theorem balloc_correct_witness:
  "\<exists>r s'. balloc (fs_demo itable_demo ()) 1 = Some (r, s') \<and> r \<noteq> 0 \<and> \<not> used (fs_demo itable_demo ()) (unat r)
     \<and> used s' (unat r) \<and> log_inv s' {}"
proof -
  have "\<not> (\<forall>c<unat (sb_size (sb (fs_demo itable_demo ()))). used (fs_demo itable_demo ()) c)"
    using fs_demo_used [of 56 itable_demo "()"] by (auto simp: sb_demo_def intro!: exI [of _ 56])
  then show ?thesis using balloc_correct [OF fs_demo_trans [of 1 itable_demo "()"]] by auto
qed

theorem bfree_correct_witness:
  "\<exists>s'. bfree (fs_demo itable_demo ()) 1 40 = Some s' \<and> \<not> used s' 40 \<and> used s' 41"
proof -
  have "used (fs_demo itable_demo ()) 40" "used (fs_demo itable_demo ()) 41" by (simp_all add: fs_demo_used)
  then show ?thesis
    using bfree_correct [OF fs_demo_trans [of 0 itable_demo "()"], of 40]
    by (auto simp: sb_demo_def data_start_def BPB_def BSIZE_def)
qed

end
