(* ===== verification/Records.thy ===== *)
theory Records
  imports Prelude
begin

text \<open>
  Records in disk blocks, the interface that the inode tables of \<^verbatim>\<open>kernel/fs.c\<close> and \<^verbatim>\<open>kernel/ext2.c\<close> share: a record is encoded in
  \<open>sz\<close> bytes of a block and decoded from the same bytes; a table places record \<open>i\<close> in a block and at an offset such that no
  two records overlap.  Then storing one record changes that record of the table and no other.
\<close>

locale disk_record =
  fixes decode :: "buffer \<Rightarrow> nat \<Rightarrow> 'v" and encode :: "buffer \<Rightarrow> nat \<Rightarrow> 'r \<Rightarrow> buffer" and sz :: nat
    and stored :: "'r \<Rightarrow> 'v" and storable :: "'r \<Rightarrow> bool"
  assumes decode_encode: "storable x \<Longrightarrow> decode (encode d k x) k = stored x"
    and encode_outside: "j < k \<or> k + sz \<le> j \<Longrightarrow> encode d k x j = d j"
    and decode_local: "(\<And>i. k \<le> i \<Longrightarrow> i < k + sz \<Longrightarrow> d i = e i) \<Longrightarrow> decode d k = decode e k"
begin

lemma decode_apart: "k + sz \<le> j \<or> j + sz \<le> k \<Longrightarrow> decode (encode d k x) j = decode d j"
  by (rule decode_local, rule encode_outside) auto

end

locale disk_table = disk_record +
  fixes block_of :: "'c \<Rightarrow> u32 \<Rightarrow> u32" and offset_of :: "'c \<Rightarrow> u32 \<Rightarrow> nat" and slot :: "'c \<Rightarrow> u32 \<Rightarrow> bool"
  assumes slots_apart: "slot c i \<Longrightarrow> slot c j \<Longrightarrow> i \<noteq> j \<Longrightarrow> block_of c i = block_of c j \<Longrightarrow>
      offset_of c i + sz \<le> offset_of c j \<or> offset_of c j + sz \<le> offset_of c i"
begin

lemma table_update:
  assumes "slot c i" "slot c j" "storable x"
    and "V' = V(block_of c i := encode (V (block_of c i)) (offset_of c i) x)"
  shows "decode (V' (block_of c j)) (offset_of c j) = (if j = i then stored x else decode (V (block_of c j)) (offset_of c j))"
proof (cases "j = i \<or> block_of c j \<noteq> block_of c i")
  case True
  then show ?thesis using decode_encode [OF assms(3)] by (auto simp: assms(4))
next
  case False
  then show ?thesis using decode_apart slots_apart [OF assms(1,2)] by (auto simp: assms(4))
qed

end

end
