(* ===== verification/Inode.thy ===== *)
theory Inode
  imports Balloc Records
begin

text \<open>
  The inode table of \<^verbatim>\<open>kernel/fs.c\<close>: the identity guarantee of \<open>iget\<close>, reference counts, and the on-disk
  inode that \<open>iupdate\<close> writes and \<open>ilock\<close> reads.
\<close>

lemma upd_inode_sel [simp]:
  "itable (upd_inode ip f s) = upd ip f (itable s)" "sb (upd_inode ip f s) = sb s" "p_pid (upd_inode ip f s) = p_pid s"
  "log_dev (upd_inode ip f s) = log_dev s" "log_start (upd_inode ip f s) = log_start s"
  "log_outstanding (upd_inode ip f s) = log_outstanding s" "bufs (upd_inode ip f s) = bufs s"
  "fs.more (upd_inode ip f s) = fs.more s" "disk (upd_inode ip f s) = disk s"
  "dwrites (upd_inode ip f s) = dwrites s"
  by (simp_all add: upd_inode_def)

subsection \<open>What the operations leave alone\<close>

lemma same_rest_fs:
  assumes "same_rest s s'"
  shows "sb s' = sb s" "itable s' = itable s" "fs.more s' = fs.more s"
  using assms by (cases s; cases s'; simp add: same_rest_def)+

lemma bzero_frame: "bzero s d n = Some s' \<Longrightarrow> same_rest s s'"
  by (auto simp: bzero_def Let_def split: Option.bind_splits dest!: bread_frame brelse_frame log_write_frame same_restI)
    (meson same_restI(2) same_rest_trans set_data_frame)

lemma bfree_frame: "bfree s d n = Some s' \<Longrightarrow> same_rest s s'"
  by (auto simp: bfree_def Let_def ensure_def split: Option.bind_splits if_splits
      dest!: bread_frame brelse_frame log_write_frame same_restI)
    (meson same_restI(2) same_rest_trans set_data_frame)

lemma balloc_loop_frame: "balloc_loop s d b k = Some (r, s') \<Longrightarrow> same_rest s s'"
proof (induction k arbitrary: s b)
  case (Suc k)
  from Suc.prems obtain bp s1 where 1: "bread s d (BBLOCK (of_nat b) (sb s)) = Some (Some bp, s1)"
    by (auto simp: bind_eq_Some_conv)
  have r1: "same_rest s s1" by (rule same_restI(2) [OF bread_frame [OF 1]])
  show ?case
  proof (cases "scan (\<lambda>bi. bdata s1 bp (bi div 8) AND bit_mask bi = 0) 0 (min BPB (unat (sb_size (sb s1)) - b))")
    case None
    with Suc.prems 1 obtain s2 where 2: "brelse s1 bp = Some s2" "balloc_loop s2 d (b + BPB) k = Some (r, s')"
      by (auto simp: bind_eq_Some_conv)
    show ?thesis
      by (rule same_rest_trans [OF r1 same_rest_trans [OF same_restI(2) [OF brelse_frame [OF 2(1)]] Suc.IH [OF 2(2)]]])
  next
    case (Some bi)
    let ?t = "set_data s1 bp ((bdata s1 bp)(bi div 8 := bdata s1 bp (bi div 8) OR bit_mask bi))"
    from Suc.prems 1 Some obtain s2 s3 where 2: "log_write ?t bp = Some s2"
      "brelse s2 bp = Some s3" "bzero s3 d (of_nat (b + bi)) = Some s'"
      by (auto simp: bind_eq_Some_conv Let_def)
    have "same_rest s1 ?t" by (rule same_restI(2) [OF set_data_frame])
    then show ?thesis
      using r1 same_restI(1) [OF log_write_frame [OF 2(1)]] same_restI(2) [OF brelse_frame [OF 2(2)]] bzero_frame [OF 2(3)]
        same_rest_trans by metis
  qed
qed simp

lemma balloc_frame: "balloc s d = Some (r, s') \<Longrightarrow> same_rest s s'"
  unfolding balloc_def by (rule balloc_loop_frame)

lemma iupdate_frame: "iupdate s ip = Some s' \<Longrightarrow> same_rest s s'"
  by (auto simp: iupdate_def Let_def split: Option.bind_splits dest!: bread_frame brelse_frame log_write_frame same_restI)
    (meson same_restI(2) same_rest_trans set_data_frame)

text \<open>The identity of the entries: device, number and reference count.\<close>

definition ids :: "'a fs_scheme \<Rightarrow> nat \<Rightarrow> u32 \<times> u32 \<times> int" where
  "ids s j = (i_dev (itable s j), i_inum (itable s j), i_ref (itable s j))"

lemma same_rest_ids: "same_rest s s' \<Longrightarrow> ids s' = ids s"
  by (simp add: ids_def fun_eq_iff same_rest_fs)

lemma mem_only_ids: "mem_only s s' \<Longrightarrow> ids s' = ids s"
  by (cases s; cases s') (auto simp: ids_def fun_eq_iff mem_only_iff)

lemma ids_upd [simp]:
  "ids (upd_inode ip (i_addrs_update f) s) = ids s" "ids (upd_inode ip (i_size_update g) s) = ids s"
  "ids (upd_inode ip (i_lock_update h) s) = ids s" "ids (upd_inode ip (i_valid_update v) s) = ids s"
  "ids (upd_inode ip (i_type_update y) s) = ids s" "ids (upd_inode ip (get_dinode d k) s) = ids s"
  "ids (set_data s b x) = ids s"
  by (auto simp: ids_def upd_inode_def upd_apply get_dinode_def fun_eq_iff set_data_def upd_buf_def)

lemma frame_ids:
  "bread s d n = Some (bo, s') \<Longrightarrow> ids s' = ids s" "brelse s b = Some s' \<Longrightarrow> ids s' = ids s"
  "log_write s b = Some s' \<Longrightarrow> ids s' = ids s" "balloc s d = Some (r, s') \<Longrightarrow> ids s' = ids s"
  "bfree s d m = Some s' \<Longrightarrow> ids s' = ids s" "iupdate s ip = Some s' \<Longrightarrow> ids s' = ids s"
  "begin_op s = Some s' \<Longrightarrow> ids s' = ids s" "end_op s = Some s' \<Longrightarrow> ids s' = ids s"
  "either_copyout s u dst kb src k len = Some (q, kb', s') \<Longrightarrow> ids s' = ids s"
  "either_copyin s dt k u sr kb len = Some (q, d', s') \<Longrightarrow> ids s' = ids s"
  by (blast intro: same_rest_ids same_restI bread_frame brelse_frame log_write_frame balloc_frame bfree_frame iupdate_frame
      begin_op_frame end_op_frame mem_only_ids either_copyout_frame either_copyin_frame)+

lemma ilock_ids: "ilock s ip = Some s' \<Longrightarrow> ids s' = ids s"
  by (cases "i_valid (itable s ip)")
    (auto simp: ilock_def ensure_def Let_def bind_eq_Some_conv split: if_splits dest!: frame_ids)

lemma iunlock_ids: "iunlock s ip = Some s' \<Longrightarrow> ids s' = ids s"
  by (auto simp: iunlock_def ensure_def split: if_splits)

lemma bmap_slot_ids: "bmap_slot s ip i = Some (r, s') \<Longrightarrow> ids s' = ids s"
  by (auto simp: bmap_slot_def bind_eq_Some_conv split: if_splits dest!: frame_ids)

lemma bmap_entry_ids: "bmap_entry s ip bp k = Some (r, s') \<Longrightarrow> ids s' = ids s"
  by (auto simp: bmap_entry_def bind_eq_Some_conv split: if_splits dest!: frame_ids)

lemma bmap_ids: "bmap s ip bn = Some (r, s') \<Longrightarrow> ids s' = ids s"
  by (auto simp: bmap_def Let_def bind_eq_Some_conv split: if_splits
      dest!: frame_ids bmap_slot_ids bmap_entry_ids)

lemma itrunc_direct_ids: "itrunc_direct s ip i k = Some s' \<Longrightarrow> ids s' = ids s"
  by (induction k arbitrary: s i) (auto simp: bind_eq_Some_conv split: if_splits dest!: frame_ids)

lemma itrunc_indirect_ids: "itrunc_indirect s ip bp j k = Some s' \<Longrightarrow> ids s' = ids s"
  by (induction k arbitrary: s j) (auto simp: bind_eq_Some_conv split: if_splits dest!: frame_ids)

lemma itrunc_ids: "itrunc s ip = Some s' \<Longrightarrow> ids s' = ids s"
  by (auto simp: itrunc_def Let_def bind_eq_Some_conv split: if_splits
      dest!: frame_ids itrunc_direct_ids itrunc_indirect_ids)


lemma readi_loop_ids: "readi_loop s ip u dst kb off n tot = Some y \<Longrightarrow> ids (snd (snd y)) = ids s"
proof (erule readi_loop.raw_induct [where P = "\<lambda>s _ _ _ _ _ _ _ y. ids (snd (snd y)) = ids s", rotated], goal_cases)
  case (1 f s ip u dst kb off n tot y)
  show ?case
  proof (cases "tot < n")
    case True
    with 1(2) obtain addr t where b: "bmap s ip (off div of_nat BSIZE) = Some (addr, t)"
      by (auto simp: bind_eq_Some_conv)
    show ?thesis
    proof (cases "addr = 0")
      case True': True
      then show ?thesis using 1(2) True b bmap_ids [OF b] by auto
    next
      case False
      let ?m = "min (n - tot) (of_nat BSIZE - off mod of_nat BSIZE)"
      from False True 1(2) b obtain bp t1 r kb' t2 t3 where
        2: "bread t (i_dev (itable t ip)) addr = Some (Some bp, t1)"
          "either_copyout t1 u dst kb (bdata t1 bp) (unat off mod BSIZE) (ucast ?m) = Some (r, kb', t2)"
          "brelse t2 bp = Some t3"
        and 3: "y = (-1, kb', t3) \<or> f t3 ip u (dst + ucast ?m) kb' (off + ?m) n (tot + ?m) = Some y"
        by (auto simp: bind_eq_Some_conv Let_def split: if_splits)
      have "ids t3 = ids s" using bmap_ids [OF b] frame_ids(1) [OF 2(1)] frame_ids(9) [OF 2(2)] frame_ids(2) [OF 2(3)] by simp
      with 3 show ?thesis using 1(1) by (metis snd_conv)
    qed
  qed (use 1(2) in auto)
qed

lemma readi_ids: "readi s ip u dst kb off n = Some (r, kb', s') \<Longrightarrow> ids s' = ids s"
  by (auto simp: readi_def Let_def bind_eq_Some_conv split: if_splits dest!: readi_loop_ids)

lemma writei_loop_ids: "writei_loop s ip u src kb off n tot = Some y \<Longrightarrow> ids (snd (snd y)) = ids s"
proof (erule writei_loop.raw_induct [where P = "\<lambda>s _ _ _ _ _ _ _ y. ids (snd (snd y)) = ids s", rotated], goal_cases)
  case (1 f s ip u src kb off n tot y)
  show ?case
  proof (cases "tot < n")
    case True
    with 1(2) obtain addr t where b: "bmap s ip (off div of_nat BSIZE) = Some (addr, t)"
      by (auto simp: bind_eq_Some_conv)
    show ?thesis
    proof (cases "addr = 0")
      case True': True
      then show ?thesis using 1(2) True b bmap_ids [OF b] by auto
    next
      case False
      let ?m = "min (n - tot) (of_nat BSIZE - off mod of_nat BSIZE)"
      from False True 1(2) b obtain bp t1 r d t2 where
        2: "bread t (i_dev (itable t ip)) addr = Some (Some bp, t1)"
          "either_copyin t1 (bdata t1 bp) (unat off mod BSIZE) u src kb (ucast ?m) = Some (r, d, t2)"
        by (auto simp: bind_eq_Some_conv Let_def)
      have i2: "ids t2 = ids s" using bmap_ids [OF b] frame_ids(1) [OF 2(1)] frame_ids(10) [OF 2(2)] by simp
      show ?thesis
      proof (cases "r = -1")
        case True'': True
        then show ?thesis using False True 1(2) b 2 i2 by (auto simp: bind_eq_Some_conv Let_def dest!: frame_ids)
      next
        case False': False
        with False True 1(2) b 2 obtain t3 t4 where 4: "log_write (set_data t2 bp d) bp = Some t3" "brelse t3 bp = Some t4"
            "f t4 ip u (src + ucast ?m) kb (off + ?m) n (tot + ?m) = Some y"
          by (auto simp: bind_eq_Some_conv Let_def)
        have "ids t4 = ids s" using i2 frame_ids(3) [OF 4(1)] frame_ids(2) [OF 4(2)] by simp
        then show ?thesis using 1(1) [OF 4(3)] by simp
      qed
    qed
  qed (use 1(2) in auto)
qed

lemma writei_ids: "writei s ip u src kb off n = Some (r, s') \<Longrightarrow> ids s' = ids s"
  by (auto simp: writei_def Let_def bind_eq_Some_conv split: if_splits dest!: writei_loop_ids frame_ids)

subsection \<open>One entry per inode\<close>

definition itable_inv :: "'a fs_scheme \<Rightarrow> bool" where
  "itable_inv s \<longleftrightarrow> (\<forall>a<NINODE. 0 \<le> i_ref (itable s a))
     \<and> (\<forall>a<NINODE. \<forall>b<NINODE. 0 < i_ref (itable s a) \<and> 0 < i_ref (itable s b)
          \<and> i_dev (itable s a) = i_dev (itable s b) \<and> i_inum (itable s a) = i_inum (itable s b) \<longrightarrow> a = b)"

lemma itable_inv_ids: "ids s' = ids s \<Longrightarrow> itable_inv s' = itable_inv s"
  by (simp add: itable_inv_def ids_def fun_eq_iff)

lemma iget_cases:
  assumes "iget s dev inum = Some (ip, s')"
  obtains (hit) "ip < NINODE" "0 < i_ref (itable s ip)" "i_dev (itable s ip) = dev" "i_inum (itable s ip) = inum"
      "s' = upd_inode ip (i_ref_update (\<lambda>r. r + 1)) s"
  | (miss) "ip < NINODE" "i_ref (itable s ip) = 0"
      "\<And>a. a < NINODE \<Longrightarrow> \<not> (0 < i_ref (itable s a) \<and> i_dev (itable s a) = dev \<and> i_inum (itable s a) = inum)"
      "s' = upd_inode ip (\<lambda>i. i\<lparr>i_dev := dev, i_inum := inum, i_ref := 1, i_valid := False\<rparr>) s"
  using assms unfolding iget_def
  by (auto split: option.splits dest!: scan_SomeD simp: scan_None_iff)

lemma itable_invD:
  assumes "itable_inv s"
  shows "a < NINODE \<Longrightarrow> 0 \<le> i_ref (itable s a)"
    "a < NINODE \<Longrightarrow> b < NINODE \<Longrightarrow> 0 < i_ref (itable s a) \<Longrightarrow> 0 < i_ref (itable s b) \<Longrightarrow>
      i_dev (itable s a) = i_dev (itable s b) \<Longrightarrow> i_inum (itable s a) = i_inum (itable s b) \<Longrightarrow> a = b"
  using assms unfolding itable_inv_def by blast+

lemma itable_inv_upd:
  assumes inv: "itable_inv s" and r: "0 \<le> i_ref (f (itable s ip))"
    and new: "\<And>a. a < NINODE \<Longrightarrow> 0 < i_ref (itable s a) \<Longrightarrow> 0 < i_ref (f (itable s ip)) \<Longrightarrow>
      i_dev (itable s a) = i_dev (f (itable s ip)) \<Longrightarrow> i_inum (itable s a) = i_inum (f (itable s ip)) \<Longrightarrow> a = ip"
  shows "itable_inv (upd_inode ip f s)"
  unfolding itable_inv_def
proof (intro conjI allI impI)
  let ?t = "itable (upd_inode ip f s)"
  show "a < NINODE \<Longrightarrow> 0 \<le> i_ref (?t a)" for a using r itable_invD(1) [OF inv] by (cases "a = ip") simp_all
  fix a b assume ab: "a < NINODE" "b < NINODE"
    and e: "0 < i_ref (?t a) \<and> 0 < i_ref (?t b) \<and> i_dev (?t a) = i_dev (?t b) \<and> i_inum (?t a) = i_inum (?t b)"
  show "a = b"
  proof (cases "a = ip \<or> b = ip")
    case True
    then show ?thesis using e new [of a] new [of b] ab by (auto simp: upd_apply split: if_splits)
  next
    case False
    then show ?thesis using itable_invD(2) [OF inv ab] e by simp
  qed
qed

lemma iget_inv:
  assumes inv: "itable_inv s" and g: "iget s dev inum = Some (ip, s')"
  shows "itable_inv s'"
  using g
proof (cases rule: iget_cases)
  case hit
  show ?thesis
    unfolding hit(5) by (rule itable_inv_upd [OF inv]) (use hit itable_invD(2) [OF inv] in auto)
next
  case miss
  show ?thesis
    unfolding miss(4) by (rule itable_inv_upd [OF inv]) (use miss(3) in auto)
qed

lemma ref_upd_inv:
  assumes inv: "itable_inv s" and ip: "ip < NINODE" and r: "0 < i_ref (itable s ip)" "0 \<le> f (i_ref (itable s ip))"
  shows "itable_inv (upd_inode ip (i_ref_update f) s)"
  by (rule itable_inv_upd [OF inv]) (use r ip itable_invD(2) [OF inv] in auto)

lemma iput_inv:
  assumes inv: "itable_inv s" and ip: "ip < NINODE" and ref: "0 < i_ref (itable s ip)" and p: "iput s ip = Some s'"
  shows "itable_inv s'"
proof -
  from p obtain t where s': "s' = upd_inode ip (i_ref_update (\<lambda>r. r - 1)) t"
    and "(if i_ref (itable s ip) = 1 \<and> i_valid (itable s ip) \<and> i_nlink (itable s ip) = 0 then do {
            lk \<leftarrow> acquiresleep (p_pid s) (i_lock (itable s ip));
            s \<leftarrow> itrunc (upd_inode ip (i_lock_update (\<lambda>_. lk)) s) ip;
            s \<leftarrow> iupdate (upd_inode ip (i_type_update (\<lambda>_. 0)) s) ip;
            Some (upd_inode ip (i_lock_update releasesleep) (upd_inode ip (i_valid_update (\<lambda>_. False)) s))
          } else Some s) = Some t"
    by (auto simp: iput_def Let_def bind_eq_Some_conv split: if_splits)
  then have "ids t = ids s" by (auto simp: bind_eq_Some_conv split: if_splits dest!: frame_ids itrunc_ids)
  then have t: "ids t = ids s" "s' = upd_inode ip (i_ref_update (\<lambda>r. r - 1)) t" using s' by simp_all
  have "itable_inv t" "0 < i_ref (itable t ip)"
    using inv ref itable_inv_ids [OF t(1)] fun_cong [OF t(1), of ip] by (simp_all add: ids_def)
  then show ?thesis unfolding t(2) using ip by (intro ref_upd_inv) auto
qed


lemma dirlookup_loop_inv:
  "dirlookup_loop s dp name off = Some y \<Longrightarrow> itable_inv s \<longrightarrow> itable_inv (snd y)
     \<and> (\<forall>ip o'. fst y = Some (ip, o') \<longrightarrow> ip < NINODE \<and> 0 < i_ref (itable (snd y) ip))"
proof (erule dirlookup_loop.raw_induct [where P = "\<lambda>s _ _ _ y. itable_inv s \<longrightarrow> itable_inv (snd y)
     \<and> (\<forall>ip o'. fst y = Some (ip, o') \<longrightarrow> ip < NINODE \<and> 0 < i_ref (itable (snd y) ip))", rotated], goal_cases)
  case (1 f s dp name off y)
  show ?case
  proof (cases "off < i_size (itable s dp)")
    case True
    with 1(2) obtain r de t where b: "readi s dp False 0 (\<lambda>_. 0) off 16 = Some (r, de, t)" "r = 16"
      by (auto simp: bind_eq_Some_conv ensure_def split: if_splits)
    have inv: "itable_inv t = itable_inv s" by (rule itable_inv_ids [OF readi_ids [OF b(1)]])
    show ?thesis
    proof (cases "de_inum de \<noteq> 0 \<and> namecmp name (de_name de) = 0")
      case True': True
      with 1(2) True b obtain ip u where g: "iget t (i_dev (itable t dp)) (ucast (de_inum de)) = Some (ip, u)"
          "y = (Some (ip, off), u)"
        by (auto simp: bind_eq_Some_conv ensure_def)
      have "ip < NINODE \<and> 0 < i_ref (itable u ip)" using g(1) by (cases rule: iget_cases) auto
      then show ?thesis using inv iget_inv [OF _ g(1)] g(2) by auto
    next
      case False
      then have "f t dp name (off + 16) = Some y" using 1(2) True b by (auto simp: ensure_def split: if_splits)
      from 1(1) [OF this] inv show ?thesis by simp
    qed
  qed (use 1(2) in auto)
qed

lemma dirlookup_inv:
  assumes "dirlookup s dp name = Some (res, s')" "itable_inv s"
  shows "itable_inv s'" "res = Some (ip, o') \<Longrightarrow> ip < NINODE \<and> 0 < i_ref (itable s' ip)"
  using assms dirlookup_loop_inv [of s dp name 0 "(res, s')"]
  by (auto simp: dirlookup_def ensure_def split: if_splits)

lemma dirlink_loop_ids: "dirlink_loop s dp de off = Some y \<Longrightarrow> ids (snd (snd y)) = ids s"
proof (erule dirlink_loop.raw_induct [where P = "\<lambda>s _ _ _ y. ids (snd (snd y)) = ids s", rotated], goal_cases)
  case (1 f s dp de off y)
  show ?case
  proof (cases "off < i_size (itable s dp)")
    case True
    with 1(2) obtain r de' t where b: "readi s dp False 0 de off 16 = Some (r, de', t)" "r = 16"
      by (auto simp: bind_eq_Some_conv ensure_def split: if_splits)
    have "y = (off, de', t) \<or> f t dp de' (off + 16) = Some y"
      using 1(2) True b by (auto simp: ensure_def split: if_splits)
    then show ?thesis using readi_ids [OF b(1)] 1(1) by (metis snd_conv)
  qed (use 1(2) in auto)
qed

lemma dirlink_inv:
  assumes "dirlink s dp name inum = Some (r, s')" "itable_inv s"
  shows "itable_inv s'"
proof -
  from assms(1) obtain found t where d: "dirlookup s dp name = Some (found, t)"
    by (auto simp: dirlink_def bind_eq_Some_conv)
  note inv = dirlookup_inv [OF d assms(2)]
  show ?thesis
  proof (cases found)
    case None
    then have "ids s' = ids t"
      using assms(1) d by (auto simp: dirlink_def bind_eq_Some_conv Let_def dest!: dirlink_loop_ids writei_ids)
    then show ?thesis using inv(1) itable_inv_ids by blast
  next
    case (Some p)
    obtain ip o' where "p = (ip, o')" by fastforce
    then show ?thesis
      using assms(1) d inv(1) inv(2) [of ip o'] Some iput_inv [of t ip]
      by (auto simp: dirlink_def bind_eq_Some_conv)
  qed
qed

text \<open>The operations on inodes that the rest of the kernel calls.\<close>

inductive inode_step :: "'a fs_scheme \<Rightarrow> 'a fs_scheme \<Rightarrow> bool" where
  get: "iget s dev inum = Some (ip, s') \<Longrightarrow> inode_step s s'"
| alloc: "ialloc s dev type = Some (r, s') \<Longrightarrow> inode_step s s'"
| dup: "ip < NINODE \<Longrightarrow> 0 < i_ref (itable s ip) \<Longrightarrow> inode_step s (snd (idup s ip))"
| put: "ip < NINODE \<Longrightarrow> 0 < i_ref (itable s ip) \<Longrightarrow> iput s ip = Some s' \<Longrightarrow> inode_step s s'"
| lock: "ilock s ip = Some s' \<Longrightarrow> inode_step s s'"
| unlock: "iunlock s ip = Some s' \<Longrightarrow> inode_step s s'"
| copy: "iupdate s ip = Some s' \<Longrightarrow> inode_step s s'"
| truncate: "itrunc s ip = Some s' \<Longrightarrow> inode_step s s'"
| read_content: "readi s ip u dst kb off n = Some (c, kb', s') \<Longrightarrow> inode_step s s'"
| write_content: "writei s ip u src kb off n = Some (c, s') \<Longrightarrow> inode_step s s'"
| lookup: "dirlookup s dp name = Some (res, s') \<Longrightarrow> inode_step s s'"
| link: "dirlink s dp name inum = Some (c, s') \<Longrightarrow> inode_step s s'"
| begin_trans: "begin_op s = Some s' \<Longrightarrow> inode_step s s'"
| end_trans: "end_op s = Some s' \<Longrightarrow> inode_step s s'"

lemma ialloc_loop_inv:
  "ialloc_loop s dev type inum k = Some (r, s') \<Longrightarrow> itable_inv s \<Longrightarrow> itable_inv s'"
proof (induction k arbitrary: s inum)
  case (Suc k)
  from Suc.prems(1) obtain bp t where b: "bread s dev (IBLOCK (of_nat inum) (sb s)) = Some (Some bp, t)"
    by (auto simp: bind_eq_Some_conv)
  have it: "itable_inv t" using itable_inv_ids [OF frame_ids(1) [OF b]] Suc.prems(2) by simp
  show ?case
  proof (cases "le16 (bdata t bp) (dinode_off (of_nat inum)) = 0")
    case True
    with Suc.prems(1) b obtain t1 t2 ip where
      "log_write (set_data t bp (put16 (fill (bdata t bp) (dinode_off (of_nat inum)) 0 64) (dinode_off (of_nat inum)) type)) bp = Some t1"
      "brelse t1 bp = Some t2" and g: "iget t2 dev (of_nat inum) = Some (ip, s')"
      by (auto simp: bind_eq_Some_conv Let_def)
    then have "ids t2 = ids t" by (auto dest!: frame_ids)
    then show ?thesis using itable_inv_ids it iget_inv [OF _ g] by blast
  next
    case False
    with Suc.prems(1) b obtain t1 where t1: "brelse t bp = Some t1" "ialloc_loop t1 dev type (Suc inum) k = Some (r, s')"
      by (auto simp: bind_eq_Some_conv Let_def)
    show ?thesis using Suc.IH [OF t1(2)] itable_inv_ids [OF frame_ids(2) [OF t1(1)]] it by simp
  qed
qed simp

lemma inode_step_inv: "inode_step s s' \<Longrightarrow> itable_inv s \<Longrightarrow> itable_inv s'"
proof (induction rule: inode_step.induct)
  case (get s dev inum ip s')
  then show ?case by (blast intro: iget_inv)
next
  case (alloc s dev type r s')
  then show ?case unfolding ialloc_def by (blast intro: ialloc_loop_inv)
next
  case (dup ip s)
  then show ?case by (simp add: idup_def ref_upd_inv)
next
  case (put ip s s')
  then show ?case by (blast intro: iput_inv)
next
  case (lookup s dp name res s')
  then show ?case by (blast intro: dirlookup_inv)
next
  case (link s dp name inum c s')
  then show ?case by (blast intro: dirlink_inv)
qed (metis itable_inv_ids ilock_ids iunlock_ids itrunc_ids readi_ids writei_ids frame_ids(6-8))+

text \<open>C9: the identity guarantee of the inode table.  Starting from a table in which every inode has at most one
  entry, any sequence of inode operations leads to such a table again, and taking an inode twice gives
  the same entry, with its reference count two higher than the references that existed.\<close>

theorem inode_table_canonical:
  assumes "inode_step\<^sup>*\<^sup>* s0 s" "itable_inv s0"
  shows "itable_inv s \<and> (\<forall>dev inum ip s1 ip' s2. iget s dev inum = Some (ip, s1) \<and> iget s1 dev inum = Some (ip', s2) \<longrightarrow>
     ip' = ip \<and> itable_inv s2 \<and> i_dev (itable s2 ip) = dev \<and> i_inum (itable s2 ip) = inum
     \<and> i_ref (itable s2 ip) =
         (if \<exists>a<NINODE. 0 < i_ref (itable s a) \<and> i_dev (itable s a) = dev \<and> i_inum (itable s a) = inum
          then i_ref (itable s ip) + 2 else 2))"
proof -
  have inv: "itable_inv s"
    using assms by (induction rule: rtranclp_induct) (auto intro: inode_step_inv)
  show ?thesis
  proof (intro conjI inv allI impI)
    fix dev inum ip s1 ip' s2
    assume g: "iget s dev inum = Some (ip, s1) \<and> iget s1 dev inum = Some (ip', s2)"
    have inv1: "itable_inv s1" and inv2: "itable_inv s2" using g inv by (blast intro: iget_inv)+
    then show "itable_inv s2" by simp
    from g have g1: "iget s dev inum = Some (ip, s1)" and g2: "iget s1 dev inum = Some (ip', s2)" by auto
    have e1: "ip < NINODE" "0 < i_ref (itable s1 ip)" "i_dev (itable s1 ip) = dev" "i_inum (itable s1 ip) = inum"
      using g1 by (cases rule: iget_cases; auto dest: itable_invD(1) [OF inv])+
    from g2 have e2: "ip' = ip \<and> i_ref (itable s2 ip) = i_ref (itable s1 ip) + 1 \<and> i_dev (itable s2 ip) = dev \<and> i_inum (itable s2 ip) = inum"
    proof (cases rule: iget_cases)
      case hit
      then have "ip' = ip" using itable_invD(2) [OF inv1 hit(1) e1(1)] e1 by simp
      then show ?thesis using hit e1 by simp
    next
      case miss
      then show ?thesis using e1 by blast
    qed
    then show "ip' = ip" "i_dev (itable s2 ip) = dev" "i_inum (itable s2 ip) = inum" by auto
    from g1 show "i_ref (itable s2 ip) =
         (if \<exists>a<NINODE. 0 < i_ref (itable s a) \<and> i_dev (itable s a) = dev \<and> i_inum (itable s a) = inum
          then i_ref (itable s ip) + 2 else 2)"
      by (cases rule: iget_cases) (use e2 in auto)
  qed
qed

subsection \<open>Inodes on disk\<close>

lemma put_addrs_other: "j + 4 \<le> k + 12 \<or> k + 12 + 4 * n \<le> j \<Longrightarrow> le32 (put_addrs d k a n) j = le32 d j"
  "j + 2 \<le> k + 12 \<or> k + 12 + 4 * n \<le> j \<Longrightarrow> le16 (put_addrs d k a n) j = le16 d j"
  "j < k + 12 \<or> k + 12 + 4 * n \<le> j \<Longrightarrow> put_addrs d k a n j = d j"
  by (induction n) (auto simp: put32_other)

lemma put_addrs_at: "i < n \<Longrightarrow> le32 (put_addrs d k a n) (k + 12 + 4 * i) = a i"
proof (induction n)
  case (Suc n)
  then show ?case by (cases "i = n") auto
qed simp

lemma get_put_dinode:
  "get_dinode (put_dinode d k ip) k j = j\<lparr>i_type := i_type ip, i_major := i_major ip, i_minor := i_minor ip,
     i_nlink := i_nlink ip, i_size := i_size ip, i_addrs := (\<lambda>i. if i \<le> NDIRECT then i_addrs ip i else i_addrs j i)\<rparr>"
proof -
  have "le32 (put_addrs D k (i_addrs ip) (Suc NDIRECT)) (k + 12 + 4 * i) = i_addrs ip i" if "i \<le> NDIRECT" for i D
    using that by (intro put_addrs_at) simp
  then show ?thesis
    by (simp add: get_dinode_def put_dinode_def Let_def put_addrs_other fun_eq_iff del: put_addrs.simps)
qed

lemma put_dinode_other: "j < k \<or> k + 64 \<le> j \<Longrightarrow> put_dinode d k ip j = d j"
  by (auto simp: put_dinode_def Let_def put_addrs_other NDIRECT_def put32_other put16_other)

lemma get_dinode_cong: "(\<And>i. k \<le> i \<Longrightarrow> i < k + 64 \<Longrightarrow> d i = e i) \<Longrightarrow> get_dinode d k = get_dinode e k"
proof -
  assume a: "\<And>i. k \<le> i \<Longrightarrow> i < k + 64 \<Longrightarrow> d i = e i"
  have h: "le16 d (k + j) = le16 e (k + j)" if "j + 2 \<le> 64" for j using that by (intro le16_cong a) auto
  have w: "le32 d (k + j) = le32 e (k + j)" if "j + 4 \<le> 64" for j using that by (intro le32_cong a) auto
  have "(\<lambda>i. if i \<le> NDIRECT then le32 d (k + 12 + 4 * i) else A i) =
      (\<lambda>i. if i \<le> NDIRECT then le32 e (k + 12 + 4 * i) else A i)" for A
    using w [of "12 + 4 * _"] by (auto simp: fun_eq_iff NDIRECT_def add.assoc)
  then show ?thesis
    using h [of 0] h [of 2] h [of 4] h [of 6] w [of 8] by (simp add: get_dinode_def fun_eq_iff)
qed

text \<open>Blocks of inodes.\<close>

lemma IBLOCK_unat:
  assumes "layout b" "unat n < unat (sb_ninodes b)"
  shows "unat (IBLOCK n b) = unat n div 16 + unat (sb_inodestart b)"
proof -
  have "unat n div 16 \<le> unat (sb_ninodes b) div 16" using assms(2) by (intro div_le_mono) simp
  then have "unat n div 16 + unat (sb_inodestart b) < 16384" using assms(1) by (simp add: layout_def data_start_def)
  then show ?thesis by (simp add: IBLOCK_def IPB_def unat_word_ariths unat_div)
qed

lemma inode_block:
  assumes "mounted s" "log_ok s" "unat n < unat (sb_ninodes (sb s))"
  shows "on_disk (log_dev s) (IBLOCK n (sb s))" "\<not> in_log_region s (IBLOCK n (sb s))"
    "unat (IBLOCK n (sb s)) < unat (sb_bmapstart (sb s))" "unat (IBLOCK n (sb s)) < data_start (sb s)"
    "unat (IBLOCK n (sb s)) = unat n div 16 + unat (sb_inodestart (sb s))"
proof -
  have l: "layout (sb s)" using assms(1) by (simp add: mounted_def)
  have d: "unat n div 16 \<le> unat (sb_ninodes (sb s)) div 16" using assms(3) by (intro div_le_mono) simp
  have b: "unat n div 16 + unat (sb_inodestart (sb s)) < unat (sb_bmapstart (sb s))"
    using d l by (simp add: layout_def)
  have s: "unat (sb_bmapstart (sb s)) \<le> 16384" "unat (sb_bmapstart (sb s)) \<le> data_start (sb s)"
    using l by (auto simp: layout_def data_start_def)
  show u: "unat (IBLOCK n (sb s)) = unat n div 16 + unat (sb_inodestart (sb s))"
    by (rule IBLOCK_unat [OF l assms(3)])
  show "unat (IBLOCK n (sb s)) < unat (sb_bmapstart (sb s))" "unat (IBLOCK n (sb s)) < data_start (sb s)"
    using u b s by simp_all
  show "\<not> in_log_region s (IBLOCK n (sb s))"
    using u l assms(1) by (auto simp: in_log_region_def mounted_def layout_def)
  show "on_disk (log_dev s) (IBLOCK n (sb s))"
    using u b s assms(2) by (auto simp: on_disk_def log_ok_def RAMDISK_BLOCKS_def word_less_nat_alt)
qed

text \<open>Two inodes of the file system never overlap on disk.\<close>

lemma dinodes_apart:
  assumes "layout b" "unat m < unat (sb_ninodes b)" "unat n < unat (sb_ninodes b)" "m \<noteq> n" "IBLOCK m b = IBLOCK n b"
  shows "dinode_off m + 64 \<le> dinode_off n \<or> dinode_off n + 64 \<le> dinode_off m"
proof -
  have "unat m div 16 = unat n div 16"
    using IBLOCK_unat [OF assms(1,2)] IBLOCK_unat [OF assms(1,3)] assms(5) by simp
  moreover have "unat m \<noteq> unat n" using assms(4) by (simp add: word_unat_eq_iff)
  ultimately have "unat m mod 16 \<noteq> unat n mod 16" by (metis div_mult_mod_eq)
  then show ?thesis by (auto simp: dinode_off_def IPB_def unat_mod)
qed

text \<open>The inodes on disk are a table of records; reading one sets the fields of an in-memory inode that are stored.\<close>

definition dinode_fields :: "inode \<Rightarrow> inode \<Rightarrow> inode" where
  "dinode_fields ip j = j\<lparr>i_type := i_type ip, i_major := i_major ip, i_minor := i_minor ip, i_nlink := i_nlink ip, i_size := i_size ip,
     i_addrs := (\<lambda>i. if i \<le> NDIRECT then i_addrs ip i else i_addrs j i)\<rparr>"

interpretation dinodes: disk_table get_dinode put_dinode 64 dinode_fields "\<lambda>_. True" "\<lambda>b n. IBLOCK n b" "\<lambda>_. dinode_off"
  "\<lambda>b n. layout b \<and> unat n < unat (sb_ninodes b)"
proof unfold_locales
  show "get_dinode (put_dinode d k ip) k = dinode_fields ip" for d k ip by (rule ext) (simp add: get_put_dinode dinode_fields_def)
  show "put_dinode d k ip j = d j" if "j < k \<or> k + 64 \<le> j" for j k d ip using that by (rule put_dinode_other)
  show "get_dinode d k = get_dinode e k" if "\<And>i. k \<le> i \<Longrightarrow> i < k + 64 \<Longrightarrow> d i = e i" for k d e
    using that by (rule get_dinode_cong)
qed (use dinodes_apart in blast)

lemma itable_upd [simp]:
  "cached (s\<lparr>itable := T\<rparr>) = cached s" "cview (s\<lparr>itable := T\<rparr>) = cview s" "logged (s\<lparr>itable := T\<rparr>) = logged s"
  "log_inv (s\<lparr>itable := T\<rparr>) = log_inv s" "in_log_region (s\<lparr>itable := T\<rparr>) = in_log_region s"
  "free_block (s\<lparr>itable := T\<rparr>) = free_block s" "used (s\<lparr>itable := T\<rparr>) = used s" "mounted (s\<lparr>itable := T\<rparr>) = mounted s"
  "in_trans (s\<lparr>itable := T\<rparr>) = in_trans s" "log_ok (s\<lparr>itable := T\<rparr>) = log_ok s"
proof -
  show c: "cached (s\<lparr>itable := T\<rparr>) = cached s" by (simp add: cached_def fun_eq_iff)
  show v: "cview (s\<lparr>itable := T\<rparr>) = cview s" by (simp add: cview_def fun_eq_iff c split: option.split)
  show l: "logged (s\<lparr>itable := T\<rparr>) = logged s" by (simp add: logged_def)
  show r: "in_log_region (s\<lparr>itable := T\<rparr>) = in_log_region s" by (simp add: in_log_region_def fun_eq_iff)
  show ok: "log_ok (s\<lparr>itable := T\<rparr>) = log_ok s" by (simp add: log_ok_def l r)
  show i: "log_inv (s\<lparr>itable := T\<rparr>) = log_inv s"
    by (simp add: log_inv_def log_holds_def ok l c holds_def bio_inv_def buf_ok_def pins_of_def fun_eq_iff)
  show f: "free_block (s\<lparr>itable := T\<rparr>) = free_block s" by (simp add: free_block_def c fun_eq_iff)
  show u: "used (s\<lparr>itable := T\<rparr>) = used s" by (simp add: used_def v fun_eq_iff)
  show m: "mounted (s\<lparr>itable := T\<rparr>) = mounted s" by (simp add: mounted_def u)
  show "in_trans (s\<lparr>itable := T\<rparr>) = in_trans s" by (simp add: in_trans_def i m l f u fun_eq_iff)
qed

lemma upd_inode_trans [simp]:
  "cached (upd_inode ip f s) = cached s" "cview (upd_inode ip f s) = cview s" "logged (upd_inode ip f s) = logged s"
  "log_inv (upd_inode ip f s) = log_inv s" "in_log_region (upd_inode ip f s) = in_log_region s"
  "free_block (upd_inode ip f s) = free_block s" "used (upd_inode ip f s) = used s" "mounted (upd_inode ip f s) = mounted s"
  "in_trans (upd_inode ip f s) = in_trans s" "log_ok (upd_inode ip f s) = log_ok s"
  by (simp_all add: upd_inode_def)


lemma brelse_upd_inode: "brelse (upd_inode ip f s) b = map_option (\<lambda>t. upd_inode ip f (t\<lparr>itable := itable s\<rparr>)) (brelse s b)"
  by (simp add: brelse_def Let_def ensure_def upd_buf_def upd_inode_def)

lemma iupdate_ok:
  assumes tr: "in_trans s L 0" and dev: "i_dev (itable s ip) = log_dev s"
    and n: "unat (i_inum (itable s ip)) < unat (sb_ninodes (sb s))"
  shows "\<exists>s'. iupdate s ip = Some s' \<and> log_inv s' L \<and> evolves L s [(IBLOCK (i_inum (itable s ip)) (sb s),
      put_dinode (cview s (log_dev s) (IBLOCK (i_inum (itable s ip)) (sb s))) (dinode_off (i_inum (itable s ip))) (itable s ip))] s'"
proof -
  note t = in_transD [OF tr]
  let ?n = "IBLOCK (i_inum (itable s ip)) (sb s)"
  note ib = inode_block [OF t(2,5) n]
  have fr: "free_block s L ?n" using t(7) [OF ib(4)] by simp
  have rm: "card (logged s) + card L < NBUF" using t(4) by simp
  obtain bp s1 where 1: "bread s (log_dev s) ?n = Some (Some bp, s1)" "bdata s1 bp = cview s (log_dev s) ?n" "log_only s s1"
    "\<And>x. \<exists>s2 s3. log_write (set_data s1 bp x) bp = Some s2 \<and> brelse s2 bp = Some s3
       \<and> evolves L s [(?n, x)] s3 \<and> log_inv s3 L"
    by (rule poke [OF t(1) ib(1) fr ib(2) t(3) rm]) blast
  have "itable s1 = itable s" by (rule same_rest_fs(2) [OF same_restI(1) [OF 1(3)]])
  with 1(4) [of "put_dinode (bdata s1 bp) (dinode_off (i_inum (itable s ip))) (itable s ip)"] 1(1,2)
  show ?thesis by (auto simp: iupdate_def dev Let_def)
qed

lemma ilock_ok:
  assumes tr: "in_trans s L 0" and dev: "i_dev (itable s ip) = log_dev s"
    and n: "unat (i_inum (itable s ip)) < unat (sb_ninodes (sb s))"
    and ip: "1 \<le> i_ref (itable s ip)" "\<not> locked (i_lock (itable s ip))" "\<not> i_valid (itable s ip)"
    and ty: "le16 (cview s (log_dev s) (IBLOCK (i_inum (itable s ip)) (sb s))) (dinode_off (i_inum (itable s ip))) \<noteq> 0"
  shows "\<exists>t. ilock s ip = Some (t\<lparr>itable := upd ip (\<lambda>i. (get_dinode (cview s (log_dev s) (IBLOCK (i_inum i) (sb s)))
        (dinode_off (i_inum i)) i)\<lparr>i_lock := \<lparr>locked = True, lk_pid = p_pid s\<rparr>, i_valid := True\<rparr>) (itable s)\<rparr>)
    \<and> evolves L s [] t \<and> log_inv t L"
proof -
  let ?lk = "\<lparr>locked = True, lk_pid = p_pid s\<rparr>"
  define u where "u = upd_inode ip (i_lock_update (\<lambda>_. ?lk)) s"
  have tu: "in_trans u L 0" using tr by (simp add: u_def)
  note t = in_transD [OF tu]
  let ?n = "IBLOCK (i_inum (itable s ip)) (sb s)" let ?off = "dinode_off (i_inum (itable s ip))"
  have n': "unat (i_inum (itable s ip)) < unat (sb_ninodes (sb u))" using n by (simp add: u_def)
  note ib = inode_block [OF t(2,5) n']
  have su: "sb u = sb s" "log_dev u = log_dev s" "cview u = cview s" by (simp_all add: u_def)
  have fr: "free_block u L ?n" using t(7) [OF ib(4)] su by simp
  have rm: "card (logged u) + card L < NBUF" using t(4) by simp
  have od: "on_disk (log_dev u) ?n" using ib(1) su by simp
  obtain bp s1 s2 where 1: "bread u (log_dev u) ?n = Some (Some bp, s1)" "bdata s1 bp = cview u (log_dev u) ?n"
    "log_only u s1" "brelse s1 bp = Some s2" "evolves L u [] s2" "log_inv s2 L"
    by (rule peek [OF t(1) od fr rm])
  have it: "itable s1 = itable u" by (rule same_rest_fs(2) [OF same_restI(1) [OF 1(3)]])
  let ?D = "cview s (log_dev s) ?n"
  let ?T = "upd ip (\<lambda>i. (get_dinode ?D ?off i)\<lparr>i_lock := ?lk, i_valid := True\<rparr>) (itable s)"
  have T: "upd ip (i_valid_update (\<lambda>_. True)) (upd ip (get_dinode ?D ?off) (itable u)) = ?T"
    by (simp add: u_def upd_def get_dinode_def fun_eq_iff)
  have rel: "brelse (upd_inode ip (get_dinode ?D ?off) s1) bp = Some (upd_inode ip (get_dinode ?D ?off) (s2\<lparr>itable := itable u\<rparr>))"
    by (simp add: brelse_upd_inode 1(4) it)
  have "ilock s ip = Some (upd_inode ip (i_valid_update (\<lambda>_. True)) (upd_inode ip (get_dinode ?D ?off) (s2\<lparr>itable := itable u\<rparr>)))"
    using ip ty dev 1(1,2) rel it su
    by (simp add: ilock_def ensure_def acquiresleep_def Let_def u_def [symmetric] get_dinode_def)
       (simp add: u_def get_dinode_def)
  also have "\<dots> = Some (s2\<lparr>itable := ?T\<rparr>)" by (simp add: upd_inode_def T)
  also have "s2\<lparr>itable := ?T\<rparr> = (s2\<lparr>itable := itable s\<rparr>)\<lparr>itable := ?T\<rparr>" by simp
  finally have "ilock s ip = Some ((s2\<lparr>itable := itable s\<rparr>)\<lparr>itable := ?T\<rparr>)" .
  moreover have "log_only s (s2\<lparr>itable := itable s\<rparr>)"
    using 1(5) unfolding evolves_def by (cases s; cases s2) (simp add: log_only_def u_def upd_inode_def)
  then have "evolves L s [] (s2\<lparr>itable := itable s\<rparr>)"
    using 1(5) by (auto simp: evolves_def u_def)
  ultimately show ?thesis using 1(6) by (intro exI [of _ "s2\<lparr>itable := itable s\<rparr>"]) (auto simp: upd_def)
qed


lemma in_trans_evolves:
  assumes tr: "in_trans s L (length W + k)" and ev: "evolves L s W s'" "log_inv s' L" and m: "mounted s'"
    and u: "\<And>n. n < unat (sb_size (sb s)) \<Longrightarrow> \<not> used s' n \<Longrightarrow> \<not> used s n \<or> free_block s L (of_nat n)"
  shows "in_trans s' L k"
proof -
  note t = in_transD [OF tr]
  note f = evolves_fs [OF ev(1)] evolvesD [OF ev(1)]
  have "card (logged s') \<le> card (logged s) + card (fst ` set W)" unfolding f by (rule card_Un_le)
  moreover have "card (fst ` set W) \<le> length W"
    using card_image_le [of "set W" fst] card_length [of W] by simp
  ultimately have "card (logged s') + card L + k < NBUF" using t(4) by linarith
  moreover have "free_block s L (of_nat n)" if "n < unat (sb_size (sb s))" "\<not> used s' n" for n
    using u [OF that] t(8) that(1) by blast
  ultimately show ?thesis
    using ev(2) m t(3) f t(7) evolves_free [OF ev(1)] by (simp add: in_trans_def)
qed

lemma meta_write_mounted:
  assumes m: "mounted s" and ok: "log_ok s" and ev: "evolves L s [(n, x)] s'" and n: "unat n < unat (sb_bmapstart (sb s)) \<or> data_start (sb s) \<le> unat n"
  shows "mounted s'" "c < unat (sb_size (sb s)) \<Longrightarrow> used s' c = used s c"
proof -
  note f = evolves_fs [OF ev] evolvesD [OF ev]
  have l: "layout (sb s)" using m by (simp add: mounted_def)
  show us: "used s' c = used s c" if "c < unat (sb_size (sb s))" for c
  proof -
    have "BBLOCK (of_nat c) (sb s) \<noteq> n" using BBLOCK_unat [OF l that] n by auto
    then show ?thesis using f by (simp add: used_def)
  qed
  have "data_start (sb s) \<le> unat (sb_size (sb s))" using l by (simp add: layout_def)
  then show "mounted s'" using m us f by (simp add: mounted_def)
qed

text \<open>C10: inodes survive the trip to disk.  \<open>iupdate\<close> of an inode followed, with any inode table, by \<open>ilock\<close> on
  an entry for the same inode that has not been read yet, gives that entry the type, device numbers,
  link count, size and block addresses that were stored, and no other inode of the file system changes.\<close>

theorem iupdate_ilock_roundtrip:
  assumes "in_trans s L 1" "i_dev (itable s ip) = log_dev s" "unat (i_inum (itable s ip)) < unat (sb_ninodes (sb s))"
    and "i_type (itable s ip) \<noteq> 0"
    and "i_dev (T jp) = i_dev (itable s ip)" "i_inum (T jp) = i_inum (itable s ip)" "1 \<le> i_ref (T jp)"
    and "\<not> locked (i_lock (T jp))" "\<not> i_valid (T jp)"
  shows "\<exists>s1 s2. iupdate s ip = Some s1 \<and> ilock (s1\<lparr>itable := T\<rparr>) jp = Some s2 \<and> log_inv s2 L
    \<and> i_valid (itable s2 jp) \<and> i_type (itable s2 jp) = i_type (itable s ip)
    \<and> i_major (itable s2 jp) = i_major (itable s ip) \<and> i_minor (itable s2 jp) = i_minor (itable s ip)
    \<and> i_nlink (itable s2 jp) = i_nlink (itable s ip) \<and> i_size (itable s2 jp) = i_size (itable s ip)
    \<and> (\<forall>i\<le>NDIRECT. i_addrs (itable s2 jp) i = i_addrs (itable s ip) i)
    \<and> (\<forall>m. unat m < unat (sb_ninodes (sb s)) \<and> m \<noteq> i_inum (itable s ip) \<longrightarrow>
         get_dinode (cview s2 (log_dev s) (IBLOCK m (sb s))) (dinode_off m) =
         get_dinode (cview s (log_dev s) (IBLOCK m (sb s))) (dinode_off m))"
proof -
  let ?m = "i_inum (itable s ip)" let ?n = "IBLOCK ?m (sb s)" let ?d = "log_dev s"
  let ?x = "put_dinode (cview s ?d ?n) (dinode_off ?m) (itable s ip)"
  note t = in_transD [OF assms(1)]
  have t0: "in_trans s L 0" using assms(1) by (simp add: in_trans_def)
  obtain s1 where 1: "iupdate s ip = Some s1" "log_inv s1 L" "evolves L s [(?n, ?x)] s1"
    using iupdate_ok [OF t0 assms(2,3)] by blast
  note f = evolves_fs [OF 1(3)] evolvesD [OF 1(3)]
  note ib = inode_block [OF t(2,5) assms(3)]
  have v: "cview s1 ?d k = (if k = ?n then ?x else cview s ?d k)" for k using f by simp
  have ib3: "unat ?n < unat (sb_bmapstart (sb s)) \<or> data_start (sb s) \<le> unat ?n" using ib(3) by simp
  note mw = meta_write_mounted [OF t(2,5) 1(3) ib3]
  let ?s1 = "s1\<lparr>itable := T\<rparr>"
  have t1: "in_trans ?s1 L 0"
    using in_trans_evolves [of s L "[(?n, ?x)]" 0 s1] assms(1) 1(2,3) mw by simp
  have "get_dinode (cview ?s1 (log_dev ?s1) ?n) (dinode_off ?m) (T jp) = get_dinode ?x (dinode_off ?m) (T jp)"
    using f by simp
  note g = this [unfolded get_put_dinode]
  have ty: "le16 (cview ?s1 (log_dev ?s1) ?n) (dinode_off ?m) \<noteq> 0"
    using arg_cong [OF g, of i_type] assms(4) by (simp add: get_dinode_def)
  obtain u where u: "ilock ?s1 jp = Some (u\<lparr>itable := upd jp (\<lambda>i. (get_dinode (cview ?s1 (log_dev ?s1) (IBLOCK (i_inum i) (sb ?s1)))
        (dinode_off (i_inum i)) i)\<lparr>i_lock := \<lparr>locked = True, lk_pid = p_pid ?s1\<rparr>, i_valid := True\<rparr>) (itable ?s1)\<rparr>)"
      "evolves L ?s1 [] u" "log_inv u L"
    using ilock_ok [OF t1, of jp] assms(5-9) assms(2,3) f ty by auto
  have V: "cview u ?d = (cview s ?d)(?n := ?x)" using v evolvesD(4) [OF u(2)] by (simp add: fun_eq_iff)
  have "get_dinode (cview u ?d (IBLOCK m (sb s))) (dinode_off m) = get_dinode (cview s ?d (IBLOCK m (sb s))) (dinode_off m)"
    if "unat m < unat (sb_ninodes (sb s))" "m \<noteq> ?m" for m
    using dinodes.table_update [OF _ _ TrueI V] that t(6) assms(3) by simp
  then show ?thesis
    using 1(1) u(1,3) g assms(6) f by (intro exI [of _ s1] exI conjI) (assumption | simp)+
qed


theorem inode_table_canonical_witness:
  "itable_inv (snd (idup (fs_demo itable_demo ()) 0))"
proof -
  have "itable_inv (fs_demo itable_demo ())" by (auto simp: itable_inv_def itable_demo_def)
  moreover have "inode_step (fs_demo itable_demo ()) (snd (idup (fs_demo itable_demo ()) 0))"
    by (rule inode_step.dup) (simp_all add: NINODE_def itable_demo_def)
  ultimately show ?thesis using inode_table_canonical [OF r_into_rtranclp] by blast
qed

theorem iupdate_ilock_roundtrip_witness:
  "\<exists>s1 s2. iupdate (fs_demo itable_demo ()) 0 = Some s1
     \<and> ilock (s1\<lparr>itable := (\<lambda>_. (itable_demo 0)\<lparr>i_lock := initsleeplock, i_valid := False, i_size := 0\<rparr>)\<rparr>) 3 = Some s2
     \<and> i_size (itable s2 3) = 1500"
  using iupdate_ilock_roundtrip [OF fs_demo_trans [of 1 itable_demo "()"], of 0
    "\<lambda>_. (itable_demo 0)\<lparr>i_lock := initsleeplock, i_valid := False, i_size := 0\<rparr>" 3]
  by (auto simp: itable_demo_def sb_demo_def T_FILE_def initsleeplock_def)

end
