(* ===== verification/Filedata.thy ===== *)
theory Filedata
  imports Inode
begin

text \<open>
  The content of files of \<^verbatim>\<open>kernel/fs.c\<close>: which disk block holds which part of a file, what \<open>readi\<close> reads
  and \<open>writei\<close> writes.  \<open>file_byte\<close> is the content of a file as a sequence of bytes.
\<close>

subsection \<open>The blocks of a file\<close>

definition blk :: "'a fs_scheme \<Rightarrow> nat \<Rightarrow> nat \<Rightarrow> u32" where
  "blk s ip bn =
     (if bn < NDIRECT then i_addrs (itable s ip) bn
      else if i_addrs (itable s ip) NDIRECT = 0 then 0
      else le32 (cview s (log_dev s) (i_addrs (itable s ip) NDIRECT)) (4 * (bn - NDIRECT)))"

definition file_byte :: "'a fs_scheme \<Rightarrow> nat \<Rightarrow> nat \<Rightarrow> byte" where
  "file_byte s ip off = cview s (log_dev s) (blk s ip (off div BSIZE)) (off mod BSIZE)"

definition data_ok :: "'a fs_scheme \<Rightarrow> u32 \<Rightarrow> bool" where
  "data_ok s n \<longleftrightarrow> data_start (sb s) \<le> unat n \<and> unat n < unat (sb_size (sb s)) \<and> used s (unat n)"

text \<open>A file without holes whose blocks are data blocks in use.\<close>

definition wf_file :: "'a fs_scheme \<Rightarrow> nat \<Rightarrow> bool" where
  "wf_file s ip \<longleftrightarrow> i_dev (itable s ip) = log_dev s \<and> unat (i_size (itable s ip)) \<le> MAXFILE * BSIZE
     \<and> (\<forall>bn. bn * BSIZE < unat (i_size (itable s ip)) \<longrightarrow> data_ok s (blk s ip bn))
     \<and> (NDIRECT * BSIZE < unat (i_size (itable s ip)) \<longrightarrow> data_ok s (i_addrs (itable s ip) NDIRECT))"

text \<open>A state between two file system calls or inside one, with no buffer held.\<close>

definition at_rest :: "'a fs_scheme \<Rightarrow> bool" where
  "at_rest s \<longleftrightarrow> log_inv s {} \<and> mounted s \<and> card (logged s) < NBUF"

lemma at_restD:
  assumes "at_rest s"
  shows "log_inv s {}" "mounted s" "card (logged s) + card ({} :: nat set) < NBUF" "log_ok s" "free_block s {} n"
  using assms log_inv_ok by (auto simp: at_rest_def free_block_def)

lemma at_rest_quiet:
  assumes "at_rest s" "evolves {} s [] s'" "log_inv s' {}"
  shows "at_rest s'"
  using assms evolves_used [OF assms(2)] by (simp add: at_rest_def)

lemma data_ok_block:
  assumes "mounted s" "log_ok s" "data_ok s n"
  shows "on_disk (log_dev s) n" "\<not> in_log_region s n" "n \<noteq> 0"
proof -
  have u: "unat n < unat (sb_size (sb s))" "data_start (sb s) \<le> unat n" using assms(3) by (auto simp: data_ok_def)
  note d = data_block [OF assms(1,2) u]
  show "on_disk (log_dev s) n" "\<not> in_log_region s n" "n \<noteq> 0" using d by auto
qed

lemma evolves_file:
  assumes "evolves L s [] s'"
  shows "blk s' = blk s" "file_byte s' = file_byte s" "data_ok s' = data_ok s" "wf_file s' = wf_file s"
proof -
  note f = evolves_fs [OF assms] evolves_used [OF assms]
  show b: "blk s' = blk s" by (simp add: blk_def f fun_eq_iff)
  show "file_byte s' = file_byte s" by (simp add: file_byte_def b f fun_eq_iff)
  show d: "data_ok s' = data_ok s" by (simp add: data_ok_def f fun_eq_iff)
  show "wf_file s' = wf_file s" by (simp add: wf_file_def b d f fun_eq_iff)
qed

lemma bmap_found:
  assumes r: "at_rest s" and wf: "wf_file s ip" and bn: "unat bn * BSIZE < unat (i_size (itable s ip))"
  shows "\<exists>s'. bmap s ip bn = Some (blk s ip (unat bn), s') \<and> evolves {} s [] s' \<and> log_inv s' {}"
proof -
  note t = at_restD [OF r]
  have ok: "data_ok s (blk s ip (unat bn))" using wf bn by (simp add: wf_file_def)
  have nz: "blk s ip (unat bn) \<noteq> 0" by (rule data_ok_block(3) [OF t(2,4) ok])
  have dev: "i_dev (itable s ip) = log_dev s" using wf by (simp add: wf_file_def)
  show ?thesis
  proof (cases "unat bn < NDIRECT")
    case True
    then show ?thesis using nz t(1) by (auto simp: bmap_def bmap_slot_def blk_def)
  next
    case False
    let ?k = "bn - of_nat NDIRECT" let ?a = "i_addrs (itable s ip) NDIRECT"
    have lt: "unat bn < MAXFILE" using wf bn by (simp add: wf_file_def BSIZE_def)
    have le: "NDIRECT \<le> unat bn" using False by simp
    then have "(of_nat NDIRECT :: u32) \<le> bn" by (simp add: word_le_nat_alt NDIRECT_def)
    then have k: "unat ?k = unat bn - NDIRECT" by (simp add: unat_sub NDIRECT_def)
    have "NDIRECT * BSIZE < unat (i_size (itable s ip))" using le bn by (simp add: NDIRECT_def BSIZE_def)
    then have a: "data_ok s ?a" using wf by (simp add: wf_file_def)
    note da = data_ok_block [OF t(2,4) a]
    obtain bp s1 s2 where 1: "bread s (log_dev s) ?a = Some (Some bp, s1)" "bdata s1 bp = cview s (log_dev s) ?a"
      "log_only s s1" "brelse s1 bp = Some s2" "evolves {} s [] s2" "log_inv s2 {}"
      by (rule peek [OF t(1) da(1) t(5,3)])
    have b: "blk s ip (unat bn) = le32 (bdata s1 bp) (4 * unat ?k)"
      using False da(3) 1(2) k by (simp add: blk_def)
    have "bmap_entry s1 ip bp (unat ?k) = Some (blk s ip (unat bn), s1)"
      using nz unfolding b bmap_entry_def by simp
    moreover have "unat ?k < NINDIRECT" using k lt le by (simp add: MAXFILE_def)
    ultimately show ?thesis
      using False da(3) dev 1 by (intro exI [of _ s2]) (simp add: bmap_def bmap_slot_def Let_def)
  qed
qed

subsection \<open>Reading\<close>

lemma unat_ucast_64: "unat (ucast (x :: u32) :: u64) = unat x"
proof -
  have "unat x < 2 ^ 32" using unsigned_less [of x] by simp
  then have "take_bit 64 (unat x) = unat x" by (intro take_bit_nat_eq_self) simp
  then show ?thesis by (simp add: unsigned_ucast_eq)
qed

lemma same_block:
  assumes "off mod BSIZE + j < BSIZE"
  shows "(off + j) div BSIZE = off div BSIZE" "(off + j) mod BSIZE = off mod BSIZE + j"
proof -
  have e: "off + j = (off mod BSIZE + j) + BSIZE * (off div BSIZE)" by simp
  have nz: "BSIZE \<noteq> 0" by (simp add: BSIZE_def)
  have "(off + j) div BSIZE = off div BSIZE + (off mod BSIZE + j) div BSIZE"
    by (subst e) (rule div_mult_self2 [OF nz])
  then show "(off + j) div BSIZE = off div BSIZE" using assms by simp
  have "(off + j) mod BSIZE = (off mod BSIZE + j) mod BSIZE" by (subst e) (rule mod_mult_self2)
  then show "(off + j) mod BSIZE = off mod BSIZE + j" using assms by simp
qed

lemma chunk:
  fixes off n tot :: u32
  assumes "tot < n"
  defines "m \<equiv> min (n - tot) (of_nat BSIZE - off mod of_nat BSIZE)"
  shows "unat m = min (unat n - unat tot) (BSIZE - unat off mod BSIZE)" "0 < unat m"
    "unat (off div of_nat BSIZE) = unat off div BSIZE"
proof -
  have a: "unat (n - tot) = unat n - unat tot" using assms(1) by (simp add: unat_sub)
  have o: "unat (off mod of_nat BSIZE) = unat off mod BSIZE" by (simp add: unat_mod BSIZE_def)
  have lt: "unat off mod BSIZE < BSIZE" by (simp add: BSIZE_def)
  then have "off mod of_nat BSIZE \<le> (of_nat BSIZE :: u32)" using o by (simp add: word_le_nat_alt BSIZE_def)
  then have "unat (of_nat BSIZE - off mod of_nat BSIZE) = BSIZE - unat off mod BSIZE"
    using o by (simp add: unat_sub BSIZE_def)
  then show u: "unat m = min (unat n - unat tot) (BSIZE - unat off mod BSIZE)"
    using a by (simp add: m_def min_def word_le_nat_alt)
  show "0 < unat m" using u lt assms(1) by (simp add: word_less_nat_alt)
  show "unat (off div of_nat BSIZE) = unat off div BSIZE" by (simp add: unat_div BSIZE_def)
qed

text \<open>The counters of \<open>readi\<close> and \<open>writei\<close> after a chunk do not wrap around.\<close>

lemma chunk_step:
  fixes off n tot :: u32 and a :: u64
  assumes "tot < n" "unat off + (unat n - unat tot) < 2 ^ 32" "unat a + (unat n - unat tot) < 2 ^ 64"
  defines "m \<equiv> min (n - tot) (of_nat BSIZE - off mod of_nat BSIZE)"
  shows "unat (off + m) = unat off + unat m" "unat (a + ucast m) = unat a + unat m" "unat (ucast m :: u64) = unat m"
    "unat n - unat (tot + m) = unat n - unat tot - unat m" "tot + m \<le> n" "unat n - unat tot - unat m < unat n - unat tot"
    "unat m \<le> unat n - unat tot" "unat m \<le> BSIZE - unat off mod BSIZE"
proof -
  note ch = chunk [OF assms(1), of off, folded m_def]
  show mle: "unat m \<le> unat n - unat tot" "unat m \<le> BSIZE - unat off mod BSIZE" unfolding ch(1) by simp_all
  show um: "unat (ucast m :: u64) = unat m" by (rule unat_ucast_64)
  have lt: "unat tot < unat n" "unat n < 2 ^ 32" using assms(1) unsigned_less [of n] by (simp_all add: word_less_nat_alt)
  have tt: "unat (tot + m) = unat tot + unat m" using mle(1) lt by (simp add: unat_word_ariths)
  show "unat (off + m) = unat off + unat m" "unat (a + ucast m) = unat a + unat m"
    using mle(1) assms(2,3) by (simp_all add: unat_word_ariths um)
  show "unat n - unat (tot + m) = unat n - unat tot - unat m" "tot + m \<le> n" "unat n - unat tot - unat m < unat n - unat tot"
    using mle(1) lt ch(2) unfolding word_le_nat_alt tt by simp_all
qed

lemma readi_loop_ok:
  assumes "at_rest s" "wf_file s ip" "tot \<le> n" "unat off + (unat n - unat tot) \<le> unat (i_size (itable s ip))"
    "unat dst + (unat n - unat tot) < 2 ^ 64"
  shows "\<exists>s'. readi_loop s ip False dst kb off n tot = Some (n, (\<lambda>i. if unat dst \<le> i \<and> i < unat dst + (unat n - unat tot)
      then file_byte s ip (unat off + (i - unat dst)) else kb i), s') \<and> evolves {} s [] s' \<and> log_inv s' {}"
  using assms
proof (induction "unat n - unat tot" arbitrary: s dst kb off tot rule: less_induct)
  case less
  note t = at_restD [OF less.prems(1)]
  show ?case
  proof (cases "tot < n")
    case False
    then have "tot = n" using less.prems(3) by simp
    then show ?thesis using t(1) by (subst readi_loop.simps) (auto simp: fun_eq_iff)
  next
    case True
    let ?m = "min (n - tot) (of_nat BSIZE - off mod of_nat BSIZE)"
    note ch = chunk [OF True, of off]
    let ?bn = "off div of_nat BSIZE" let ?d = "log_dev s"
    have "unat ?bn * BSIZE \<le> unat off" unfolding ch(3) by simp
    moreover have "unat off < unat (i_size (itable s ip))" using less.prems(4) True by (simp add: word_less_nat_alt)
    ultimately have bn: "unat ?bn * BSIZE < unat (i_size (itable s ip))" by linarith
    define a where "a = blk s ip (unat off div BSIZE)"
    obtain s1 where 1: "bmap s ip ?bn = Some (a, s1)" "evolves {} s [] s1" "log_inv s1 {}"
      using bmap_found [OF less.prems(1,2) bn] unfolding ch(3) a_def by blast
    have ok: "data_ok s a" using less.prems(2) bn unfolding ch(3) by (simp add: wf_file_def a_def)
    note da = data_ok_block [OF t(2,4) ok]
    note r1 = at_restD [OF at_rest_quiet [OF less.prems(1) 1(2,3)]]
    note f1 = evolves_fs [OF 1(2)] evolves_used [OF 1(2)] evolves_file [OF 1(2)]
    have dev: "i_dev (itable s1 ip) = log_dev s1" using less.prems(2) f1 by (simp add: wf_file_def)
    have od: "on_disk (log_dev s1) a" using da(1) f1 by simp
    obtain bp s2 s3 where 2: "bread s1 (log_dev s1) a = Some (Some bp, s2)" "bdata s2 bp = cview s1 (log_dev s1) a"
      "brelse s2 bp = Some s3" "evolves {} s1 [] s3" "log_inv s3 {}"
      by (rule peek [OF r1(1) od r1(5,3)])
    have ev: "evolves {} s [] s3" using evolves_trans [OF 1(2) 2(4)] by simp
    note f3 = evolves_fs [OF ev] evolves_file [OF ev]
    let ?kb = "copy_into kb (unat dst) (bdata s2 bp) (unat off mod BSIZE) (unat ?m)"
    have "unat off + (unat n - unat tot) < 2 ^ 32" using less.prems(4) unsigned_less [of "i_size (itable s ip)", where 'a = nat] by simp
    note cs = chunk_step [OF True this less.prems(5)]
    have step: "readi_loop s ip False dst kb off n tot = readi_loop s3 ip False (dst + ucast ?m) ?kb (off + ?m) n (tot + ?m)"
      by (subst readi_loop.simps) (use True 1(1) da(3) dev 2(1,3) cs(3) in \<open>simp add: either_copyout_def Let_def\<close>)
    have rest: "unat (off + ?m) + (unat n - unat (tot + ?m)) \<le> unat (i_size (itable s3 ip))"
      "unat (dst + ucast ?m) + (unat n - unat (tot + ?m)) < 2 ^ 64"
      unfolding cs(1,2,4) f3 using less.prems(4,5) cs(7) by simp_all
    have smaller: "unat n - unat (tot + ?m) < unat n - unat tot" unfolding cs(4) by (rule cs(6))
    have "wf_file s3 ip" using less.prems(2) f3 by simp
    from less.hyps [OF smaller at_rest_quiet [OF less.prems(1) ev 2(5)] this cs(5) rest]
    obtain s' where s': "readi_loop s3 ip False (dst + ucast ?m) ?kb (off + ?m) n (tot + ?m) =
        Some (n, (\<lambda>i. if unat (dst + ucast ?m) \<le> i \<and> i < unat (dst + ucast ?m) + (unat n - unat (tot + ?m))
          then file_byte s3 ip (unat (off + ?m) + (i - unat (dst + ucast ?m))) else ?kb i), s')"
        "evolves {} s3 [] s'" "log_inv s' {}" by blast
    have fb: "bdata s2 bp (unat off mod BSIZE + j) = file_byte s ip (unat off + j)" if "j < unat ?m" for j
    proof -
      have "unat off mod BSIZE + j < BSIZE" using that cs(8) by linarith
      from same_block [OF this] show ?thesis using 2(2) f1 by (simp add: file_byte_def a_def)
    qed
    have "(if unat (dst + ucast ?m) \<le> i \<and> i < unat (dst + ucast ?m) + (unat n - unat (tot + ?m))
          then file_byte s3 ip (unat (off + ?m) + (i - unat (dst + ucast ?m))) else ?kb i) =
        (if unat dst \<le> i \<and> i < unat dst + (unat n - unat tot) then file_byte s ip (unat off + (i - unat dst)) else kb i)" for i
      unfolding cs(1,2,4) f3 using fb [of "i - unat dst"] cs(7) by (auto simp: copy_into_def)
    then show ?thesis using step s' evolves_trans [OF ev s'(2)] by simp
  qed
qed


definition read_len :: "u32 \<Rightarrow> u32 \<Rightarrow> u32 \<Rightarrow> nat" where
  "read_len size' off n =
     (if off > size' \<or> off + n < off then 0 else min (unat n) (unat size' - unat off))"

lemma read_len_word:
  fixes off n size' :: u32
  assumes "\<not> (off > size' \<or> off + n < off)"
  shows "unat (if off + n > size' then size' - off else n) = read_len size' off n"
    "unat off + read_len size' off n \<le> unat size'"
proof -
  have o: "unat (off + n) = unat off + unat n"
  proof (rule ccontr)
    assume "\<not> ?thesis"
    then have a: "2 ^ 32 \<le> unat off + unat n" using unat_add_lem [of off n] by simp
    have b: "unat off < 2 ^ 32" "unat n < 2 ^ 32" using unsigned_less [of off] unsigned_less [of n] by simp_all
    have "unat (off + n) = (unat off + unat n) mod 2 ^ 32" by (simp add: unat_word_ariths)
    also have "\<dots> = unat off + unat n - 2 ^ 32" using a b by (simp add: mod_if)
    finally have "unat (off + n) < unat off" using a b by simp
    then show False using assms by (simp add: word_less_nat_alt)
  qed
  have le: "off \<le> size'" using assms by (auto simp: not_less)
  show "unat (if off + n > size' then size' - off else n) = read_len size' off n"
    using o le assms by (auto simp: read_len_def word_less_nat_alt word_le_nat_alt unat_sub)
  show "unat off + read_len size' off n \<le> unat size'"
    using le assms by (auto simp: read_len_def word_le_nat_alt)
qed

lemma sint_small: "unat (w :: u32) < 2 ^ 31 \<Longrightarrow> sint w = int (unat w)"
proof -
  assume w: "unat w < 2 ^ 31"
  have u: "uint w = int (unat w)" by simp
  have "int (unat w) < int (2 ^ 31)" using w by (simp only: of_nat_less_iff)
  then have "uint w < 2 ^ 31" unfolding u by simp
  moreover have "- (2 ^ 31) \<le> uint w" using order_trans [OF _ uint_ge_0 [of w]] by simp
  ultimately have "signed_take_bit 31 (uint w) = uint w" by (intro signed_take_bit_int_eq_self) simp_all
  moreover have "sint w = signed_take_bit 31 (uint w)" by (simp add: sint_uint)
  ultimately show ?thesis by (simp only: u)
qed

lemma readi_ok:
  fixes off :: u32
  assumes r: "at_rest s" and wf: "wf_file s ip" and d: "unat dst + unat n < 2 ^ 64"
  defines "k \<equiv> read_len (i_size (itable s ip)) off n"
  shows "\<exists>s'. readi s ip False dst kb off n = Some (int k, (\<lambda>i. if unat dst \<le> i \<and> i < unat dst + k
      then file_byte s ip (unat off + (i - unat dst)) else kb i), s') \<and> evolves {} s [] s' \<and> log_inv s' {}"
proof (cases "off > i_size (itable s ip) \<or> off + n < off")
  case True
  then have "k = 0" by (simp add: k_def read_len_def)
  then show ?thesis using True at_restD(1) [OF r] by (auto simp: readi_def fun_eq_iff)
next
  case False
  note rl = read_len_word [OF False, folded k_def]
  let ?n = "if off + n > i_size (itable s ip) then i_size (itable s ip) - off else n"
  have kn: "k \<le> unat n" using False by (simp add: k_def read_len_def)
  have "unat off + (unat ?n - unat (0::u32)) \<le> unat (i_size (itable s ip))" "unat dst + (unat ?n - unat (0::u32)) < 2 ^ 64"
    unfolding rl(1) using rl(2) d kn by simp_all
  from readi_loop_ok [OF r wf _ this, of kb] obtain s' where
    s': "readi_loop s ip False dst kb off ?n 0 = Some (?n, (\<lambda>i. if unat dst \<le> i \<and> i < unat dst + (unat ?n - unat (0::u32))
      then file_byte s ip (unat off + (i - unat dst)) else kb i), s')" "evolves {} s [] s'" "log_inv s' {}"
    by auto
  have "unat (i_size (itable s ip)) \<le> MAXFILE * BSIZE" using wf by (simp add: wf_file_def)
  then have "unat ?n < 2 ^ 31" unfolding rl(1) using rl(2)
    by (simp add: MAXFILE_def NDIRECT_def NINDIRECT_def BSIZE_def)
  then have "sint ?n = int k" using sint_small rl(1) by metis
  moreover have "unat ?n - unat (0::u32) = k" unfolding rl(1) by simp
  ultimately show ?thesis using False s' unfolding readi_def by (simp add: Let_def)
qed


text \<open>C4: reading a file.  On a file without holes, \<open>readi\<close> into a kernel buffer returns the number of bytes between
  the offset and the end of the file, at most the \<open>n\<close> requested, or 0 when the offset is past the end or
  offset plus length wraps around; it copies exactly these bytes of the file to the destination and
  changes neither the contents of any block nor the log.\<close>

theorem readi_correct:
  assumes "at_rest s" "wf_file s ip" "unat dst + unat n < 2 ^ 64"
  shows "\<exists>r kb' s'. readi s ip False dst kb off n = Some (r, kb', s') \<and> r = int (read_len (i_size (itable s ip)) off n)
    \<and> (\<forall>i. kb' i = (if unat dst \<le> i \<and> i < unat dst + nat r then file_byte s ip (unat off + (i - unat dst)) else kb i))
    \<and> cview s' = cview s \<and> disk s' = disk s \<and> logged s' = logged s \<and> log_inv s' {}"
  using readi_ok [OF assms, of kb off] evolves_used by (fastforce simp: evolves_def)

subsection \<open>Directories\<close>

text \<open>Entry \<open>k\<close> of a directory, as the 16 bytes of its \<open>struct dirent\<close>.\<close>

definition dir_entry :: "'a fs_scheme \<Rightarrow> nat \<Rightarrow> nat \<Rightarrow> buffer" where
  "dir_entry s dp k = (\<lambda>i. if i < 16 then file_byte s dp (16 * k + i) else 0)"

definition dir_match :: "'a fs_scheme \<Rightarrow> nat \<Rightarrow> buffer \<Rightarrow> nat \<Rightarrow> bool" where
  "dir_match s dp name k \<longleftrightarrow> de_inum (dir_entry s dp k) \<noteq> 0 \<and> namecmp name (de_name (dir_entry s dp k)) = 0"

lemma read_entry:
  assumes r: "at_rest s" and wf: "wf_file s dp" and k: "16 * Suc k \<le> unat (i_size (itable s dp))"
  shows "\<exists>s'. readi s dp False 0 (\<lambda>_. 0) (of_nat (16 * k)) 16 = Some (16, dir_entry s dp k, s') \<and> evolves {} s [] s' \<and> log_inv s' {}"
proof -
  have lt: "unat (i_size (itable s dp)) < 2 ^ 32" using unsigned_less [of "i_size (itable s dp)"] by simp
  have o: "unat (of_nat (16 * k) :: u32) = 16 * k" using k lt by (intro unat_of_nat_small) simp
  have o16: "unat (of_nat (16 * k) + 16 :: u32) = 16 * k + 16"
    using o k lt wf by (simp add: unat_word_ariths wf_file_def MAXFILE_def NDIRECT_def NINDIRECT_def BSIZE_def)
  have "read_len (i_size (itable s dp)) (of_nat (16 * k)) 16 = 16"
    using k o o16 unfolding read_len_def word_less_nat_alt by simp
  then show ?thesis
    using readi_ok [OF r wf, of 0 16 "\<lambda>_. 0" "of_nat (16 * k)"] unfolding o dir_entry_def
    by (simp cong: if_cong del: of_nat_mult)
qed

lemma dirlookup_loop_ok:
  assumes "at_rest s" "wf_file s dp" "16 dvd unat (i_size (itable s dp))" "16 * k \<le> unat (i_size (itable s dp))"
    "\<forall>j<k. \<not> dir_match s dp name j"
  shows "\<exists>s'. evolves {} s [] s' \<and> log_inv s' {} \<and>
    dirlookup_loop s dp name (of_nat (16 * k)) =
      (case scan (dir_match s dp name) 0 (unat (i_size (itable s dp)) div 16) of
         None \<Rightarrow> Some (None, s')
       | Some j \<Rightarrow> map_option (\<lambda>(ip, t). (Some (ip, of_nat (16 * j)), t))
                   (iget s' (log_dev s) (ucast (de_inum (dir_entry s dp j)))))"
  using assms
proof (induction "unat (i_size (itable s dp)) - 16 * k" arbitrary: s k rule: less_induct)
  case less
  let ?sz = "unat (i_size (itable s dp))"
  have lt: "?sz < 2 ^ 32" using unsigned_less [of "i_size (itable s dp)"] by simp
  have o: "unat (of_nat (16 * k) :: u32) = 16 * k" using less.prems(4) lt by (intro unat_of_nat_small) simp
  have dev: "i_dev (itable s dp) = log_dev s" using less.prems(2) by (simp add: wf_file_def)
  show ?case
  proof (cases "16 * k < ?sz")
    case False
    then have "16 * k = ?sz" using less.prems(4) by simp
    then have "?sz div 16 = k" by simp
    then have "scan (dir_match s dp name) 0 (?sz div 16) = None" using less.prems(5) by (simp add: scan_None_iff)
    moreover have "dirlookup_loop s dp name (of_nat (16 * k)) = Some (None, s)"
      by (subst dirlookup_loop.simps) (use False o in \<open>simp add: word_less_nat_alt\<close>)
    ultimately show ?thesis using at_restD(1) [OF less.prems(1)] by (intro exI [of _ s]) simp
  next
    case True
    then have k: "16 * Suc k \<le> ?sz" using less.prems(3) by auto
    obtain s1 where 1: "readi s dp False 0 (\<lambda>_. 0) (of_nat (16 * k)) 16 = Some (16, dir_entry s dp k, s1)"
        "evolves {} s [] s1" "log_inv s1 {}"
      using read_entry [OF less.prems(1,2) k] by blast
    note f = evolves_fs [OF 1(2)] evolves_file [OF 1(2)]
    have e: "dir_entry s1 = dir_entry s" by (simp add: dir_entry_def f fun_eq_iff)
    have de: "dir_entry s1 = dir_entry s" "dir_match s1 = dir_match s"
      by (simp_all add: dir_match_def e fun_eq_iff)
    have lt': "of_nat (16 * k) < i_size (itable s dp)" using True o by (simp add: word_less_nat_alt)
    show ?thesis
    proof (cases "dir_match s dp name k")
      case match: True
      have "k < ?sz div 16" using k by auto
      then have "scan (dir_match s dp name) 0 (?sz div 16) = Some k"
        using match less.prems(5) by (intro scan_SomeI) auto
      moreover have "dirlookup_loop s dp name (of_nat (16 * k)) =
          map_option (\<lambda>(ip, t). (Some (ip, of_nat (16 * k)), t)) (iget s1 (log_dev s) (ucast (de_inum (dir_entry s dp k))))"
        by (subst dirlookup_loop.simps)
          (use lt' 1(1) match dev f in \<open>cases "iget s1 (log_dev s) (ucast (de_inum (dir_entry s dp k)))"; auto simp: dir_match_def ensure_def\<close>)
      ultimately show ?thesis using 1(2,3) by (intro exI [of _ s1]) simp
    next
      case no: False
      have step: "dirlookup_loop s dp name (of_nat (16 * k)) = dirlookup_loop s1 dp name (of_nat (16 * Suc k))"
        by (subst dirlookup_loop.simps) (use lt' 1(1) no in \<open>auto simp: dir_match_def ensure_def add.commute\<close>)
      have n: "\<forall>j<Suc k. \<not> dir_match s1 dp name j" using less.prems(5) no de by (auto simp: less_Suc_eq)
      have sm: "unat (i_size (itable s1 dp)) - 16 * Suc k < ?sz - 16 * k" using k f by simp
      have wf1: "wf_file s1 dp" "16 dvd unat (i_size (itable s1 dp))" "16 * Suc k \<le> unat (i_size (itable s1 dp))"
        using less.prems(2,3) k f by simp_all
      obtain s2 where s2: "evolves {} s1 [] s2" "log_inv s2 {}"
        "dirlookup_loop s1 dp name (of_nat (16 * Suc k)) =
          (case scan (dir_match s dp name) 0 (?sz div 16) of
             None \<Rightarrow> Some (None, s2)
           | Some j \<Rightarrow> map_option (\<lambda>(ip, t). (Some (ip, of_nat (16 * j)), t))
                       (iget s2 (log_dev s) (ucast (de_inum (dir_entry s dp j)))))"
        using less.hyps [OF sm at_rest_quiet [OF less.prems(1) 1(2,3)] wf1 n] unfolding de f by blast
      show ?thesis unfolding step using s2 evolves_trans [OF 1(2) s2(1)] by (intro exI [of _ s2]) simp
    qed
  qed
qed

text \<open>C6: looking up a name in a directory.  \<open>dirlookup\<close> finds the first entry in use whose name matches in its
  first \<open>DIRSIZ\<close> characters, reports its offset and takes a reference to the inode it names; without such an
  entry the result is null.  No block and no log entry changes.\<close>

theorem dirlookup_correct:
  assumes "at_rest s" "wf_file s dp" "16 dvd unat (i_size (itable s dp))" "i_type (itable s dp) = T_DIR"
  shows "\<exists>s'. evolves {} s [] s' \<and> log_inv s' {} \<and>
    dirlookup s dp name =
      (case scan (dir_match s dp name) 0 (unat (i_size (itable s dp)) div 16) of
         None \<Rightarrow> Some (None, s')
       | Some j \<Rightarrow> map_option (\<lambda>(ip, t). (Some (ip, of_nat (16 * j)), t))
                   (iget s' (log_dev s) (ucast (de_inum (dir_entry s dp j)))))"
  using dirlookup_loop_ok [OF assms(1-3), of 0 name] assms(4) by (simp add: dirlookup_def ensure_def)


subsection \<open>Concrete files\<close>

definition dir_table_demo :: "nat \<Rightarrow> inode" where
  "dir_table_demo i = (itable_demo i)\<lparr>i_type := T_DIR, i_size := 64\<rparr>"

lemma fs_demo_rest: "at_rest (fs_demo T ())"
  using in_transD [OF fs_demo_trans [of 0 T "()"]] by (simp add: at_rest_def NBUF_def)

lemma fs_demo_data: "n \<in> {50, 51} \<Longrightarrow> data_ok (fs_demo T ()) n"
  using fs_demo_used [of 50 T "()"] fs_demo_used [of 51 T "()"]
  by (auto simp: data_ok_def sb_demo_def data_start_def BPB_def BSIZE_def)

lemma demo_blk:
  assumes "\<And>i. i_addrs (T 0) i = (if i = 0 then 50 else if i = 1 then 51 else 0)"
  shows "blk (fs_demo T ()) 0 bn = (if bn = 0 then 50 else if bn = 1 then 51 else 0)"
  using assms by (simp add: blk_def NDIRECT_def)

lemma fs_demo_wf: "wf_file (fs_demo itable_demo ()) 0" "wf_file (fs_demo dir_table_demo ()) 0"
proof -
  have "bn * BSIZE < 1500 \<Longrightarrow> bn = 0 \<or> bn = 1" for bn by (simp add: BSIZE_def) linarith
  then show "wf_file (fs_demo itable_demo ()) 0"
    using fs_demo_data [of _ itable_demo] demo_blk [of itable_demo]
    by (auto simp: wf_file_def itable_demo_def NDIRECT_def BSIZE_def MAXFILE_def)
  have "bn * BSIZE < 64 \<Longrightarrow> bn = 0" for bn by (simp add: BSIZE_def)
  then show "wf_file (fs_demo dir_table_demo ()) 0"
    using fs_demo_data [of _ dir_table_demo] demo_blk [of dir_table_demo]
    by (auto simp: wf_file_def dir_table_demo_def itable_demo_def NDIRECT_def BSIZE_def MAXFILE_def)
qed

theorem readi_correct_witness:
  "\<exists>r kb' s'. readi (fs_demo itable_demo ()) 0 False 0 (\<lambda>_. 1) 1400 200 = Some (r, kb', s') \<and> r = 100
     \<and> kb' 99 = 0 \<and> kb' 100 = 1"
  using readi_correct [OF fs_demo_rest fs_demo_wf(1), of 0 200 "\<lambda>_. 1" 1400]
  by (auto simp: read_len_def itable_demo_def file_byte_def demo_blk BSIZE_def)

theorem dirlookup_correct_witness:
  "\<exists>ip s'. dirlookup (fs_demo dir_table_demo ()) 0 (\<lambda>_. 7) = Some (Some (ip, 0), s')"
proof -
  let ?s = "fs_demo dir_table_demo ()"
  have fb: "file_byte ?s 0 off = 7" if "off < 64" for off
    using that by (simp add: file_byte_def demo_blk dir_table_demo_def itable_demo_def BSIZE_def)
  have "dir_match ?s 0 (\<lambda>_. 7) 0"
    by (auto simp: dir_match_def dir_entry_def fb de_inum_def de_name_def le16_def namecmp_def DIRSIZ_def strncmp_zero_iff)
  then have sc: "scan (dir_match ?s 0 (\<lambda>_. 7)) 0 (unat (i_size (itable ?s 0)) div 16) = Some 0"
    by (intro scan_SomeI) (simp_all add: dir_table_demo_def)
  obtain s' where s': "evolves {} ?s [] s'" "dirlookup ?s 0 (\<lambda>_. 7) =
      (case scan (dir_match ?s 0 (\<lambda>_. 7)) 0 (unat (i_size (itable ?s 0)) div 16) of
         None \<Rightarrow> Some (None, s')
       | Some j \<Rightarrow> map_option (\<lambda>(ip, t). (Some (ip, of_nat (16 * j)), t))
                   (iget s' (log_dev ?s) (ucast (de_inum (dir_entry ?s 0 j)))))"
    using dirlookup_correct [OF fs_demo_rest fs_demo_wf(2), of "\<lambda>_. 7"] by (auto simp: dir_table_demo_def T_DIR_def)
  have "itable s' = dir_table_demo" using evolves_fs(2) [OF s'(1)] by simp
  then have "i_ref (itable s' 1) = 0" by (simp add: dir_table_demo_def itable_demo_def)
  then have "scan (\<lambda>ip. i_ref (itable s' ip) = 0) 0 NINODE \<noteq> None"
    unfolding scan_None_iff by (auto simp: NINODE_def intro!: exI [of _ 1])
  then have "iget s' d n \<noteq> None" for d n by (auto simp: iget_def split: option.split)
  then show ?thesis using s'(2) unfolding sc by auto
qed

end
