(* ===== verification/Filewrite.thy ===== *)
theory Filewrite
  imports Filedata
begin

text \<open>
  Writing inside a file: \<open>writei\<close> of \<^verbatim>\<open>kernel/fs.c\<close> on a range of bytes that the file has already, block by block, in the
  transaction of the caller.  What \<open>readi\<close> reads afterwards is what was written.
\<close>

subsection \<open>Files whose blocks are distinct\<close>

definition in_file :: "'a fs_scheme \<Rightarrow> nat \<Rightarrow> nat \<Rightarrow> bool" where
  "in_file s ip bn \<longleftrightarrow> bn * BSIZE < unat (i_size (itable s ip))"

definition blocks_apart :: "'a fs_scheme \<Rightarrow> nat \<Rightarrow> bool" where
  "blocks_apart s ip \<longleftrightarrow> (\<forall>b c. in_file s ip b \<and> in_file s ip c \<and> blk s ip b = blk s ip c \<longrightarrow> b = c)
     \<and> (NDIRECT * BSIZE < unat (i_size (itable s ip)) \<longrightarrow> (\<forall>b. in_file s ip b \<longrightarrow> blk s ip b \<noteq> i_addrs (itable s ip) NDIRECT))"

lemma in_file_off: "off < unat (i_size (itable s ip)) \<Longrightarrow> in_file s ip (off div BSIZE)"
  unfolding in_file_def using div_times_less_eq_dividend [of off BSIZE] by linarith

lemma in_file_indirect: "in_file s ip b \<Longrightarrow> \<not> b < NDIRECT \<Longrightarrow> NDIRECT * BSIZE < unat (i_size (itable s ip))"
  unfolding in_file_def by (meson le_less_trans mult_le_mono1 not_less)

lemma wf_file_data: "wf_file s ip \<Longrightarrow> in_file s ip b \<Longrightarrow> data_ok s (blk s ip b)"
  by (simp add: wf_file_def in_file_def)

text \<open>A write to one block that is neither a bitmap block nor the indirect block of the file keeps the shape of the file.\<close>

lemma write_shape:
  assumes m: "mounted s" and ok: "log_ok s" and wf: "wf_file s ip" and ev: "evolves {} s [(n, x)] s'"
    and n: "unat n < unat (sb_bmapstart (sb s)) \<or> data_start (sb s) \<le> unat n"
    and ind: "NDIRECT * BSIZE < unat (i_size (itable s ip)) \<longrightarrow> n \<noteq> i_addrs (itable s ip) NDIRECT"
  shows "in_file s' ip b = in_file s ip b" "in_file s ip b \<Longrightarrow> blk s' ip b = blk s ip b" "wf_file s' ip" "mounted s'"
    "blocks_apart s ip \<Longrightarrow> blocks_apart s' ip" "c < unat (sb_size (sb s)) \<Longrightarrow> used s' c = used s c"
proof -
  note f = evolves_fs [OF ev] evolvesD [OF ev]
  have v: "cview s' (log_dev s) k = (if k = n then x else cview s (log_dev s) k)" for k using f by simp
  note mw = meta_write_mounted [OF m ok ev n]
  show i: "in_file s' ip b = in_file s ip b" for b by (simp add: in_file_def f)
  show bl: "blk s' ip b = blk s ip b" if "in_file s ip b" for b
    using ind in_file_indirect [OF that] v by (auto simp: blk_def f(2) f(3))
  have d: "data_ok s' k = data_ok s k" for k using mw(2) by (auto simp: data_ok_def f)
  have "data_ok s' (blk s' ip b)" if "b * BSIZE < unat (i_size (itable s ip))" for b
    using that wf bl by (simp add: d wf_file_def in_file_def)
  then show "wf_file s' ip" using wf by (simp add: wf_file_def f(2) f(3) d)
  show "mounted s'" by (rule mw(1))
  show "c < unat (sb_size (sb s)) \<Longrightarrow> used s' c = used s c" by (rule mw(2))
  show "blocks_apart s' ip" if "blocks_apart s ip"
    using that i bl unfolding blocks_apart_def f by metis
qed

text \<open>What a write to a block of the file does to its bytes.\<close>

lemma write_bytes:
  assumes m: "mounted s" and ok: "log_ok s" and wf: "wf_file s ip" and ap: "blocks_apart s ip" and b: "in_file s ip b"
    and ev: "evolves {} s [(blk s ip b, x)] s'" and i: "i < unat (i_size (itable s ip))"
  shows "file_byte s' ip i = (if i div BSIZE = b then x (i mod BSIZE) else file_byte s ip i)"
proof -
  note f = evolves_fs [OF ev] evolvesD [OF ev]
  have dok: "data_ok s (blk s ip b)" by (rule wf_file_data [OF wf b])
  have "blk s' ip (i div BSIZE) = blk s ip (i div BSIZE)"
    using write_shape(2) [OF m ok wf ev _ _ in_file_off [OF i]] dok ap b by (auto simp: data_ok_def blocks_apart_def)
  moreover have "blk s ip (i div BSIZE) = blk s ip b \<longleftrightarrow> i div BSIZE = b"
    using ap b in_file_off [OF i] unfolding blocks_apart_def by blast
  ultimately show ?thesis using f by (simp add: file_byte_def)
qed

subsection \<open>The loop\<close>

text \<open>The number of blocks that \<open>r\<close> bytes from offset \<open>off\<close> on lie in.\<close>

definition touched :: "nat \<Rightarrow> nat \<Rightarrow> nat" where
  "touched off r = (if r = 0 then 0 else Suc ((off mod BSIZE + r - 1) div BSIZE))"

lemma touched_step:
  assumes "0 < r" "m = min r (BSIZE - off mod BSIZE)"
  shows "Suc (touched (off + m) (r - m)) \<le> touched off r"
proof (cases "r = m")
  case False
  have B: "0 < BSIZE" by (simp add: BSIZE_def)
  have lt: "off mod BSIZE < BSIZE" using B by simp
  have m: "m = BSIZE - off mod BSIZE" "m < r" using False assms(2) by auto
  have "off + m = BSIZE * Suc (off div BSIZE)"
    using m(1) lt mult_div_mod_eq [of BSIZE off] unfolding mult_Suc_right by linarith
  then have "(off + m) mod BSIZE = 0" by simp
  moreover have "off mod BSIZE + r - 1 = (r - m - 1) + BSIZE" using m lt by linarith
  then have "(off mod BSIZE + r - 1) div BSIZE = Suc ((r - m - 1) div BSIZE)" using B by (simp add: div_add_self2)
  ultimately show ?thesis using m(2) by (simp add: touched_def)
qed (use assms in \<open>simp add: touched_def\<close>)

lemma in_trans_mono: "in_trans s L k \<Longrightarrow> j \<le> k \<Longrightarrow> in_trans s L j"
  by (simp add: in_trans_def)

text \<open>The bytes of a file after a write to a part of one block.\<close>

lemma write_part:
  assumes m: "mounted s" "log_ok s" and wf: "wf_file s ip" "blocks_apart s ip" and i: "i < unat (i_size (itable s ip))"
    and off: "off < unat (i_size (itable s ip))" "off mod BSIZE + m \<le> BSIZE"
    and ev: "evolves {} s [(blk s ip (off div BSIZE), copy_into (cview s (log_dev s) (blk s ip (off div BSIZE))) (off mod BSIZE) kb k m)] s'"
  shows "file_byte s' ip i = (if off \<le> i \<and> i < off + m then kb (k + (i - off)) else file_byte s ip i)"
proof (cases "off \<le> i \<and> i < off + m")
  case True
  then obtain j where j: "i = off + j" "j < m" using le_iff_add by auto
  then have "off mod BSIZE + j < BSIZE" using off(2) by linarith
  note sb = same_block [OF this, folded j(1)]
  show ?thesis using True j(2) write_bytes [OF m wf in_file_off [OF off(1)] ev i] unfolding sb by (simp add: copy_into_def j(1))
next
  case False
  have "i mod BSIZE < off mod BSIZE \<or> off mod BSIZE + m \<le> i mod BSIZE" if "i div BSIZE = off div BSIZE"
  proof (rule ccontr)
    assume "\<not> ?thesis"
    moreover have "i = off div BSIZE * BSIZE + i mod BSIZE" "off = off div BSIZE * BSIZE + off mod BSIZE"
      using that div_mult_mod_eq [of i BSIZE] by simp_all
    ultimately have "off \<le> i" "i < off + m" by linarith+
    with False show False by simp
  qed
  then show ?thesis using False write_bytes [OF m wf in_file_off [OF off(1)] ev i] by (auto simp: file_byte_def)
qed

lemma segments:
  fixes off m r a i :: nat
  assumes "m \<le> r"
  shows "(if off + m \<le> i \<and> i < off + m + (r - m) then f (a + m + (i - (off + m))) else if off \<le> i \<and> i < off + m then f (a + (i - off)) else z) =
    (if off \<le> i \<and> i < off + r then f (a + (i - off)) else z)"
proof -
  have "a + m + (i - (off + m)) = a + (i - off)" if "off + m \<le> i" using that by simp
  then show ?thesis using assms by auto
qed

lemma writei_loop_ok:
  assumes "in_trans s {} (touched (unat off) (unat n - unat tot) + k)" "wf_file s ip" "blocks_apart s ip" "tot \<le> n"
    "unat off + (unat n - unat tot) \<le> unat (i_size (itable s ip))" "unat src + (unat n - unat tot) < 2 ^ 64"
  shows "\<exists>W s'. writei_loop s ip False src kb off n tot = Some (n, off + (n - tot), s') \<and> evolves {} s W s' \<and> in_trans s' {} k
    \<and> wf_file s' ip \<and> blocks_apart s' ip
    \<and> (\<forall>i<unat (i_size (itable s ip)). file_byte s' ip i =
         (if unat off \<le> i \<and> i < unat off + (unat n - unat tot) then kb (unat src + (i - unat off)) else file_byte s ip i))"
  using assms
proof (induction "unat n - unat tot" arbitrary: s src off tot rule: less_induct)
  case less
  note t = in_transD [OF less.prems(1)]
  show ?case
  proof (cases "tot < n")
    case False
    then have "tot = n" using less.prems(4) by simp
    then show ?thesis using less.prems by (subst writei_loop.simps) (auto simp: touched_def intro!: exI [of _ "[]"])
  next
    case True
    let ?m = "min (n - tot) (of_nat BSIZE - off mod of_nat BSIZE)" and ?r = "unat n - unat tot"
    note ch = chunk [OF True, of off]
    let ?bn = "off div of_nat BSIZE" and ?b = "unat off div BSIZE"
    have r: "0 < ?r" using True by (simp add: word_less_nat_alt)
    have lt: "unat off < unat (i_size (itable s ip))" using less.prems(5) r by linarith
    then have b: "in_file s ip ?b" by (rule in_file_off)
    have "unat off + ?r < 2 ^ 32" using less.prems(5) unsigned_less [of "i_size (itable s ip)", where 'a = nat] by simp
    note cs = chunk_step [OF True this less.prems(6)]
    have rest: "at_rest s" using t by (simp add: at_rest_def)
    obtain s1 where 1: "bmap s ip ?bn = Some (blk s ip ?b, s1)" "evolves {} s [] s1" "log_inv s1 {}"
      using bmap_found [OF rest less.prems(2), of ?bn] b unfolding ch(3) in_file_def by blast
    note r1 = at_restD [OF at_rest_quiet [OF rest 1(2,3)]]
    note f1 = evolves_fs [OF 1(2)] evolves_used [OF 1(2)] evolves_file [OF 1(2)]
    have dok: "data_ok s (blk s ip ?b)" by (rule wf_file_data [OF less.prems(2) b])
    note da = data_ok_block [OF t(2,5) dok]
    have dev: "i_dev (itable s1 ip) = log_dev s1" using less.prems(2) f1 by (simp add: wf_file_def)
    have od: "on_disk (log_dev s1) (blk s ip ?b)" "\<not> in_log_region s1 (blk s ip ?b)" "1 \<le> log_outstanding s1"
      using da(1,2) t(3) f1 log_onlyD(10) [OF evolvesD(1) [OF 1(2)]] by simp_all
    obtain bp s2 where 2: "bread s1 (log_dev s1) (blk s ip ?b) = Some (Some bp, s2)" "bdata s2 bp = cview s1 (log_dev s1) (blk s ip ?b)"
      "\<And>x. \<exists>s3 s4. log_write (set_data s2 bp x) bp = Some s3 \<and> brelse s3 bp = Some s4 \<and> evolves {} s1 [(blk s ip ?b, x)] s4 \<and> log_inv s4 {}"
      by (rule poke [OF r1(1) od(1) r1(5) od(2,3) r1(3)]) blast
    let ?x = "copy_into (cview s (log_dev s) (blk s ip ?b)) (unat off mod BSIZE) kb (unat src) (unat ?m)"
    obtain s3 s4 where 3: "log_write (set_data s2 bp ?x) bp = Some s3" "brelse s3 bp = Some s4" "evolves {} s1 [(blk s ip ?b, ?x)] s4" "log_inv s4 {}"
      using 2(3) by blast
    have ev: "evolves {} s [(blk s ip ?b, ?x)] s4" using evolves_trans [OF 1(2) 3(3)] by simp
    note f4 = evolves_fs [OF ev]
    have d2: "bdata s2 bp = cview s (log_dev s) (blk s ip ?b)" using 2(2) f1 by simp
    have step: "writei_loop s ip False src kb off n tot = writei_loop s4 ip False (src + ucast ?m) kb (off + ?m) n (tot + ?m)"
      by (subst writei_loop.simps) (use True 1(1) da(3) dev 2(1) d2 3(1,2) cs(3) in \<open>simp add: either_copyin_def Let_def\<close>)
    have n4: "unat (blk s ip ?b) < unat (sb_bmapstart (sb s)) \<or> data_start (sb s) \<le> unat (blk s ip ?b)" using dok by (simp add: data_ok_def)
    have i4: "NDIRECT * BSIZE < unat (i_size (itable s ip)) \<longrightarrow> blk s ip ?b \<noteq> i_addrs (itable s ip) NDIRECT"
      using less.prems(3) b by (simp add: blocks_apart_def)
    note sh = write_shape [OF t(2,5) less.prems(2) ev n4 i4]
    have "1 + (touched (unat (off + ?m)) (unat n - unat (tot + ?m)) + k) \<le> touched (unat off) ?r + k"
      using touched_step [OF r, of "unat ?m" "unat off"] ch(1) unfolding cs(1,4) by simp
    from in_trans_mono [OF less.prems(1) this]
    have tr: "in_trans s4 {} (touched (unat (off + ?m)) (unat n - unat (tot + ?m)) + k)"
      using in_trans_evolves [of s "{}" "[(blk s ip ?b, ?x)]", OF _ ev 3(4) sh(4)] sh(6) by simp
    have smaller: "unat n - unat (tot + ?m) < ?r" unfolding cs(4) by (rule cs(6))
    have le: "unat (off + ?m) + (unat n - unat (tot + ?m)) \<le> unat (i_size (itable s4 ip))"
      "unat (src + ucast ?m) + (unat n - unat (tot + ?m)) < 2 ^ 64"
      unfolding cs(1,2,4) f4 using less.prems(5,6) cs(7) by linarith+
    obtain W s' where s': "writei_loop s4 ip False (src + ucast ?m) kb (off + ?m) n (tot + ?m) = Some (n, off + ?m + (n - (tot + ?m)), s')"
      "evolves {} s4 W s'" "in_trans s' {} k" "wf_file s' ip" "blocks_apart s' ip"
      "\<forall>i<unat (i_size (itable s ip)). file_byte s' ip i =
         (if unat off + unat ?m \<le> i \<and> i < unat off + unat ?m + (?r - unat ?m) then kb (unat src + unat ?m + (i - (unat off + unat ?m))) else file_byte s4 ip i)"
      using less.hyps [OF smaller tr sh(3) sh(5) [OF less.prems(3)] cs(5) le, unfolded cs(4), unfolded cs(1,2) f4] by blast
    have "file_byte s' ip i = (if unat off \<le> i \<and> i < unat off + ?r then kb (unat src + (i - unat off)) else file_byte s ip i)"
      if i: "i < unat (i_size (itable s ip))" for i
    proof -
      have "unat off mod BSIZE + unat ?m \<le> BSIZE" using cs(8) mod_less_divisor [of BSIZE "unat off"] by (simp add: BSIZE_def)
      note part = write_part [OF t(2,5) less.prems(2,3) i lt this ev]
      show ?thesis unfolding s'(6) [rule_format, OF i] part by (rule segments [OF cs(7)])
    qed
    moreover have "off + ?m + (n - (tot + ?m)) = off + (n - tot)" by simp
    ultimately show ?thesis using step s'(1,3-5) evolves_trans [OF ev s'(2)] by auto
  qed
qed

text \<open>Writing the inode back does not touch the blocks of the file.\<close>

lemma iupdate_keeps_file:
  assumes tr: "in_trans s {} 1" and wf: "wf_file s ip" "blocks_apart s ip" and n: "unat (i_inum (itable s ip)) < unat (sb_ninodes (sb s))"
  shows "\<exists>W s'. iupdate s ip = Some s' \<and> evolves {} s W s' \<and> in_trans s' {} 0 \<and> wf_file s' ip \<and> blocks_apart s' ip
    \<and> (\<forall>i<unat (i_size (itable s ip)). file_byte s' ip i = file_byte s ip i)"
proof -
  note t = in_transD [OF tr]
  let ?n = "IBLOCK (i_inum (itable s ip)) (sb s)"
  have dev: "i_dev (itable s ip) = log_dev s" using wf(1) by (simp add: wf_file_def)
  obtain x s' where 1: "iupdate s ip = Some s'" "log_inv s' {}" "evolves {} s [(?n, x)] s'"
    using iupdate_ok [OF in_trans_mono [OF tr] dev n] by auto
  note ib = inode_block [OF t(2,5) n]
  have ne: "?n \<noteq> k" if "data_ok s k" for k using that ib(4) by (auto simp: data_ok_def)
  have "NDIRECT * BSIZE < unat (i_size (itable s ip)) \<longrightarrow> ?n \<noteq> i_addrs (itable s ip) NDIRECT"
    using ne wf(1) by (auto simp: wf_file_def)
  note sh = write_shape [OF t(2,5) wf(1) 1(3) disjI1 [OF ib(3)] this]
  have "file_byte s' ip i = file_byte s ip i" if "i < unat (i_size (itable s ip))" for i
    using sh(2) [OF in_file_off [OF that]] ne [OF wf_file_data [OF wf(1) in_file_off [OF that]]] evolvesD [OF 1(3)]
    by (auto simp: file_byte_def)
  moreover have "in_trans s' {} 0"
    using in_trans_evolves [of s "{}" "[(?n, x)]", OF _ 1(3,2) sh(4)] sh(6) tr by simp
  ultimately show ?thesis using 1(1,3) sh(3) sh(5) [OF wf(2)] by blast
qed

text \<open>C5: what is written to a file is read back.  In a transaction with room for the blocks involved, \<open>writei\<close> of a range
  inside a file without holes, whose blocks are distinct, writes all of it: afterwards the bytes of the file in the range are the
  bytes of the source, all other bytes and the size are as before, and nothing has reached the disk yet.  A \<open>readi\<close> of the
  range returns the bytes that were written.\<close>

theorem writei_readi_roundtrip:
  assumes "in_trans s {} (touched (unat off) (unat n) + 1)" "wf_file s ip" "blocks_apart s ip"
    and "unat (i_inum (itable s ip)) < unat (sb_ninodes (sb s))" "unat off + unat n \<le> unat (i_size (itable s ip))"
    and "unat src + unat n < 2 ^ 64" "unat dst + unat n < 2 ^ 64"
  shows "\<exists>s' kb' s''. writei s ip False src kb off n = Some (int (unat n), s') \<and> in_trans s' {} 0 \<and> wf_file s' ip
    \<and> itable s' = itable s \<and> disk s' = disk s
    \<and> (\<forall>i<unat (i_size (itable s ip)). file_byte s' ip i =
         (if unat off \<le> i \<and> i < unat off + unat n then kb (unat src + (i - unat off)) else file_byte s ip i))
    \<and> readi s' ip False dst kb0 off n = Some (int (unat n), kb', s'') \<and> (\<forall>j<unat n. kb' (unat dst + j) = kb (unat src + j))"
proof -
  let ?z = "i_size (itable s ip)"
  have z: "unat ?z \<le> MAXFILE * BSIZE" "MAXFILE * BSIZE < 2 ^ 31"
    using assms(2) by (simp_all add: wf_file_def MAXFILE_def NDIRECT_def NINDIRECT_def BSIZE_def)
  have o: "unat (off + n) = unat off + unat n" using assms(5) z by (simp add: unat_word_ariths)
  obtain W s1 where 1: "writei_loop s ip False src kb off n 0 = Some (n, off + n, s1)" "evolves {} s W s1" "in_trans s1 {} 1"
    "wf_file s1 ip" "blocks_apart s1 ip" "\<forall>i<unat ?z. file_byte s1 ip i =
         (if unat off \<le> i \<and> i < unat off + unat n then kb (unat src + (i - unat off)) else file_byte s ip i)"
    using writei_loop_ok [of s off n 0 1 ip src kb] assms(1-3,5,6) by auto
  note f1 = evolves_fs [OF 1(2)]
  obtain V s2 where 2: "iupdate s1 ip = Some s2" "evolves {} s1 V s2" "in_trans s2 {} 0" "wf_file s2 ip"
    "\<forall>i<unat ?z. file_byte s2 ip i = file_byte s1 ip i"
    using iupdate_keeps_file [OF 1(3-5)] assms(4) unfolding f1 by auto
  note f2 = evolves_fs [OF 2(2)]
  have "\<not> off > ?z" "\<not> off + n < off" "\<not> off + n > of_nat (MAXFILE * BSIZE)" "\<not> off + n > ?z"
    using assms(5) o z unat_of_nat_small [of "MAXFILE * BSIZE", where 'a = 32] by (simp_all add: word_less_nat_alt)
  moreover have "sint n = int (unat n)" using assms(5) z by (intro sint_small) linarith
  ultimately have w: "writei s ip False src kb off n = Some (int (unat n), s2)"
    using 1(1) 2(1) f1 by (simp add: writei_def Let_def)
  have rest: "at_rest s2" using in_transD [OF 2(3)] by (simp add: at_rest_def)
  have l: "read_len (i_size (itable s2 ip)) off n = unat n"
    using assms(5) o unfolding f2 f1 by (auto simp: read_len_def word_less_nat_alt)
  obtain s3 where 3: "readi s2 ip False dst kb0 off n = Some (int (unat n), (\<lambda>i. if unat dst \<le> i \<and> i < unat dst + unat n
      then file_byte s2 ip (unat off + (i - unat dst)) else kb0 i), s3)"
    using readi_ok [OF rest 2(4) assms(7), of kb0 off] unfolding l by blast
  have "file_byte s2 ip (unat off + j) = kb (unat src + j)" if "j < unat n" for j
    using that assms(5) 1(6) 2(5) by simp
  moreover have "disk s2 = disk s" using 1(2) 2(2) by (simp add: evolves_def)
  ultimately show ?thesis using w 2(3,4,5) 1(6) 3 f1 f2 by (intro exI [of _ s2] exI conjI) (assumption | simp)+
qed

theorem writei_readi_roundtrip_witness:
  "\<exists>s' kb' s''. writei (fs_demo itable_demo ()) 0 False 0 (\<lambda>i. of_nat i) 900 200 = Some (200, s')
     \<and> readi s' 0 False 0 (\<lambda>_. 1) 900 200 = Some (200, kb', s'') \<and> kb' 150 = 150"
proof -
  let ?s = "fs_demo itable_demo ()"
  have tr: "in_trans ?s {} (touched (unat (900 :: u32)) (unat (200 :: u32)) + 1)"
    by (rule fs_demo_trans) (simp add: touched_def BSIZE_def)
  have "in_file ?s 0 b \<Longrightarrow> b = 0 \<or> b = 1" for b by (simp add: in_file_def itable_demo_def BSIZE_def) linarith
  then have "blocks_apart ?s 0"
    using demo_blk [of itable_demo] by (auto simp: blocks_apart_def itable_demo_def NDIRECT_def BSIZE_def)
  with writei_readi_roundtrip [OF tr fs_demo_wf(1) this, of 0 0 "\<lambda>i. of_nat i" "\<lambda>_. 1"] show ?thesis
    by (auto simp: itable_demo_def sb_demo_def)
qed

end
