(* ===== verification/Vnode.thy ===== *)
theory Vnode
  imports Filedata
begin

text \<open>
  The data of the virtual file system: \<open>struct vnode\<close>, \<open>struct mount\<close> and the tables of \<^verbatim>\<open>kernel/vfs.c\<close>,
  together with the private data that the three file systems hang off a vnode or a mount
  (\<^verbatim>\<open>kernel/xv6fs.c\<close>, \<^verbatim>\<open>kernel/ext2.c\<close>, \<^verbatim>\<open>kernel/ext2.h\<close>, \<^verbatim>\<open>kernel/fat32.c\<close>).

  A vnode pointer is an index into \<open>vnode_table\<close>, or null.  A structure that the code puts into a page from
  \<open>kalloc\<close> lives in a store of its own type, indexed by the address of the page; address 0 is null.  A
  pointer to one of the operation tables, and a pointer to a mount function, is the name of the file
  system it belongs to.
\<close>

datatype fstype = XV6FS | EXT2 | FAT32

definition V_FILE :: u32 where
  "V_FILE = 1"

definition V_DIR :: u32 where
  "V_DIR = 2"

definition V_DEV :: u32 where
  "V_DEV = 3"

definition NMOUNT :: nat where
  "NMOUNT = 8"

definition NVNODE :: nat where
  "NVNODE = 200"

definition VDIRSIZ :: nat where
  "VDIRSIZ = 256"

record vnode =
  v_type :: u32
  v_dev :: u32
  v_major :: int
  v_minor :: int
  v_ops :: "fstype option"
  v_mp :: u64
  v_ref :: int
  v_lock :: sleeplock
  v_inum :: u32
  v_ikey :: u32
  v_size :: u32
  v_priv :: u64

record mount =
  mt_valid :: bool
  mt_ops :: "fstype option"
  mt_root :: "nat option"
  mt_mountpoint :: "nat option"
  mt_dev :: u32
  mt_path :: buffer
  mt_priv :: u64

subsection \<open>Private data of the file systems\<close>

text \<open>The on-disk inode of ext2.\<close>

record ext2_inode_disk =
  i_mode :: u16
  i_uid :: u16
  e_size :: u32
  i_atime :: u32
  i_ctime :: u32
  i_mtime :: u32
  i_dtime :: u32
  i_gid :: u16
  i_links_count :: u16
  i_blocks :: u32
  i_flags :: u32
  i_osd1 :: u32
  i_block :: "nat \<Rightarrow> u32"
  i_generation :: u32
  i_file_acl :: u32
  i_dir_acl :: u32
  i_faddr :: u32
  i_osd2 :: buffer

record ext2_bgdesc =
  bg_block_bitmap :: u32
  bg_inode_bitmap :: u32
  bg_inode_table :: u32
  bg_free_blocks_count :: u16
  bg_free_inodes_count :: u16
  bg_used_dirs_count :: u16
  bg_pad :: u16
  bg_reserved :: buffer

text \<open>The super block of ext2 stays the 1024 bytes it is on disk: the code copies it as a whole and works on
  the few fields below.\<close>

definition s_inodes_count :: "buffer \<Rightarrow> u32" where
  "s_inodes_count b = le32 b 0"

definition s_blocks_count :: "buffer \<Rightarrow> u32" where
  "s_blocks_count b = le32 b 4"

definition s_free_blocks_count :: "buffer \<Rightarrow> u32" where
  "s_free_blocks_count b = le32 b 12"

definition s_free_inodes_count :: "buffer \<Rightarrow> u32" where
  "s_free_inodes_count b = le32 b 16"

definition s_log_block_size :: "buffer \<Rightarrow> u32" where
  "s_log_block_size b = le32 b 24"

definition s_magic :: "buffer \<Rightarrow> u16" where
  "s_magic b = le16 b 56"

definition s_inode_size :: "buffer \<Rightarrow> u16" where
  "s_inode_size b = le16 b 88"

record ext2_mount_priv =
  em_sb :: buffer
  em_bg :: ext2_bgdesc
  em_dev :: u32
  em_inode_size :: u32
  em_lock :: sleeplock
  em_mnt :: u64

record ext2_vnode_priv =
  ev_ino :: ext2_inode_disk
  ev_mp :: u64
  ev_inum :: u32
  ev_dirty :: bool
  ev_orphaned :: bool

record fat32_mount =
  fm_dev :: u32
  fm_sec_per_clus :: byte
  fm_rsvd_sec_cnt :: u32
  fm_num_fats :: byte
  fm_fat_sz :: u32
  fm_first_data_sec :: u32
  fm_root_clus :: u32
  fm_tot_clus :: u32
  fm_free_count :: u32
  fm_bps :: u16
  fm_spb :: u32
  fm_lock :: sleeplock
  fm_vfs_mount :: u64

record fat32_vnode =
  fv_fm :: u64
  fv_first_clus :: u32
  fv_file_size :: u32
  fv_attrs :: byte
  fv_dirty :: bool
  fv_pdir_clus :: u32
  fv_dent_off :: u32

subsection \<open>The state\<close>

record vfs = fs +
  ticks :: u32
  p_cwd :: "nat option"
  vnode_table :: "nat \<Rightarrow> vnode"
  mounttable :: "nat \<Rightarrow> u64"
  nmount :: nat
  fstypes :: "nat \<Rightarrow> fstype \<times> buffer"
  nfstype :: nat
  mounts :: "u64 \<Rightarrow> mount"
  xv6fs_privs :: "u64 \<Rightarrow> nat option"
  ext2_mounts :: "u64 \<Rightarrow> ext2_mount_priv"
  ext2_privs :: "u64 \<Rightarrow> ext2_vnode_priv"
  fat32_mounts :: "u64 \<Rightarrow> fat32_mount"
  fat32_privs :: "u64 \<Rightarrow> fat32_vnode"

definition upd_vnode :: "nat \<Rightarrow> (vnode \<Rightarrow> vnode) \<Rightarrow> 'a vfs_scheme \<Rightarrow> 'a vfs_scheme" where
  "upd_vnode v f s = s\<lparr>vnode_table := upd v f (vnode_table s)\<rparr>"

definition upd_mount :: "u64 \<Rightarrow> (mount \<Rightarrow> mount) \<Rightarrow> 'a vfs_scheme \<Rightarrow> 'a vfs_scheme" where
  "upd_mount a f s = s\<lparr>mounts := upd a f (mounts s)\<rparr>"

definition upd_em :: "u64 \<Rightarrow> (ext2_mount_priv \<Rightarrow> ext2_mount_priv) \<Rightarrow> 'a vfs_scheme \<Rightarrow> 'a vfs_scheme" where
  "upd_em a f s = s\<lparr>ext2_mounts := upd a f (ext2_mounts s)\<rparr>"

definition upd_ev :: "u64 \<Rightarrow> (ext2_vnode_priv \<Rightarrow> ext2_vnode_priv) \<Rightarrow> 'a vfs_scheme \<Rightarrow> 'a vfs_scheme" where
  "upd_ev a f s = s\<lparr>ext2_privs := upd a f (ext2_privs s)\<rparr>"

definition upd_fm :: "u64 \<Rightarrow> (fat32_mount \<Rightarrow> fat32_mount) \<Rightarrow> 'a vfs_scheme \<Rightarrow> 'a vfs_scheme" where
  "upd_fm a f s = s\<lparr>fat32_mounts := upd a f (fat32_mounts s)\<rparr>"

definition upd_fv :: "u64 \<Rightarrow> (fat32_vnode \<Rightarrow> fat32_vnode) \<Rightarrow> 'a vfs_scheme \<Rightarrow> 'a vfs_scheme" where
  "upd_fv a f s = s\<lparr>fat32_privs := upd a f (fat32_privs s)\<rparr>"

abbreviation vn :: "'a vfs_scheme \<Rightarrow> nat \<Rightarrow> vnode" where
  "vn s v \<equiv> vnode_table s v"

subsection \<open>What user programs receive\<close>

text \<open>\<open>struct stat\<close> and \<open>struct vdirent\<close> are filled in on the kernel stack and copied out whole; \<open>junk\<close> is what
  the stack held before: the padding of \<open>struct stat\<close> and the end of the name are never written.\<close>

definition put_stat :: "buffer \<Rightarrow> stat \<Rightarrow> buffer" where
  "put_stat junk st =
     (let b = put32 junk 0 (st_dev st);
          b = put32 b 4 (st_ino st);
          b = put16 b 8 (st_type st);
          b = put16 b 10 (st_nlink st);
          b = put32 b 16 (ucast (st_size st))
      in put32 b 20 (ucast (drop_bit 32 (st_size st))))"

definition SIZEOF_STAT :: u64 where
  "SIZEOF_STAT = 24"

definition put_vdirent :: "buffer \<Rightarrow> u16 \<Rightarrow> buffer \<Rightarrow> nat \<Rightarrow> buffer" where
  "put_vdirent junk inum name n = (copy_into (put16 junk 0 inum) 2 name 0 n)(2 + n := 0)"

definition SIZEOF_VDIRENT :: u64 where
  "SIZEOF_VDIRENT = 258"

end
