(* ===== verification/Ext2_Core.thy ===== *)
theory Ext2_Core
  imports Vnode
begin

text \<open>
  The lower half of \<^verbatim>\<open>kernel/ext2.c\<close>: inodes on disk, the block and inode bitmaps, the map from file blocks to
  disk blocks, truncation, and the release of a vnode's private data.  A \<open>struct ext2_mount_priv\<close> is named by
  its address \<open>mp\<close>, a \<open>struct ext2_vnode_priv\<close> by its address \<open>priv\<close>.  Division by zero and writes outside
  the data of a buffer have no defined result in C and are operations that do not return here.
\<close>

definition EXT2_NDIRECT :: nat where
  "EXT2_NDIRECT = 12"

definition EXT2_NINDIRECT :: nat where
  "EXT2_NINDIRECT = BSIZE div 4"

subsection \<open>On-disk structures\<close>

definition get_bgdesc :: "buffer \<Rightarrow> ext2_bgdesc" where
  "get_bgdesc d = \<lparr>bg_block_bitmap = le32 d 0, bg_inode_bitmap = le32 d 4, bg_inode_table = le32 d 8,
     bg_free_blocks_count = le16 d 12, bg_free_inodes_count = le16 d 14, bg_used_dirs_count = le16 d 16,
     bg_pad = le16 d 18, bg_reserved = (\<lambda>i. d (20 + i))\<rparr>"

definition get_ext2_inode :: "buffer \<Rightarrow> nat \<Rightarrow> ext2_inode_disk" where
  "get_ext2_inode d k = \<lparr>i_mode = le16 d k, i_uid = le16 d (k + 2), e_size = le32 d (k + 4),
     i_atime = le32 d (k + 8), i_ctime = le32 d (k + 12), i_mtime = le32 d (k + 16), i_dtime = le32 d (k + 20),
     i_gid = le16 d (k + 24), i_links_count = le16 d (k + 26), i_blocks = le32 d (k + 28),
     i_flags = le32 d (k + 32), i_osd1 = le32 d (k + 36), i_block = (\<lambda>i. if i < 15 then le32 d (k + 40 + 4 * i) else 0),
     i_generation = le32 d (k + 100), i_file_acl = le32 d (k + 104), i_dir_acl = le32 d (k + 108),
     i_faddr = le32 d (k + 112), i_osd2 = (\<lambda>i. if i < 12 then d (k + 116 + i) else 0)\<rparr>"

fun put_words :: "buffer \<Rightarrow> nat \<Rightarrow> (nat \<Rightarrow> u32) \<Rightarrow> nat \<Rightarrow> buffer" where
  "put_words d k a 0 = d"
| "put_words d k a (Suc i) = put32 (put_words d k a i) (k + 4 * i) (a i)"

definition put_ext2_inode :: "buffer \<Rightarrow> nat \<Rightarrow> ext2_inode_disk \<Rightarrow> buffer" where
  "put_ext2_inode d k ino =
     (let d = put16 d k (i_mode ino);
          d = put16 d (k + 2) (i_uid ino);
          d = put32 d (k + 4) (e_size ino);
          d = put32 d (k + 8) (i_atime ino);
          d = put32 d (k + 12) (i_ctime ino);
          d = put32 d (k + 16) (i_mtime ino);
          d = put32 d (k + 20) (i_dtime ino);
          d = put16 d (k + 24) (i_gid ino);
          d = put16 d (k + 26) (i_links_count ino);
          d = put32 d (k + 28) (i_blocks ino);
          d = put32 d (k + 32) (i_flags ino);
          d = put32 d (k + 36) (i_osd1 ino);
          d = put_words d (k + 40) (i_block ino) 15;
          d = put32 d (k + 100) (i_generation ino);
          d = put32 d (k + 104) (i_file_acl ino);
          d = put32 d (k + 108) (i_dir_acl ino);
          d = put32 d (k + 112) (i_faddr ino)
      in copy_into d (k + 116) (i_osd2 ino) 0 12)"

definition zero_ext2_inode :: ext2_inode_disk where
  "zero_ext2_inode = get_ext2_inode (\<lambda>_. 0) 0"

subsection \<open>Inodes on disk\<close>

definition ino_block :: "ext2_mount_priv \<Rightarrow> u32 \<Rightarrow> u32 option" where
  "ino_block m inum = do {
     ensure (em_inode_size m \<noteq> 0 \<and> em_inode_size m \<le> of_nat BSIZE) ''division by zero'';
     Some (bg_inode_table (em_bg m) + (inum - 1) div (of_nat BSIZE div em_inode_size m))
   }"

definition ino_offset :: "ext2_mount_priv \<Rightarrow> u32 \<Rightarrow> u32 option" where
  "ino_offset m inum = do {
     ensure (em_inode_size m \<noteq> 0 \<and> em_inode_size m \<le> of_nat BSIZE) ''division by zero'';
     Some ((inum - 1) mod (of_nat BSIZE div em_inode_size m) * em_inode_size m)
   }"

text \<open>\<open>read_inode\<close> returns the inode read, or \<^const>\<open>None\<close> for \<open>-1\<close>.\<close>

definition read_inode :: "'a vfs_scheme \<Rightarrow> u64 \<Rightarrow> u32 \<Rightarrow> (ext2_inode_disk option \<times> 'a vfs_scheme) option" where
  "read_inode s mp inum = do {
     let m = ext2_mounts s mp;
     blk \<leftarrow> ino_block m inum;
     (bo, s) \<leftarrow> bread s (em_dev m) blk;
     (case bo of
        None \<Rightarrow> Some (None, s)
      | Some bp \<Rightarrow> do {
          o' \<leftarrow> ino_offset m inum;
          let ino = get_ext2_inode (bdata s bp) (unat o');
          s \<leftarrow> brelse s bp;
          Some (Some ino, s)
        })
   }"

definition write_inode :: "'a vfs_scheme \<Rightarrow> u64 \<Rightarrow> u32 \<Rightarrow> ext2_inode_disk \<Rightarrow> (int \<times> 'a vfs_scheme) option" where
  "write_inode s mp inum ino = do {
     let m = ext2_mounts s mp;
     blk \<leftarrow> ino_block m inum;
     (bo, s) \<leftarrow> bread s (em_dev m) blk;
     (case bo of
        None \<Rightarrow> Some (-1, s)
      | Some bp \<Rightarrow> do {
          o' \<leftarrow> ino_offset m inum;
          ensure (unat o' + 128 \<le> BSIZE) ''outside the block'';
          s \<leftarrow> bwrite (set_data s bp (put_ext2_inode (bdata s bp) (unat o') ino)) bp;
          s \<leftarrow> brelse s bp;
          Some (0, s)
        })
   }"

definition ext2_update_time :: "'a vfs_scheme \<Rightarrow> u64 \<Rightarrow> bool \<Rightarrow> bool \<Rightarrow> 'a vfs_scheme" where
  "ext2_update_time s priv acc md =
     (let t = ticks s;
          s = (if acc then upd_ev priv (ev_ino_update (i_atime_update (\<lambda>_. t))) s else s);
          s = (if md then upd_ev priv (ev_ino_update (\<lambda>ino. ino\<lparr>i_mtime := t, i_ctime := t\<rparr>)) s else s)
      in if acc \<or> md then upd_ev priv (ev_dirty_update (\<lambda>_. True)) s else s)"

subsection \<open>Bitmaps\<close>

definition acquire_em :: "'a vfs_scheme \<Rightarrow> u64 \<Rightarrow> 'a vfs_scheme option" where
  "acquire_em s mp = do {
     lk \<leftarrow> acquiresleep (p_pid s) (em_lock (ext2_mounts s mp));
     Some (upd_em mp (em_lock_update (\<lambda>_. lk)) s)
   }"

definition release_em :: "'a vfs_scheme \<Rightarrow> u64 \<Rightarrow> 'a vfs_scheme" where
  "release_em s mp = upd_em mp (em_lock_update releasesleep) s"

definition bitmap_alloc :: "'a vfs_scheme \<Rightarrow> u64 \<Rightarrow> u32 \<Rightarrow> u32 \<Rightarrow> int \<Rightarrow> (int \<times> 'a vfs_scheme) option" where
  "bitmap_alloc s mp bb nbits base = do {
     (bo, s) \<leftarrow> bread s (em_dev (ext2_mounts s mp)) bb;
     (case bo of
        None \<Rightarrow> Some (-1, s)
      | Some bp \<Rightarrow> do {
          s \<leftarrow> acquire_em s mp;
          (case scan (\<lambda>i. bdata s bp (i div 8) AND bit_mask i = 0) 1 (min (unat nbits) (BSIZE * 8)) of
             Some i \<Rightarrow> do {
               s \<leftarrow> bwrite (set_data s bp ((bdata s bp)(i div 8 := bdata s bp (i div 8) OR bit_mask i))) bp;
               let s = release_em s mp;
               s \<leftarrow> brelse s bp;
               Some (int i + base, s)
             }
           | None \<Rightarrow> do {
               let s = release_em s mp;
               s \<leftarrow> brelse s bp;
               Some (-1, s)
             })
        })
   }"

definition bitmap_free :: "'a vfs_scheme \<Rightarrow> u64 \<Rightarrow> u32 \<Rightarrow> u32 \<Rightarrow> int \<Rightarrow> 'a vfs_scheme option" where
  "bitmap_free s mp bb n base = do {
     (bo, s) \<leftarrow> bread s (em_dev (ext2_mounts s mp)) bb;
     (case bo of
        None \<Rightarrow> Some s
      | Some bp \<Rightarrow> do {
          s \<leftarrow> acquire_em s mp;
          let k = unat (n - word_of_int base);
          ensure (k div 8 < BSIZE) ''outside the block'';
          s \<leftarrow> bwrite (set_data s bp ((bdata s bp)(k div 8 := bdata s bp (k div 8) AND NOT (bit_mask k)))) bp;
          let s = release_em s mp;
          brelse s bp
        })
   }"

definition ext2_sb_write :: "'a vfs_scheme \<Rightarrow> u64 \<Rightarrow> 'a vfs_scheme option" where
  "ext2_sb_write s mp = do {
     (bo, s) \<leftarrow> bread s (em_dev (ext2_mounts s mp)) 1;
     (case bo of
        None \<Rightarrow> Some s
      | Some sbp \<Rightarrow> do {
          s \<leftarrow> bwrite (set_data s sbp (copy_into (bdata s sbp) 0 (em_sb (ext2_mounts s mp)) 0 BSIZE)) sbp;
          brelse s sbp
        })
   }"

text \<open>The tail that \<open>ext2_balloc\<close>, \<open>ext2_bfree\<close>, \<open>ext2_ialloc\<close> and \<open>ext2_ifree\<close> share: adjust the free count at
  byte \<open>k\<close> of the super block by \<open>d\<close>, under the lock, and write the super block.\<close>

definition ext2_count :: "'a vfs_scheme \<Rightarrow> u64 \<Rightarrow> nat \<Rightarrow> u32 \<Rightarrow> 'a vfs_scheme option" where
  "ext2_count s mp k d = do {
     s \<leftarrow> acquire_em s mp;
     let s = upd_em mp (em_sb_update (\<lambda>b. put32 b k (le32 b k + d))) s;
     s \<leftarrow> ext2_sb_write s mp;
     Some (release_em s mp)
   }"

definition ext2_balloc :: "'a vfs_scheme \<Rightarrow> u64 \<Rightarrow> (u32 \<times> 'a vfs_scheme) option" where
  "ext2_balloc s mp = do {
     let m = ext2_mounts s mp;
     (b, s) \<leftarrow> bitmap_alloc s mp (bg_block_bitmap (em_bg m)) (s_blocks_count (em_sb m)) 0;
     if b < 0 then Some (0, s)
     else do {
       s \<leftarrow> ext2_count s mp 12 (-1);
       Some (word_of_int b, s)
     }
   }"

definition ext2_bfree :: "'a vfs_scheme \<Rightarrow> u64 \<Rightarrow> u32 \<Rightarrow> 'a vfs_scheme option" where
  "ext2_bfree s mp blockno = do {
     s \<leftarrow> bitmap_free s mp (bg_block_bitmap (em_bg (ext2_mounts s mp))) blockno 0;
     ext2_count s mp 12 1
   }"

definition ext2_ialloc :: "'a vfs_scheme \<Rightarrow> u64 \<Rightarrow> u16 \<Rightarrow> (u32 \<times> 'a vfs_scheme) option" where
  "ext2_ialloc s mp mode = do {
     let m = ext2_mounts s mp;
     (n, s) \<leftarrow> bitmap_alloc s mp (bg_inode_bitmap (em_bg m)) (s_inodes_count (em_sb m)) 1;
     if n < 0 then Some (0, s)
     else do {
       let inum = word_of_int n;
       blk \<leftarrow> ino_block m inum;
       (bo, s) \<leftarrow> bread s (em_dev m) blk;
       (case bo of
          None \<Rightarrow> do {
            s \<leftarrow> bitmap_free s mp (bg_inode_bitmap (em_bg m)) inum 1;
            Some (0, s)
          }
        | Some bp \<Rightarrow> do {
            o' \<leftarrow> ino_offset m inum;
            ensure (unat o' + 128 \<le> BSIZE) ''outside the block'';
            let ino = zero_ext2_inode\<lparr>i_mode := mode, i_atime := ticks s, i_mtime := ticks s, i_ctime := ticks s\<rparr>;
            s \<leftarrow> bwrite (set_data s bp (put_ext2_inode (bdata s bp) (unat o') ino)) bp;
            s \<leftarrow> brelse s bp;
            s \<leftarrow> ext2_count s mp 16 (-1);
            Some (inum, s)
          })
     }
   }"

definition ext2_ifree :: "'a vfs_scheme \<Rightarrow> u64 \<Rightarrow> u32 \<Rightarrow> 'a vfs_scheme option" where
  "ext2_ifree s mp inum = do {
     s \<leftarrow> bitmap_free s mp (bg_inode_bitmap (em_bg (ext2_mounts s mp))) inum 1;
     ext2_count s mp 16 1
   }"

subsection \<open>File blocks\<close>

text \<open>\<open>ext2_bmap\<close> in three parts: a direct block; the indirect block, allocated and zeroed when it is missing;
  and an entry of the indirect block held in \<open>bp\<close>.  Address 0 means that there is no block.\<close>

definition ext2_bmap_direct :: "'a vfs_scheme \<Rightarrow> u64 \<Rightarrow> nat \<Rightarrow> bool \<Rightarrow> (u32 \<times> 'a vfs_scheme) option" where
  "ext2_bmap_direct s priv lbn alloc =
     (if i_block (ev_ino (ext2_privs s priv)) lbn = 0 \<and> alloc then do {
        (b, s) \<leftarrow> ext2_balloc s (ev_mp (ext2_privs s priv));
        let s = upd_ev priv (ev_ino_update (i_block_update (\<lambda>a. a(lbn := b)))) s;
        if b = 0 then Some (0, s)
        else Some (b, upd_ev priv (\<lambda>p. p\<lparr>ev_ino := (ev_ino p)\<lparr>i_blocks := i_blocks (ev_ino p) + 2\<rparr>, ev_dirty := True\<rparr>) s)
      } else Some (i_block (ev_ino (ext2_privs s priv)) lbn, s))"

definition ext2_bmap_indirect :: "'a vfs_scheme \<Rightarrow> u64 \<Rightarrow> bool \<Rightarrow> (u32 \<times> 'a vfs_scheme) option" where
  "ext2_bmap_indirect s priv alloc =
     (if i_block (ev_ino (ext2_privs s priv)) 12 = 0 \<and> alloc then do {
        let mp = ev_mp (ext2_privs s priv);
        (iblk, s) \<leftarrow> ext2_balloc s mp;
        if iblk = 0 then Some (0, s)
        else do {
          let s = upd_ev priv (ev_ino_update (\<lambda>ino. ino\<lparr>i_block := (i_block ino)(12 := iblk), i_blocks := i_blocks ino + 2\<rparr>)) s;
          (bo, s) \<leftarrow> bread s (em_dev (ext2_mounts s mp)) iblk;
          (case bo of
             None \<Rightarrow> do {
               s \<leftarrow> ext2_bfree s mp iblk;
               Some (0, upd_ev priv (ev_ino_update (\<lambda>ino. ino\<lparr>i_block := (i_block ino)(12 := 0), i_blocks := i_blocks ino - 2\<rparr>)) s)
             }
           | Some bp \<Rightarrow> do {
               s \<leftarrow> bwrite (set_data s bp (fill (bdata s bp) 0 0 BSIZE)) bp;
               s \<leftarrow> brelse s bp;
               Some (iblk, upd_ev priv (ev_dirty_update (\<lambda>_. True)) s)
             })
        }
      } else Some (i_block (ev_ino (ext2_privs s priv)) 12, s))"

definition ext2_bmap_entry :: "'a vfs_scheme \<Rightarrow> u64 \<Rightarrow> nat \<Rightarrow> nat \<Rightarrow> bool \<Rightarrow> (u32 \<times> 'a vfs_scheme) option" where
  "ext2_bmap_entry s priv bp lbn alloc =
     (if le32 (bdata s bp) (4 * lbn) = 0 \<and> alloc then do {
        (b, s) \<leftarrow> ext2_balloc s (ev_mp (ext2_privs s priv));
        let s = set_data s bp (put32 (bdata s bp) (4 * lbn) b);
        if b \<noteq> 0 then do {
          let s = upd_ev priv (ev_ino_update (\<lambda>ino. ino\<lparr>i_blocks := i_blocks ino + 2\<rparr>)) s;
          s \<leftarrow> bwrite s bp;
          Some (b, upd_ev priv (ev_dirty_update (\<lambda>_. True)) s)
        } else Some (b, s)
      } else Some (le32 (bdata s bp) (4 * lbn), s))"

definition ext2_bmap :: "'a vfs_scheme \<Rightarrow> u64 \<Rightarrow> u32 \<Rightarrow> bool \<Rightarrow> (u32 \<times> 'a vfs_scheme) option" where
  "ext2_bmap s priv lbn alloc =
     (if unat lbn < EXT2_NDIRECT then ext2_bmap_direct s priv (unat lbn) alloc
      else
        (let lbn = lbn - of_nat EXT2_NDIRECT in
         if unat lbn < EXT2_NINDIRECT then do {
           (iblk, s) \<leftarrow> ext2_bmap_indirect s priv alloc;
           if iblk = 0 then Some (0, s)
           else do {
             (bo, s) \<leftarrow> bread s (em_dev (ext2_mounts s (ev_mp (ext2_privs s priv)))) iblk;
             (case bo of
                None \<Rightarrow> Some (0, s)
              | Some bp \<Rightarrow> do {
                  (ret, s) \<leftarrow> ext2_bmap_entry s priv bp (unat lbn) alloc;
                  s \<leftarrow> brelse s bp;
                  Some (ret, s)
                })
           }
         } else Some (0, s)))"

subsection \<open>Truncation and release\<close>

text \<open>The two loops of \<open>ext2_i_truncate\<close> for \<open>k\<close> more rounds; each stops at the first empty slot.\<close>

fun ext2_trunc_direct :: "'a vfs_scheme \<Rightarrow> u64 \<Rightarrow> nat \<Rightarrow> nat \<Rightarrow> 'a vfs_scheme option" where
  "ext2_trunc_direct s priv lbn 0 = Some s"
| "ext2_trunc_direct s priv lbn (Suc k) =
     (if i_block (ev_ino (ext2_privs s priv)) lbn \<noteq> 0 then do {
        s \<leftarrow> ext2_bfree s (ev_mp (ext2_privs s priv)) (i_block (ev_ino (ext2_privs s priv)) lbn);
        ext2_trunc_direct (upd_ev priv (ev_ino_update (i_block_update (\<lambda>a. a(lbn := 0)))) s) priv (Suc lbn) k
      } else Some s)"

fun ext2_trunc_indirect :: "'a vfs_scheme \<Rightarrow> u64 \<Rightarrow> nat \<Rightarrow> nat \<Rightarrow> nat \<Rightarrow> 'a vfs_scheme option" where
  "ext2_trunc_indirect s mp bp i 0 = Some s"
| "ext2_trunc_indirect s mp bp i (Suc k) =
     (if le32 (bdata s bp) (4 * i) \<noteq> 0 then do {
        s \<leftarrow> ext2_bfree s mp (le32 (bdata s bp) (4 * i));
        ext2_trunc_indirect (set_data s bp (put32 (bdata s bp) (4 * i) 0)) mp bp (Suc i) k
      } else Some s)"

definition ext2_i_truncate :: "'a vfs_scheme \<Rightarrow> u64 \<Rightarrow> 'a vfs_scheme option" where
  "ext2_i_truncate s priv = do {
     s \<leftarrow> ext2_trunc_direct s priv 0 EXT2_NDIRECT;
     let mp = ev_mp (ext2_privs s priv);
     let iblk = i_block (ev_ino (ext2_privs s priv)) 12;
     s \<leftarrow> (if iblk \<noteq> 0 then do {
            (bo, s) \<leftarrow> bread s (em_dev (ext2_mounts s mp)) iblk;
            s \<leftarrow> (case bo of
                   None \<Rightarrow> Some s
                 | Some bp \<Rightarrow> do {
                     s \<leftarrow> ext2_trunc_indirect s mp bp 0 EXT2_NINDIRECT;
                     s \<leftarrow> bwrite s bp;
                     brelse s bp
                   });
            s \<leftarrow> ext2_bfree s mp iblk;
            Some (upd_ev priv (ev_ino_update (i_block_update (\<lambda>a. a(12 := 0)))) s)
          } else Some s);
     Some (upd_ev priv (\<lambda>p. p\<lparr>ev_ino := (ev_ino p)\<lparr>i_blocks := 0, e_size := 0\<rparr>, ev_dirty := True\<rparr>) s)
   }"

definition ext2_destroy :: "'a vfs_scheme \<Rightarrow> u64 \<Rightarrow> 'a vfs_scheme option" where
  "ext2_destroy s priv =
     (if priv = 0 then Some s
      else do {
        let p = ext2_privs s priv;
        s \<leftarrow> (if ev_orphaned p then do {
               s \<leftarrow> ext2_i_truncate s priv;
               ext2_ifree s (ev_mp p) (ev_inum p)
             }
             else if ev_dirty p \<and> ev_mp p \<noteq> 0 then do {
               (_, s) \<leftarrow> write_inode s (ev_mp p) (ev_inum p) (ev_ino p);
               Some s
             }
             else Some s);
        kfree s priv
      })"

end
