(* ===== verification/Vtable.thy ===== *)
theory Vtable
  imports Ext2_Core
begin

text \<open>
  The vnode table of \<^verbatim>\<open>kernel/vfs.c\<close>: allocation, reference counting, lookup by identity and release.  Releasing
  the last reference calls the \<open>destroy\<close> operation of the file system that the vnode belongs to, which is
  why the three \<open>destroy\<close> operations come first.
\<close>

subsection \<open>Releasing private data\<close>

definition xv6fs_destroy :: "'a vfs_scheme \<Rightarrow> u64 \<Rightarrow> 'a vfs_scheme option" where
  "xv6fs_destroy s priv =
     (if priv \<noteq> 0 then do {
        s \<leftarrow> (case xv6fs_privs s priv of
               None \<Rightarrow> Some s
             | Some ip \<Rightarrow> do {
                 s \<leftarrow> begin_op s;
                 s \<leftarrow> iput s ip;
                 end_op s
               });
        kfree s priv
      } else Some s)"

definition fdestroy :: "'a vfs_scheme \<Rightarrow> u64 \<Rightarrow> 'a vfs_scheme option" where
  "fdestroy s arg = (if arg \<noteq> 0 then kfree s arg else Some s)"

text \<open>The \<open>destroy\<close> entry of the three operation tables.\<close>

definition vop_destroy :: "'a vfs_scheme \<Rightarrow> fstype \<Rightarrow> u64 \<Rightarrow> 'a vfs_scheme option" where
  "vop_destroy s ops priv =
     (case ops of XV6FS \<Rightarrow> xv6fs_destroy s priv | EXT2 \<Rightarrow> ext2_destroy s priv | FAT32 \<Rightarrow> fdestroy s priv)"

subsection \<open>The table\<close>

definition alloc_vnode :: "'a vfs_scheme \<Rightarrow> nat option \<times> 'a vfs_scheme" where
  "alloc_vnode s =
     (case scan (\<lambda>i. v_ref (vn s i) = 0) 0 NVNODE of
        None \<Rightarrow> (None, s)
      | Some i \<Rightarrow>
          (Some i, upd_vnode i (\<lambda>v. v\<lparr>v_ref := 1, v_type := 0, v_ops := None, v_mp := 0, v_priv := 0,
             v_inum := 0, v_ikey := 0, v_major := 0, v_minor := 0\<rparr>) s))"

definition vget :: "'a vfs_scheme \<Rightarrow> nat \<Rightarrow> nat \<times> 'a vfs_scheme" where
  "vget s vp = (vp, upd_vnode vp (v_ref_update (\<lambda>r. r + 1)) s)"

definition vfs_iget :: "'a vfs_scheme \<Rightarrow> u64 \<Rightarrow> u32 \<Rightarrow> u32 \<Rightarrow> nat option \<times> 'a vfs_scheme" where
  "vfs_iget s mp inum ikey =
     (case scan (\<lambda>v. v_ref (vn s v) > 0 \<and> v_mp (vn s v) = mp \<and> v_inum (vn s v) = inum \<and> v_ikey (vn s v) = ikey)
             0 NVNODE of
        None \<Rightarrow> (None, s)
      | Some v \<Rightarrow> (Some v, upd_vnode v (v_ref_update (\<lambda>r. r + 1)) s))"

definition vput :: "'a vfs_scheme \<Rightarrow> nat \<Rightarrow> 'a vfs_scheme option" where
  "vput s vp = do {
     ensure (1 \<le> v_ref (vn s vp)) ''vput: ref underflow'';
     let s = upd_vnode vp (v_ref_update (\<lambda>r. r - 1)) s;
     if v_ref (vn s vp) = 0 then do {
       let priv = v_priv (vn s vp);
       let destroy = v_ops (vn s vp);
       let s = upd_vnode vp (\<lambda>v. v\<lparr>v_priv := 0, v_ops := None, v_mp := 0, v_type := 0\<rparr>) s;
       (case destroy of None \<Rightarrow> Some s | Some ops \<Rightarrow> vop_destroy s ops priv)
     } else Some s
   }"

definition vn_lock :: "'a vfs_scheme \<Rightarrow> nat \<Rightarrow> 'a vfs_scheme option" where
  "vn_lock s vp = do {
     lk \<leftarrow> acquiresleep (p_pid s) (v_lock (vn s vp));
     Some (upd_vnode vp (v_lock_update (\<lambda>_. lk)) s)
   }"

definition vn_unlock :: "'a vfs_scheme \<Rightarrow> nat \<Rightarrow> 'a vfs_scheme" where
  "vn_unlock s vp = upd_vnode vp (v_lock_update releasesleep) s"

end
