(* ===== verification/Xv6fs.thy ===== *)
theory Xv6fs
  imports Vtable
begin

text \<open>
  \<^verbatim>\<open>kernel/xv6fs.c\<close>: the native file system behind the vnode interface.  A null result pointer is
  \<^const>\<open>None\<close>; the \<open>int\<close> result of an operation comes first in what it returns.
\<close>

definition ROOTINO :: u32 where
  "ROOTINO = 1"

definition xv6fs_ip :: "'a vfs_scheme \<Rightarrow> nat \<Rightarrow> nat option" where
  "xv6fs_ip s vp = (if v_priv (vn s vp) = 0 then None else xv6fs_privs s (v_priv (vn s vp)))"

definition xv6fs_vnode_from_inode :: "'a vfs_scheme \<Rightarrow> nat \<Rightarrow> u32 \<Rightarrow> u64 \<Rightarrow> (nat option \<times> 'a vfs_scheme) option" where
  "xv6fs_vnode_from_inode s ip dev mp =
     (case alloc_vnode s of
        (None, s) \<Rightarrow> Some (None, s)
      | (Some vp, s) \<Rightarrow>
          (case kalloc s of (priv, s) \<Rightarrow>
             if priv = 0 then do {
               s \<leftarrow> vput s vp;
               Some (None, s)
             } else do {
               let s = s\<lparr>xv6fs_privs := (xv6fs_privs s)(priv := Some ip)\<rparr>;
               let i = itable s ip;
               Some (Some vp, upd_vnode vp (\<lambda>v. v\<lparr>
                 v_type := (if i_type i = T_DIR then V_DIR else if i_type i = T_DEVICE then V_DEV else V_FILE),
                 v_major := sint (i_major i), v_minor := sint (i_minor i), v_dev := dev, v_mp := mp,
                 v_ops := Some XV6FS, v_priv := priv, v_inum := i_inum i, v_size := i_size i\<rparr>) s)
             }))"

definition xv6fs_mount :: "'a vfs_scheme \<Rightarrow> u32 \<Rightarrow> (u64 \<times> 'a vfs_scheme) option" where
  "xv6fs_mount s dev =
     (case kalloc s of (mp, s) \<Rightarrow>
        if mp = 0 then Some (0, s)
        else do {
          let s = upd_mount mp (\<lambda>m. m\<lparr>mt_ops := Some XV6FS, mt_dev := dev, mt_priv := 0\<rparr>) s;
          (ip, s) \<leftarrow> iget s dev ROOTINO;
          s \<leftarrow> ilock s ip;
          (root, s) \<leftarrow> xv6fs_vnode_from_inode s ip dev mp;
          let s = upd_mount mp (mt_root_update (\<lambda>_. root)) s;
          s \<leftarrow> iunlock s ip;
          if root = None then do {
            s \<leftarrow> kfree s mp;
            Some (0, s)
          } else Some (mp, s)
        })"

text \<open>The out parameter \<open>*result\<close> of a lookup: \<^const>\<open>None\<close> when it is not written.\<close>

definition xv6fs_lookup :: "'a vfs_scheme \<Rightarrow> nat \<Rightarrow> buffer \<Rightarrow> (int \<times> nat option option \<times> 'a vfs_scheme) option" where
  "xv6fs_lookup s dir name = do {
     dp \<leftarrow> xv6fs_ip s dir;
     s \<leftarrow> ilock s dp;
     if i_type (itable s dp) \<noteq> T_DIR then do {
       s \<leftarrow> iunlock s dp;
       Some (-1, None, s)
     } else do {
       (found, s) \<leftarrow> dirlookup s dp name;
       s \<leftarrow> iunlock s dp;
       (case found of
          None \<Rightarrow> Some (-1, None, s)
        | Some (ip, _) \<Rightarrow> do {
            s \<leftarrow> ilock s ip;
            (result, s) \<leftarrow> xv6fs_vnode_from_inode s ip (v_dev (vn s dir)) (v_mp (vn s dir));
            s \<leftarrow> iunlock s ip;
            Some (if result = None then -1 else 0, Some result, s)
          })
     }
   }"

definition xv6fs_read :: "'a vfs_scheme \<Rightarrow> nat \<Rightarrow> u64 \<Rightarrow> int \<Rightarrow> u32 \<Rightarrow> (int \<times> 'a vfs_scheme) option" where
  "xv6fs_read s vp buf n off = do {
     ip \<leftarrow> xv6fs_ip s vp;
     s \<leftarrow> ilock s ip;
     (r, _, s) \<leftarrow> readi s ip True buf (\<lambda>_. 0) off (word_of_int n);
     s \<leftarrow> iunlock s ip;
     Some (r, s)
   }"

text \<open>\<open>xv6fs_write\<close> splits a write into transactions of at most \<open>max\<close> bytes; the loop returns the number of
  bytes written.\<close>

definition xv6fs_max :: int where
  "xv6fs_max = (MAXOPBLOCKS - 1 - 1 - 2) div 2 * int BSIZE"

partial_function (option) xv6fs_write_loop ::
    "'a vfs_scheme \<Rightarrow> nat \<Rightarrow> u64 \<Rightarrow> int \<Rightarrow> u32 \<Rightarrow> int \<Rightarrow> (int \<times> 'a vfs_scheme) option" where
  "xv6fs_write_loop s ip buf n off i =
     (if i < n then do {
        let n1 = min (n - i) xv6fs_max;
        s \<leftarrow> begin_op s;
        s \<leftarrow> ilock s ip;
        (r, s) \<leftarrow> writei s ip True (buf + word_of_int i) (\<lambda>_. 0) (off + word_of_int i) (word_of_int n1);
        let i = (if r > 0 then i + r else i);
        s \<leftarrow> iunlock s ip;
        s \<leftarrow> end_op s;
        if r \<noteq> n1 then Some (i, s) else xv6fs_write_loop s ip buf n off i
      } else Some (i, s))"

definition xv6fs_write :: "'a vfs_scheme \<Rightarrow> nat \<Rightarrow> u64 \<Rightarrow> int \<Rightarrow> u32 \<Rightarrow> (int \<times> 'a vfs_scheme) option" where
  "xv6fs_write s vp buf n off = do {
     ip \<leftarrow> xv6fs_ip s vp;
     (i, s) \<leftarrow> xv6fs_write_loop s ip buf n off 0;
     let s = (if i > 0 \<and> off + word_of_int i > i_size (itable s ip)
              then upd_vnode vp (v_size_update (\<lambda>_. i_size (itable s ip))) s else s);
     Some (if i = n then n else -1, s)
   }"

definition xv6fs_stat :: "buffer \<Rightarrow> 'a vfs_scheme \<Rightarrow> nat \<Rightarrow> u64 \<Rightarrow> (int \<times> 'a vfs_scheme) option" where
  "xv6fs_stat junk s vp addr = do {
     ip \<leftarrow> xv6fs_ip s vp;
     s \<leftarrow> ilock s ip;
     let st = stati s ip;
     s \<leftarrow> iunlock s ip;
     (r, s) \<leftarrow> copyout s (p_pagetable s) addr (put_stat junk st) SIZEOF_STAT;
     Some (if r < 0 then -1 else 0, s)
   }"

text \<open>The loop of \<open>xv6fs_readdir\<close>: \<^const>\<open>None\<close> at the end of the directory, else the entry and the offset after it.\<close>

partial_function (option) xv6fs_readdir_loop ::
    "'a vfs_scheme \<Rightarrow> nat \<Rightarrow> u32 \<Rightarrow> ((buffer \<times> u32) option \<times> 'a vfs_scheme) option" where
  "xv6fs_readdir_loop s ip off = do {
     (r, de, s) \<leftarrow> readi s ip False 0 (\<lambda>_. 0) off 16;
     if r \<noteq> 16 then Some (None, s)
     else if de_inum de \<noteq> 0 then Some (Some (de, off + 16), s)
     else xv6fs_readdir_loop s ip (off + 16)
   }"

definition xv6fs_readdir :: "buffer \<Rightarrow> 'a vfs_scheme \<Rightarrow> nat \<Rightarrow> u64 \<Rightarrow> u32 \<Rightarrow> (int \<times> 'a vfs_scheme) option" where
  "xv6fs_readdir junk s vp buf off = do {
     ip \<leftarrow> xv6fs_ip s vp;
     s \<leftarrow> ilock s ip;
     if i_type (itable s ip) \<noteq> T_DIR then do {
       s \<leftarrow> iunlock s ip;
       Some (-1, s)
     } else do {
       (e, s) \<leftarrow> xv6fs_readdir_loop s ip off;
       s \<leftarrow> iunlock s ip;
       (case e of
          None \<Rightarrow> Some (-1, s)
        | Some (de, off) \<Rightarrow> do {
            (r, s) \<leftarrow> copyout s (p_pagetable s) buf (put_vdirent junk (de_inum de) (de_name de) DIRSIZ) SIZEOF_VDIRENT;
            Some (if r < 0 then -1 else sint off, s)
          })
     }
   }"

partial_function (option) isdirempty_loop :: "'a vfs_scheme \<Rightarrow> nat \<Rightarrow> u32 \<Rightarrow> (bool \<times> 'a vfs_scheme) option" where
  "isdirempty_loop s dp off =
     (if off < i_size (itable s dp) then do {
        (r, de, s) \<leftarrow> readi s dp False 0 (\<lambda>_. 0) off 16;
        ensure (r = 16) ''isdirempty: readi'';
        if de_inum de \<noteq> 0 then Some (False, s) else isdirempty_loop s dp (off + 16)
      } else Some (True, s))"

definition isdirempty :: "'a vfs_scheme \<Rightarrow> nat \<Rightarrow> (bool \<times> 'a vfs_scheme) option" where
  "isdirempty s dp = isdirempty_loop s dp 32"

text \<open>The entries of a new directory: whether \<open>.\<close> and \<open>..\<close> could be written.\<close>

definition xv6fs_dots :: "'a vfs_scheme \<Rightarrow> nat \<Rightarrow> nat \<Rightarrow> (bool \<times> 'a vfs_scheme) option" where
  "xv6fs_dots s ip dp = do {
     (r, s) \<leftarrow> dirlink s ip (cs [0x2E]) (i_inum (itable s ip));
     if r < 0 then Some (False, s)
     else do {
       (r, s) \<leftarrow> dirlink s ip (cs [0x2E, 0x2E]) (i_inum (itable s dp));
       Some (r \<ge> 0, s)
     }
   }"

text \<open>The part of \<open>xv6fs_create\<close> after a free inode \<open>ip\<close> was found, with \<open>dp\<close> locked and inside the transaction; it
  ends the transaction and says whether the file was made.\<close>

definition xv6fs_enter :: "'a vfs_scheme \<Rightarrow> nat \<Rightarrow> nat \<Rightarrow> buffer \<Rightarrow> u32 \<Rightarrow> (bool \<times> 'a vfs_scheme) option" where
  "xv6fs_enter s dp ip name type = do {
     s \<leftarrow> ilock s ip;
     let s = upd_inode ip (\<lambda>i. i\<lparr>i_nlink := 1, i_size := 0\<rparr>) s;
     s \<leftarrow> iupdate s ip;
     s \<leftarrow> iunlock s ip;
     (r, s) \<leftarrow> dirlink s dp name (i_inum (itable s ip));
     if r < 0 then do {
       s \<leftarrow> iunlock s dp;
       s \<leftarrow> iput s ip;
       s \<leftarrow> end_op s;
       Some (False, s)
     } else if type = V_DIR then do {
       s \<leftarrow> ilock s ip;
       (ok, s) \<leftarrow> xv6fs_dots s ip dp;
       if \<not> ok then do {
         (found, s) \<leftarrow> dirlookup s dp name;
         s \<leftarrow> (case found of
                None \<Rightarrow> Some s
              | Some (tmp, off) \<Rightarrow>
                  if tmp = ip then do {
                    (_, s) \<leftarrow> writei s dp False 0 (\<lambda>_. 0) off 16;
                    Some s
                  } else Some s);
         s \<leftarrow> iunlock s ip;
         s \<leftarrow> iunlock s dp;
         s \<leftarrow> iput s ip;
         s \<leftarrow> end_op s;
         Some (False, s)
       } else do {
         s \<leftarrow> iunlock s ip;
         let s = upd_inode dp (i_nlink_update (\<lambda>n. n + 1)) s;
         s \<leftarrow> iupdate s dp;
         s \<leftarrow> iunlock s dp;
         s \<leftarrow> end_op s;
         Some (True, s)
       }
     } else do {
       s \<leftarrow> iunlock s dp;
       s \<leftarrow> end_op s;
       Some (True, s)
     }
   }"

text \<open>The common beginning of \<open>xv6fs_create\<close> and \<open>xv6fs_mknod\<close>: open a transaction, lock the directory, refuse an
  existing name and allocate an inode.  \<^const>\<open>None\<close> is the return of \<open>-1\<close>, after everything was undone.\<close>

definition xv6fs_fresh :: "'a vfs_scheme \<Rightarrow> nat \<Rightarrow> u32 \<Rightarrow> buffer \<Rightarrow> u16 \<Rightarrow> (nat option \<times> 'a vfs_scheme) option" where
  "xv6fs_fresh s dp dev name type = do {
     s \<leftarrow> begin_op s;
     s \<leftarrow> ilock s dp;
     if i_type (itable s dp) \<noteq> T_DIR then do {
       s \<leftarrow> iunlock s dp;
       s \<leftarrow> end_op s;
       Some (None, s)
     } else do {
       (found, s) \<leftarrow> dirlookup s dp name;
       (case found of
          Some (ip, _) \<Rightarrow> do {
            s \<leftarrow> iunlock s dp;
            s \<leftarrow> iput s ip;
            s \<leftarrow> end_op s;
            Some (None, s)
          }
        | None \<Rightarrow> do {
            (ipo, s) \<leftarrow> ialloc s dev type;
            (case ipo of
               None \<Rightarrow> do {
                 s \<leftarrow> iunlock s dp;
                 s \<leftarrow> end_op s;
                 Some (None, s)
               }
             | Some ip \<Rightarrow> Some (Some ip, s))
          })
     }
   }"

definition xv6fs_create ::
    "'a vfs_scheme \<Rightarrow> nat \<Rightarrow> buffer \<Rightarrow> u32 \<Rightarrow> bool \<Rightarrow> (int \<times> nat option \<times> 'a vfs_scheme) option" where
  "xv6fs_create s dir name type new = do {
     dp \<leftarrow> xv6fs_ip s dir;
     (ipo, s) \<leftarrow> xv6fs_fresh s dp (v_dev (vn s dir)) name (if type = V_DIR then T_DIR else T_FILE);
     (case ipo of
        None \<Rightarrow> Some (-1, None, s)
      | Some ip \<Rightarrow> do {
          (ok, s) \<leftarrow> xv6fs_enter s dp ip name type;
          if \<not> ok then Some (-1, None, s)
          else if new then do {
            s \<leftarrow> ilock s ip;
            (r, s) \<leftarrow> xv6fs_vnode_from_inode s ip (v_dev (vn s dir)) (v_mp (vn s dir));
            s \<leftarrow> iunlock s ip;
            Some (if r = None then -1 else 0, r, s)
          } else Some (0, None, s)
        })
   }"

definition xv6fs_unlink :: "'a vfs_scheme \<Rightarrow> nat \<Rightarrow> buffer \<Rightarrow> (int \<times> 'a vfs_scheme) option" where
  "xv6fs_unlink s dir name = do {
     dp \<leftarrow> xv6fs_ip s dir;
     s \<leftarrow> begin_op s;
     s \<leftarrow> ilock s dp;
     if i_type (itable s dp) \<noteq> T_DIR then do {
       s \<leftarrow> iunlock s dp;
       s \<leftarrow> end_op s;
       Some (-1, s)
     } else do {
       (found, s) \<leftarrow> dirlookup s dp name;
       (case found of
          None \<Rightarrow> do {
            s \<leftarrow> iunlock s dp;
            s \<leftarrow> end_op s;
            Some (-1, s)
          }
        | Some (ip, off) \<Rightarrow> do {
            s \<leftarrow> ilock s ip;
            ensure (1 \<le> sint (i_nlink (itable s ip))) ''unlink: nlink < 1'';
            let is_dir = (i_type (itable s ip) = T_DIR);
            (empty, s) \<leftarrow> (if is_dir then isdirempty s ip else Some (True, s));
            if is_dir \<and> \<not> empty then do {
              s \<leftarrow> iunlock s ip;
              s \<leftarrow> iunlock s dp;
              s \<leftarrow> iput s ip;
              s \<leftarrow> end_op s;
              Some (-1, s)
            } else do {
              let s = upd_inode ip (i_nlink_update (\<lambda>n. n - 1)) s;
              s \<leftarrow> iupdate s ip;
              s \<leftarrow> iunlockput s ip;
              (r, s) \<leftarrow> writei s dp False 0 (\<lambda>_. 0) off 16;
              ensure (r = 16) ''unlink: writei'';
              s \<leftarrow> (if is_dir then iupdate (upd_inode dp (i_nlink_update (\<lambda>n. n - 1)) s) dp else Some s);
              s \<leftarrow> iunlock s dp;
              s \<leftarrow> end_op s;
              Some (0, s)
            }
          })
     }
   }"

definition xv6fs_mkdir :: "'a vfs_scheme \<Rightarrow> nat \<Rightarrow> buffer \<Rightarrow> (int \<times> 'a vfs_scheme) option" where
  "xv6fs_mkdir s dir name = do {
     (r, new, s) \<leftarrow> xv6fs_create s dir name V_DIR True;
     (case new of
        Some v \<Rightarrow> if r = 0 then do { s \<leftarrow> vput s v; Some (r, s) } else Some (r, s)
      | None \<Rightarrow> Some (r, s))
   }"

definition xv6fs_link :: "'a vfs_scheme \<Rightarrow> nat \<Rightarrow> buffer \<Rightarrow> nat \<Rightarrow> (int \<times> 'a vfs_scheme) option" where
  "xv6fs_link s dir name old = do {
     dp \<leftarrow> xv6fs_ip s dir;
     ip \<leftarrow> xv6fs_ip s old;
     s \<leftarrow> begin_op s;
     s \<leftarrow> ilock s ip;
     if i_type (itable s ip) = T_DIR \<or> i_dev (itable s ip) \<noteq> i_dev (itable s dp) then do {
       s \<leftarrow> iunlock s ip;
       s \<leftarrow> end_op s;
       Some (-1, s)
     } else do {
       let s = upd_inode ip (i_nlink_update (\<lambda>n. n + 1)) s;
       s \<leftarrow> iupdate s ip;
       s \<leftarrow> iunlock s ip;
       s \<leftarrow> ilock s dp;
       (r, s) \<leftarrow> dirlink s dp name (i_inum (itable s ip));
       s \<leftarrow> iunlock s dp;
       s \<leftarrow> (if r < 0 then do {
              s \<leftarrow> ilock s ip;
              s \<leftarrow> iupdate (upd_inode ip (i_nlink_update (\<lambda>n. n - 1)) s) ip;
              iunlock s ip
            } else Some s);
       s \<leftarrow> end_op s;
       Some (r, s)
     }
   }"

definition xv6fs_mknod :: "'a vfs_scheme \<Rightarrow> nat \<Rightarrow> buffer \<Rightarrow> int \<Rightarrow> int \<Rightarrow> (int \<times> 'a vfs_scheme) option" where
  "xv6fs_mknod s dir name major minor = do {
     dp \<leftarrow> xv6fs_ip s dir;
     (ipo, s) \<leftarrow> xv6fs_fresh s dp (v_dev (vn s dir)) name T_DEVICE;
     (case ipo of
        None \<Rightarrow> Some (-1, s)
      | Some ip \<Rightarrow> do {
          s \<leftarrow> ilock s ip;
          let s = upd_inode ip (\<lambda>i. i\<lparr>i_major := word_of_int major, i_minor := word_of_int minor, i_nlink := 1\<rparr>) s;
          s \<leftarrow> iupdate s ip;
          s \<leftarrow> iunlock s ip;
          (r, s) \<leftarrow> dirlink s dp name (i_inum (itable s ip));
          if r < 0 then do {
            s \<leftarrow> iunlock s dp;
            s \<leftarrow> iput s ip;
            s \<leftarrow> end_op s;
            Some (-1, s)
          } else do {
            s \<leftarrow> iunlock s dp;
            s \<leftarrow> end_op s;
            Some (0, s)
          }
        })
   }"

definition xv6fs_read_kernel ::
    "'a vfs_scheme \<Rightarrow> nat \<Rightarrow> u64 \<Rightarrow> buffer \<Rightarrow> int \<Rightarrow> u32 \<Rightarrow> (int \<times> buffer \<times> 'a vfs_scheme) option" where
  "xv6fs_read_kernel s vp buf kb n off = do {
     ip \<leftarrow> xv6fs_ip s vp;
     s \<leftarrow> ilock s ip;
     (r, kb, s) \<leftarrow> readi s ip False buf kb off (word_of_int n);
     s \<leftarrow> iunlock s ip;
     Some (r, kb, s)
   }"

definition xv6fs_truncate :: "'a vfs_scheme \<Rightarrow> nat \<Rightarrow> (int \<times> 'a vfs_scheme) option" where
  "xv6fs_truncate s vp = do {
     ip \<leftarrow> xv6fs_ip s vp;
     s \<leftarrow> begin_op s;
     s \<leftarrow> ilock s ip;
     s \<leftarrow> itrunc s ip;
     let s = upd_vnode vp (v_size_update (\<lambda>_. 0)) s;
     s \<leftarrow> iunlock s ip;
     s \<leftarrow> end_op s;
     Some (0, s)
   }"

text \<open>The operation \<open>root\<close>; the table has no \<open>unmount\<close>.\<close>

definition xv6fs_root :: "'a vfs_scheme \<Rightarrow> u64 \<Rightarrow> (nat \<times> 'a vfs_scheme) option" where
  "xv6fs_root s mp = do {
     r \<leftarrow> mt_root (mounts s mp);
     Some (vget s r)
   }"

end
