(* ===== verification/Ext2.thy ===== *)
theory Ext2
  imports Vtable
begin

text \<open>
  The upper half of \<^verbatim>\<open>kernel/ext2.c\<close>: vnodes for ext2 inodes, directories, and the operations of the
  \<open>ext2_vnops\<close> table.  A \<open>struct ext2_dir_entry\<close> is named by its byte offset in a directory block.
\<close>

subsection \<open>Vnodes\<close>

definition ext2_vnode_alloc ::
    "'a vfs_scheme \<Rightarrow> u64 \<Rightarrow> u32 \<Rightarrow> ext2_inode_disk \<Rightarrow> (nat option \<times> 'a vfs_scheme) option" where
  "ext2_vnode_alloc s mp inum ino =
     (case alloc_vnode s of
        (None, s) \<Rightarrow> Some (None, s)
      | (Some vp, s) \<Rightarrow>
          (case kalloc s of (priv, s) \<Rightarrow>
             if priv = 0 then do {
               s \<leftarrow> vput s vp;
               Some (None, s)
             } else do {
               let s = upd_ev priv (\<lambda>_. \<lparr>ev_ino = ino, ev_mp = mp, ev_inum = inum, ev_dirty = False, ev_orphaned = False\<rparr>) s;
               let mode = i_mode ino AND 0xF000;
               let type = (if mode = 0x4000 then V_DIR else if mode = 0x2000 \<or> mode = 0x6000 then V_DEV else V_FILE);
               Some (Some vp, upd_vnode vp (\<lambda>v. v\<lparr>v_type := type,
                 v_major := (if type = V_DEV then uint (drop_bit 8 (i_block ino 0) AND 0xFF) else 0),
                 v_minor := (if type = V_DEV then uint (i_block ino 0 AND 0xFF) else 0),
                 v_dev := em_dev (ext2_mounts s mp), v_mp := em_mnt (ext2_mounts s mp), v_ops := Some EXT2,
                 v_priv := priv, v_inum := inum, v_ikey := 0, v_size := e_size ino\<rparr>) s)
             }))"

definition ext2_iget :: "'a vfs_scheme \<Rightarrow> u64 \<Rightarrow> u32 \<Rightarrow> (nat option \<times> 'a vfs_scheme) option" where
  "ext2_iget s mp inum =
     (case vfs_iget s (em_mnt (ext2_mounts s mp)) inum 0 of
        (Some hit, s) \<Rightarrow> Some (Some hit, s)
      | (None, s) \<Rightarrow> do {
          (ino, s) \<leftarrow> read_inode s mp inum;
          (case ino of None \<Rightarrow> Some (None, s) | Some ino \<Rightarrow> ext2_vnode_alloc s mp inum ino)
        })"

text \<open>The private data of a vnode: a null pointer is never dereferenced without a fault.\<close>

definition priv_of :: "'a vfs_scheme \<Rightarrow> nat \<Rightarrow> u64 option" where
  "priv_of s vp = (if v_priv (vn s vp) = 0 then None else Some (v_priv (vn s vp)))"

definition ext2_writeback :: "'a vfs_scheme \<Rightarrow> nat \<Rightarrow> 'a vfs_scheme option" where
  "ext2_writeback s vp = do {
     priv \<leftarrow> priv_of s vp;
     let p = ext2_privs s priv;
     if ev_dirty p \<and> ev_mp p \<noteq> 0 then do {
       (_, s) \<leftarrow> write_inode s (ev_mp p) (ev_inum p) (ev_ino p);
       Some (upd_ev priv (ev_dirty_update (\<lambda>_. False)) s)
     } else Some s
   }"

subsection \<open>Directory blocks\<close>

definition ed_inode :: "buffer \<Rightarrow> nat \<Rightarrow> u32" where
  "ed_inode d k = le32 d k"

definition ed_rec_len :: "buffer \<Rightarrow> nat \<Rightarrow> u16" where
  "ed_rec_len d k = le16 d (k + 4)"

definition ed_name_len :: "buffer \<Rightarrow> nat \<Rightarrow> nat" where
  "ed_name_len d k = unat (d (k + 6))"

definition ed_name :: "buffer \<Rightarrow> nat \<Rightarrow> buffer" where
  "ed_name d k = (\<lambda>i. d (k + 8 + i))"

definition ed_matches :: "buffer \<Rightarrow> nat \<Rightarrow> buffer \<Rightarrow> bool" where
  "ed_matches d k name \<longleftrightarrow> strncmp (ed_name d k) name (ed_name_len d k) = 0 \<and> name (ed_name_len d k) = 0"

definition put_ed :: "buffer \<Rightarrow> nat \<Rightarrow> u32 \<Rightarrow> u16 \<Rightarrow> nat \<Rightarrow> byte \<Rightarrow> buffer \<Rightarrow> buffer" where
  "put_ed d k inum rec_len namelen ftype name =
     (let d = put32 d k inum;
          d = put16 d (k + 4) rec_len;
          d = d(k + 6 := of_nat namelen, k + 7 := ftype)
      in copy_into d (k + 8) name 0 namelen)"

text \<open>The loop over the entries of one block, from offset \<open>boff\<close> in the block and \<open>off\<close> in the directory: a match,
  an entry of length 0, or the offset of the next block.\<close>

datatype dscan = Found u32 | Corrupt | End_at u32

function ext2_lookup_block :: "buffer \<Rightarrow> buffer \<Rightarrow> nat \<Rightarrow> u32 \<Rightarrow> dscan" where
  "ext2_lookup_block d name boff off =
     (if boff < BSIZE then
        if ed_inode d boff \<noteq> 0 \<and> 0 < ed_name_len d boff \<and> ed_matches d boff name then Found (ed_inode d boff)
        else if ed_rec_len d boff = 0 then Corrupt
        else ext2_lookup_block d name (boff + unat (ed_rec_len d boff)) (off + ucast (ed_rec_len d boff))
      else End_at off)"
  by auto
termination
  by (relation "measure (\<lambda>(d, name, boff, off). BSIZE - boff)") (auto simp: unat_gt_0 intro!: diff_less_mono2)

declare ext2_lookup_block.simps [simp del]

partial_function (option) ext2_dir_lookup_loop ::
    "'a vfs_scheme \<Rightarrow> u64 \<Rightarrow> buffer \<Rightarrow> u32 \<Rightarrow> (int \<times> nat option option \<times> 'a vfs_scheme) option" where
  "ext2_dir_lookup_loop s dp name off =
     (if off < e_size (ev_ino (ext2_privs s dp)) then do {
        (blk, s) \<leftarrow> ext2_bmap s dp (off div of_nat BSIZE) False;
        if blk = 0 then Some (-1, None, s)
        else do {
          let mp = ev_mp (ext2_privs s dp);
          (bo, s) \<leftarrow> bread s (em_dev (ext2_mounts s mp)) blk;
          (case bo of
             None \<Rightarrow> Some (-1, None, s)
           | Some bp \<Rightarrow>
               (case ext2_lookup_block (bdata s bp) name (unat off mod BSIZE) off of
                  Found inum \<Rightarrow> do {
                    s \<leftarrow> brelse s bp;
                    (r, s) \<leftarrow> ext2_iget s mp inum;
                    Some (if r = None then -1 else 0, Some r, s)
                  }
                | Corrupt \<Rightarrow> do {
                    s \<leftarrow> brelse s bp;
                    Some (-1, None, s)
                  }
                | End_at off \<Rightarrow> do {
                    s \<leftarrow> brelse s bp;
                    ext2_dir_lookup_loop s dp name off
                  }))
        }
      } else Some (-1, None, s))"

definition ext2_dir_lookup :: "'a vfs_scheme \<Rightarrow> nat \<Rightarrow> buffer \<Rightarrow> (int \<times> nat option option \<times> 'a vfs_scheme) option" where
  "ext2_dir_lookup s dir name = do {
     dp \<leftarrow> priv_of s dir;
     ext2_dir_lookup_loop s dp name 0
   }"

text \<open>Lengths of entries, rounded up to a multiple of 4.\<close>

definition ed_space :: "nat \<Rightarrow> u32" where
  "ed_space namelen = (8 + of_nat namelen + 3) AND NOT 3"

datatype hole = Reuse nat | Split nat | No_entry | Next u32

function ext2_hole_block :: "buffer \<Rightarrow> u32 \<Rightarrow> nat \<Rightarrow> u32 \<Rightarrow> hole" where
  "ext2_hole_block d needlen boff off =
     (if boff < BSIZE then
        if ed_rec_len d boff = 0 then No_entry
        else
          (let reclen = ucast (ed_rec_len d boff); real_len = ed_space (ed_name_len d boff) in
           if ed_inode d boff = 0 \<and> reclen \<ge> needlen then Reuse boff
           else if reclen - real_len \<ge> needlen then Split boff
           else ext2_hole_block d needlen (boff + unat (ed_rec_len d boff)) (off + reclen))
      else Next off)"
  by auto
termination
  by (relation "measure (\<lambda>(d, needlen, boff, off). BSIZE - boff)") (auto simp: unat_gt_0 intro!: diff_less_mono2)

declare ext2_hole_block.simps [simp del]

text \<open>The loop over the blocks of the directory: the entry is written, or the scan failed, or the offset at which
  the directory has to grow.\<close>

partial_function (option) ext2_dir_add_loop ::
    "'a vfs_scheme \<Rightarrow> u64 \<Rightarrow> buffer \<Rightarrow> nat \<Rightarrow> u32 \<Rightarrow> byte \<Rightarrow> u32 \<Rightarrow> ((int + u32) \<times> 'a vfs_scheme) option" where
  "ext2_dir_add_loop s dp name namelen inum ftype off =
     (if off < e_size (ev_ino (ext2_privs s dp)) then do {
        (blk, s) \<leftarrow> ext2_bmap s dp (off div of_nat BSIZE) False;
        if blk = 0 then Some (Inl (-1), s)
        else do {
          (bo, s) \<leftarrow> bread s (em_dev (ext2_mounts s (ev_mp (ext2_privs s dp)))) blk;
          (case bo of
             None \<Rightarrow> Some (Inl (-1), s)
           | Some bp \<Rightarrow> do {
               let d = bdata s bp;
               (case ext2_hole_block d (ed_space namelen) (unat off mod BSIZE) off of
                  No_entry \<Rightarrow> do {
                    s \<leftarrow> brelse s bp;
                    Some (Inl (-1), s)
                  }
                | Reuse k \<Rightarrow> do {
                    ensure (k + 8 + namelen \<le> BSIZE) ''outside the block'';
                    s \<leftarrow> bwrite (set_data s bp (put_ed d k inum (ed_rec_len d k) namelen ftype name)) bp;
                    s \<leftarrow> brelse s bp;
                    Some (Inl 0, s)
                  }
                | Split k \<Rightarrow> do {
                    let real_len = ed_space (ed_name_len d k);
                    ensure (k + 8 \<le> BSIZE \<and> k + unat real_len + 8 + namelen \<le> BSIZE) ''outside the block'';
                    let rest = ucast (ed_rec_len d k) - real_len;
                    let d = put16 d (k + 4) (ucast real_len);
                    s \<leftarrow> bwrite (set_data s bp (put_ed d (k + unat real_len) inum (ucast rest) namelen ftype name)) bp;
                    s \<leftarrow> brelse s bp;
                    Some (Inl 0, s)
                  }
                | Next off \<Rightarrow> do {
                    s \<leftarrow> brelse s bp;
                    ext2_dir_add_loop s dp name namelen inum ftype off
                  })
             })
        }
      } else Some (Inr off, s))"

definition ext2_dir_add :: "'a vfs_scheme \<Rightarrow> nat \<Rightarrow> buffer \<Rightarrow> u32 \<Rightarrow> byte \<Rightarrow> (int \<times> 'a vfs_scheme) option" where
  "ext2_dir_add s dir name inum ftype = do {
     dp \<leftarrow> priv_of s dir;
     namelen \<leftarrow> strlen name;
     (r, s) \<leftarrow> ext2_dir_add_loop s dp name namelen inum ftype 0;
     (case r of
        Inl r \<Rightarrow> Some (r, s)
      | Inr off \<Rightarrow> do {
          (newblk, s) \<leftarrow> ext2_bmap s dp (off div of_nat BSIZE) True;
          if newblk = 0 then Some (-1, s)
          else do {
            (bo, s) \<leftarrow> bread s (em_dev (ext2_mounts s (ev_mp (ext2_privs s dp)))) newblk;
            (case bo of
               None \<Rightarrow> Some (-1, s)
             | Some bp \<Rightarrow> do {
                 ensure (8 + namelen \<le> BSIZE) ''outside the block'';
                 let d = fill (bdata s bp) 0 0 BSIZE;
                 let s = set_data s bp (put_ed d 0 inum (of_nat BSIZE) namelen ftype name);
                 let s = upd_ev dp (\<lambda>p. p\<lparr>ev_ino := (ev_ino p)\<lparr>e_size := off + of_nat BSIZE\<rparr>, ev_dirty := True\<rparr>) s;
                 s \<leftarrow> bwrite s bp;
                 s \<leftarrow> brelse s bp;
                 Some (0, s)
               })
          }
        })
   }"

subsection \<open>Operations\<close>

definition ext2_lookup :: "'a vfs_scheme \<Rightarrow> nat \<Rightarrow> buffer \<Rightarrow> (int \<times> nat option option \<times> 'a vfs_scheme) option" where
  "ext2_lookup s dir name = do {
     dp \<leftarrow> priv_of s dir;
     ext2_dir_lookup (ext2_update_time s dp True False) dir name
   }"

text \<open>\<open>off + n\<close> is computed on unsigned integers, so a read is clipped at the end of the file.\<close>

definition ext2_clip :: "u32 \<Rightarrow> int \<Rightarrow> u32 \<Rightarrow> int" where
  "ext2_clip sz n off = (if off + word_of_int n > sz then sint (sz - off) else n)"

definition ext2_len :: "int \<Rightarrow> int \<Rightarrow> u32 \<Rightarrow> u32" where
  "ext2_len n tot boff = min (of_nat BSIZE - boff) (word_of_int (n - tot))"

text \<open>Zeroes for a hole are copied out one byte at a time.\<close>

fun ext2_zeroes :: "'a vfs_scheme \<Rightarrow> u64 \<Rightarrow> nat \<Rightarrow> (int \<times> 'a vfs_scheme) option" where
  "ext2_zeroes s va 0 = Some (0, s)"
| "ext2_zeroes s va (Suc k) = do {
     (r, s) \<leftarrow> copyout s (p_pagetable s) va (\<lambda>_. 0) 1;
     if r < 0 then Some (-1, s) else ext2_zeroes s (va + 1) k
   }"

partial_function (option) ext2_read_loop ::
    "'a vfs_scheme \<Rightarrow> u64 \<Rightarrow> u64 \<Rightarrow> int \<Rightarrow> u32 \<Rightarrow> int \<Rightarrow> (int option \<times> 'a vfs_scheme) option" where
  "ext2_read_loop s priv buf n off tot =
     (if tot < n then do {
        (blk, s) \<leftarrow> ext2_bmap s priv (off div of_nat BSIZE) False;
        let boff = off mod of_nat BSIZE;
        let len = ext2_len n tot boff;
        if blk = 0 then do {
          (r, s) \<leftarrow> ext2_zeroes s (buf + word_of_int tot) (unat len);
          if r < 0 then Some (None, s)
          else ext2_read_loop s priv buf n (off + len) (tot + uint len)
        } else do {
          (bo, s) \<leftarrow> bread s (em_dev (ext2_mounts s (ev_mp (ext2_privs s priv)))) blk;
          (case bo of
             None \<Rightarrow> Some (None, s)
           | Some bp \<Rightarrow> do {
               (r, s) \<leftarrow> copyout s (p_pagetable s) (buf + word_of_int tot) (\<lambda>i. bdata s bp (unat boff + i)) (ucast len);
               s \<leftarrow> brelse s bp;
               if r < 0 then Some (None, s)
               else ext2_read_loop s priv buf n (off + len) (tot + uint len)
             })
        }
      } else Some (Some tot, s))"

definition ext2_read :: "'a vfs_scheme \<Rightarrow> nat \<Rightarrow> u64 \<Rightarrow> int \<Rightarrow> u32 \<Rightarrow> (int \<times> 'a vfs_scheme) option" where
  "ext2_read s vp buf n off = do {
     priv \<leftarrow> priv_of s vp;
     let sz = e_size (ev_ino (ext2_privs s priv));
     if off \<ge> sz then Some (0, s)
     else do {
       (r, s) \<leftarrow> ext2_read_loop s priv buf (ext2_clip sz n off) off 0;
       (case r of
          None \<Rightarrow> Some (-1, s)
        | Some tot \<Rightarrow> Some (tot, ext2_update_time s priv True False))
     }
   }"

partial_function (option) ext2_write_loop ::
    "'a vfs_scheme \<Rightarrow> u64 \<Rightarrow> u64 \<Rightarrow> int \<Rightarrow> u32 \<Rightarrow> int \<Rightarrow> ((int \<times> u32) option \<times> 'a vfs_scheme) option" where
  "ext2_write_loop s priv buf n off tot =
     (if tot < n then do {
        (blk, s) \<leftarrow> ext2_bmap s priv (off div of_nat BSIZE) True;
        if blk = 0 then Some (None, s)
        else do {
          let boff = off mod of_nat BSIZE;
          (bo, s) \<leftarrow> bread s (em_dev (ext2_mounts s (ev_mp (ext2_privs s priv)))) blk;
          (case bo of
             None \<Rightarrow> Some (None, s)
           | Some bp \<Rightarrow> do {
               let len = ext2_len n tot boff;
               (r, data, s) \<leftarrow> copyin s (p_pagetable s) (bdata s bp) (unat boff) (buf + word_of_int tot) (ucast len);
               let s = set_data s bp data;
               if r < 0 then do {
                 s \<leftarrow> brelse s bp;
                 Some (None, s)
               } else do {
                 s \<leftarrow> bwrite s bp;
                 s \<leftarrow> brelse s bp;
                 ext2_write_loop s priv buf n (off + len) (tot + uint len)
               }
             })
        }
      } else Some (Some (tot, off), s))"

definition ext2_write :: "'a vfs_scheme \<Rightarrow> nat \<Rightarrow> u64 \<Rightarrow> int \<Rightarrow> u32 \<Rightarrow> (int \<times> 'a vfs_scheme) option" where
  "ext2_write s vp buf n off = do {
     priv \<leftarrow> priv_of s vp;
     (r, s) \<leftarrow> ext2_write_loop s priv buf n off 0;
     (case r of
        None \<Rightarrow> Some (-1, s)
      | Some (tot, off) \<Rightarrow> do {
          let s = (if off > e_size (ev_ino (ext2_privs s priv))
                   then upd_vnode vp (v_size_update (\<lambda>_. off))
                          (upd_ev priv (\<lambda>p. p\<lparr>ev_ino := (ev_ino p)\<lparr>e_size := off\<rparr>, ev_dirty := True\<rparr>) s)
                   else s);
          let s = ext2_update_time s priv False True;
          s \<leftarrow> ext2_writeback s vp;
          Some (tot, s)
        })
   }"

definition ext2_stat :: "buffer \<Rightarrow> 'a vfs_scheme \<Rightarrow> nat \<Rightarrow> u64 \<Rightarrow> (int \<times> 'a vfs_scheme) option" where
  "ext2_stat junk s vp addr = do {
     priv \<leftarrow> priv_of s vp;
     let st = \<lparr>st_dev = v_dev (vn s vp), st_ino = ev_inum (ext2_privs s priv),
               st_type = (if v_type (vn s vp) = V_DIR then T_DIR else if v_type (vn s vp) = V_DEV then T_DEVICE else T_FILE),
               st_nlink = i_links_count (ev_ino (ext2_privs s priv)), st_size = ucast (e_size (ev_ino (ext2_privs s priv)))\<rparr>;
     (r, s) \<leftarrow> copyout s (p_pagetable s) addr (put_stat junk st) SIZEOF_STAT;
     Some (if r < 0 then -1 else 0, s)
   }"

text \<open>The loop of \<open>ext2_readdir\<close>.  The length of the entry is read from the buffer after it was released.\<close>

partial_function (option) ext2_readdir_loop ::
    "buffer \<Rightarrow> 'a vfs_scheme \<Rightarrow> u64 \<Rightarrow> u64 \<Rightarrow> u32 \<Rightarrow> (int \<times> 'a vfs_scheme) option" where
  "ext2_readdir_loop junk s dp buf off =
     (if off < e_size (ev_ino (ext2_privs s dp)) then do {
        (blk, s) \<leftarrow> ext2_bmap s dp (off div of_nat BSIZE) False;
        if blk = 0 then Some (-1, s)
        else do {
          let boff = unat off mod BSIZE;
          (bo, s) \<leftarrow> bread s (em_dev (ext2_mounts s (ev_mp (ext2_privs s dp)))) blk;
          (case bo of
             None \<Rightarrow> Some (-1, s)
           | Some bp \<Rightarrow> do {
               let d = bdata s bp;
               s \<leftarrow> brelse s bp;
               if ed_rec_len d boff = 0 then Some (-1, s)
               else if ed_inode d boff \<noteq> 0 then do {
                 let vde = put_vdirent junk (ucast (ed_inode d boff)) (ed_name d boff) (min (ed_name_len d boff) (VDIRSIZ - 1));
                 (r, s) \<leftarrow> copyout s (p_pagetable s) buf vde SIZEOF_VDIRENT;
                 Some (if r < 0 then -1 else sint (off + ucast (ed_rec_len (bdata s bp) boff)), s)
               }
               else ext2_readdir_loop junk s dp buf (off + ucast (ed_rec_len d boff))
             })
        }
      } else Some (-1, s))"

definition ext2_readdir :: "buffer \<Rightarrow> 'a vfs_scheme \<Rightarrow> nat \<Rightarrow> u64 \<Rightarrow> u32 \<Rightarrow> (int \<times> 'a vfs_scheme) option" where
  "ext2_readdir junk s vp buf off = do {
     dp \<leftarrow> priv_of s vp;
     ext2_readdir_loop junk s dp buf off
   }"

text \<open>The scan of \<open>ext2_unlink\<close> for entries other than \<open>.\<close> and \<open>..\<close>; an entry of length 0 makes it run for ever.\<close>

definition ed_dot :: "buffer \<Rightarrow> nat \<Rightarrow> bool" where
  "ed_dot d k \<longleftrightarrow> ed_name_len d k = 1 \<and> ed_name d k 0 = 0x2E
     \<or> ed_name_len d k = 2 \<and> ed_name d k 0 = 0x2E \<and> ed_name d k 1 = 0x2E"

partial_function (option) ext2_empty_loop ::
    "'a vfs_scheme \<Rightarrow> u32 \<Rightarrow> u64 \<Rightarrow> u32 \<Rightarrow> (bool \<times> 'a vfs_scheme) option" where
  "ext2_empty_loop s dev vdp doff =
     (if doff < e_size (ev_ino (ext2_privs s vdp)) then do {
        (dblk, s) \<leftarrow> ext2_bmap s vdp (doff div of_nat BSIZE) False;
        (bo, s) \<leftarrow> bread s dev dblk;
        dbp \<leftarrow> bo;
        let d = bdata s dbp;
        let k = unat doff mod BSIZE;
        s \<leftarrow> brelse s dbp;
        if ed_inode d k \<noteq> 0 \<and> \<not> ed_dot d k then Some (False, s)
        else ext2_empty_loop s dev vdp (doff + ucast (ed_rec_len d k))
      } else Some (True, s))"

text \<open>What \<open>ext2_unlink\<close> does with the entry at offset \<open>k\<close> of the block held in \<open>bp\<close>.\<close>

definition ext2_unlink_entry :: "'a vfs_scheme \<Rightarrow> nat \<Rightarrow> u64 \<Rightarrow> nat \<Rightarrow> nat \<Rightarrow> (int \<times> 'a vfs_scheme) option" where
  "ext2_unlink_entry s dir dp bp k = do {
     let mp = ev_mp (ext2_privs s dp);
     let inum = ed_inode (bdata s bp) k;
     (inoo, s) \<leftarrow> read_inode s mp inum;
     ino \<leftarrow> inoo;
     let is_dir = (i_mode ino AND 0xF000 = 0x4000);
     (go, s) \<leftarrow> (if is_dir then do {
            (v, s) \<leftarrow> ext2_iget s mp inum;
            (case v of
               None \<Rightarrow> Some (False, s)
             | Some vdir \<Rightarrow> do {
                 vdp \<leftarrow> priv_of s vdir;
                 (empty, s) \<leftarrow> ext2_empty_loop s (em_dev (ext2_mounts s mp)) vdp 0;
                 s \<leftarrow> vput s vdir;
                 Some (empty, s)
               })
          } else Some (True, s));
     if \<not> go then do {
       s \<leftarrow> brelse s bp;
       Some (-1, s)
     } else do {
       let s = (if is_dir then upd_ev dp (\<lambda>p. p\<lparr>ev_dirty := True,
                  ev_ino := (ev_ino p)\<lparr>i_links_count := i_links_count (ev_ino p) - 1\<rparr>\<rparr>) s else s);
       s \<leftarrow> bwrite (set_data s bp (put32 (bdata s bp) k 0)) bp;
       s \<leftarrow> brelse s bp;
       let links = i_links_count ino - (if is_dir then 2 else 1);
       let ino = ino\<lparr>i_links_count := links\<rparr>;
       s \<leftarrow> (if links = 0 then do {
              (v, s) \<leftarrow> ext2_iget s mp inum;
              (case v of
                 None \<Rightarrow> Some s
               | Some victim \<Rightarrow> do {
                   vp \<leftarrow> priv_of s victim;
                   let s = upd_ev vp (ev_orphaned_update (\<lambda>_. True)) s;
                   (_, s) \<leftarrow> write_inode s mp inum ino;
                   vput s victim
                 })
            } else do {
              (_, s) \<leftarrow> write_inode s mp inum (ino\<lparr>i_ctime := ticks s\<rparr>);
              Some s
            });
       s \<leftarrow> ext2_writeback s dir;
       Some (0, s)
     }
   }"

text \<open>The loop over one block: the offset of the entry to remove, or the offset of the next block.  Unlike the
  other scans it has no guard against entries of length 0.\<close>

partial_function (option) ext2_unlink_block :: "buffer \<Rightarrow> buffer \<Rightarrow> nat \<Rightarrow> u32 \<Rightarrow> (nat + u32) option" where
  "ext2_unlink_block d name boff off =
     (if boff < BSIZE then
        if ed_inode d boff \<noteq> 0 \<and> ed_matches d boff name then Some (Inl boff)
        else ext2_unlink_block d name (boff + unat (ed_rec_len d boff)) (off + ucast (ed_rec_len d boff))
      else Some (Inr off))"

partial_function (option) ext2_unlink_loop ::
    "'a vfs_scheme \<Rightarrow> nat \<Rightarrow> u64 \<Rightarrow> buffer \<Rightarrow> u32 \<Rightarrow> (int \<times> 'a vfs_scheme) option" where
  "ext2_unlink_loop s dir dp name off =
     (if off < e_size (ev_ino (ext2_privs s dp)) then do {
        (blk, s) \<leftarrow> ext2_bmap s dp (off div of_nat BSIZE) False;
        if blk = 0 then Some (-1, s)
        else do {
          (bo, s) \<leftarrow> bread s (em_dev (ext2_mounts s (ev_mp (ext2_privs s dp)))) blk;
          (case bo of
             None \<Rightarrow> Some (-1, s)
           | Some bp \<Rightarrow> do {
               r \<leftarrow> ext2_unlink_block (bdata s bp) name (unat off mod BSIZE) off;
               (case r of
                  Inl k \<Rightarrow> ext2_unlink_entry s dir dp bp k
                | Inr off \<Rightarrow> do {
                    s \<leftarrow> brelse s bp;
                    ext2_unlink_loop s dir dp name off
                  })
             })
        }
      } else Some (-1, s))"

definition ext2_unlink :: "'a vfs_scheme \<Rightarrow> nat \<Rightarrow> buffer \<Rightarrow> (int \<times> 'a vfs_scheme) option" where
  "ext2_unlink s dir name = do {
     dp \<leftarrow> priv_of s dir;
     ext2_unlink_loop (ext2_update_time s dp False True) dir dp name 0
   }"

text \<open>The name is refused when it exists already.\<close>

definition ext2_absent :: "'a vfs_scheme \<Rightarrow> nat \<Rightarrow> buffer \<Rightarrow> (bool \<times> 'a vfs_scheme) option" where
  "ext2_absent s dir name = do {
     (r, exist, s) \<leftarrow> ext2_dir_lookup s dir name;
     if r = 0 then do {
       e \<leftarrow> exist;
       v \<leftarrow> e;
       s \<leftarrow> vput s v;
       Some (False, s)
     } else Some (True, s)
   }"

text \<open>The directory part of \<open>ext2_create\<close>: the entries \<open>.\<close> and \<open>..\<close>, removed again with the new name on failure.\<close>

definition ext2_dots :: "'a vfs_scheme \<Rightarrow> nat \<Rightarrow> u64 \<Rightarrow> u64 \<Rightarrow> u32 \<Rightarrow> buffer \<Rightarrow> (bool \<times> 'a vfs_scheme) option" where
  "ext2_dots s dir dp mp inum name = do {
     (v, s) \<leftarrow> ext2_iget s mp inum;
     (case v of
        None \<Rightarrow> do {
          (_, s) \<leftarrow> ext2_unlink s dir name;
          Some (False, s)
        }
      | Some newdir \<Rightarrow> do {
          ndp \<leftarrow> priv_of s newdir;
          (r, s) \<leftarrow> ext2_dir_add s newdir (cs [0x2E]) inum 2;
          (r, s) \<leftarrow> (if r < 0 then Some (r, s)
                    else ext2_dir_add s newdir (cs [0x2E, 0x2E]) (ev_inum (ext2_privs s dp)) 2);
          if r < 0 then do {
            s \<leftarrow> vput s newdir;
            (_, s) \<leftarrow> ext2_unlink s dir name;
            Some (False, s)
          } else do {
            let s = upd_ev ndp (\<lambda>p. p\<lparr>ev_ino := (ev_ino p)\<lparr>i_links_count := 2\<rparr>, ev_dirty := True\<rparr>) s;
            s \<leftarrow> vput s newdir;
            Some (True, upd_ev dp (\<lambda>p. p\<lparr>ev_ino := (ev_ino p)\<lparr>i_links_count := i_links_count (ev_ino p) + 1\<rparr>, ev_dirty := True\<rparr>) s)
          }
        })
   }"

definition ext2_create ::
    "'a vfs_scheme \<Rightarrow> nat \<Rightarrow> buffer \<Rightarrow> u32 \<Rightarrow> bool \<Rightarrow> (int \<times> nat option \<times> 'a vfs_scheme) option" where
  "ext2_create s dir name type new = do {
     dp \<leftarrow> priv_of s dir;
     let mp = ev_mp (ext2_privs s dp);
     (ok, s) \<leftarrow> ext2_absent (ext2_update_time s dp False True) dir name;
     if \<not> ok then Some (-1, None, s)
     else do {
       (inum, s) \<leftarrow> ext2_ialloc s mp (if type = V_DIR then 0x4000 else 0x8000);
       if inum = 0 then Some (-1, None, s)
       else do {
         (inoo, s) \<leftarrow> read_inode s mp inum;
         ino \<leftarrow> inoo;
         (_, s) \<leftarrow> write_inode s mp inum (ino\<lparr>i_links_count := 1\<rparr>);
         (r, s) \<leftarrow> ext2_dir_add s dir name inum (if type = V_DIR then 2 else 1);
         if r < 0 then do {
           s \<leftarrow> ext2_ifree s mp inum;
           Some (-1, None, s)
         } else do {
           (ok, s) \<leftarrow> (if type = V_DIR then ext2_dots s dir dp mp inum name else Some (True, s));
           if \<not> ok then Some (-1, None, s)
           else if new then do {
             (v, s) \<leftarrow> ext2_iget s mp inum;
             (case v of
                None \<Rightarrow> Some (-1, None, s)
              | Some nv \<Rightarrow> do {
                  s \<leftarrow> ext2_writeback s nv;
                  s \<leftarrow> ext2_writeback s dir;
                  Some (0, Some nv, s)
                })
           } else do {
             s \<leftarrow> ext2_writeback s dir;
             Some (0, None, s)
           }
         }
       }
     }
   }"

definition ext2_mkdir :: "'a vfs_scheme \<Rightarrow> nat \<Rightarrow> buffer \<Rightarrow> (int \<times> 'a vfs_scheme) option" where
  "ext2_mkdir s dir name = do {
     (r, new, s) \<leftarrow> ext2_create s dir name V_DIR True;
     (case new of
        Some v \<Rightarrow> if r = 0 then do { s \<leftarrow> vput s v; Some (r, s) } else Some (r, s)
      | None \<Rightarrow> Some (r, s))
   }"

definition ext2_link :: "'a vfs_scheme \<Rightarrow> nat \<Rightarrow> buffer \<Rightarrow> nat \<Rightarrow> (int \<times> 'a vfs_scheme) option" where
  "ext2_link s dir name old = do {
     opriv \<leftarrow> priv_of s old;
     dp \<leftarrow> priv_of s dir;
     if i_mode (ev_ino (ext2_privs s opriv)) AND 0xF000 = 0x4000 then Some (-1, s)
     else do {
       (ok, s) \<leftarrow> ext2_absent s dir name;
       if \<not> ok then Some (-1, s)
       else do {
         let s = upd_ev opriv (\<lambda>p. p\<lparr>ev_ino := (ev_ino p)\<lparr>i_links_count := i_links_count (ev_ino p) + 1, i_ctime := ticks s\<rparr>,
                                      ev_dirty := True\<rparr>) s;
         let s = ext2_update_time s dp False True;
         (r, s) \<leftarrow> ext2_dir_add s dir name (ev_inum (ext2_privs s opriv)) 1;
         if r < 0 then
           Some (-1, upd_ev opriv (\<lambda>p. p\<lparr>ev_ino := (ev_ino p)\<lparr>i_links_count := i_links_count (ev_ino p) - 1\<rparr>, ev_dirty := True\<rparr>) s)
         else do {
           s \<leftarrow> ext2_writeback s old;
           s \<leftarrow> ext2_writeback s dir;
           Some (0, s)
         }
       }
     }
   }"

definition ext2_mknod :: "'a vfs_scheme \<Rightarrow> nat \<Rightarrow> buffer \<Rightarrow> int \<Rightarrow> int \<Rightarrow> (int \<times> 'a vfs_scheme) option" where
  "ext2_mknod s dir name major minor = do {
     dp \<leftarrow> priv_of s dir;
     let mp = ev_mp (ext2_privs s dp);
     (ok, s) \<leftarrow> ext2_absent (ext2_update_time s dp False True) dir name;
     if \<not> ok then Some (-1, s)
     else do {
       (inum, s) \<leftarrow> ext2_ialloc s mp 0x2000;
       if inum = 0 then Some (-1, s)
       else do {
         let ino = zero_ext2_inode\<lparr>i_mode := 0x2000, i_links_count := 1,
                     i_block := (i_block zero_ext2_inode)(0 := push_bit 8 (word_of_int major) OR (word_of_int minor AND 0xFF))\<rparr>;
         (_, s) \<leftarrow> write_inode s mp inum ino;
         (r, s) \<leftarrow> ext2_dir_add s dir name inum 3;
         if r < 0 then do {
           s \<leftarrow> ext2_ifree s mp inum;
           Some (-1, s)
         } else do {
           s \<leftarrow> ext2_writeback s dir;
           Some (0, s)
         }
       }
     }
   }"

partial_function (option) ext2_read_kernel_loop ::
    "'a vfs_scheme \<Rightarrow> u64 \<Rightarrow> u64 \<Rightarrow> buffer \<Rightarrow> int \<Rightarrow> u32 \<Rightarrow> int \<Rightarrow> (int option \<times> buffer \<times> 'a vfs_scheme) option" where
  "ext2_read_kernel_loop s priv buf kb n off tot =
     (if tot < n then do {
        (blk, s) \<leftarrow> ext2_bmap s priv (off div of_nat BSIZE) False;
        let boff = off mod of_nat BSIZE;
        let len = ext2_len n tot boff;
        if blk = 0 then
          ext2_read_kernel_loop s priv buf (fill kb (unat (buf + word_of_int tot)) 0 (unat len)) n (off + len) (tot + uint len)
        else do {
          (bo, s) \<leftarrow> bread s (em_dev (ext2_mounts s (ev_mp (ext2_privs s priv)))) blk;
          (case bo of
             None \<Rightarrow> Some (None, kb, s)
           | Some bp \<Rightarrow> do {
               let kb = copy_into kb (unat (buf + word_of_int tot)) (bdata s bp) (unat boff) (unat len);
               s \<leftarrow> brelse s bp;
               ext2_read_kernel_loop s priv buf kb n (off + len) (tot + uint len)
             })
        }
      } else Some (Some tot, kb, s))"

definition ext2_read_kernel ::
    "'a vfs_scheme \<Rightarrow> nat \<Rightarrow> u64 \<Rightarrow> buffer \<Rightarrow> int \<Rightarrow> u32 \<Rightarrow> (int \<times> buffer \<times> 'a vfs_scheme) option" where
  "ext2_read_kernel s vp buf kb n off = do {
     priv \<leftarrow> priv_of s vp;
     let sz = e_size (ev_ino (ext2_privs s priv));
     if off \<ge> sz then Some (0, kb, s)
     else do {
       (r, kb, s) \<leftarrow> ext2_read_kernel_loop s priv buf kb (ext2_clip sz n off) off 0;
       (case r of
          None \<Rightarrow> Some (-1, kb, s)
        | Some tot \<Rightarrow> Some (tot, kb, ext2_update_time s priv True False))
     }
   }"

definition ext2_truncate :: "'a vfs_scheme \<Rightarrow> nat \<Rightarrow> (int \<times> 'a vfs_scheme) option" where
  "ext2_truncate s vp = do {
     priv \<leftarrow> priv_of s vp;
     s \<leftarrow> ext2_i_truncate s priv;
     let s = upd_vnode vp (v_size_update (\<lambda>_. 0)) s;
     let s = ext2_update_time s priv False True;
     s \<leftarrow> ext2_writeback s vp;
     Some (0, s)
   }"

subsection \<open>Mounting\<close>

definition EXT2_MAGIC :: u16 where
  "EXT2_MAGIC = 0xEF53"

definition EXT2_ROOT_INO :: u32 where
  "EXT2_ROOT_INO = 2"

definition ext2_root :: "'a vfs_scheme \<Rightarrow> u64 \<Rightarrow> (nat \<times> 'a vfs_scheme) option" where
  "ext2_root s mp = do {
     r \<leftarrow> mt_root (mounts s mp);
     Some (vget s r)
   }"

definition ext2_mount :: "'a vfs_scheme \<Rightarrow> u32 \<Rightarrow> (u64 \<times> 'a vfs_scheme) option" where
  "ext2_mount s dev = do {
     (bo, s) \<leftarrow> bread s dev 1;
     (case bo of
        None \<Rightarrow> Some (0, s)
      | Some bp \<Rightarrow>
          (case kalloc s of (priv, s) \<Rightarrow>
             if priv = 0 then do {
               s \<leftarrow> brelse s bp;
               Some (0, s)
             } else do {
               let b = bdata s bp;
               s \<leftarrow> brelse s bp;
               if s_magic b \<noteq> EXT2_MAGIC \<or> s_log_block_size b \<noteq> 0 then do {
                 s \<leftarrow> kfree s priv;
                 Some (0, s)
               } else do {
                 let s = upd_em priv (\<lambda>m. m\<lparr>em_sb := b, em_dev := dev,
                           em_inode_size := (if s_inode_size b = 0 then 128 else ucast (s_inode_size b)),
                           em_lock := initsleeplock\<rparr>) s;
                 (bo, s) \<leftarrow> bread s dev 2;
                 (case bo of
                    None \<Rightarrow> do {
                      s \<leftarrow> kfree s priv;
                      Some (0, s)
                    }
                  | Some bp \<Rightarrow> do {
                      let s = upd_em priv (em_bg_update (\<lambda>_. get_bgdesc (bdata s bp))) s;
                      s \<leftarrow> brelse s bp;
                      (case kalloc s of (mp, s) \<Rightarrow>
                         if mp = 0 then do {
                           s \<leftarrow> kfree s priv;
                           Some (0, s)
                         } else do {
                           let s = upd_mount mp (\<lambda>m. m\<lparr>mt_ops := Some EXT2, mt_dev := dev, mt_priv := priv\<rparr>) s;
                           let s = upd_em priv (em_mnt_update (\<lambda>_. mp)) s;
                           (root, s) \<leftarrow> ext2_iget s priv EXT2_ROOT_INO;
                           let s = upd_mount mp (mt_root_update (\<lambda>_. root)) s;
                           if root = None then do {
                             s \<leftarrow> kfree s priv;
                             s \<leftarrow> kfree s mp;
                             Some (0, s)
                           } else Some (mp, s)
                         })
                    })
               }
             }))
   }"

definition ext2_unmount :: "'a vfs_scheme \<Rightarrow> u64 \<Rightarrow> 'a vfs_scheme option" where
  "ext2_unmount s mp = do {
     let priv = mt_priv (mounts s mp);
     s \<leftarrow> (if priv \<noteq> 0 then do {
            root \<leftarrow> mt_root (mounts s mp);
            s \<leftarrow> vput s root;
            kfree s priv
          } else Some s);
     Some (upd_mount mp (\<lambda>m. m\<lparr>mt_priv := 0, mt_root := None, mt_ops := None\<rparr>) s)
   }"

end
