(* ===== verification/Fat32_Core.thy ===== *)
theory Fat32_Core
  imports Vtable
begin

text \<open>
  The lower half of \<^verbatim>\<open>kernel/fat32.c\<close>: sectors, the file allocation table, cluster chains, short and long names.
  A \<open>struct fat32_mount\<close> is named by its address \<open>fm\<close>.  Writes outside the data of a buffer and divisions by
  zero are operations that do not return.
\<close>

definition FAT32_EOC_MIN :: u32 where
  "FAT32_EOC_MIN = 0x0FFFFFF8"

definition FAT32_EOC :: u32 where
  "FAT32_EOC = 0x0FFFFFFF"

definition FAT32_FREE :: u32 where
  "FAT32_FREE = 0"

definition ATTR_DIRECTORY :: byte where
  "ATTR_DIRECTORY = 0x10"

definition ATTR_ARCHIVE :: byte where
  "ATTR_ARCHIVE = 0x20"

definition ATTR_LONG_NAME :: byte where
  "ATTR_LONG_NAME = 0x01 OR 0x02 OR 0x04 OR 0x08"

definition LFN_LAST :: byte where
  "LFN_LAST = 0x40"

abbreviation fmt :: "'a vfs_scheme \<Rightarrow> u64 \<Rightarrow> fat32_mount" where
  "fmt s fm \<equiv> fat32_mounts s fm"

subsection \<open>Sectors\<close>

text \<open>The block that holds a sector, and the offset of byte \<open>off\<close> of the sector in it.\<close>

definition sec_block :: "fat32_mount \<Rightarrow> u32 \<Rightarrow> u32" where
  "sec_block m sec = sec div fm_spb m"

definition sec_byte :: "fat32_mount \<Rightarrow> u32 \<Rightarrow> u32 \<Rightarrow> u32" where
  "sec_byte m sec off = sec mod fm_spb m * ucast (fm_bps m) + off"

text \<open>\<open>sread\<close> returns the bytes from offset \<open>off\<close> of the sector on, or \<^const>\<open>None\<close> for \<open>-1\<close>.\<close>

definition sread :: "'a vfs_scheme \<Rightarrow> u64 \<Rightarrow> u32 \<Rightarrow> u32 \<Rightarrow> (buffer option \<times> 'a vfs_scheme) option" where
  "sread s fm sec off = do {
     (bo, s) \<leftarrow> bread s (fm_dev (fmt s fm)) (sec_block (fmt s fm) sec);
     (case bo of
        None \<Rightarrow> Some (None, s)
      | Some bp \<Rightarrow> do {
          let d = bdata s bp;
          let k = unat (sec_byte (fmt s fm) sec off);
          s \<leftarrow> brelse s bp;
          Some (Some (\<lambda>i. d (k + i)), s)
        })
   }"

definition swrite :: "'a vfs_scheme \<Rightarrow> u64 \<Rightarrow> u32 \<Rightarrow> u32 \<Rightarrow> buffer \<Rightarrow> nat \<Rightarrow> (int \<times> 'a vfs_scheme) option" where
  "swrite s fm sec off buf n = do {
     let m = fmt s fm;
     (bo, s) \<leftarrow> bread s (fm_dev m) (sec_block m sec);
     (case bo of
        None \<Rightarrow> Some (-1, s)
      | Some bp \<Rightarrow> do {
          let k = unat (sec_byte m sec off);
          ensure (k + n \<le> BSIZE) ''outside the block'';
          s \<leftarrow> bwrite (set_data s bp (copy_into (bdata s bp) k buf 0 n)) bp;
          s \<leftarrow> (if 1 < fm_num_fats m \<and> fm_rsvd_sec_cnt m \<le> sec \<and> sec < fm_rsvd_sec_cnt m + fm_fat_sz m then do {
                 let s2 = sec + fm_fat_sz m;
                 (bo2, s) \<leftarrow> bread s (fm_dev m) (sec_block m s2);
                 (case bo2 of
                    None \<Rightarrow> Some s
                  | Some bp2 \<Rightarrow> do {
                      let k2 = unat (sec_byte m s2 off);
                      ensure (k2 + n \<le> BSIZE) ''outside the block'';
                      s \<leftarrow> bwrite (set_data s bp2 (copy_into (bdata s bp2) k2 buf 0 n)) bp2;
                      brelse s bp2
                    })
               } else Some s);
          s \<leftarrow> brelse s bp;
          Some (0, s)
        })
   }"

subsection \<open>The file allocation table\<close>

definition clus_to_sec :: "fat32_mount \<Rightarrow> u32 \<Rightarrow> u32" where
  "clus_to_sec m c = (c - 2) * ucast (fm_sec_per_clus m) + fm_first_data_sec m"

text \<open>Sector and offset of the entry of cluster \<open>c\<close>.\<close>

definition fat_sec :: "fat32_mount \<Rightarrow> u32 \<Rightarrow> u32" where
  "fat_sec m c = fm_rsvd_sec_cnt m + c * 4 div ucast (fm_bps m)"

definition fat_off :: "fat32_mount \<Rightarrow> u32 \<Rightarrow> u32" where
  "fat_off m c = c * 4 mod ucast (fm_bps m)"

definition read_fat :: "'a vfs_scheme \<Rightarrow> u64 \<Rightarrow> u32 \<Rightarrow> (u32 \<times> 'a vfs_scheme) option" where
  "read_fat s fm c = do {
     let m = fmt s fm;
     (bo, s) \<leftarrow> bread s (fm_dev m) (sec_block m (fat_sec m c));
     bp \<leftarrow> bo;
     let v = le32 (bdata s bp) (unat (sec_byte m (fat_sec m c) (fat_off m c))) AND 0x0FFFFFFF;
     s \<leftarrow> brelse s bp;
     Some (v, s)
   }"

definition set_fat_entry :: "buffer \<Rightarrow> nat \<Rightarrow> u32 \<Rightarrow> buffer" where
  "set_fat_entry d k v = put32 d k (le32 d k AND 0xF0000000 OR v AND 0x0FFFFFFF)"

definition write_fat :: "'a vfs_scheme \<Rightarrow> u64 \<Rightarrow> u32 \<Rightarrow> u32 \<Rightarrow> 'a vfs_scheme option" where
  "write_fat s fm c v = do {
     let m = fmt s fm;
     (bo, s) \<leftarrow> bread s (fm_dev m) (sec_block m (fat_sec m c));
     (case bo of
        None \<Rightarrow> Some s
      | Some bp \<Rightarrow> do {
          s \<leftarrow> bwrite (set_data s bp (set_fat_entry (bdata s bp) (unat (sec_byte m (fat_sec m c) (fat_off m c))) v)) bp;
          s \<leftarrow> (if 1 < fm_num_fats m then do {
                 let s2 = fat_sec m c + fm_fat_sz m;
                 (bo2, s) \<leftarrow> bread s (fm_dev m) (sec_block m s2);
                 (case bo2 of
                    None \<Rightarrow> Some s
                  | Some bp2 \<Rightarrow> do {
                      s \<leftarrow> bwrite (set_data s bp2 (set_fat_entry (bdata s bp2) (unat (sec_byte m s2 (fat_off m c))) v)) bp2;
                      brelse s bp2
                    })
               } else Some s);
          brelse s bp
        })
   }"

definition acquire_fm :: "'a vfs_scheme \<Rightarrow> u64 \<Rightarrow> 'a vfs_scheme option" where
  "acquire_fm s fm = do {
     lk \<leftarrow> acquiresleep (p_pid s) (fm_lock (fmt s fm));
     Some (upd_fm fm (fm_lock_update (\<lambda>_. lk)) s)
   }"

definition release_fm :: "'a vfs_scheme \<Rightarrow> u64 \<Rightarrow> 'a vfs_scheme" where
  "release_fm s fm = upd_fm fm (fm_lock_update releasesleep) s"

text \<open>The search of \<open>alloc_clus\<close> from cluster \<open>c\<close>, for \<open>k\<close> more clusters.\<close>

fun alloc_clus_loop :: "'a vfs_scheme \<Rightarrow> u64 \<Rightarrow> u32 \<Rightarrow> nat \<Rightarrow> (u32 \<times> 'a vfs_scheme) option" where
  "alloc_clus_loop s fm c 0 = Some (0, s)"
| "alloc_clus_loop s fm c (Suc k) = do {
     (v, s) \<leftarrow> read_fat s fm c;
     if v = FAT32_FREE then do {
       s \<leftarrow> write_fat s fm c FAT32_EOC;
       Some (c, s)
     } else alloc_clus_loop s fm (c + 1) k
   }"

definition alloc_clus :: "'a vfs_scheme \<Rightarrow> u64 \<Rightarrow> (u32 \<times> 'a vfs_scheme) option" where
  "alloc_clus s fm = do {
     s \<leftarrow> acquire_fm s fm;
     (c, s) \<leftarrow> alloc_clus_loop s fm 2 (unat (fm_tot_clus (fmt s fm) + 2) - 2);
     Some (c, release_fm s fm)
   }"

definition in_chain :: "u32 \<Rightarrow> bool" where
  "in_chain c \<longleftrightarrow> 2 \<le> c \<and> c < FAT32_EOC_MIN"

partial_function (option) free_chain_loop :: "'a vfs_scheme \<Rightarrow> u64 \<Rightarrow> u32 \<Rightarrow> 'a vfs_scheme option" where
  "free_chain_loop s fm c =
     (if in_chain c then do {
        (n, s) \<leftarrow> read_fat s fm c;
        s \<leftarrow> write_fat s fm c FAT32_FREE;
        if n \<ge> FAT32_EOC_MIN then Some s else free_chain_loop s fm n
      } else Some s)"

definition free_chain :: "'a vfs_scheme \<Rightarrow> u64 \<Rightarrow> u32 \<Rightarrow> 'a vfs_scheme option" where
  "free_chain s fm c = do {
     s \<leftarrow> acquire_fm s fm;
     s \<leftarrow> free_chain_loop s fm c;
     Some (release_fm s fm)
   }"

text \<open>Walking \<open>k\<close> links from cluster \<open>c\<close>: the cluster reached, and whether the chain was long enough.\<close>

fun chain_walk :: "'a vfs_scheme \<Rightarrow> u64 \<Rightarrow> u32 \<Rightarrow> nat \<Rightarrow> (u32 \<times> bool \<times> 'a vfs_scheme) option" where
  "chain_walk s fm c 0 = Some (c, True, s)"
| "chain_walk s fm c (Suc k) = do {
     (nx, s) \<leftarrow> read_fat s fm c;
     if nx \<ge> FAT32_EOC_MIN then Some (c, False, s) else chain_walk s fm nx k
   }"

definition clus_bytes :: "fat32_mount \<Rightarrow> u32" where
  "clus_bytes m = ucast (fm_sec_per_clus m) * ucast (fm_bps m)"

text \<open>The slot at byte offset \<open>off\<close> of the directory that starts at cluster \<open>c\<close>: sector, offset in the sector, and
  whether the chain reaches it.\<close>

definition dir_slot :: "'a vfs_scheme \<Rightarrow> u64 \<Rightarrow> u32 \<Rightarrow> u32 \<Rightarrow> (u32 \<times> u32 \<times> bool \<times> 'a vfs_scheme) option" where
  "dir_slot s fm c off = do {
     let m = fmt s fm;
     let epc = clus_bytes m div 32;
     ensure (epc \<noteq> 0 \<and> fm_bps m \<noteq> 0) ''division by zero'';
     (cluster, ok, s) \<leftarrow> chain_walk s fm c (unat (off div (epc * 32)));
     let bo = off mod clus_bytes m;
     Some (clus_to_sec m cluster + bo div ucast (fm_bps m), bo mod ucast (fm_bps m), ok, s)
   }"

subsection \<open>Short names\<close>

definition up_case :: "byte \<Rightarrow> byte" where
  "up_case c = (if 0x61 \<le> c \<and> c \<le> 0x7A then c - 32 else c)"

definition low_case :: "byte \<Rightarrow> byte" where
  "low_case c = (if 0x41 \<le> c \<and> c \<le> 0x5A then c + 32 else c)"

text \<open>The position of the first dot of a string.\<close>

partial_function (option) find_dot :: "buffer \<Rightarrow> nat \<Rightarrow> nat option option" where
  "find_dot nm i = (if nm i = 0 then Some None else if nm i = 0x2E then Some (Some i) else find_dot nm (i + 1))"

text \<open>The number of characters, at most \<open>k\<close>, before a character that satisfies \<open>P\<close>.\<close>

fun span_len :: "(byte \<Rightarrow> bool) \<Rightarrow> buffer \<Rightarrow> nat \<Rightarrow> nat \<Rightarrow> nat" where
  "span_len P nm i 0 = 0"
| "span_len P nm i (Suc k) = (if P (nm i) then 0 else Suc (span_len P nm (Suc i) k))"

definition name83 :: "buffer \<Rightarrow> buffer option" where
  "name83 nm = do {
     let n = span_len (\<lambda>c. c = 0 \<or> c = 0x2E) nm 0 8;
     let o' = (\<lambda>i. if i < n then up_case (nm i) else 0x20);
     dot \<leftarrow> find_dot nm 0;
     Some (case dot of
        None \<Rightarrow> o'
      | Some k \<Rightarrow> if nm (k + 1) = 0 then o'
          else (\<lambda>i. if 8 \<le> i \<and> i < 8 + span_len (\<lambda>c. c = 0) nm (k + 1) 3 then up_case (nm (k + 1 + (i - 8))) else o' i))
   }"

definition ncmp :: "buffer \<Rightarrow> buffer \<Rightarrow> int option" where
  "ncmp nm n = do {
     b \<leftarrow> name83 nm;
     Some (memcmp b n 11)
   }"

fun ncasecmp :: "buffer \<Rightarrow> buffer \<Rightarrow> nat \<Rightarrow> nat \<Rightarrow> int" where
  "ncasecmp a b i 0 = 0"
| "ncasecmp a b i (Suc k) =
     (let ca = low_case (a i); cb = low_case (b i) in
      if ca \<noteq> cb then uint ca - uint cb else if ca = 0 then 0 else ncasecmp a b (Suc i) k)"

text \<open>The short name as users see it: lower case, with a dot before the extension.\<close>

definition short_to_name :: "buffer \<Rightarrow> cstring" where
  "short_to_name sn =
     map (\<lambda>i. low_case (sn i)) [0..<span_len (\<lambda>c. c = 0x20) sn 0 8]
     @ (if sn 8 \<noteq> 0x20 then 0x2E # map (\<lambda>i. low_case (sn (8 + i))) [0..<span_len (\<lambda>c. c = 0x20) sn 8 3] else [])"

definition fits_83 :: "buffer \<Rightarrow> bool option" where
  "fits_83 name = do {
     len \<leftarrow> strlen name;
     if len = 0 then Some False
     else do {
       sn \<leftarrow> name83 name;
       Some (\<forall>i<len. low_case (name i) = cs (short_to_name sn) i)
     }
   }"

text \<open>Up to six letters and digits of the name, in upper case.\<close>

partial_function (option) gen_base :: "buffer \<Rightarrow> nat \<Rightarrow> cstring \<Rightarrow> cstring option" where
  "gen_base name i acc =
     (if name i = 0 \<or> 6 \<le> length acc then Some acc
      else
        (let c = up_case (name i) in
         if name i \<noteq> 0x2E \<and> (0x41 \<le> c \<and> c \<le> 0x5A \<or> 0x30 \<le> c \<and> c \<le> 0x39)
         then gen_base name (i + 1) (acc @ [c]) else gen_base name (i + 1) acc))"

definition gen_short_name :: "buffer \<Rightarrow> int \<Rightarrow> buffer option" where
  "gen_short_name name tail = do {
     base \<leftarrow> gen_base name 0 [];
     let tmp = base @ replicate (6 - length base) 0x5F;
     let ti = (if tail \<ge> 100 then 99 else tail);
     let sn = (\<lambda>i. if i < 6 then tmp ! i else 0x20);
     Some (if ti \<ge> 10
       then sn(6 := 0x7E, 7 := 0x30 + word_of_int (ti div 10), 8 := 0x30 + word_of_int (ti mod 10))
       else sn(6 := 0x7E, 7 := 0x30 + word_of_int ti))
   }"

subsection \<open>Long names\<close>

fun lfn_checksum_loop :: "buffer \<Rightarrow> nat \<Rightarrow> nat \<Rightarrow> byte \<Rightarrow> byte" where
  "lfn_checksum_loop sn i 0 acc = acc"
| "lfn_checksum_loop sn i (Suc k) acc =
     lfn_checksum_loop sn (Suc i) k (push_bit 7 (acc AND 1) + drop_bit 1 acc + sn i)"

definition lfn_checksum :: "buffer \<Rightarrow> byte" where
  "lfn_checksum sn = lfn_checksum_loop sn 0 11 0"

definition LFN_CHARS_PER_ENTRY :: nat where
  "LFN_CHARS_PER_ENTRY = 13"

definition lfn_entries_needed :: "nat \<Rightarrow> nat" where
  "lfn_entries_needed namelen = (if namelen = 0 then 0 else (namelen + LFN_CHARS_PER_ENTRY - 1) div LFN_CHARS_PER_ENTRY)"

text \<open>Fields of the 32 bytes of a \<open>struct fat32_dirent\<close> and a \<open>struct fat32_lfn\<close>.\<close>

definition dir_attr :: "buffer \<Rightarrow> byte" where
  "dir_attr d = d 11"

definition dir_clus :: "buffer \<Rightarrow> u32" where
  "dir_clus d = push_bit 16 (ucast (le16 d 20)) OR ucast (le16 d 26)"

definition dir_size :: "buffer \<Rightarrow> u32" where
  "dir_size d = le32 d 28"

definition put_dirent :: "buffer \<Rightarrow> u32 \<Rightarrow> buffer" where
  "put_dirent d c = put16 (put16 d 20 (ucast (drop_bit 16 c AND 0xFFFF))) 26 (ucast (c AND 0xFFFF))"

definition lfn_seq :: "buffer \<Rightarrow> nat" where
  "lfn_seq d = unat (d 0 AND NOT LFN_LAST)"

definition lfn_last :: "buffer \<Rightarrow> bool" where
  "lfn_last d \<longleftrightarrow> d 0 AND LFN_LAST \<noteq> 0"

definition lfn_cksum_of :: "buffer \<Rightarrow> byte" where
  "lfn_cksum_of d = d 13"

definition lfn_char :: "buffer \<Rightarrow> nat \<Rightarrow> u16" where
  "lfn_char d i = (if i < 5 then le16 d (1 + 2 * i) else if i < 11 then le16 d (14 + 2 * (i - 5)) else le16 d (28 + 2 * (i - 11)))"

text \<open>The 13 characters of an entry go to \<open>lfn_buf\<close> at \<open>base\<close>, as far as they fit in its 260 elements.\<close>

definition lfn_store :: "(nat \<Rightarrow> u16) \<Rightarrow> nat \<Rightarrow> buffer \<Rightarrow> nat \<Rightarrow> u16" where
  "lfn_store b base d = (\<lambda>j. if base \<le> j \<and> j < base + 13 \<and> j < 260 then lfn_char d (j - base) else b j)"

text \<open>The ASCII characters of the long name, for at most \<open>k\<close> more elements and up to 255 characters.\<close>

fun lfn_string :: "(nat \<Rightarrow> u16) \<Rightarrow> nat \<Rightarrow> nat \<Rightarrow> cstring \<Rightarrow> cstring" where
  "lfn_string b i 0 acc = acc"
| "lfn_string b i (Suc k) acc =
     (if 255 \<le> length acc \<or> b i = 0 \<or> b i = 0xFFFF then acc
      else lfn_string b (Suc i) k (if b i < 128 then acc @ [ucast (b i)] else acc))"

text \<open>The 32 bytes of the entry with sequence number \<open>seq\<close>, taken from the characters \<open>uname\<close> at \<open>base\<close>.\<close>

definition mk_lfn :: "byte \<Rightarrow> byte \<Rightarrow> (nat \<Rightarrow> u16) \<Rightarrow> nat \<Rightarrow> buffer" where
  "mk_lfn seq ck uname base =
     (\<lambda>i. if i = 0 then seq else if i = 11 then ATTR_LONG_NAME else if i = 13 then ck
          else if 1 \<le> i \<and> i < 11 then ucast (drop_bit (8 * ((i - 1) mod 2)) (uname (base + (i - 1) div 2)))
          else if 14 \<le> i \<and> i < 26 then ucast (drop_bit (8 * (i mod 2)) (uname (base + 5 + (i - 14) div 2)))
          else if 28 \<le> i \<and> i < 32 then ucast (drop_bit (8 * (i mod 2)) (uname (base + 11 + (i - 28) div 2)))
          else 0)"

definition lfn_uname :: "buffer \<Rightarrow> nat \<Rightarrow> nat \<Rightarrow> nat \<Rightarrow> u16" where
  "lfn_uname name namelen total_chars =
     (\<lambda>i. if i < min namelen total_chars then ucast (name i) else if i = min namelen total_chars then 0 else 0xFFFF)"

end
