(* ===== verification/Fat32.thy ===== *)
theory Fat32
  imports Fat32_Core
begin

text \<open>
  The upper half of \<^verbatim>\<open>kernel/fat32.c\<close>: directories with long names and the operations of the \<open>fat32_vnops\<close>
  table.  The bytes that local arrays hold before they are written are the parameter \<open>junk\<close>.
\<close>

definition fat_priv :: "'a vfs_scheme \<Rightarrow> nat \<Rightarrow> u64 option" where
  "fat_priv s vp = (if v_priv (vn s vp) = 0 then None else Some (v_priv (vn s vp)))"

abbreviation fvt :: "'a vfs_scheme \<Rightarrow> u64 \<Rightarrow> fat32_vnode" where
  "fvt s fv \<equiv> fat32_privs s fv"

subsection \<open>Walking a directory\<close>

text \<open>
  The three nested loops over the 32-byte slots of a directory, which \<open>shortname_exists\<close>, \<open>dlookup\<close>, \<open>dfree\<close>,
  \<open>freaddir\<close> and \<open>funlink\<close> repeat: the slots of a sector from byte \<open>b\<close> on, the sectors of a cluster, the clusters of
  the chain.  The body gets the sector, the offset in it and the offset \<open>pos\<close> in the directory; it returns
  \<open>Inl\<close> to leave the loops with a result and \<open>Inr\<close> to go on.  The first \<open>skip\<close> bytes of the first sector
  are left out.
\<close>

type_synonym ('s, 'r, 'c) slot_body = "'s \<Rightarrow> u32 \<Rightarrow> u32 \<Rightarrow> u32 \<Rightarrow> 'c \<Rightarrow> (('r + 'c) \<times> 's) option"

fun walk_sector :: "('a vfs_scheme, 'r, 'c) slot_body \<Rightarrow> 'a vfs_scheme \<Rightarrow> u32 \<Rightarrow> u32 \<Rightarrow> u32 \<Rightarrow> 'c \<Rightarrow> nat \<Rightarrow>
    (('r + u32 \<times> 'c) \<times> 'a vfs_scheme) option" where
  "walk_sector f s sec b pos acc 0 = Some (Inr (pos, acc), s)"
| "walk_sector f s sec b pos acc (Suc k) = do {
     (r, s) \<leftarrow> f s sec b pos acc;
     (case r of
        Inl r \<Rightarrow> Some (Inl r, s)
      | Inr acc \<Rightarrow> walk_sector f s sec (b + 32) (pos + 32) acc k)
   }"

definition sector_slots :: "fat32_mount \<Rightarrow> u32 \<Rightarrow> nat" where
  "sector_slots m b = (unat (fm_bps m) - unat b + 31) div 32"

fun walk_cluster :: "('a vfs_scheme, 'r, 'c) slot_body \<Rightarrow> 'a vfs_scheme \<Rightarrow> u64 \<Rightarrow> u32 \<Rightarrow> u32 \<Rightarrow> u32 \<Rightarrow> 'c \<Rightarrow> nat \<Rightarrow>
    (('r + u32 \<times> 'c) \<times> 'a vfs_scheme) option" where
  "walk_cluster f s fm sec skip pos acc 0 = Some (Inr (pos, acc), s)"
| "walk_cluster f s fm sec skip pos acc (Suc k) = do {
     (r, s) \<leftarrow> walk_sector f s sec skip pos acc (sector_slots (fmt s fm) skip);
     (case r of
        Inl r \<Rightarrow> Some (Inl r, s)
      | Inr (pos, acc) \<Rightarrow> walk_cluster f s fm (sec + 1) 0 pos acc k)
   }"

partial_function (option) walk_chain :: "('a vfs_scheme, 'r, 'c) slot_body \<Rightarrow> 'a vfs_scheme \<Rightarrow> u64 \<Rightarrow> u32 \<Rightarrow> u32 \<Rightarrow> u32 \<Rightarrow> 'c \<Rightarrow>
    (('r + u32 \<times> 'c) \<times> 'a vfs_scheme) option" where
  "walk_chain f s fm c skip pos acc =
     (if in_chain c then do {
        (r, s) \<leftarrow> walk_cluster f s fm (clus_to_sec (fmt s fm) c) skip pos acc (unat (fm_sec_per_clus (fmt s fm)));
        (case r of
           Inl r \<Rightarrow> Some (Inl r, s)
         | Inr (pos, acc) \<Rightarrow> do {
             (c, s) \<leftarrow> read_fat s fm c;
             walk_chain f s fm c 0 pos acc
           })
      } else Some (Inr (pos, acc), s))"

subsection \<open>Looking up names\<close>

definition shortname_body :: "u64 \<Rightarrow> buffer \<Rightarrow> ('a vfs_scheme, bool, unit) slot_body" where
  "shortname_body fm sn s sec b pos acc = do {
     (d, s) \<leftarrow> sread s fm sec b;
     (case d of
        None \<Rightarrow> Some (Inl False, s)
      | Some d \<Rightarrow>
          if d 0 = 0 then Some (Inl False, s)
          else if d 0 = 0xE5 then Some (Inr (), s)
          else do {
            (d, s) \<leftarrow> sread s fm sec b;
            (case d of
               None \<Rightarrow> Some (Inl False, s)
             | Some d \<Rightarrow>
                 if dir_attr d = ATTR_LONG_NAME then Some (Inr (), s)
                 else if memcmp d sn 11 = 0 then Some (Inl True, s)
                 else Some (Inr (), s))
          })
   }"

definition shortname_exists :: "'a vfs_scheme \<Rightarrow> nat \<Rightarrow> buffer \<Rightarrow> (bool \<times> 'a vfs_scheme) option" where
  "shortname_exists s dir sn = do {
     dv \<leftarrow> fat_priv s dir;
     if fv_attrs (fvt s dv) AND ATTR_DIRECTORY = 0 then Some (False, s)
     else do {
       (r, s) \<leftarrow> walk_chain (shortname_body (fv_fm (fvt s dv)) sn) s (fv_fm (fvt s dv)) (fv_first_clus (fvt s dv)) 0 0 ();
       Some (case r of Inl r \<Rightarrow> r | Inr _ \<Rightarrow> False, s)
     }
   }"

text \<open>The long name that \<open>dlookup\<close> collects.  A sequence number 0 would index the array below its start.\<close>

record lfn_acc =
  lfn_buf :: "nat \<Rightarrow> u16"
  lfn_chars :: nat
  lfn_cksum :: byte
  lfn_active :: bool
  lfn_next :: int

definition lfn_reset :: "lfn_acc \<Rightarrow> lfn_acc" where
  "lfn_reset a = a\<lparr>lfn_chars := 0, lfn_active := False\<rparr>"

definition lfn_collect :: "lfn_acc \<Rightarrow> buffer \<Rightarrow> lfn_acc option" where
  "lfn_collect a d =
     (let seq = lfn_seq d; base = (seq - 1) * LFN_CHARS_PER_ENTRY in
      if lfn_last d then do {
        ensure (1 \<le> seq) ''outside the array'';
        Some (a\<lparr>lfn_active := True, lfn_cksum := lfn_cksum_of d, lfn_next := int seq - 1,
          lfn_chars := seq * LFN_CHARS_PER_ENTRY, lfn_buf := lfn_store (lfn_buf a) base d\<rparr>)
      }
      else if lfn_active a \<and> lfn_cksum_of d = lfn_cksum a \<and> int seq = lfn_next a then do {
        ensure (1 \<le> seq) ''outside the array'';
        Some (a\<lparr>lfn_buf := lfn_store (lfn_buf a) base d, lfn_next := lfn_next a - 1\<rparr>)
      }
      else Some (lfn_reset a))"

definition lfn_matches :: "lfn_acc \<Rightarrow> buffer \<Rightarrow> buffer \<Rightarrow> bool" where
  "lfn_matches a d nm \<longleftrightarrow> lfn_active a \<and> 0 < lfn_chars a \<and> lfn_checksum d = lfn_cksum a
     \<and> ncasecmp nm (cs (lfn_string (lfn_buf a) 0 (lfn_chars a) [])) 0 256 = 0"

definition dot_matches :: "buffer \<Rightarrow> buffer \<Rightarrow> bool" where
  "dot_matches nm d \<longleftrightarrow> nm 0 = 0x2E \<and> nm 1 = 0 \<and> d 0 = 0x2E \<and> d 1 = 0x20
     \<or> nm 0 = 0x2E \<and> nm 1 = 0x2E \<and> nm 2 = 0 \<and> d 0 = 0x2E \<and> d 1 = 0x2E"

text \<open>A match gives the entry and its offset; \<open>Inl None\<close> is the return of \<open>-1\<close> from inside the loops.\<close>

definition dlookup_body :: "u64 \<Rightarrow> buffer \<Rightarrow> ('a vfs_scheme, (buffer \<times> u32) option, lfn_acc) slot_body" where
  "dlookup_body fm nm s sec b pos a = do {
     (d, s) \<leftarrow> sread s fm sec b;
     (case d of
        None \<Rightarrow> Some (Inl None, s)
      | Some d \<Rightarrow>
          if d 0 = 0 then Some (Inl None, s)
          else if d 0 = 0xE5 then Some (Inr (lfn_reset a), s)
          else do {
            (d, s) \<leftarrow> sread s fm sec b;
            (case d of
               None \<Rightarrow> Some (Inl None, s)
             | Some d \<Rightarrow>
                 if dir_attr d = ATTR_LONG_NAME then do {
                   a \<leftarrow> lfn_collect a d;
                   Some (Inr a, s)
                 }
                 else if lfn_matches a d nm \<or> dot_matches nm d then Some (Inl (Some (d, pos)), s)
                 else do {
                   r \<leftarrow> ncmp nm d;
                   if r = 0 then Some (Inl (Some (d, pos)), s) else Some (Inr (lfn_reset a), s)
                 })
          })
   }"

definition dlookup :: "(nat \<Rightarrow> u16) \<Rightarrow> 'a vfs_scheme \<Rightarrow> nat \<Rightarrow> buffer \<Rightarrow> ((buffer \<times> u32) option \<times> 'a vfs_scheme) option" where
  "dlookup junk s dir nm = do {
     dv \<leftarrow> fat_priv s dir;
     if fv_attrs (fvt s dv) AND ATTR_DIRECTORY = 0 then Some (None, s)
     else do {
       (r, s) \<leftarrow> walk_chain (dlookup_body (fv_fm (fvt s dv)) nm) s (fv_fm (fvt s dv)) (fv_first_clus (fvt s dv)) 0 0
                   \<lparr>lfn_buf = junk, lfn_chars = 0, lfn_cksum = 0, lfn_active = False, lfn_next = 0\<rparr>;
       Some (case r of Inl r \<Rightarrow> r | Inr _ \<Rightarrow> None, s)
     }
   }"

subsection \<open>Free slots\<close>

fun zero_cluster :: "'a vfs_scheme \<Rightarrow> u64 \<Rightarrow> u32 \<Rightarrow> nat \<Rightarrow> 'a vfs_scheme option" where
  "zero_cluster s fm sec 0 = Some s"
| "zero_cluster s fm sec (Suc k) = do {
     (_, s) \<leftarrow> swrite s fm sec 0 (\<lambda>_. 0) 512;
     zero_cluster s fm (sec + 1) k
   }"

partial_function (option) last_clus :: "'a vfs_scheme \<Rightarrow> u64 \<Rightarrow> u32 \<Rightarrow> (u32 \<times> 'a vfs_scheme) option" where
  "last_clus s fm c =
     (if in_chain c then do {
        (nx, s) \<leftarrow> read_fat s fm c;
        if nx \<ge> FAT32_EOC_MIN then Some (c, s) else last_clus s fm nx
      } else Some (c, s))"

text \<open>The run of free slots: its length and where it starts.\<close>

definition dfree_body :: "u64 \<Rightarrow> nat \<Rightarrow> ('a vfs_scheme, u32 option, nat \<times> u32) slot_body" where
  "dfree_body fm needed s sec b pos acc = do {
     (d, s) \<leftarrow> sread s fm sec b;
     (case d of
        None \<Rightarrow> Some (Inl None, s)
      | Some d \<Rightarrow>
          if d 0 = 0 \<or> d 0 = 0xE5 then
            (let first_free = (if fst acc = 0 then pos else snd acc); consec = Suc (fst acc) in
             if consec \<ge> needed then Some (Inl (Some first_free), s) else Some (Inr (consec, first_free), s))
          else Some (Inr (0, snd acc), s))
   }"

definition dfree :: "'a vfs_scheme \<Rightarrow> nat \<Rightarrow> nat \<Rightarrow> (u32 option \<times> 'a vfs_scheme) option" where
  "dfree s dir lfn_cnt = do {
     dv \<leftarrow> fat_priv s dir;
     let fm = fv_fm (fvt s dv);
     let c = fv_first_clus (fvt s dv);
     (r, s) \<leftarrow> walk_chain (dfree_body fm (lfn_cnt + 1)) s fm c 0 0 (0, 0);
     (case r of
        Inl r \<Rightarrow> Some (r, s)
      | Inr (pos, _) \<Rightarrow>
          if c = 0 then do {
            (newc, s) \<leftarrow> alloc_clus s fm;
            if newc = 0 then Some (None, s)
            else do {
              let s = upd_fv dv (fv_first_clus_update (\<lambda>_. newc)) s;
              s \<leftarrow> write_fat s fm newc FAT32_EOC;
              s \<leftarrow> zero_cluster s fm (clus_to_sec (fmt s fm) newc) (unat (fm_sec_per_clus (fmt s fm)));
              Some (Some 0, s)
            }
          } else do {
            (c, s) \<leftarrow> last_clus s fm c;
            (newc, s) \<leftarrow> alloc_clus s fm;
            if newc = 0 then Some (None, s)
            else do {
              s \<leftarrow> write_fat s fm c newc;
              s \<leftarrow> write_fat s fm newc FAT32_EOC;
              s \<leftarrow> zero_cluster s fm (clus_to_sec (fmt s fm) newc) (unat (fm_sec_per_clus (fmt s fm)));
              Some (Some pos, upd_fv dv (fv_dirty_update (\<lambda>_. True)) s)
            }
          })
   }"

subsection \<open>Writing entries\<close>

definition dwrite_raw :: "'a vfs_scheme \<Rightarrow> nat \<Rightarrow> u32 \<Rightarrow> buffer \<Rightarrow> nat \<Rightarrow> (int \<times> 'a vfs_scheme) option" where
  "dwrite_raw s dir off entry len = do {
     dv \<leftarrow> fat_priv s dir;
     let fm = fv_fm (fvt s dv);
     (sec, b, ok, s) \<leftarrow> dir_slot s fm (fv_first_clus (fvt s dv)) off;
     if \<not> ok then Some (-1, s) else swrite s fm sec b entry len
   }"

definition dwrite :: "'a vfs_scheme \<Rightarrow> nat \<Rightarrow> u32 \<Rightarrow> buffer \<Rightarrow> (int \<times> 'a vfs_scheme) option" where
  "dwrite s dir off de = dwrite_raw s dir off de 32"

definition sync_dirent :: "'a vfs_scheme \<Rightarrow> nat \<Rightarrow> (int \<times> 'a vfs_scheme) option" where
  "sync_dirent s vp =
     (let fv = v_priv (vn s vp) in
      if fv = 0 \<or> fv_pdir_clus (fvt s fv) = 0 then Some (0, s)
      else do {
        let fm = fv_fm (fvt s fv);
        (sec, b, ok, s) \<leftarrow> dir_slot s fm (fv_pdir_clus (fvt s fv)) (fv_dent_off (fvt s fv));
        if \<not> ok then Some (-1, s)
        else do {
          (d, s) \<leftarrow> sread s fm sec b;
          (case d of
             None \<Rightarrow> Some (-1, s)
           | Some de \<Rightarrow>
               swrite s fm sec b (put_dirent (put32 de 28 (fv_file_size (fvt s fv))) (fv_first_clus (fvt s fv))) 32)
        }
      })"

text \<open>The long-name entries \<open>k\<close>, \ldots, 1 of \<open>lfn_cnt\<close>, then the short entry.\<close>

fun dwrite_lfn_loop :: "'a vfs_scheme \<Rightarrow> nat \<Rightarrow> u32 \<Rightarrow> nat \<Rightarrow> nat \<Rightarrow> (nat \<Rightarrow> u16) \<Rightarrow> buffer \<Rightarrow> (int \<times> 'a vfs_scheme) option" where
  "dwrite_lfn_loop s dir off lfn_cnt 0 uname de = dwrite_raw s dir off de 32"
| "dwrite_lfn_loop s dir off lfn_cnt (Suc ei) uname de = do {
     let seq = of_nat (Suc ei) OR (if Suc ei = lfn_cnt then LFN_LAST else 0);
     (r, s) \<leftarrow> dwrite_raw s dir off (mk_lfn seq (lfn_checksum de) uname (ei * LFN_CHARS_PER_ENTRY)) 32;
     if r < 0 then Some (-1, s) else dwrite_lfn_loop s dir (off + 32) lfn_cnt ei uname de
   }"

definition dwrite_lfn :: "'a vfs_scheme \<Rightarrow> nat \<Rightarrow> u32 \<Rightarrow> nat \<Rightarrow> buffer \<Rightarrow> buffer \<Rightarrow> (int \<times> 'a vfs_scheme) option" where
  "dwrite_lfn s dir off lfn_cnt name de =
     (if lfn_cnt = 0 then dwrite s dir off de
      else do {
        namelen \<leftarrow> strlen name;
        dwrite_lfn_loop s dir off lfn_cnt lfn_cnt (lfn_uname name namelen (lfn_cnt * LFN_CHARS_PER_ENTRY)) de
      })"

partial_function (option) count_lfn_loop ::
    "'a vfs_scheme \<Rightarrow> u64 \<Rightarrow> u32 \<Rightarrow> u32 \<Rightarrow> byte \<Rightarrow> nat \<Rightarrow> (nat \<times> 'a vfs_scheme) option" where
  "count_lfn_loop s fm c off expected cnt = do {
     (sec, b, ok, s) \<leftarrow> dir_slot s fm c off;
     if \<not> ok then Some (cnt, s)
     else do {
       (d, s) \<leftarrow> sread s fm sec b;
       (case d of
          None \<Rightarrow> Some (cnt, s)
        | Some d \<Rightarrow>
            if dir_attr d \<noteq> ATTR_LONG_NAME \<or> lfn_seq d \<noteq> unat expected then Some (cnt, s)
            else if off = 0 then Some (cnt + 1, s)
            else count_lfn_loop s fm c (off - 32) (expected + 1) (cnt + 1))
     }
   }"

definition count_lfn_backwards :: "'a vfs_scheme \<Rightarrow> nat \<Rightarrow> u32 \<Rightarrow> (nat \<times> 'a vfs_scheme) option" where
  "count_lfn_backwards s dir short_off = do {
     dv \<leftarrow> fat_priv s dir;
     if short_off < 32 then Some (0, s)
     else count_lfn_loop s (fv_fm (fvt s dv)) (fv_first_clus (fvt s dv)) (short_off - 32) 1 0
   }"

subsection \<open>Vnodes\<close>

definition fvalloc ::
    "'a vfs_scheme \<Rightarrow> u64 \<Rightarrow> u32 \<Rightarrow> u32 \<Rightarrow> byte \<Rightarrow> u32 \<Rightarrow> u32 \<Rightarrow> (nat option \<times> 'a vfs_scheme) option" where
  "fvalloc s fm c sz at' pdir deoff =
     (case vfs_iget s (fm_vfs_mount (fmt s fm)) pdir deoff of
        (Some vp, s) \<Rightarrow> Some (Some vp, s)
      | (None, s) \<Rightarrow>
          (case alloc_vnode s of
             (None, s) \<Rightarrow> Some (None, s)
           | (Some vp, s) \<Rightarrow>
               (case kalloc s of (fv, s) \<Rightarrow>
                  if fv = 0 then do {
                    s \<leftarrow> vput s vp;
                    Some (None, s)
                  } else do {
                    let s = upd_fv fv (\<lambda>_. \<lparr>fv_fm = fm, fv_first_clus = c, fv_file_size = sz, fv_attrs = at', fv_dirty = False,
                              fv_pdir_clus = pdir, fv_dent_off = deoff\<rparr>) s;
                    Some (Some vp, upd_vnode vp (\<lambda>v. v\<lparr>
                      v_type := (if at' AND ATTR_DIRECTORY \<noteq> 0 then V_DIR else V_FILE),
                      v_mp := fm_vfs_mount (fmt s fm), v_dev := fm_dev (fmt s fm), v_ops := Some FAT32, v_priv := fv,
                      v_inum := pdir, v_ikey := deoff, v_size := sz\<rparr>) s)
                  })))"

definition flookup ::
    "(nat \<Rightarrow> u16) \<Rightarrow> 'a vfs_scheme \<Rightarrow> nat \<Rightarrow> buffer \<Rightarrow> (int \<times> nat option option \<times> 'a vfs_scheme) option" where
  "flookup junk s dir nm = do {
     dv \<leftarrow> fat_priv s dir;
     let v = fvt s dv;
     if strncmp nm (cs [0x2E]) 14 = 0
        \<or> strncmp nm (cs [0x2E, 0x2E]) 14 = 0 \<and> fv_first_clus v = fm_root_clus (fmt s (fv_fm v)) then
       (case vget s dir of (r, s) \<Rightarrow> Some (0, Some (Some r), s))
     else do {
       (e, s) \<leftarrow> dlookup junk s dir nm;
       (case e of
          None \<Rightarrow> Some (-1, None, s)
        | Some (de, off) \<Rightarrow> do {
            (r, s) \<leftarrow> fvalloc s (fv_fm v) (dir_clus de) (dir_size de) (dir_attr de) (fv_first_clus v) off;
            Some (if r = None then -1 else 0, Some r, s)
          })
     }
   }"

subsection \<open>File contents\<close>

definition fat_clip :: "u32 \<Rightarrow> int \<Rightarrow> u32 \<Rightarrow> u32" where
  "fat_clip sz n off = (if off + word_of_int n > sz then sz - off else word_of_int n)"

fun chain_skip :: "'a vfs_scheme \<Rightarrow> u64 \<Rightarrow> u32 \<Rightarrow> nat \<Rightarrow> (u32 \<times> 'a vfs_scheme) option" where
  "chain_skip s fm c 0 = Some (c, s)"
| "chain_skip s fm c (Suc k) =
     (if in_chain c then do {
        (c, s) \<leftarrow> read_fat s fm c;
        chain_skip s fm c k
      } else Some (c, s))"

definition fat_len :: "fat32_mount \<Rightarrow> u32 \<Rightarrow> u32 \<Rightarrow> u32 \<Rightarrow> u32" where
  "fat_len m inn n tot = min (ucast (fm_bps m) - inn mod ucast (fm_bps m)) (n - tot)"

definition fat_sector :: "fat32_mount \<Rightarrow> u32 \<Rightarrow> u32 \<Rightarrow> u32" where
  "fat_sector m c inn = clus_to_sec m c + inn div ucast (fm_bps m)"

text \<open>The loop of \<open>fread\<close>; \<open>inn\<close> is the offset in the cluster, called \<open>in\<close> in the code.\<close>

partial_function (option) fread_loop ::
    "'a vfs_scheme \<Rightarrow> u64 \<Rightarrow> u64 \<Rightarrow> u32 \<Rightarrow> u32 \<Rightarrow> u32 \<Rightarrow> u32 \<Rightarrow> (int \<times> 'a vfs_scheme) option" where
  "fread_loop s fm buf n c inn tot =
     (if tot < n \<and> in_chain c then do {
        let m = fmt s fm;
        let len = fat_len m inn n tot;
        (d, s) \<leftarrow> sread s fm (fat_sector m c inn) (inn mod ucast (fm_bps m));
        (case d of
           None \<Rightarrow> Some (-1, s)
         | Some tmp \<Rightarrow> do {
             (r, s) \<leftarrow> copyout s (p_pagetable s) (buf + ucast tot) tmp (ucast len);
             if r < 0 then Some (-1, s)
             else if inn + len \<ge> clus_bytes m then do {
               (c, s) \<leftarrow> read_fat s fm c;
               fread_loop s fm buf n c 0 (tot + len)
             } else fread_loop s fm buf n c (inn + len) (tot + len)
           })
      } else Some (sint tot, s))"

definition fread :: "'a vfs_scheme \<Rightarrow> nat \<Rightarrow> u64 \<Rightarrow> int \<Rightarrow> u32 \<Rightarrow> (int \<times> 'a vfs_scheme) option" where
  "fread s vp buf n off = do {
     fv \<leftarrow> fat_priv s vp;
     let v = fvt s fv;
     if off \<ge> fv_file_size v then Some (0, s)
     else do {
       let bpc = clus_bytes (fmt s (fv_fm v));
       ensure (bpc \<noteq> 0) ''division by zero'';
       (c, s) \<leftarrow> chain_skip s (fv_fm v) (fv_first_clus v) (unat (off div bpc));
       fread_loop s (fv_fm v) buf (fat_clip (fv_file_size v) n off) c (off mod bpc) 0
     }
   }"

partial_function (option) fread_kernel_loop ::
    "'a vfs_scheme \<Rightarrow> u64 \<Rightarrow> u64 \<Rightarrow> buffer \<Rightarrow> u32 \<Rightarrow> u32 \<Rightarrow> u32 \<Rightarrow> u32 \<Rightarrow> (int \<times> buffer \<times> 'a vfs_scheme) option" where
  "fread_kernel_loop s fm buf kb n c inn tot =
     (if tot < n \<and> in_chain c then do {
        let m = fmt s fm;
        let len = fat_len m inn n tot;
        (d, s) \<leftarrow> sread s fm (fat_sector m c inn) (inn mod ucast (fm_bps m));
        (case d of
           None \<Rightarrow> Some (-1, kb, s)
         | Some tmp \<Rightarrow> do {
             let kb = copy_into kb (unat (buf + ucast tot)) tmp 0 (unat len);
             if inn + len \<ge> clus_bytes m then do {
               (c, s) \<leftarrow> read_fat s fm c;
               fread_kernel_loop s fm buf kb n c 0 (tot + len)
             } else fread_kernel_loop s fm buf kb n c (inn + len) (tot + len)
           })
      } else Some (sint tot, kb, s))"

definition fread_kernel ::
    "'a vfs_scheme \<Rightarrow> nat \<Rightarrow> u64 \<Rightarrow> buffer \<Rightarrow> int \<Rightarrow> u32 \<Rightarrow> (int \<times> buffer \<times> 'a vfs_scheme) option" where
  "fread_kernel s vp buf kb n off = do {
     fv \<leftarrow> fat_priv s vp;
     let v = fvt s fv;
     if off \<ge> fv_file_size v then Some (0, kb, s)
     else do {
       let bpc = clus_bytes (fmt s (fv_fm v));
       ensure (bpc \<noteq> 0) ''division by zero'';
       (c, s) \<leftarrow> chain_skip s (fv_fm v) (fv_first_clus v) (unat (off div bpc));
       fread_kernel_loop s (fv_fm v) buf kb (fat_clip (fv_file_size v) n off) c (off mod bpc) 0
     }
   }"

text \<open>The cluster after \<open>c\<close>, appended to the chain when there is none; \<^const>\<open>None\<close> when the disk is full.\<close>

definition next_clus :: "'a vfs_scheme \<Rightarrow> u64 \<Rightarrow> u32 \<Rightarrow> (u32 option \<times> 'a vfs_scheme) option" where
  "next_clus s fm c = do {
     (nx, s) \<leftarrow> alloc_clus s fm;
     if nx = 0 then Some (None, s)
     else do {
       s \<leftarrow> write_fat s fm c nx;
       s \<leftarrow> write_fat s fm nx FAT32_EOC;
       Some (Some nx, s)
     }
   }"

fun fwrite_skip :: "'a vfs_scheme \<Rightarrow> u64 \<Rightarrow> u32 \<Rightarrow> nat \<Rightarrow> (u32 option \<times> 'a vfs_scheme) option" where
  "fwrite_skip s fm c 0 = Some (Some c, s)"
| "fwrite_skip s fm c (Suc k) = do {
     (nx, s) \<leftarrow> read_fat s fm c;
     if nx \<ge> FAT32_EOC_MIN then do {
       (r, s) \<leftarrow> next_clus s fm c;
       (case r of None \<Rightarrow> Some (None, s) | Some nx \<Rightarrow> fwrite_skip s fm nx k)
     } else fwrite_skip s fm nx k
   }"

text \<open>The loop of \<open>fwrite\<close>: the number of bytes written, or \<^const>\<open>None\<close> for a return of \<open>-1\<close>.\<close>

partial_function (option) fwrite_loop ::
    "'a vfs_scheme \<Rightarrow> u64 \<Rightarrow> u64 \<Rightarrow> u32 \<Rightarrow> u32 \<Rightarrow> u32 \<Rightarrow> u32 \<Rightarrow> (u32 option \<times> 'a vfs_scheme) option" where
  "fwrite_loop s fm buf n c inn tot =
     (if tot < n then do {
        (c, inn, s) \<leftarrow> (if c \<ge> FAT32_EOC_MIN then do { (c, s) \<leftarrow> alloc_clus s fm; Some (c, 0, s) } else Some (c, inn, s));
        if c = 0 then Some (Some tot, s)
        else do {
          let m = fmt s fm;
          let len = fat_len m inn n tot;
          (r, tmp, s) \<leftarrow> copyin s (p_pagetable s) (\<lambda>_. 0) 0 (buf + ucast tot) (ucast len);
          if r < 0 then Some (None, s)
          else do {
            (r, s) \<leftarrow> swrite s fm (fat_sector m c inn) (inn mod ucast (fm_bps m)) tmp (unat len);
            if r < 0 then Some (None, s)
            else if inn + len \<ge> clus_bytes m then do {
              (nx, s) \<leftarrow> read_fat s fm c;
              if nx \<ge> FAT32_EOC_MIN \<and> tot + len < n then do {
                (r, s) \<leftarrow> next_clus s fm c;
                (case r of None \<Rightarrow> Some (Some (tot + len), s) | Some nx \<Rightarrow> fwrite_loop s fm buf n nx 0 (tot + len))
              } else fwrite_loop s fm buf n nx 0 (tot + len)
            } else fwrite_loop s fm buf n c (inn + len) (tot + len)
          }
        }
      } else Some (Some tot, s))"

definition fwrite :: "'a vfs_scheme \<Rightarrow> nat \<Rightarrow> u64 \<Rightarrow> int \<Rightarrow> u32 \<Rightarrow> (int \<times> 'a vfs_scheme) option" where
  "fwrite s vp buf n off = do {
     fv \<leftarrow> fat_priv s vp;
     let fm = fv_fm (fvt s fv);
     (c, s) \<leftarrow> (if fv_first_clus (fvt s fv) = 0 then do {
                (c, s) \<leftarrow> alloc_clus s fm;
                Some (c, if c = 0 then s else upd_fv fv (fv_first_clus_update (\<lambda>_. c)) s)
              } else Some (fv_first_clus (fvt s fv), s));
     if c = 0 then Some (-1, s)
     else do {
       let bpc = clus_bytes (fmt s fm);
       ensure (bpc \<noteq> 0) ''division by zero'';
       (r, s) \<leftarrow> fwrite_skip s fm c (unat (off div bpc));
       (case r of
          None \<Rightarrow> Some (-1, s)
        | Some c \<Rightarrow> do {
            (r, s) \<leftarrow> fwrite_loop s fm buf (word_of_int n) c (off mod bpc) 0;
            (case r of
               None \<Rightarrow> Some (-1, s)
             | Some tot \<Rightarrow> do {
                 let s = (if off + tot > fv_file_size (fvt s fv)
                          then upd_vnode vp (v_size_update (\<lambda>_. off + tot)) (upd_fv fv (fv_file_size_update (\<lambda>_. off + tot)) s)
                          else s);
                 (_, s) \<leftarrow> (if fv_attrs (fvt s fv) AND ATTR_DIRECTORY = 0 then sync_dirent s vp else Some (0, s));
                 Some (sint tot, s)
               })
          })
     }
   }"

definition fstat :: "buffer \<Rightarrow> 'a vfs_scheme \<Rightarrow> nat \<Rightarrow> u64 \<Rightarrow> (int \<times> 'a vfs_scheme) option" where
  "fstat junk s vp addr = do {
     fv \<leftarrow> fat_priv s vp;
     let v = fvt s fv;
     let st = \<lparr>st_dev = v_dev (vn s vp), st_ino = fv_first_clus v,
               st_type = (if fv_attrs v AND ATTR_DIRECTORY \<noteq> 0 then T_DIR else T_FILE), st_nlink = 1,
               st_size = ucast (fv_file_size v)\<rparr>;
     (r, s) \<leftarrow> copyout s (p_pagetable s) addr (put_stat junk st) SIZEOF_STAT;
     Some (if r < 0 then -1 else 0, s)
   }"

subsection \<open>Reading directories\<close>

text \<open>The scan backwards from a short entry: the characters collected and how many elements were filled.  The
  chain walk stops at the end of the chain without a check.\<close>

partial_function (option) lfn_back ::
    "'a vfs_scheme \<Rightarrow> u64 \<Rightarrow> u32 \<Rightarrow> byte \<Rightarrow> u32 \<Rightarrow> nat \<Rightarrow> (nat \<Rightarrow> u16) \<Rightarrow> nat \<Rightarrow> ((nat \<Rightarrow> u16) \<times> nat \<times> 'a vfs_scheme) option" where
  "lfn_back s fm c ck back_off expected buf tot =
     (if back_off \<ge> 32 then do {
        let back_off = back_off - 32;
        (sec, b, _, s) \<leftarrow> dir_slot s fm c back_off;
        (d, s) \<leftarrow> sread s fm sec b;
        (case d of
           None \<Rightarrow> Some (buf, tot, s)
         | Some d \<Rightarrow>
             if d 0 = 0 \<or> d 0 = 0xE5 then Some (buf, tot, s)
             else do {
               (d, s) \<leftarrow> sread s fm sec b;
               (case d of
                  None \<Rightarrow> Some (buf, tot, s)
                | Some d \<Rightarrow>
                    if dir_attr d \<noteq> ATTR_LONG_NAME \<or> lfn_cksum_of d \<noteq> ck \<or> lfn_seq d \<noteq> expected then Some (buf, tot, s)
                    else
                      (let start = (expected - 1) * LFN_CHARS_PER_ENTRY in
                       lfn_back s fm c ck back_off (Suc expected) (lfn_store buf start d) (start + 13)))
             })
      } else Some (buf, tot, s))"

fun lfn_readdir_string :: "(nat \<Rightarrow> u16) \<Rightarrow> nat \<Rightarrow> nat \<Rightarrow> cstring \<Rightarrow> cstring" where
  "lfn_readdir_string b i 0 acc = acc"
| "lfn_readdir_string b i (Suc k) acc =
     (if VDIRSIZ - 1 \<le> length acc \<or> b i = 0 then acc
      else lfn_readdir_string b (Suc i) k (if b i < 128 then acc @ [ucast (b i)] else acc))"

definition freaddir_body ::
    "buffer \<Rightarrow> (nat \<Rightarrow> u16) \<Rightarrow> u64 \<Rightarrow> u32 \<Rightarrow> u64 \<Rightarrow> u32 \<Rightarrow> ('a vfs_scheme, int, unit) slot_body" where
  "freaddir_body junk ujunk fm c buf off s sec b pos acc =
     (if pos < off then Some (Inr (), s)
      else do {
        (d, s) \<leftarrow> sread s fm sec b;
        (case d of
           None \<Rightarrow> Some (Inl (-1), s)
         | Some d \<Rightarrow>
             if d 0 = 0 then Some (Inl (-1), s)
             else if d 0 = 0xE5 then Some (Inr (), s)
             else do {
               (d, s) \<leftarrow> sread s fm sec b;
               (case d of
                  None \<Rightarrow> Some (Inl (-1), s)
                | Some d \<Rightarrow>
                    if dir_attr d = ATTR_LONG_NAME then Some (Inr (), s)
                    else do {
                      (ub, tot, s) \<leftarrow> lfn_back s fm c (lfn_checksum d) pos 1 ujunk 0;
                      let name = (if tot > 0 then lfn_readdir_string ub 0 tot [] else short_to_name d);
                      (r, s) \<leftarrow> copyout s (p_pagetable s) buf (put_vdirent junk (ucast (dir_clus d)) (cs name) (length name)) SIZEOF_VDIRENT;
                      Some (Inl (if r < 0 then -1 else sint (pos + 32)), s)
                    })
             })
      })"

definition freaddir :: "buffer \<Rightarrow> (nat \<Rightarrow> u16) \<Rightarrow> 'a vfs_scheme \<Rightarrow> nat \<Rightarrow> u64 \<Rightarrow> u32 \<Rightarrow> (int \<times> 'a vfs_scheme) option" where
  "freaddir junk ujunk s vp buf off = do {
     fv \<leftarrow> fat_priv s vp;
     let fm = fv_fm (fvt s fv);
     let c = fv_first_clus (fvt s fv);
     if fv_attrs (fvt s fv) AND ATTR_DIRECTORY = 0 then Some (-1, s)
     else do {
       (r, s) \<leftarrow> walk_chain (freaddir_body junk ujunk fm c buf off) s fm c 0 0 ();
       Some (case r of Inl r \<Rightarrow> r | Inr _ \<Rightarrow> -1, s)
     }
   }"

subsection \<open>Creating and removing files\<close>

text \<open>The short name for a long one: the first of the 99 numbered names that is not taken, else the last.\<close>

fun unique_short :: "'a vfs_scheme \<Rightarrow> nat \<Rightarrow> buffer \<Rightarrow> int \<Rightarrow> nat \<Rightarrow> (buffer \<times> 'a vfs_scheme) option" where
  "unique_short s dir nm tail 0 = do { sn \<leftarrow> gen_short_name nm (tail - 1); Some (sn, s) }"
| "unique_short s dir nm tail (Suc k) = do {
     sn \<leftarrow> gen_short_name nm tail;
     (taken, s) \<leftarrow> shortname_exists s dir sn;
     if \<not> taken then Some (sn, s) else unique_short s dir nm (tail + 1) k
   }"

text \<open>The entries of a new directory in its first sector, and zeroes in the rest of the cluster.\<close>

definition dot_sector :: "u32 \<Rightarrow> u32 \<Rightarrow> buffer" where
  "dot_sector c pc =
     (let dot = put_dirent (\<lambda>i. if i = 0 then 0x2E else if i < 11 then 0x20 else if i = 11 then ATTR_DIRECTORY else 0) c;
          dotdot = put_dirent (\<lambda>i. if i < 2 then 0x2E else if i < 11 then 0x20 else if i = 11 then ATTR_DIRECTORY else 0) pc
      in (\<lambda>i. if i < 32 then dot i else if i < 64 then dotdot (i - 32) else 0))"

definition new_directory :: "'a vfs_scheme \<Rightarrow> u64 \<Rightarrow> u32 \<Rightarrow> u32 \<Rightarrow> 'a vfs_scheme option" where
  "new_directory s fm c pc = do {
     let m = fmt s fm;
     let epc = (if fm_sec_per_clus m \<noteq> 0 then unat (fm_sec_per_clus m) else 1);
     (_, s) \<leftarrow> swrite s fm (clus_to_sec m c) 0 (dot_sector c pc) 512;
     s \<leftarrow> zero_cluster s fm (clus_to_sec m c + 1) (epc - 1);
     write_fat s fm c FAT32_EOC
   }"

definition fcreate ::
    "(nat \<Rightarrow> u16) \<Rightarrow> 'a vfs_scheme \<Rightarrow> nat \<Rightarrow> buffer \<Rightarrow> u32 \<Rightarrow> bool \<Rightarrow> (int \<times> nat option \<times> 'a vfs_scheme) option" where
  "fcreate junk s dir nm type new = do {
     dv \<leftarrow> fat_priv s dir;
     let fm = fv_fm (fvt s dv);
     if v_type (vn s dir) \<noteq> V_DIR then Some (-1, None, s)
     else do {
       (ex, s) \<leftarrow> dlookup junk s dir nm;
       (case ex of
          Some _ \<Rightarrow> Some (-1, None, s)
        | None \<Rightarrow> do {
            (c, s) \<leftarrow> (if type = V_DIR then alloc_clus s fm else Some (0, s));
            if type = V_DIR \<and> c = 0 then Some (-1, None, s)
            else do {
              fits \<leftarrow> fits_83 nm;
              len \<leftarrow> strlen nm;
              let lfn_cnt = (if fits then 0 else lfn_entries_needed len);
              (o', s) \<leftarrow> dfree s dir lfn_cnt;
              (case o' of
                 None \<Rightarrow> do {
                   s \<leftarrow> (if c \<noteq> 0 then free_chain s fm c else Some s);
                   Some (-1, None, s)
                 }
               | Some off \<Rightarrow> do {
                   (sn, s) \<leftarrow> (if lfn_cnt = 0 then do { sn \<leftarrow> name83 nm; Some (sn, s) } else unique_short s dir nm 1 99);
                   let at' = (if type = V_DIR then ATTR_DIRECTORY else ATTR_ARCHIVE);
                   let de = put_dirent (\<lambda>i. if i < 11 then sn i else if i = 11 then at' else 0) c;
                   (vno, s) \<leftarrow> (if new then fvalloc s fm c 0 at' (fv_first_clus (fvt s dv)) (off + of_nat lfn_cnt * 32)
                               else Some (None, s));
                   if new \<and> vno = None then do {
                     s \<leftarrow> (if c \<noteq> 0 then free_chain s fm c else Some s);
                     Some (-1, None, s)
                   } else do {
                     (r, s) \<leftarrow> dwrite_lfn s dir off lfn_cnt nm de;
                     if r < 0 then do {
                       s \<leftarrow> (case vno of None \<Rightarrow> Some s | Some v \<Rightarrow> vput s v);
                       s \<leftarrow> (if c \<noteq> 0 then free_chain s fm c else Some s);
                       Some (-1, None, s)
                     } else do {
                       s \<leftarrow> (if type = V_DIR then new_directory s fm c (fv_first_clus (fvt s dv)) else Some s);
                       Some (0, vno, s)
                     }
                   }
                 })
            }
          })
     }
   }"

definition fempty_body :: "u64 \<Rightarrow> ('a vfs_scheme, unit, unit) slot_body" where
  "fempty_body fm s sec b pos acc = do {
     (d, s) \<leftarrow> sread s fm sec b;
     (case d of
        None \<Rightarrow> Some (Inl (), s)
      | Some d \<Rightarrow> if d 0 \<noteq> 0 \<and> d 0 \<noteq> 0xE5 then Some (Inl (), s) else Some (Inr (), s))
   }"

text \<open>Marking the \<open>k\<close> slots from \<open>off\<close> on as deleted.\<close>

fun mark_deleted :: "'a vfs_scheme \<Rightarrow> u64 \<Rightarrow> u32 \<Rightarrow> u32 \<Rightarrow> nat \<Rightarrow> (int \<times> 'a vfs_scheme) option" where
  "mark_deleted s fm c off 0 = Some (0, s)"
| "mark_deleted s fm c off (Suc k) = do {
     (sec, b, ok, s) \<leftarrow> dir_slot s fm c off;
     if \<not> ok then Some (-1, s)
     else do {
       (_, s) \<leftarrow> swrite s fm sec b (\<lambda>_. 0xE5) 1;
       mark_deleted s fm c (off + 32) k
     }
   }"

definition funlink :: "(nat \<Rightarrow> u16) \<Rightarrow> 'a vfs_scheme \<Rightarrow> nat \<Rightarrow> buffer \<Rightarrow> (int \<times> 'a vfs_scheme) option" where
  "funlink junk s dir nm = do {
     dv \<leftarrow> fat_priv s dir;
     let fm = fv_fm (fvt s dv);
     (e, s) \<leftarrow> dlookup junk s dir nm;
     (case e of
        None \<Rightarrow> Some (-1, s)
      | Some (de, off) \<Rightarrow> do {
          let c = dir_clus de;
          (r, s) \<leftarrow> (if dir_attr de AND ATTR_DIRECTORY \<noteq> 0 then walk_chain (fempty_body fm) s fm c 64 0 ()
                    else Some (Inr (0, ()), s));
          (case r of
             Inl _ \<Rightarrow> Some (-1, s)
           | Inr _ \<Rightarrow> do {
               s \<leftarrow> (if c \<noteq> 0 then free_chain s fm c else Some s);
               (lfns, s) \<leftarrow> count_lfn_backwards s dir off;
               mark_deleted s fm (fv_first_clus (fvt s dv)) (off - of_nat lfns * 32) (lfns + 1)
             })
        })
   }"

definition fmkdir :: "(nat \<Rightarrow> u16) \<Rightarrow> 'a vfs_scheme \<Rightarrow> nat \<Rightarrow> buffer \<Rightarrow> (int \<times> 'a vfs_scheme) option" where
  "fmkdir junk s dir nm = do {
     (r, n, s) \<leftarrow> fcreate junk s dir nm V_DIR True;
     (case n of
        Some v \<Rightarrow> if r = 0 then do { s \<leftarrow> vput s v; Some (r, s) } else Some (r, s)
      | None \<Rightarrow> Some (r, s))
   }"

definition ftrunc :: "'a vfs_scheme \<Rightarrow> nat \<Rightarrow> (int \<times> 'a vfs_scheme) option" where
  "ftrunc s vp = do {
     fv \<leftarrow> fat_priv s vp;
     let v = fvt s fv;
     s \<leftarrow> (if fv_first_clus v \<noteq> 0 then do {
            s \<leftarrow> free_chain s (fv_fm v) (fv_first_clus v);
            Some (upd_fv fv (fv_first_clus_update (\<lambda>_. 0)) s)
          } else Some s);
     let s = upd_vnode vp (v_size_update (\<lambda>_. 0)) (upd_fv fv (fv_file_size_update (\<lambda>_. 0)) s);
     (_, s) \<leftarrow> (if fv_attrs (fvt s fv) AND ATTR_DIRECTORY = 0 then sync_dirent s vp else Some (0, s));
     Some (0, s)
   }"

subsection \<open>Mounting\<close>

definition froot :: "'a vfs_scheme \<Rightarrow> u64 \<Rightarrow> (nat \<times> 'a vfs_scheme) option" where
  "froot s mp = do {
     r \<leftarrow> mt_root (mounts s mp);
     Some (vget s r)
   }"

definition fumount :: "'a vfs_scheme \<Rightarrow> u64 \<Rightarrow> 'a vfs_scheme option" where
  "fumount s mp = do {
     s \<leftarrow> (if mt_priv (mounts s mp) \<noteq> 0 then do {
            root \<leftarrow> mt_root (mounts s mp);
            s \<leftarrow> vput s root;
            kfree s (mt_priv (mounts s mp))
          } else Some s);
     Some (upd_mount mp (\<lambda>m. m\<lparr>mt_priv := 0, mt_root := None, mt_ops := None\<rparr>) s)
   }"

text \<open>The fields of the BIOS parameter block that are used, at their offsets in sector 0.\<close>

definition fat32_volume :: "buffer \<Rightarrow> u32 \<Rightarrow> fat32_mount option" where
  "fat32_volume b dev = do {
     let bps = le16 b 0x0B;
     let spc = b 0x0D;
     let rsvd = ucast (le16 b 0x0E);
     let nf = b 0x10;
     let fsz = le32 b 0x24;
     let ts = (if le16 b 0x13 \<noteq> 0 then ucast (le16 b 0x13) else le32 b 0x20);
     ensure (spc \<noteq> 0) ''division by zero'';
     Some \<lparr>fm_dev = dev, fm_sec_per_clus = spc, fm_rsvd_sec_cnt = rsvd, fm_num_fats = nf, fm_fat_sz = fsz,
       fm_first_data_sec = rsvd + ucast nf * fsz, fm_root_clus = le32 b 0x2C,
       fm_tot_clus = (ts - rsvd - ucast nf * fsz) div ucast spc, fm_free_count = 0xFFFFFFFF,
       fm_bps = bps, fm_spb = of_nat BSIZE div ucast bps, fm_lock = initsleeplock, fm_vfs_mount = 0\<rparr>
   }"

definition fat32_mount :: "'a vfs_scheme \<Rightarrow> u32 \<Rightarrow> (u64 \<times> 'a vfs_scheme) option" where
  "fat32_mount s dev = do {
     (bo, s) \<leftarrow> bread s dev 0;
     (case bo of
        None \<Rightarrow> Some (0, s)
      | Some bp \<Rightarrow> do {
          let b = bdata s bp;
          s \<leftarrow> brelse s bp;
          if le16 b 0x0B \<noteq> 512 \<or> le32 b 0x24 = 0 \<or> b 510 \<noteq> 0x55 \<or> b 511 \<noteq> 0xAA then Some (0, s)
          else
            (case kalloc s of (fm, s) \<Rightarrow>
               if fm = 0 then Some (0, s)
               else do {
                 m \<leftarrow> fat32_volume b dev;
                 let s = upd_fm fm (\<lambda>_. m) s;
                 (case kalloc s of (mp, s) \<Rightarrow>
                    if mp = 0 then do {
                      s \<leftarrow> kfree s fm;
                      Some (0, s)
                    } else do {
                      let s = upd_mount mp (\<lambda>x. x\<lparr>mt_ops := Some FAT32, mt_dev := dev, mt_priv := fm\<rparr>) s;
                      let s = upd_fm fm (fm_vfs_mount_update (\<lambda>_. mp)) s;
                      (root, s) \<leftarrow> fvalloc s fm (fm_root_clus m) 0 ATTR_DIRECTORY 0 0;
                      let s = upd_mount mp (mt_root_update (\<lambda>_. root)) s;
                      if root = None then do {
                        s \<leftarrow> kfree s fm;
                        s \<leftarrow> kfree s mp;
                        Some (0, s)
                      } else Some (mp, s)
                    })
               })
        })
   }"

end
