(* ===== verification/Vfs.thy ===== *)
theory Vfs
  imports Xv6fs Ext2 Fat32
begin

text \<open>
  \<^verbatim>\<open>kernel/vfs.c\<close>: dispatch through the operation tables, the mount table, path resolution and the operations on
  vnodes that the rest of the kernel uses.  A path is an array of characters and a position in it; the
  array \<open>J\<close> is what local variables hold before they are written.
\<close>

subsection \<open>Dispatch\<close>

definition ushorts :: "buffer \<Rightarrow> nat \<Rightarrow> u16" where
  "ushorts J i = le16 J (2 * i)"

definition vop_lookup :: "buffer \<Rightarrow> 'a vfs_scheme \<Rightarrow> nat \<Rightarrow> buffer \<Rightarrow> (int \<times> nat option option \<times> 'a vfs_scheme) option" where
  "vop_lookup J s vp name = do {
     ops \<leftarrow> v_ops (vn s vp);
     (case ops of XV6FS \<Rightarrow> xv6fs_lookup s vp name | EXT2 \<Rightarrow> ext2_lookup s vp name | FAT32 \<Rightarrow> flookup (ushorts J) s vp name)
   }"

definition vop_read :: "'a vfs_scheme \<Rightarrow> nat \<Rightarrow> u64 \<Rightarrow> int \<Rightarrow> u32 \<Rightarrow> (int \<times> 'a vfs_scheme) option" where
  "vop_read s vp a n off = do {
     ops \<leftarrow> v_ops (vn s vp);
     (case ops of XV6FS \<Rightarrow> xv6fs_read s vp a n off | EXT2 \<Rightarrow> ext2_read s vp a n off | FAT32 \<Rightarrow> fread s vp a n off)
   }"

definition vop_write :: "'a vfs_scheme \<Rightarrow> nat \<Rightarrow> u64 \<Rightarrow> int \<Rightarrow> u32 \<Rightarrow> (int \<times> 'a vfs_scheme) option" where
  "vop_write s vp a n off = do {
     ops \<leftarrow> v_ops (vn s vp);
     (case ops of XV6FS \<Rightarrow> xv6fs_write s vp a n off | EXT2 \<Rightarrow> ext2_write s vp a n off | FAT32 \<Rightarrow> fwrite s vp a n off)
   }"

definition vop_stat :: "buffer \<Rightarrow> 'a vfs_scheme \<Rightarrow> nat \<Rightarrow> u64 \<Rightarrow> (int \<times> 'a vfs_scheme) option" where
  "vop_stat J s vp a = do {
     ops \<leftarrow> v_ops (vn s vp);
     (case ops of XV6FS \<Rightarrow> xv6fs_stat J s vp a | EXT2 \<Rightarrow> ext2_stat J s vp a | FAT32 \<Rightarrow> fstat J s vp a)
   }"

definition vop_readdir :: "buffer \<Rightarrow> 'a vfs_scheme \<Rightarrow> nat \<Rightarrow> u64 \<Rightarrow> u32 \<Rightarrow> (int \<times> 'a vfs_scheme) option" where
  "vop_readdir J s vp a off = do {
     ops \<leftarrow> v_ops (vn s vp);
     (case ops of XV6FS \<Rightarrow> xv6fs_readdir J s vp a off | EXT2 \<Rightarrow> ext2_readdir J s vp a off
      | FAT32 \<Rightarrow> freaddir J (ushorts J) s vp a off)
   }"

definition vop_create ::
    "buffer \<Rightarrow> 'a vfs_scheme \<Rightarrow> nat \<Rightarrow> buffer \<Rightarrow> u32 \<Rightarrow> (int \<times> nat option \<times> 'a vfs_scheme) option" where
  "vop_create J s vp name type = do {
     ops \<leftarrow> v_ops (vn s vp);
     (case ops of XV6FS \<Rightarrow> xv6fs_create s vp name type True | EXT2 \<Rightarrow> ext2_create s vp name type True
      | FAT32 \<Rightarrow> fcreate (ushorts J) s vp name type True)
   }"

definition vop_unlink :: "buffer \<Rightarrow> 'a vfs_scheme \<Rightarrow> nat \<Rightarrow> buffer \<Rightarrow> (int \<times> 'a vfs_scheme) option" where
  "vop_unlink J s vp name = do {
     ops \<leftarrow> v_ops (vn s vp);
     (case ops of XV6FS \<Rightarrow> xv6fs_unlink s vp name | EXT2 \<Rightarrow> ext2_unlink s vp name | FAT32 \<Rightarrow> funlink (ushorts J) s vp name)
   }"

definition vop_mkdir :: "buffer \<Rightarrow> 'a vfs_scheme \<Rightarrow> nat \<Rightarrow> buffer \<Rightarrow> (int \<times> 'a vfs_scheme) option" where
  "vop_mkdir J s vp name = do {
     ops \<leftarrow> v_ops (vn s vp);
     (case ops of XV6FS \<Rightarrow> xv6fs_mkdir s vp name | EXT2 \<Rightarrow> ext2_mkdir s vp name | FAT32 \<Rightarrow> fmkdir (ushorts J) s vp name)
   }"

text \<open>The FAT32 table has neither \<open>link\<close> nor \<open>mknod\<close>; calling a null entry is a fault.\<close>

definition vop_link :: "'a vfs_scheme \<Rightarrow> nat \<Rightarrow> buffer \<Rightarrow> nat \<Rightarrow> (int \<times> 'a vfs_scheme) option" where
  "vop_link s vp name old = do {
     ops \<leftarrow> v_ops (vn s vp);
     (case ops of XV6FS \<Rightarrow> xv6fs_link s vp name old | EXT2 \<Rightarrow> ext2_link s vp name old | FAT32 \<Rightarrow> None)
   }"

definition vop_mknod :: "'a vfs_scheme \<Rightarrow> nat \<Rightarrow> buffer \<Rightarrow> int \<Rightarrow> int \<Rightarrow> (int \<times> 'a vfs_scheme) option" where
  "vop_mknod s vp name ma mi = do {
     ops \<leftarrow> v_ops (vn s vp);
     (case ops of XV6FS \<Rightarrow> xv6fs_mknod s vp name ma mi | EXT2 \<Rightarrow> ext2_mknod s vp name ma mi | FAT32 \<Rightarrow> None)
   }"

definition vop_read_kernel ::
    "'a vfs_scheme \<Rightarrow> nat \<Rightarrow> u64 \<Rightarrow> buffer \<Rightarrow> int \<Rightarrow> u32 \<Rightarrow> (int \<times> buffer \<times> 'a vfs_scheme) option" where
  "vop_read_kernel s vp a kb n off = do {
     ops \<leftarrow> v_ops (vn s vp);
     (case ops of XV6FS \<Rightarrow> xv6fs_read_kernel s vp a kb n off | EXT2 \<Rightarrow> ext2_read_kernel s vp a kb n off
      | FAT32 \<Rightarrow> fread_kernel s vp a kb n off)
   }"

definition vop_truncate :: "'a vfs_scheme \<Rightarrow> nat \<Rightarrow> (int \<times> 'a vfs_scheme) option" where
  "vop_truncate s vp = do {
     ops \<leftarrow> v_ops (vn s vp);
     (case ops of XV6FS \<Rightarrow> xv6fs_truncate s vp | EXT2 \<Rightarrow> ext2_truncate s vp | FAT32 \<Rightarrow> ftrunc s vp)
   }"

text \<open>\<open>unmount\<close>, where the table has one.\<close>

definition vfsop_unmount :: "'a vfs_scheme \<Rightarrow> u64 \<Rightarrow> 'a vfs_scheme option" where
  "vfsop_unmount s mp =
     (case mt_ops (mounts s mp) of
        Some EXT2 \<Rightarrow> ext2_unmount s mp | Some FAT32 \<Rightarrow> fumount s mp | _ \<Rightarrow> Some s)"

definition call_mountfn :: "'a vfs_scheme \<Rightarrow> fstype \<Rightarrow> u32 \<Rightarrow> (u64 \<times> 'a vfs_scheme) option" where
  "call_mountfn s f dev = (case f of XV6FS \<Rightarrow> xv6fs_mount s dev | EXT2 \<Rightarrow> ext2_mount s dev | FAT32 \<Rightarrow> fat32_mount s dev)"

subsection \<open>Initialisation\<close>

definition vfs_register :: "'a vfs_scheme \<Rightarrow> fstype \<Rightarrow> buffer \<Rightarrow> 'a vfs_scheme option" where
  "vfs_register s fn name = do {
     ensure (nfstype s < 8) ''vfs_register: too many fstypes'';
     Some (s\<lparr>fstypes := (fstypes s)(nfstype s := (fn, safestrcpy (snd (fstypes s (nfstype s))) name 16)),
             nfstype := nfstype s + 1\<rparr>)
   }"

definition vfs_init :: "'a vfs_scheme \<Rightarrow> 'a vfs_scheme option" where
  "vfs_init s = do {
     let s = s\<lparr>vnode_table := (\<lambda>i. if i < NVNODE then (vn s i)\<lparr>v_lock := initsleeplock\<rparr> else vn s i),
               nmount := 0, nfstype := 0\<rparr>;
     s \<leftarrow> vfs_register s XV6FS (cs [0x78, 0x76, 0x36, 0x66, 0x73]);
     s \<leftarrow> vfs_register s EXT2 (cs [0x65, 0x78, 0x74, 0x32]);
     vfs_register s FAT32 (cs [0x66, 0x61, 0x74, 0x33, 0x32])
   }"

subsection \<open>Mounts\<close>

definition vfs_root :: "'a vfs_scheme \<Rightarrow> (nat option \<times> 'a vfs_scheme) option" where
  "vfs_root s =
     (if nmount s = 0 then Some (None, s)
      else do {
        r \<leftarrow> mt_root (mounts s (mounttable s 0));
        (case vget s r of (v, s) \<Rightarrow> Some (Some v, s))
      })"

text \<open>Two vnodes name the same file when device and inode number agree.\<close>

definition same_file :: "'a vfs_scheme \<Rightarrow> nat option \<Rightarrow> nat \<Rightarrow> bool" where
  "same_file s p vp \<longleftrightarrow> (case p of None \<Rightarrow> False | Some q \<Rightarrow> v_dev (vn s q) = v_dev (vn s vp) \<and> v_inum (vn s q) = v_inum (vn s vp))"

definition vfs_lookup_mount :: "'a vfs_scheme \<Rightarrow> nat \<Rightarrow> u64" where
  "vfs_lookup_mount s vp =
     (case scan (\<lambda>i. same_file s (mt_mountpoint (mounts s (mounttable s i))) vp) 1 (nmount s) of
        None \<Rightarrow> 0 | Some i \<Rightarrow> mounttable s i)"

definition vfs_find_mountpoint :: "'a vfs_scheme \<Rightarrow> nat \<Rightarrow> u64" where
  "vfs_find_mountpoint s vp =
     (case scan (\<lambda>i. same_file s (mt_root (mounts s (mounttable s i))) vp) 1 (nmount s) of
        None \<Rightarrow> 0 | Some i \<Rightarrow> mounttable s i)"

subsection \<open>Paths\<close>

definition path_start :: "'a vfs_scheme \<Rightarrow> buffer \<Rightarrow> (nat option \<times> 'a vfs_scheme) option" where
  "path_start s pth =
     (if pth 0 = 0x2F then
        if nmount s = 0 then Some (None, s)
        else do {
          r \<leftarrow> mt_root (mounts s (mounttable s 0));
          (case vget s r of (v, s) \<Rightarrow> Some (Some v, s))
        }
      else
        (case p_cwd s of
           None \<Rightarrow> Some (None, s)
         | Some c \<Rightarrow> (case vget s c of (v, s) \<Rightarrow> Some (Some v, s))))"

partial_function (option) skip_slashes :: "buffer \<Rightarrow> nat \<Rightarrow> nat option" where
  "skip_slashes pth k = (if pth k = 0x2F then skip_slashes pth (k + 1) else Some k)"

partial_function (option) skip_name :: "buffer \<Rightarrow> nat \<Rightarrow> nat option" where
  "skip_name pth k = (if pth k \<noteq> 0x2F \<and> pth k \<noteq> 0 then skip_name pth (k + 1) else Some k)"

text \<open>\<open>skipelem\<close> from position \<open>k\<close>: \<^const>\<open>None\<close> at the end of the path, else the position after the element and the
  array with its name.\<close>

definition skipelem :: "buffer \<Rightarrow> nat \<Rightarrow> buffer \<Rightarrow> (nat \<times> buffer) option option" where
  "skipelem pth k name = do {
     k \<leftarrow> skip_slashes pth k;
     if pth k = 0 then Some None
     else do {
       e \<leftarrow> skip_name pth k;
       let len = min (e - k) (VDIRSIZ - 1);
       let name = (copy_into name 0 pth k len)(len := 0);
       e \<leftarrow> skip_slashes pth e;
       Some (Some (e, name))
     }
   }"

definition cross_mount :: "'a vfs_scheme \<Rightarrow> nat \<Rightarrow> (nat \<times> 'a vfs_scheme) option" where
  "cross_mount s vp =
     (let submp = vfs_lookup_mount s vp in
      if submp \<noteq> 0 then do {
        s \<leftarrow> vput s vp;
        r \<leftarrow> mt_root (mounts s submp);
        Some (vget s r)
      } else Some (vp, s))"

definition dotdot :: buffer where
  "dotdot = cs [0x2E, 0x2E]"

text \<open>Whether \<open>vp\<close> is the root of a mount that has a mount point.\<close>

definition at_mount_root :: "'a vfs_scheme \<Rightarrow> nat \<Rightarrow> bool option" where
  "at_mount_root s vp =
     (let mp = v_mp (vn s vp) in
      if mp \<noteq> 0 \<and> mt_mountpoint (mounts s mp) \<noteq> None then do {
        r \<leftarrow> mt_root (mounts s mp);
        Some (v_dev (vn s vp) = v_dev (vn s r) \<and> v_inum (vn s vp) = v_inum (vn s r))
      } else Some False)"

text \<open>
  One element of a path, the body of the loops of \<open>vfs_namei\<close> and \<open>vfs_nameiparent\<close>.  The result is the next
  directory, or \<^const>\<open>None\<close> when the function returns null.  \<open>nxt\<close> is the local variable \<open>next\<close>; \<^const>\<open>None\<close> is
  its indeterminate initial value.  Crossing a mount root upwards does not look at the result of \<open>lookup\<close>,
  so it may use an old value.
\<close>

definition namei_step ::
    "buffer \<Rightarrow> 'a vfs_scheme \<Rightarrow> nat \<Rightarrow> buffer \<Rightarrow> nat option option \<Rightarrow> (nat option \<times> nat option option \<times> 'a vfs_scheme) option" where
  "namei_step J s vp name nxt = do {
     s \<leftarrow> vn_lock s vp;
     if v_type (vn s vp) \<noteq> V_DIR then do {
       s \<leftarrow> vput (vn_unlock s vp) vp;
       Some (None, nxt, s)
     } else do {
       up \<leftarrow> (if strncmp name dotdot 15 = 0 then at_mount_root s vp else Some False);
       if up then do {
         mpoint \<leftarrow> mt_mountpoint (mounts s (v_mp (vn s vp)));
         let s = snd (vget s mpoint);
         s \<leftarrow> vput (vn_unlock s vp) vp;
         s \<leftarrow> vn_lock s mpoint;
         (nxt, s) \<leftarrow> (if v_ops (vn s mpoint) \<noteq> None then do {
                       (_, res, s) \<leftarrow> vop_lookup J s mpoint dotdot;
                       Some (if res = None then nxt else res, s)
                     } else Some (Some None, s));
         s \<leftarrow> vput (vn_unlock s mpoint) mpoint;
         n \<leftarrow> nxt;
         Some (n, nxt, s)
       }
       else if v_ops (vn s vp) = None then do {
         s \<leftarrow> vput (vn_unlock s vp) vp;
         Some (None, nxt, s)
       } else do {
         (r, res, s) \<leftarrow> vop_lookup J s vp name;
         let nxt = (if res = None then nxt else res);
         s \<leftarrow> vput (vn_unlock s vp) vp;
         if r \<noteq> 0 then Some (None, nxt, s)
         else do {
           n \<leftarrow> nxt;
           v \<leftarrow> n;
           (v, s) \<leftarrow> cross_mount s v;
           Some (Some v, nxt, s)
         }
       }
     }
   }"

partial_function (option) namei_loop ::
    "buffer \<Rightarrow> 'a vfs_scheme \<Rightarrow> nat \<Rightarrow> buffer \<Rightarrow> nat \<Rightarrow> buffer \<Rightarrow> nat option option \<Rightarrow> (nat option \<times> 'a vfs_scheme) option" where
  "namei_loop J s vp pth k name nxt = do {
     e \<leftarrow> skipelem pth k name;
     (case e of
        None \<Rightarrow> Some (Some vp, s)
      | Some (k, name) \<Rightarrow> do {
          (r, nxt, s) \<leftarrow> namei_step J s vp name nxt;
          (case r of None \<Rightarrow> Some (None, s) | Some vp \<Rightarrow> namei_loop J s vp pth k name nxt)
        })
   }"

definition vfs_namei :: "buffer \<Rightarrow> 'a vfs_scheme \<Rightarrow> buffer \<Rightarrow> (nat option \<times> 'a vfs_scheme) option" where
  "vfs_namei J s pth = do {
     (v, s) \<leftarrow> path_start s pth;
     (case v of None \<Rightarrow> Some (None, s) | Some vp \<Rightarrow> namei_loop J s vp pth 0 J None)
   }"

partial_function (option) nameiparent_loop ::
    "buffer \<Rightarrow> 'a vfs_scheme \<Rightarrow> nat \<Rightarrow> buffer \<Rightarrow> nat \<Rightarrow> buffer \<Rightarrow> nat option option \<Rightarrow> buffer \<Rightarrow>
     (nat option \<times> buffer \<times> 'a vfs_scheme) option" where
  "nameiparent_loop J s vp pth k buf nxt name = do {
     e \<leftarrow> skipelem pth k buf;
     (case e of
        None \<Rightarrow> do {
          s \<leftarrow> vput s vp;
          Some (None, name, s)
        }
      | Some (k, buf) \<Rightarrow>
          if pth k = 0 then do {
            let name = safestrcpy name buf (int VDIRSIZ);
            if v_type (vn s vp) \<noteq> V_DIR then do {
              s \<leftarrow> vput s vp;
              Some (None, name, s)
            } else Some (Some vp, name, s)
          } else do {
            (r, nxt, s) \<leftarrow> namei_step J s vp buf nxt;
            (case r of None \<Rightarrow> Some (None, name, s) | Some vp \<Rightarrow> nameiparent_loop J s vp pth k buf nxt name)
          })
   }"

definition vfs_nameiparent ::
    "buffer \<Rightarrow> 'a vfs_scheme \<Rightarrow> buffer \<Rightarrow> (nat option \<times> buffer \<times> 'a vfs_scheme) option" where
  "vfs_nameiparent J s pth = do {
     (v, s) \<leftarrow> path_start s pth;
     (case v of None \<Rightarrow> Some (None, J, s) | Some vp \<Rightarrow> nameiparent_loop J s vp pth 0 J None J)
   }"

subsection \<open>Mounting\<close>

definition slash :: buffer where
  "slash = cs [0x2F]"

text \<open>The clean-up after a mount that cannot be completed.\<close>

definition abandon_mount :: "'a vfs_scheme \<Rightarrow> nat option \<Rightarrow> u64 \<Rightarrow> (u64 \<times> 'a vfs_scheme) option" where
  "abandon_mount s mpoint mp = do {
     s \<leftarrow> (case mpoint of None \<Rightarrow> Some s | Some v \<Rightarrow> vput s v);
     s \<leftarrow> vfsop_unmount s mp;
     s \<leftarrow> kfree s mp;
     Some (0, s)
   }"

definition enter_mount :: "'a vfs_scheme \<Rightarrow> nat option \<Rightarrow> u64 \<Rightarrow> buffer \<Rightarrow> u32 \<Rightarrow> (u64 \<times> 'a vfs_scheme) option" where
  "enter_mount s mpoint mp pth dev =
     (let s = upd_mount mp (\<lambda>m. m\<lparr>mt_mountpoint := mpoint, mt_path := safestrcpy (mt_path m) pth 128, mt_dev := dev\<rparr>) s in
      if nmount s \<ge> NMOUNT then abandon_mount s mpoint mp
      else
        Some (mp, upd_mount mp (mt_valid_update (\<lambda>_. True))
                    (s\<lparr>mounttable := (mounttable s)(nmount s := mp), nmount := nmount s + 1\<rparr>)))"

definition vfs_mount :: "buffer \<Rightarrow> 'a vfs_scheme \<Rightarrow> buffer \<Rightarrow> u32 \<Rightarrow> buffer \<Rightarrow> (u64 \<times> 'a vfs_scheme) option" where
  "vfs_mount J s pth dev fstype =
     (if \<exists>i<nmount s. strncmp (mt_path (mounts s (mounttable s i))) pth 128 = 0 \<or> mt_dev (mounts s (mounttable s i)) = dev
      then Some (0, s)
      else do {
        (mp, s) \<leftarrow> (case scan (\<lambda>i. strncmp (snd (fstypes s i)) fstype 16 = 0) 0 (nfstype s) of
                     None \<Rightarrow> Some (0, s)
                   | Some i \<Rightarrow> call_mountfn s (fst (fstypes s i)) dev);
        if mp = 0 then Some (0, s)
        else do {
          let s = upd_mount mp (mt_valid_update (\<lambda>_. False)) s;
          if strncmp pth slash 128 = 0 then enter_mount s None mp pth dev
          else do {
            (v, s) \<leftarrow> vfs_namei J s pth;
            (case v of
               None \<Rightarrow> abandon_mount s None mp
             | Some mpoint \<Rightarrow>
                 if v_type (vn s mpoint) \<noteq> V_DIR
                    \<or> (\<exists>i<nmount s. 1 \<le> i \<and> same_file s (mt_mountpoint (mounts s (mounttable s i))) mpoint)
                 then abandon_mount s (Some mpoint) mp
                 else enter_mount s (Some mpoint) mp pth dev)
          }
        }
      })"

definition vfs_umount :: "'a vfs_scheme \<Rightarrow> buffer \<Rightarrow> (int \<times> 'a vfs_scheme) option" where
  "vfs_umount s pth =
     (case scan (\<lambda>i. strncmp (mt_path (mounts s (mounttable s i))) pth 128 = 0) 0 (nmount s) of
        None \<Rightarrow> Some (-1, s)
      | Some idx \<Rightarrow>
          (let mp = mounttable s idx in
           if \<not> mt_valid (mounts s mp) \<or> idx = 0 then Some (-1, s)
           else do {
             s \<leftarrow> vfsop_unmount s mp;
             let s = upd_mount mp (mt_valid_update (\<lambda>_. False)) s;
             let s = s\<lparr>mounttable := (\<lambda>i. if idx \<le> i \<and> i < nmount s - 1 then mounttable s (i + 1)
                                         else if i = nmount s - 1 then 0 else mounttable s i),
                       nmount := nmount s - 1\<rparr>;
             s \<leftarrow> (case mt_mountpoint (mounts s mp) of None \<Rightarrow> Some s | Some v \<Rightarrow> vput s v);
             s \<leftarrow> kfree s mp;
             Some (0, s)
           }))"

subsection \<open>Operations on vnodes\<close>

definition O_WRONLY :: u32 where
  "O_WRONLY = 0x001"

definition O_RDWR :: u32 where
  "O_RDWR = 0x002"

definition O_CREATE :: u32 where
  "O_CREATE = 0x200"

definition O_TRUNC :: u32 where
  "O_TRUNC = 0x400"

definition O_APPEND :: u32 where
  "O_APPEND = 0x010"

definition vfs_open :: "buffer \<Rightarrow> 'a vfs_scheme \<Rightarrow> buffer \<Rightarrow> u32 \<Rightarrow> (int \<times> nat option \<times> 'a vfs_scheme) option" where
  "vfs_open J s pth mode = do {
     (v, s) \<leftarrow> vfs_namei J s pth;
     (r, v, s) \<leftarrow> (case v of
          Some ip \<Rightarrow> Some (0, Some ip, s)
        | None \<Rightarrow>
            if mode AND O_CREATE \<noteq> 0 then do {
              (d, name, s) \<leftarrow> vfs_nameiparent J s pth;
              (case d of
                 None \<Rightarrow> Some (-1, None, s)
               | Some dir \<Rightarrow> do {
                   s \<leftarrow> vn_lock s dir;
                   (r, v, s) \<leftarrow> vop_create J s dir name V_FILE;
                   s \<leftarrow> vput (vn_unlock s dir) dir;
                   Some (r, v, s)
                 })
            } else Some (-1, None, s));
     if r \<noteq> 0 then Some (-1, None, s)
     else do {
       ip \<leftarrow> v;
       if v_type (vn s ip) = V_DIR \<and> (mode AND O_CREATE \<noteq> 0 \<or> mode AND (O_WRONLY OR O_RDWR) \<noteq> 0) then do {
         s \<leftarrow> vput s ip;
         Some (-1, None, s)
       } else Some (0, Some ip, s)
     }
   }"

definition vfs_read :: "'a vfs_scheme \<Rightarrow> nat \<Rightarrow> u64 \<Rightarrow> int \<Rightarrow> u32 \<Rightarrow> (int \<times> 'a vfs_scheme) option" where
  "vfs_read s vp a n off = (if v_ops (vn s vp) = None then Some (-1, s) else vop_read s vp a n off)"

definition vfs_write :: "'a vfs_scheme \<Rightarrow> nat \<Rightarrow> u64 \<Rightarrow> int \<Rightarrow> u32 \<Rightarrow> (int \<times> 'a vfs_scheme) option" where
  "vfs_write s vp a n off = (if v_ops (vn s vp) = None then Some (-1, s) else vop_write s vp a n off)"

definition vfs_readdir :: "buffer \<Rightarrow> 'a vfs_scheme \<Rightarrow> nat \<Rightarrow> u64 \<Rightarrow> u32 \<Rightarrow> (int \<times> 'a vfs_scheme) option" where
  "vfs_readdir J s vp a off = (if v_ops (vn s vp) = None then Some (-1, s) else vop_readdir J s vp a off)"

definition vfs_close :: "'a vfs_scheme \<Rightarrow> nat \<Rightarrow> (int \<times> 'a vfs_scheme) option" where
  "vfs_close s vp = do {
     s \<leftarrow> vput s vp;
     Some (0, s)
   }"

text \<open>The operations that lock the directory first.\<close>

definition vfs_create ::
    "buffer \<Rightarrow> 'a vfs_scheme \<Rightarrow> nat \<Rightarrow> buffer \<Rightarrow> u32 \<Rightarrow> (int \<times> nat option \<times> 'a vfs_scheme) option" where
  "vfs_create J s dir name type =
     (if v_type (vn s dir) \<noteq> V_DIR \<or> v_ops (vn s dir) = None then Some (-1, None, s)
      else do {
        s \<leftarrow> vn_lock s dir;
        (r, v, s) \<leftarrow> vop_create J s dir name type;
        Some (r, v, vn_unlock s dir)
      })"

definition vfs_unlink :: "buffer \<Rightarrow> 'a vfs_scheme \<Rightarrow> nat \<Rightarrow> buffer \<Rightarrow> (int \<times> 'a vfs_scheme) option" where
  "vfs_unlink J s dir name =
     (if v_type (vn s dir) \<noteq> V_DIR \<or> v_ops (vn s dir) = None then Some (-1, s)
      else do {
        s \<leftarrow> vn_lock s dir;
        (r, s) \<leftarrow> vop_unlink J s dir name;
        Some (r, vn_unlock s dir)
      })"

definition vfs_mkdir :: "buffer \<Rightarrow> 'a vfs_scheme \<Rightarrow> nat \<Rightarrow> buffer \<Rightarrow> (int \<times> 'a vfs_scheme) option" where
  "vfs_mkdir J s dir name =
     (if v_type (vn s dir) \<noteq> V_DIR \<or> v_ops (vn s dir) = None then Some (-1, s)
      else do {
        s \<leftarrow> vn_lock s dir;
        (r, s) \<leftarrow> vop_mkdir J s dir name;
        Some (r, vn_unlock s dir)
      })"

definition vfs_link :: "'a vfs_scheme \<Rightarrow> nat \<Rightarrow> nat \<Rightarrow> buffer \<Rightarrow> (int \<times> 'a vfs_scheme) option" where
  "vfs_link s old newdir name =
     (if v_mp (vn s old) \<noteq> v_mp (vn s newdir) \<or> v_type (vn s newdir) \<noteq> V_DIR
         \<or> v_ops (vn s newdir) = None \<or> v_ops (vn s newdir) = Some FAT32 then Some (-1, s)
      else do {
        s \<leftarrow> vn_lock s newdir;
        (r, s) \<leftarrow> vop_link s newdir name old;
        Some (r, vn_unlock s newdir)
      })"

definition vfs_stat :: "buffer \<Rightarrow> 'a vfs_scheme \<Rightarrow> nat \<Rightarrow> u64 \<Rightarrow> (int \<times> 'a vfs_scheme) option" where
  "vfs_stat J s vp a = (if v_ops (vn s vp) = None then Some (-1, s) else vop_stat J s vp a)"

definition vfs_mknod :: "'a vfs_scheme \<Rightarrow> nat \<Rightarrow> buffer \<Rightarrow> int \<Rightarrow> int \<Rightarrow> (int \<times> 'a vfs_scheme) option" where
  "vfs_mknod s dir name ma mi =
     (if v_type (vn s dir) \<noteq> V_DIR \<or> v_ops (vn s dir) = None \<or> v_ops (vn s dir) = Some FAT32 then Some (-1, s)
      else do {
        s \<leftarrow> vn_lock s dir;
        (r, s) \<leftarrow> vop_mknod s dir name ma mi;
        Some (r, vn_unlock s dir)
      })"

definition vfs_read_kernel ::
    "'a vfs_scheme \<Rightarrow> nat \<Rightarrow> u64 \<Rightarrow> buffer \<Rightarrow> int \<Rightarrow> u32 \<Rightarrow> (int \<times> buffer \<times> 'a vfs_scheme) option" where
  "vfs_read_kernel s vp a kb n off = (if v_ops (vn s vp) = None then Some (-1, kb, s) else vop_read_kernel s vp a kb n off)"

definition vfs_truncate :: "'a vfs_scheme \<Rightarrow> nat \<Rightarrow> (int \<times> 'a vfs_scheme) option" where
  "vfs_truncate s vp =
     (if v_ops (vn s vp) = None \<or> v_type (vn s vp) \<noteq> V_FILE then Some (-1, s) else vop_truncate s vp)"

end
