(* ===== verification/Proc.thy ===== *)
theory Proc
  imports Vfs
begin

text \<open>
  The process table of \<^verbatim>\<open>kernel/proc.c\<close> and the data of \<^verbatim>\<open>kernel/proc.h\<close>, \<^verbatim>\<open>kernel/file.h\<close>, \<^verbatim>\<open>kernel/pipe.c\<close> and
  \<^verbatim>\<open>kernel/console.c\<close>, which complete the state of the kernel.  The process that executes the kernel code is
  entry \<open>cur\<close> of the table.  Its size, page table, process id and current directory are the fields \<open>p_sz\<close>,
  \<open>p_pagetable\<close>, \<open>p_pid\<close> and \<open>p_cwd\<close> of the state; \<open>save_cur\<close> and \<open>load_cur\<close> move them to and from the table when
  another process runs.  Spin locks protect single steps of this model and are not part of the state.
\<close>

definition NPROC :: nat where
  "NPROC = 64"

definition NOFILE :: nat where
  "NOFILE = 16"

definition NFILE :: nat where
  "NFILE = 100"

definition NDEV :: int where
  "NDEV = 10"

datatype procstate = UNUSED | USED | SLEEPING | RUNNABLE | RUNNING | ZOMBIE

text \<open>The addresses that processes sleep on; the sleep inside a sleep lock, the log or the disk driver is not returned from.\<close>

datatype chan = Pipe_read u64 | Pipe_write u64 | Cons_read | Wait_child nat | Tick

text \<open>The user registers in a trap frame: \<open>tf_a i\<close> is register \<open>a\<close>\<open>i\<close>, \<open>tf_other\<close> the other registers by number.\<close>

record trapframe =
  tf_kernel_satp :: u64
  tf_kernel_sp :: u64
  tf_kernel_trap :: u64
  tf_kernel_hartid :: u64
  tf_epc :: u64
  tf_sp :: u64
  tf_a :: "nat \<Rightarrow> u64"
  tf_other :: "nat \<Rightarrow> u64"

record proc =
  pr_state :: procstate
  pr_chan :: "chan option"
  pr_killed :: bool
  pr_xstate :: int
  pr_pid :: int
  pr_parent :: "nat option"
  pr_kstack :: u64
  pr_sz :: u64
  pr_pagetable :: u64
  pr_trapframe :: u64
  pr_ctx_ra :: u64
  pr_ctx_sp :: u64
  pr_ofile :: "nat \<Rightarrow> nat option"
  pr_cwd :: "nat option"
  pr_name :: buffer

datatype fdtype = FD_NONE | FD_PIPE | FD_INODE | FD_DEVICE

record kfile =
  f_type :: fdtype
  f_ref :: int
  f_readable :: bool
  f_writable :: bool
  f_appendable :: bool
  f_pipe :: u64
  f_vnode :: nat
  f_off :: u32
  f_major :: int

record pipe =
  pi_data :: buffer
  pi_nread :: u32
  pi_nwrite :: u32
  pi_readopen :: bool
  pi_writeopen :: bool

record cons =
  c_buf :: buffer
  c_r :: u32
  c_w :: u32
  c_e :: u32

text \<open>\<open>uart\<close> is the sequence of characters sent to the console; \<open>devsw\<close> says at which major numbers the functions of
  the console, the only device of the kernel, have been installed.\<close>

record kstate = vfs +
  procs :: "nat \<Rightarrow> proc"
  cur :: nat
  initproc :: nat
  nextpid :: int
  sym_trampoline :: u64
  sym_forkret :: u64
  trapframes :: "u64 \<Rightarrow> trapframe"
  ftable :: "nat \<Rightarrow> kfile"
  pipes :: "u64 \<Rightarrow> pipe"
  console :: cons
  uart :: "byte list"
  devsw :: "int \<Rightarrow> bool"

definition upd_proc :: "nat \<Rightarrow> (proc \<Rightarrow> proc) \<Rightarrow> 'a kstate_scheme \<Rightarrow> 'a kstate_scheme" where
  "upd_proc p f s = s\<lparr>procs := upd p f (procs s)\<rparr>"

definition upd_file :: "nat \<Rightarrow> (kfile \<Rightarrow> kfile) \<Rightarrow> 'a kstate_scheme \<Rightarrow> 'a kstate_scheme" where
  "upd_file p f s = s\<lparr>ftable := upd p f (ftable s)\<rparr>"

definition upd_pipe :: "u64 \<Rightarrow> (pipe \<Rightarrow> pipe) \<Rightarrow> 'a kstate_scheme \<Rightarrow> 'a kstate_scheme" where
  "upd_pipe p f s = s\<lparr>pipes := upd p f (pipes s)\<rparr>"

abbreviation pr :: "'a kstate_scheme \<Rightarrow> nat \<Rightarrow> proc" where
  "pr s p \<equiv> procs s p"

text \<open>
  How a system call leaves the processor: it returns a value, it sleeps on a channel and goes on at the given point
  once it is woken, or the process has exited.
\<close>

datatype resume =
    In_pipewrite u64 u64 int int
  | In_piperead u64 u64 int
  | In_consoleread bool u64 u32 int
  | In_wait u64
  | In_pause u32 int

datatype outcome = Ret int | Sleep chan resume | Exited

subsection \<open>Sleeping, waking and killing\<close>

definition wakeup :: "'a kstate_scheme \<Rightarrow> chan \<Rightarrow> 'a kstate_scheme" where
  "wakeup s c = s\<lparr>procs := (\<lambda>p.
     if p < NPROC \<and> p \<noteq> cur s \<and> pr_state (pr s p) = SLEEPING \<and> pr_chan (pr s p) = Some c
     then (pr s p)\<lparr>pr_state := RUNNABLE\<rparr> else pr s p)\<rparr>"

definition kkill :: "'a kstate_scheme \<Rightarrow> int \<Rightarrow> int \<times> 'a kstate_scheme" where
  "kkill s pid =
     (case scan (\<lambda>p. pr_pid (pr s p) = pid) 0 NPROC of
        None \<Rightarrow> (-1, s)
      | Some p \<Rightarrow> (0, upd_proc p (\<lambda>x. x\<lparr>pr_killed := True,
          pr_state := (if pr_state x = SLEEPING then RUNNABLE else pr_state x)\<rparr>) s))"

definition setkilled :: "'a kstate_scheme \<Rightarrow> nat \<Rightarrow> 'a kstate_scheme" where
  "setkilled s p = upd_proc p (pr_killed_update (\<lambda>_. True)) s"

definition killed :: "'a kstate_scheme \<Rightarrow> nat \<Rightarrow> bool" where
  "killed s p = pr_killed (pr s p)"

text \<open>Moving the fields of the running process to the table and back.\<close>

definition save_cur :: "'a kstate_scheme \<Rightarrow> 'a kstate_scheme" where
  "save_cur s = upd_proc (cur s) (\<lambda>x. x\<lparr>pr_sz := p_sz s, pr_pagetable := p_pagetable s, pr_cwd := p_cwd s\<rparr>) s"

definition load_cur :: "'a kstate_scheme \<Rightarrow> nat \<Rightarrow> 'a kstate_scheme" where
  "load_cur s p = s\<lparr>cur := p, p_sz := pr_sz (pr s p), p_pagetable := pr_pagetable (pr s p), p_cwd := pr_cwd (pr s p),
     p_pid := word_of_int (pr_pid (pr s p))\<rparr>"

text \<open>\<open>sleep\<close> up to the call of \<open>sched\<close>, and the part after it; \<open>yield\<close> up to the call of \<open>sched\<close>.\<close>

definition sleep_begin :: "'a kstate_scheme \<Rightarrow> chan \<Rightarrow> 'a kstate_scheme" where
  "sleep_begin s c = upd_proc (cur s) (\<lambda>x. x\<lparr>pr_chan := Some c, pr_state := SLEEPING\<rparr>) s"

definition sleep_end :: "'a kstate_scheme \<Rightarrow> 'a kstate_scheme" where
  "sleep_end s = upd_proc (cur s) (pr_chan_update (\<lambda>_. None)) s"

definition yield_begin :: "'a kstate_scheme \<Rightarrow> 'a kstate_scheme" where
  "yield_begin s = upd_proc (cur s) (pr_state_update (\<lambda>_. RUNNABLE)) s"

text \<open>The scheduler looks at entry \<open>p\<close>: a runnable process becomes the running one.\<close>

definition sched_visit :: "'a kstate_scheme \<Rightarrow> nat \<Rightarrow> bool \<times> 'a kstate_scheme" where
  "sched_visit s p =
     (if pr_state (pr s p) = RUNNABLE then (True, load_cur (upd_proc p (pr_state_update (\<lambda>_. RUNNING)) (save_cur s)) p)
      else (False, s))"

subsection \<open>Allocation\<close>

definition procinit :: "'a kstate_scheme \<Rightarrow> 'a kstate_scheme" where
  "procinit s = s\<lparr>procs := (\<lambda>p. if p < NPROC
     then (pr s p)\<lparr>pr_state := UNUSED, pr_kstack := KSTACK (arch s) (of_nat p)\<rparr> else pr s p)\<rparr>"

definition allocpid :: "'a kstate_scheme \<Rightarrow> int \<times> 'a kstate_scheme" where
  "allocpid s = (nextpid s, s\<lparr>nextpid := nextpid s + 1\<rparr>)"

definition TRAPFRAME :: "hal_arch \<Rightarrow> u64" where
  "TRAPFRAME A = MAXVA A - 2 * PGSIZE"

definition USER_TOP :: "hal_arch \<Rightarrow> u64" where
  "USER_TOP A = TRAPFRAME A"

definition hal_vm_map_trampoline :: "'a vm_scheme \<Rightarrow> u64 \<Rightarrow> u64 \<Rightarrow> u64 \<Rightarrow> (int \<times> 'a vm_scheme) option" where
  "hal_vm_map_trampoline s pt trampoline_pa trapframe_pa =
     (let A = arch s in
      if \<not> maps_trampoline A then Some (0, s)
      else do {
        (r, s) \<leftarrow> mappages s pt (TRAMPOLINE A) PGSIZE trampoline_pa (PTE_R A OR PTE_X A);
        if r < 0 then Some (-1, s)
        else do {
          (r, s) \<leftarrow> mappages s pt (TRAPFRAME A) PGSIZE trapframe_pa (PTE_R A OR PTE_W A);
          if r < 0 then do {
            s \<leftarrow> uvmunmap s pt (TRAMPOLINE A) 1 False;
            Some (-1, s)
          } else Some (0, s)
        }
      })"

definition hal_vm_unmap_trampoline :: "'a vm_scheme \<Rightarrow> u64 \<Rightarrow> 'a vm_scheme option" where
  "hal_vm_unmap_trampoline s pt =
     (if \<not> maps_trampoline (arch s) then Some s
      else do {
        s \<leftarrow> uvmunmap s pt (TRAMPOLINE (arch s)) 1 False;
        uvmunmap s pt (TRAPFRAME (arch s)) 1 False
      })"

definition proc_pagetable :: "'a kstate_scheme \<Rightarrow> nat \<Rightarrow> (u64 \<times> 'a kstate_scheme) option" where
  "proc_pagetable s p =
     (case uvmcreate s of (pt, s) \<Rightarrow>
        if pt = 0 then Some (0, s)
        else do {
          (r, s) \<leftarrow> hal_vm_map_trampoline s pt (sym_trampoline s) (pr_trapframe (pr s p));
          if r < 0 then do {
            s \<leftarrow> uvmfree s pt 0;
            Some (0, s)
          } else Some (pt, s)
        })"

definition proc_freepagetable :: "'a vm_scheme \<Rightarrow> u64 \<Rightarrow> u64 \<Rightarrow> 'a vm_scheme option" where
  "proc_freepagetable s pt sz = do {
     s \<leftarrow> hal_vm_unmap_trampoline s pt;
     uvmfree s pt sz
   }"

definition freeproc :: "'a kstate_scheme \<Rightarrow> nat \<Rightarrow> 'a kstate_scheme option" where
  "freeproc s p = do {
     s \<leftarrow> (if pr_trapframe (pr s p) \<noteq> 0 then kfree s (pr_trapframe (pr s p)) else Some s);
     let s = upd_proc p (pr_trapframe_update (\<lambda>_. 0)) s;
     s \<leftarrow> (if pr_pagetable (pr s p) \<noteq> 0 then proc_freepagetable s (pr_pagetable (pr s p)) (pr_sz (pr s p)) else Some s);
     Some (upd_proc p (\<lambda>x. x\<lparr>pr_pagetable := 0, pr_sz := 0, pr_pid := 0, pr_parent := None, pr_name := (pr_name x)(0 := 0),
             pr_chan := None, pr_killed := False, pr_xstate := 0, pr_state := UNUSED\<rparr>) s)
   }"

definition allocproc :: "'a kstate_scheme \<Rightarrow> (nat option \<times> 'a kstate_scheme) option" where
  "allocproc s =
     (case scan (\<lambda>p. pr_state (pr s p) = UNUSED) 0 NPROC of
        None \<Rightarrow> Some (None, s)
      | Some p \<Rightarrow>
          (case allocpid s of (pid, s) \<Rightarrow>
           case kalloc (upd_proc p (\<lambda>x. x\<lparr>pr_pid := pid, pr_state := USED\<rparr>) s) of (tf, s) \<Rightarrow>
             let s = upd_proc p (pr_trapframe_update (\<lambda>_. tf)) s in
             if tf = 0 then do {
               s \<leftarrow> freeproc s p;
               Some (None, s)
             } else do {
               (pt, s) \<leftarrow> proc_pagetable s p;
               let s = upd_proc p (pr_pagetable_update (\<lambda>_. pt)) s;
               if pt = 0 then do {
                 s \<leftarrow> freeproc s p;
                 Some (None, s)
               } else
                 Some (Some p, upd_proc p (\<lambda>x. x\<lparr>pr_ctx_ra := sym_forkret s, pr_ctx_sp := pr_kstack x + 2 * PGSIZE\<rparr>) s)
             }))"

definition userinit :: "'a kstate_scheme \<Rightarrow> 'a kstate_scheme option" where
  "userinit s = do {
     (po, s) \<leftarrow> allocproc s;
     p \<leftarrow> po;
     Some (upd_proc p (\<lambda>x. x\<lparr>pr_cwd := None, pr_state := RUNNABLE\<rparr>) (s\<lparr>initproc := p\<rparr>))
   }"

definition growproc :: "'a kstate_scheme \<Rightarrow> int \<Rightarrow> (int \<times> 'a kstate_scheme) option" where
  "growproc s n =
     (let sz = p_sz s in
      if n > 0 then
        if sz + word_of_int n < sz \<or> sz + word_of_int n > USER_TOP (arch s) then Some (-1, s)
        else do {
          (sz, s) \<leftarrow> uvmalloc s (p_pagetable s) sz (sz + word_of_int n) (PTE_W (arch s));
          if sz = 0 then Some (-1, s) else Some (0, s\<lparr>p_sz := sz\<rparr>)
        }
      else if n < 0 then
        if word_of_int (- n) > sz then Some (0, s)
        else do {
          (sz, s) \<leftarrow> uvmdealloc s (p_pagetable s) sz (sz - word_of_int (- n));
          Some (0, s\<lparr>p_sz := sz\<rparr>)
        }
      else Some (0, s))"

definition reparent :: "'a kstate_scheme \<Rightarrow> nat \<Rightarrow> 'a kstate_scheme" where
  "reparent s p =
     (let s' = s\<lparr>procs := (\<lambda>q. if q < NPROC \<and> pr_parent (pr s q) = Some p then (pr s q)\<lparr>pr_parent := Some (initproc s)\<rparr> else pr s q)\<rparr> in
      if \<exists>q<NPROC. pr_parent (pr s q) = Some p then wakeup s' (Wait_child (initproc s)) else s')"

text \<open>The kernel stacks: two pages for each process, mapped at \<open>KSTACK\<close>, for the \<open>k\<close> processes from \<open>p\<close> on.\<close>

fun mapstacks_loop :: "'a vm_scheme \<Rightarrow> u64 \<Rightarrow> nat \<Rightarrow> nat \<Rightarrow> 'a vm_scheme option" where
  "mapstacks_loop s kpgtbl p 0 = Some s"
| "mapstacks_loop s kpgtbl p (Suc k) =
     (case kalloc s of (pa, s) \<Rightarrow> do {
        ensure (pa \<noteq> 0) ''kalloc'';
        (case kalloc s of (pa2, s) \<Rightarrow> do {
           ensure (pa2 \<noteq> 0) ''kalloc'';
           let A = arch s;
           let va = KSTACK A (of_nat p);
           s \<leftarrow> kvmmap s kpgtbl va pa PGSIZE (PTE_R A OR PTE_W A);
           s \<leftarrow> kvmmap s kpgtbl (va + PGSIZE) pa2 PGSIZE (PTE_R A OR PTE_W A);
           mapstacks_loop s kpgtbl (Suc p) k
         })
      })"

definition proc_mapstacks :: "'a vm_scheme \<Rightarrow> u64 \<Rightarrow> 'a vm_scheme option" where
  "proc_mapstacks s kpgtbl = mapstacks_loop s kpgtbl 0 NPROC"

end
