(* ===== verification/Printf.thy ===== *)
theory Printf
  imports CString
begin

text \<open>
  Formatted output of \<^verbatim>\<open>kernel/printf.c\<close>.  The functions return the characters that are sent to the console.
  A write outside the buffer of \<open>printint\<close> and a conversion without its argument are the value \<^const>\<open>None\<close>.
\<close>

definition asc :: "char \<Rightarrow> byte" where
  "asc c = of_char c"

definition BACKSPACE :: u32 where
  "BACKSPACE = 0x100"

definition consputc :: "u32 \<Rightarrow> byte list" where
  "consputc c = (if c = BACKSPACE then [8, 32, 8] else [ucast c])"

definition digits :: "byte list" where
  "digits = map asc ''0123456789abcdef''"

text \<open>The loop that stores the digits of \<open>x\<close>, least significant first, in \<open>buf[20]\<close>; \<open>buf\<close> lists what it has stored.\<close>

partial_function (option) printint_loop :: "u64 \<Rightarrow> u64 \<Rightarrow> byte list \<Rightarrow> byte list option" where
  "printint_loop x base buf =
     (if length buf < 20 then
        let buf = buf @ [digits ! unat (x mod base)]; x = x div base in
        if x \<noteq> 0 then printint_loop x base buf else Some buf
      else None)"

definition printint :: "u64 \<Rightarrow> u64 \<Rightarrow> bool \<Rightarrow> byte list option" where
  "printint xx base sign =
     (let neg = sign \<and> sint xx < 0 in do {
        buf \<leftarrow> printint_loop (if neg then - xx else xx) base [];
        buf \<leftarrow> (if neg then if length buf < 20 then Some (buf @ [asc CHR ''-'']) else None else Some buf);
        Some (concat (map (\<lambda>c. consputc (ucast c)) (rev buf)))
      })"

fun printptr_loop :: "u64 \<Rightarrow> nat \<Rightarrow> byte list" where
  "printptr_loop x 0 = []"
| "printptr_loop x (Suc k) = consputc (ucast (digits ! unat (drop_bit 60 x))) @ printptr_loop (push_bit 4 x) k"

definition printptr :: "u64 \<Rightarrow> byte list" where
  "printptr x = [asc CHR ''0'', asc CHR ''x''] @ printptr_loop x 16"

text \<open>The variable arguments: integers in 64-bit slots, and strings, where \<^const>\<open>None\<close> is the null pointer.\<close>

datatype parg = PInt u64 | PStr "buffer option"

definition str_out :: "buffer \<Rightarrow> byte list option" where
  "str_out t = do {
     n \<leftarrow> strlen t;
     Some (concat (map (\<lambda>i. consputc (ucast (t i))) [0..<n]))
   }"

definition lit :: "string \<Rightarrow> buffer" where
  "lit t = (\<lambda>i. if i < length t then asc (t ! i) else 0)"

definition take_int :: "parg list \<Rightarrow> (u64 \<times> parg list) option" where
  "take_int ap = (case ap of PInt a # ap \<Rightarrow> Some (a, ap) | _ \<Rightarrow> None)"

definition take_str :: "parg list \<Rightarrow> (buffer option \<times> parg list) option" where
  "take_str ap = (case ap of PStr a # ap \<Rightarrow> Some (a, ap) | _ \<Rightarrow> None)"

definition conv_int :: "parg list \<Rightarrow> (u64 \<Rightarrow> u64) \<Rightarrow> u64 \<Rightarrow> bool \<Rightarrow> nat \<Rightarrow> (byte list \<times> parg list \<times> nat) option option" where
  "conv_int ap f base sign k = do {
     (a, ap) \<leftarrow> take_int ap;
     out \<leftarrow> printint (f a) base sign;
     Some (Some (out, ap, k))
   }"

definition to_int :: "u64 \<Rightarrow> u64" where
  "to_int a = scast (ucast a :: u32)"

definition to_uint :: "u64 \<Rightarrow> u64" where
  "to_uint a = ucast (ucast a :: u32)"

text \<open>
  One conversion, from the three characters after the percent sign: the output, the remaining arguments and how many
  further characters of the format it takes; \<^term>\<open>Some None\<close> is the \<open>break\<close> at the end of the format.
\<close>

definition printf_conv :: "byte \<Rightarrow> byte \<Rightarrow> byte \<Rightarrow> parg list \<Rightarrow> (byte list \<times> parg list \<times> nat) option option" where
  "printf_conv c0 c1 c2 ap =
     (let l = asc CHR ''l''; d = asc CHR ''d''; u = asc CHR ''u''; x = asc CHR ''x'' in
      if c0 = d then conv_int ap to_int 10 True 0
      else if c0 = l \<and> c1 = d then conv_int ap id 10 True 1
      else if c0 = l \<and> c1 = l \<and> c2 = d then conv_int ap id 10 True 2
      else if c0 = u then conv_int ap to_uint 10 False 0
      else if c0 = l \<and> c1 = u then conv_int ap id 10 False 1
      else if c0 = l \<and> c1 = l \<and> c2 = u then conv_int ap id 10 False 2
      else if c0 = x then conv_int ap to_uint 16 False 0
      else if c0 = l \<and> c1 = x then conv_int ap id 16 False 1
      else if c0 = l \<and> c1 = l \<and> c2 = x then conv_int ap id 16 False 2
      else if c0 = asc CHR ''p'' then do {
        (a, ap) \<leftarrow> take_int ap;
        Some (Some (printptr a, ap, 0))
      }
      else if c0 = asc CHR ''c'' then do {
        (a, ap) \<leftarrow> take_int ap;
        Some (Some (consputc (ucast a), ap, 0))
      }
      else if c0 = asc CHR ''s'' then do {
        (t, ap) \<leftarrow> take_str ap;
        out \<leftarrow> str_out (case t of None \<Rightarrow> lit ''(null)'' | Some t \<Rightarrow> t);
        Some (Some (out, ap, 0))
      }
      else if c0 = asc CHR ''%'' then Some (Some ([asc CHR ''%''], ap, 0))
      else if c0 = 0 then Some None
      else Some (Some (asc CHR ''%'' # consputc (ucast c0), ap, 0)))"

partial_function (option) printf_loop :: "buffer \<Rightarrow> nat \<Rightarrow> parg list \<Rightarrow> byte list \<Rightarrow> byte list option" where
  "printf_loop fmt i ap out =
     (if fmt i = 0 then Some out
      else if fmt i \<noteq> asc CHR ''%'' then printf_loop fmt (i + 1) ap (out @ consputc (ucast (fmt i)))
      else let c0 = fmt (i + 1); c1 = (if c0 \<noteq> 0 then fmt (i + 2) else 0); c2 = (if c1 \<noteq> 0 then fmt (i + 3) else 0) in do {
        r \<leftarrow> printf_conv c0 c1 c2 ap;
        (case r of
           None \<Rightarrow> Some out
         | Some (o1, ap, k) \<Rightarrow> printf_loop fmt (i + 2 + k) ap (out @ o1))
      })"

definition printf :: "string \<Rightarrow> parg list \<Rightarrow> byte list option" where
  "printf fmt ap = printf_loop (lit fmt) 0 ap []"

subsection \<open>Printed numerals\<close>

text \<open>The value of a list of digits, most significant first, and what makes it the numeral of a number.\<close>

definition digits_value :: "nat \<Rightarrow> nat list \<Rightarrow> nat" where
  "digits_value b ds = foldl (\<lambda>v d. v * b + d) 0 ds"

definition numeral_of :: "nat \<Rightarrow> nat \<Rightarrow> nat list \<Rightarrow> bool" where
  "numeral_of b n ds \<longleftrightarrow> ds \<noteq> [] \<and> (\<forall>d\<in>set ds. d < b) \<and> (hd ds = 0 \<longrightarrow> ds = [0]) \<and> digits_value b ds = n"

lemma digits_value_snoc [simp]: "digits_value b (ds @ [d]) = digits_value b ds * b + d"
  by (simp add: digits_value_def)

lemma numeral_of_digit: "n < b \<Longrightarrow> numeral_of b n [n]"
  by (simp add: numeral_of_def digits_value_def)

lemma numeral_of_snoc:
  assumes "numeral_of b n ds" "0 < n" "d < b"
  shows "numeral_of b (n * b + d) (ds @ [d])"
proof -
  have "hd ds \<noteq> 0" using assms by (auto simp: numeral_of_def digits_value_def)
  with assms show ?thesis by (auto simp: numeral_of_def)
qed

text \<open>A number below \<open>b ^ k\<close> has a numeral of at most \<open>k\<close> digits, and the loop stores it in reverse.\<close>

lemma printint_loop_numeral:
  assumes "2 \<le> unat base" "unat base \<le> 16" "unat x < unat base ^ k" "length buf + k \<le> 20" "0 < k"
  shows "\<exists>ds. numeral_of (unat base) (unat x) ds \<and> length ds \<le> k
           \<and> printint_loop x base buf = Some (buf @ rev (map ((!) digits) ds))"
  using assms(3-5)
proof (induction k arbitrary: x buf)
  case (Suc k)
  let ?b = "unat base"
  let ?buf = "buf @ [digits ! (unat x mod ?b)]"
  have step: "printint_loop x base buf = (if x div base \<noteq> 0 then printint_loop (x div base) base ?buf else Some ?buf)"
    by (subst printint_loop.simps) (use Suc.prems in \<open>simp add: Let_def unat_mod\<close>)
  have d: "unat (x div base) = unat x div ?b" by (simp add: unat_div)
  show ?case
  proof (cases "x div base = 0")
    case True
    then have lt: "unat x < ?b" using d assms(1) by (simp add: div_eq_0_iff)
    then show ?thesis using step True
      by (intro exI [of _ "[unat x]"]) (simp add: numeral_of_digit)
  next
    case False
    then have pos: "0 < unat x div ?b" using d by (metis neq0_conv unat_eq_zero)
    have bound: "unat (x div base) < ?b ^ k"
      using Suc.prems(1) assms(1) unfolding d by (simp add: less_mult_imp_div_less mult.commute)
    have "0 < k" using bound pos d by (cases k) auto
    then obtain ds where ds: "numeral_of ?b (unat (x div base)) ds" "length ds \<le> k"
        "printint_loop (x div base) base ?buf = Some (?buf @ rev (map ((!) digits) ds))"
      using Suc.IH [OF bound, of ?buf] Suc.prems(2) by auto
    have "numeral_of ?b (unat x div ?b * ?b + unat x mod ?b) (ds @ [unat x mod ?b])"
      by (rule numeral_of_snoc) (use ds(1) pos d assms(1) in auto)
    then show ?thesis using step ds False by (intro exI [of _ "ds @ [unat x mod ?b]"]) simp
  qed
qed simp

lemma consputc_digit [simp]: "consputc (ucast (c :: byte)) = [c]"
proof -
  have "uint c < 256" using uint_lt2p [of c] by simp
  then have "uint (ucast c :: u32) < 256" by (simp add: unsigned_ucast_eq take_bit_int_eq_self)
  then have "(ucast c :: u32) \<noteq> BACKSPACE" unfolding BACKSPACE_def by auto
  moreover have "ucast (ucast c :: u32) = c" by (rule ucast_up_ucast_id) (simp add: is_up)
  ultimately show ?thesis by (simp add: consputc_def)
qed

lemma concat_consputc [simp]: "concat (map (\<lambda>c. consputc (ucast (c :: byte))) xs) = xs"
  by (induction xs) simp_all

definition shown :: "u64 \<Rightarrow> bool \<Rightarrow> bool \<times> nat" where
  "shown xx sign = (if sign \<and> sint xx < 0 then (True, nat (- sint xx)) else (False, unat xx))"

lemma unat_minus_neg:
  assumes "sint (x :: u64) < 0"
  shows "unat (- x) = nat (- sint x)" "unat (- x) \<le> 2 ^ 63"
proof -
  have r: "- (2 ^ 63) \<le> sint x" "sint x < 2 ^ 63" using sint_range_size [of x] by (simp_all add: word_size)
  have "x = word_of_int (sint x)" by simp
  then have "- x = word_of_int (- sint x)" by (metis of_int_minus)
  moreover have "uint (word_of_int k :: u64) = k mod 2 ^ 64" for k by (simp add: unsigned_of_int take_bit_eq_mod)
  ultimately have "uint (- x) = (- sint x) mod 2 ^ 64" by metis
  also have "\<dots> = - sint x" using assms r by (intro mod_pos_pos_trivial) auto
  finally have u: "uint (- x) = - sint x" .
  then show "unat (- x) = nat (- sint x)" by (metis unat_eq_nat_uint)
  with r show "unat (- x) \<le> 2 ^ 63" by simp
qed

text \<open>C40: \<open>printint\<close> never writes outside its 20-byte buffer, and what it prints in base 10 or 16 is the numeral of
  the number, without leading zeros, after a minus sign exactly when a signed argument is negative; the smallest 64-bit
  number included.\<close>

theorem printint_correct:
  assumes "base = 10 \<or> base = 16" "shown xx sign = (neg, n)"
  shows "\<exists>ds. numeral_of (unat base) n ds
           \<and> printint xx base sign = Some ((if neg then [asc CHR ''-''] else []) @ map ((!) digits) ds)"
proof -
  have b: "2 \<le> unat base" "unat base \<le> 16" using assms(1) by auto
  have ten: "(10::nat) ^ k \<le> unat base ^ k" for k using assms(1) by (auto intro!: power_mono)
  show ?thesis
  proof (cases neg)
    case True
    then have s: "sign" "sint xx < 0" "n = nat (- sint xx)" using assms(2) by (auto simp: shown_def split: if_splits)
    have "unat (- xx) < 10 ^ 19" using unat_minus_neg(2) [OF s(2)] by simp
    also note ten [of 19]
    finally obtain ds where ds: "numeral_of (unat base) (unat (- xx)) ds" "length ds \<le> 19"
        "printint_loop (- xx) base [] = Some (rev (map ((!) digits) ds))"
      using printint_loop_numeral [OF b, of "- xx" 19 "[]"] by auto
    then show ?thesis using s True unat_minus_neg(1) [OF s(2)]
      by (intro exI [of _ ds]) (simp add: printint_def rev_map)
  next
    case False
    then have s: "\<not> (sign \<and> sint xx < 0)" "n = unat xx" using assms(2) by (auto simp: shown_def split: if_splits)
    have "unat xx < 10 ^ 20" using unsigned_less [of xx, where 'a = nat] by simp
    also note ten [of 20]
    finally obtain ds where ds: "numeral_of (unat base) (unat xx) ds"
        "printint_loop xx base [] = Some (rev (map ((!) digits) ds))"
      using printint_loop_numeral [OF b, of xx 20 "[]"] by auto
    then show ?thesis using s False by (intro exI [of _ ds]) (auto simp: printint_def rev_map)
  qed
qed

theorem printint_correct_witness:
  "shown (- 42) True = (True, 42) \<and> (\<exists>ds. numeral_of 10 42 ds \<and> printint (- 42) 10 True = Some (asc CHR ''-'' # map ((!) digits) ds))"
proof -
  have h: "shown (- 42) True = (True, 42)" by (simp add: shown_def)
  from printint_correct [OF _ h, of 10] h show ?thesis by simp
qed

end
