(* ===== verification/File.thy ===== *)
theory File
  imports Proc Printf
begin

text \<open>
  Open files: \<^verbatim>\<open>kernel/file.c\<close>, pipes (\<^verbatim>\<open>kernel/pipe.c\<close>) and the console device (\<^verbatim>\<open>kernel/console.c\<close>).  An operation
  that has to wait ends in \<^const>\<open>Sleep\<close> with the process asleep; the operation of the same name with the loop
  variables as arguments goes on from there.
\<close>

subsection \<open>Console\<close>

definition INPUT_BUF_SIZE :: u32 where
  "INPUT_BUF_SIZE = 128"

definition emit :: "byte list \<Rightarrow> 'a kstate_scheme \<Rightarrow> 'a kstate_scheme" where
  "emit out s = s\<lparr>uart := uart s @ out\<rparr>"

definition state_name :: "procstate \<Rightarrow> string" where
  "state_name st = (case st of UNUSED \<Rightarrow> ''unused'' | USED \<Rightarrow> ''used'' | SLEEPING \<Rightarrow> ''sleep '' | RUNNABLE \<Rightarrow> ''runble''
     | RUNNING \<Rightarrow> ''run   '' | ZOMBIE \<Rightarrow> ''zombie'')"

fun procdump_loop :: "(nat \<Rightarrow> proc) \<Rightarrow> nat \<Rightarrow> nat \<Rightarrow> byte list option" where
  "procdump_loop ps p 0 = Some []"
| "procdump_loop ps p (Suc k) =
     (if pr_state (ps p) = UNUSED then procdump_loop ps (Suc p) k
      else do {
        o1 \<leftarrow> printf ''%d %s %s'' [PInt (word_of_int (pr_pid (ps p))), PStr (Some (lit (state_name (pr_state (ps p))))),
               PStr (Some (pr_name (ps p)))];
        o2 \<leftarrow> procdump_loop ps (Suc p) k;
        Some (o1 @ [10] @ o2)
      })"

definition procdump :: "'a kstate_scheme \<Rightarrow> 'a kstate_scheme option" where
  "procdump s = do {
     out \<leftarrow> procdump_loop (procs s) 0 NPROC;
     Some (emit ([10] @ out) s)
   }"

fun consolewrite_loop ::
    "buffer \<Rightarrow> 'a kstate_scheme \<Rightarrow> bool \<Rightarrow> u64 \<Rightarrow> buffer \<Rightarrow> int \<Rightarrow> int \<Rightarrow> nat \<Rightarrow> (int \<times> 'a kstate_scheme) option" where
  "consolewrite_loop J s user_src src kb n i 0 = Some (i, s)"
| "consolewrite_loop J s user_src src kb n i (Suc k) =
     (if i < n then
        let nn = min 32 (n - i) in do {
          (r, buf, s) \<leftarrow> either_copyin s J 0 user_src (src + word_of_int i) kb (word_of_int nn);
          if r = -1 then Some (i, s)
          else consolewrite_loop buf (emit (map buf [0..<nat nn]) s) user_src src kb n (i + nn) k
        }
      else Some (i, s))"

text \<open>Every round copies at least one byte, so \<open>n\<close> rounds are enough.\<close>

definition consolewrite ::
    "buffer \<Rightarrow> 'a kstate_scheme \<Rightarrow> bool \<Rightarrow> u64 \<Rightarrow> buffer \<Rightarrow> int \<Rightarrow> (int \<times> 'a kstate_scheme) option" where
  "consolewrite J s user_src src kb n = consolewrite_loop J s user_src src kb n 0 (nat n)"

abbreviation upd_cons :: "(cons \<Rightarrow> cons) \<Rightarrow> 'a kstate_scheme \<Rightarrow> 'a kstate_scheme" where
  "upd_cons f s \<equiv> s\<lparr>console := f (console s)\<rparr>"

text \<open>The loop of \<open>consoleread\<close> with \<open>k\<close> bytes left to read; a kernel destination is an offset into \<open>kb\<close>.\<close>

fun consoleread_loop ::
    "'a kstate_scheme \<Rightarrow> bool \<Rightarrow> u64 \<Rightarrow> buffer \<Rightarrow> u32 \<Rightarrow> nat \<Rightarrow> (outcome \<times> buffer \<times> 'a kstate_scheme) option" where
  "consoleread_loop s user_dst dst kb target 0 = Some (Ret (sint target), kb, s)"
| "consoleread_loop s user_dst dst kb target (Suc k) =
     (let c = console s; left = sint (target - of_nat (Suc k)) in
      if c_r c = c_w c then
        if killed s (cur s) then Some (Ret (-1), kb, s)
        else Some (Sleep Cons_read (In_consoleread user_dst dst target (int (Suc k))), kb, sleep_begin s Cons_read)
      else
        let ch = c_buf c (unat (c_r c mod INPUT_BUF_SIZE)); s' = upd_cons (c_r_update (\<lambda>r. r + 1)) s in
        if ch = 4 then Some (Ret left, kb, if of_nat (Suc k) < target then s else s')
        else do {
          (r, kb, s) \<leftarrow> either_copyout s' user_dst dst kb (\<lambda>_. ch) 0 1;
          if r = -1 then Some (Ret left, kb, s)
          else if ch = 10 then Some (Ret (sint (target - of_nat k)), kb, s)
          else consoleread_loop s user_dst (dst + 1) kb target k
        })"

definition consoleread :: "'a kstate_scheme \<Rightarrow> bool \<Rightarrow> u64 \<Rightarrow> buffer \<Rightarrow> int \<Rightarrow> (outcome \<times> buffer \<times> 'a kstate_scheme) option" where
  "consoleread s user_dst dst kb n =
     (if n \<le> 0 then Some (Ret 0, kb, s) else consoleread_loop s user_dst dst kb (word_of_int n) (nat n))"

text \<open>The loop that erases a line, with the output it sends.\<close>

function kill_line :: "cons \<Rightarrow> byte list \<Rightarrow> cons \<times> byte list" where
  "kill_line c out =
     (if c_e c \<noteq> c_w c \<and> c_buf c (unat ((c_e c - 1) mod INPUT_BUF_SIZE)) \<noteq> 10
      then kill_line (c\<lparr>c_e := c_e c - 1\<rparr>) (out @ consputc BACKSPACE) else (c, out))"
  by auto

termination
proof (relation "measure (\<lambda>(c, _). unat (c_e c - c_w c))")
  fix c :: cons and out :: "byte list"
  assume "c_e c \<noteq> c_w c \<and> c_buf c (unat ((c_e c - 1) mod INPUT_BUF_SIZE)) \<noteq> 10"
  then have "c_e c - c_w c \<noteq> 0" by simp
  then have "unat (c_e c - c_w c - 1) < unat (c_e c - c_w c)"
    by (rule measure_unat)
  then show "((c\<lparr>c_e := c_e c - 1\<rparr>, out @ consputc BACKSPACE), c, out) \<in> measure (\<lambda>(c, _). unat (c_e c - c_w c))"
    by (simp add: algebra_simps)
qed simp

declare kill_line.simps [simp del]

definition consoleintr :: "'a kstate_scheme \<Rightarrow> u32 \<Rightarrow> 'a kstate_scheme option" where
  "consoleintr s c =
     (let C = console s in
      if c = 16 then procdump s
      else if c = 21 then (case kill_line C [] of (C, out) \<Rightarrow> Some (emit out (s\<lparr>console := C\<rparr>)))
      else if c = 8 \<or> c = 127 then
        Some (if c_e C \<noteq> c_w C then emit (consputc BACKSPACE) (upd_cons (c_e_update (\<lambda>e. e - 1)) s) else s)
      else if c \<noteq> 0 \<and> c_e C - c_r C < INPUT_BUF_SIZE then
        let c = (if c = 13 then 10 else c);
            s = emit (consputc c) s;
            C = C\<lparr>c_buf := (c_buf C)(unat (c_e C mod INPUT_BUF_SIZE) := ucast c), c_e := c_e C + 1\<rparr> in
        Some (if c = 10 \<or> c = 4 \<or> c_e C - c_r C = INPUT_BUF_SIZE
              then wakeup (s\<lparr>console := C\<lparr>c_w := c_e C\<rparr>\<rparr>) Cons_read
              else s\<lparr>console := C\<rparr>)
      else Some s)"

definition consoleinit :: "'a kstate_scheme \<Rightarrow> 'a kstate_scheme" where
  "consoleinit s = s\<lparr>devsw := (devsw s)(1 := True)\<rparr>"

subsection \<open>The file table\<close>

definition filealloc :: "'a kstate_scheme \<Rightarrow> nat option \<times> 'a kstate_scheme" where
  "filealloc s =
     (case scan (\<lambda>f. f_ref (ftable s f) = 0) 0 NFILE of
        None \<Rightarrow> (None, s)
      | Some f \<Rightarrow> (Some f, upd_file f (f_ref_update (\<lambda>_. 1)) s))"

definition filedup :: "'a kstate_scheme \<Rightarrow> nat \<Rightarrow> 'a kstate_scheme option" where
  "filedup s f = do {
     ensure (1 \<le> f_ref (ftable s f)) ''filedup'';
     Some (upd_file f (f_ref_update (\<lambda>r. r + 1)) s)
   }"

subsection \<open>Pipes\<close>

definition PIPESIZE :: u32 where
  "PIPESIZE = 512"

definition pipeclose :: "'a kstate_scheme \<Rightarrow> u64 \<Rightarrow> bool \<Rightarrow> 'a kstate_scheme option" where
  "pipeclose s pp writable =
     (let s = (if writable then wakeup (upd_pipe pp (pi_writeopen_update (\<lambda>_. False)) s) (Pipe_read pp)
               else wakeup (upd_pipe pp (pi_readopen_update (\<lambda>_. False)) s) (Pipe_write pp)) in
      if \<not> pi_readopen (pipes s pp) \<and> \<not> pi_writeopen (pipes s pp) then kfree s pp else Some s)"

definition fileclose :: "'a kstate_scheme \<Rightarrow> nat \<Rightarrow> 'a kstate_scheme option" where
  "fileclose s f = do {
     ensure (1 \<le> f_ref (ftable s f)) ''fileclose'';
     let s = upd_file f (f_ref_update (\<lambda>r. r - 1)) s;
     if f_ref (ftable s f) > 0 then Some s
     else
       let ff = ftable s f; s = upd_file f (\<lambda>x. x\<lparr>f_ref := 0, f_type := FD_NONE\<rparr>) s in
       if f_type ff = FD_PIPE then pipeclose s (f_pipe ff) (f_writable ff)
       else if f_type ff = FD_INODE \<or> f_type ff = FD_DEVICE then vput s (f_vnode ff)
       else Some s
   }"

definition close_opt :: "'a kstate_scheme \<Rightarrow> nat option \<Rightarrow> 'a kstate_scheme option" where
  "close_opt s f = (case f of None \<Rightarrow> Some s | Some f \<Rightarrow> fileclose s f)"

text \<open>The result, and \<open>*f0\<close> and \<open>*f1\<close>.\<close>

definition pipealloc :: "'a kstate_scheme \<Rightarrow> (int \<times> nat option \<times> nat option \<times> 'a kstate_scheme) option" where
  "pipealloc s =
     (case filealloc s of (f0, s) \<Rightarrow>
      case (if f0 = None then (None, s) else filealloc s) of (f1, s) \<Rightarrow>
      case (if f0 = None \<or> f1 = None then (0, s) else kalloc s) of (pp, s) \<Rightarrow>
        (case (f0, f1) of
           (Some r, Some w) \<Rightarrow>
             if pp = 0 then do {
               s \<leftarrow> fileclose s r;
               s \<leftarrow> fileclose s w;
               Some (-1, f0, f1, s)
             } else
               let s = upd_pipe pp (\<lambda>x. x\<lparr>pi_readopen := True, pi_writeopen := True, pi_nwrite := 0, pi_nread := 0\<rparr>) s;
                   s = upd_file r (\<lambda>x. x\<lparr>f_type := FD_PIPE, f_readable := True, f_writable := False, f_pipe := pp\<rparr>) s;
                   s = upd_file w (\<lambda>x. x\<lparr>f_type := FD_PIPE, f_readable := False, f_writable := True, f_pipe := pp\<rparr>) s in
               Some (0, f0, f1, s)
         | _ \<Rightarrow> do {
             s \<leftarrow> close_opt s f0;
             s \<leftarrow> close_opt s f1;
             Some (-1, f0, f1, s)
           }))"

text \<open>The loop of \<open>pipewrite\<close> at byte \<open>i\<close> with \<open>k\<close> bytes left, \<open>n = i + k\<close>.\<close>

fun pipewrite_loop ::
    "'a kstate_scheme \<Rightarrow> u64 \<Rightarrow> u64 \<Rightarrow> int \<Rightarrow> int \<Rightarrow> nat \<Rightarrow> (outcome \<times> 'a kstate_scheme) option" where
  "pipewrite_loop s pp a n i 0 = Some (Ret i, wakeup s (Pipe_read pp))"
| "pipewrite_loop s pp a n i (Suc k) =
     (let p = pipes s pp in
      if \<not> pi_readopen p \<or> killed s (cur s) then Some (Ret (-1), s)
      else if pi_nwrite p = pi_nread p + PIPESIZE then
        Some (Sleep (Pipe_write pp) (In_pipewrite pp a n i), sleep_begin (wakeup s (Pipe_read pp)) (Pipe_write pp))
      else do {
        (r, b, s) \<leftarrow> copyin s (p_pagetable s) (\<lambda>_. 0) 0 (a + word_of_int i) 1;
        if r = -1 then Some (Ret i, wakeup s (Pipe_read pp))
        else
          pipewrite_loop (upd_pipe pp (\<lambda>p. p\<lparr>pi_data := (pi_data p)(unat (pi_nwrite p mod PIPESIZE) := b 0),
            pi_nwrite := pi_nwrite p + 1\<rparr>) s) pp a n (i + 1) k
      })"

definition pipewrite :: "'a kstate_scheme \<Rightarrow> u64 \<Rightarrow> u64 \<Rightarrow> int \<Rightarrow> int \<Rightarrow> (outcome \<times> 'a kstate_scheme) option" where
  "pipewrite s pp a n i = pipewrite_loop s pp a n i (nat (n - i))"

fun piperead_loop :: "'a kstate_scheme \<Rightarrow> u64 \<Rightarrow> u64 \<Rightarrow> int \<Rightarrow> nat \<Rightarrow> (int \<times> 'a kstate_scheme) option" where
  "piperead_loop s pp a i 0 = Some (i, s)"
| "piperead_loop s pp a i (Suc k) =
     (let p = pipes s pp in
      if pi_nread p = pi_nwrite p then Some (i, s)
      else do {
        (r, s) \<leftarrow> copyout s (p_pagetable s) (a + word_of_int i) (\<lambda>_. pi_data p (unat (pi_nread p mod PIPESIZE))) 1;
        if r = -1 then Some (if i = 0 then -1 else i, s)
        else piperead_loop (upd_pipe pp (pi_nread_update (\<lambda>r. r + 1)) s) pp a (i + 1) k
      })"

definition piperead :: "'a kstate_scheme \<Rightarrow> u64 \<Rightarrow> u64 \<Rightarrow> int \<Rightarrow> (outcome \<times> 'a kstate_scheme) option" where
  "piperead s pp a n =
     (let p = pipes s pp in
      if pi_nread p = pi_nwrite p \<and> pi_writeopen p then
        if killed s (cur s) then Some (Ret (-1), s)
        else Some (Sleep (Pipe_read pp) (In_piperead pp a n), sleep_begin s (Pipe_read pp))
      else do {
        (i, s) \<leftarrow> piperead_loop s pp a 0 (nat n);
        Some (Ret i, wakeup s (Pipe_write pp))
      })"

subsection \<open>Reading, writing and metadata\<close>

definition filestat :: "buffer \<Rightarrow> 'a kstate_scheme \<Rightarrow> nat \<Rightarrow> u64 \<Rightarrow> (int \<times> 'a kstate_scheme) option" where
  "filestat J s f a =
     (if f_type (ftable s f) = FD_INODE \<or> f_type (ftable s f) = FD_DEVICE then vfs_stat J s (f_vnode (ftable s f)) a
      else Some (-1, s))"

definition has_device :: "'a kstate_scheme \<Rightarrow> int \<Rightarrow> bool" where
  "has_device s m \<longleftrightarrow> 0 \<le> m \<and> m < NDEV \<and> devsw s m"

definition advance :: "nat \<Rightarrow> int \<Rightarrow> 'a kstate_scheme \<Rightarrow> 'a kstate_scheme" where
  "advance f r s = (if r > 0 then upd_file f (f_off_update (\<lambda>x. x + word_of_int r)) s else s)"

definition fileread :: "buffer \<Rightarrow> 'a kstate_scheme \<Rightarrow> nat \<Rightarrow> u64 \<Rightarrow> int \<Rightarrow> (outcome \<times> 'a kstate_scheme) option" where
  "fileread J s f a n =
     (let F = ftable s f in
      if \<not> f_readable F then Some (Ret (-1), s)
      else case f_type F of
        FD_PIPE \<Rightarrow> piperead s (f_pipe F) a n
      | FD_DEVICE \<Rightarrow>
          if \<not> has_device s (f_major F) then Some (Ret (-1), s)
          else do {
            (r, _, s) \<leftarrow> consoleread s True a (\<lambda>_. 0) n;
            Some (r, s)
          }
      | FD_INODE \<Rightarrow> do {
          s \<leftarrow> vn_lock s (f_vnode F);
          (r, s) \<leftarrow>
            (if v_type (vn s (f_vnode F)) = V_DIR then do {
               (r, s) \<leftarrow> vfs_readdir J s (f_vnode F) a (f_off (ftable s f));
               if r > 0 then Some (uint SIZEOF_VDIRENT, upd_file f (f_off_update (\<lambda>_. word_of_int r)) s) else Some (r, s)
             } else do {
               (r, s) \<leftarrow> vfs_read s (f_vnode F) a n (f_off (ftable s f));
               Some (r, advance f r s)
             });
          Some (Ret r, vn_unlock s (f_vnode F))
        }
      | FD_NONE \<Rightarrow> panic ''fileread'')"

definition filewrite :: "buffer \<Rightarrow> 'a kstate_scheme \<Rightarrow> nat \<Rightarrow> u64 \<Rightarrow> int \<Rightarrow> (outcome \<times> 'a kstate_scheme) option" where
  "filewrite J s f a n =
     (let F = ftable s f in
      if \<not> f_writable F then Some (Ret (-1), s)
      else case f_type F of
        FD_PIPE \<Rightarrow> pipewrite s (f_pipe F) a n 0
      | FD_DEVICE \<Rightarrow>
          if \<not> has_device s (f_major F) then Some (Ret (-1), s)
          else do {
            (r, s) \<leftarrow> consolewrite J s True a (\<lambda>_. 0) n;
            Some (Ret r, s)
          }
      | FD_INODE \<Rightarrow> do {
          s \<leftarrow> vn_lock s (f_vnode F);
          let s = (if f_appendable F then upd_file f (f_off_update (\<lambda>_. v_size (vn s (f_vnode F)))) s else s);
          (r, s) \<leftarrow> vfs_write s (f_vnode F) a n (f_off (ftable s f));
          Some (Ret r, vn_unlock (advance f r s) (f_vnode F))
        }
      | FD_NONE \<Rightarrow> panic ''filewrite'')"

end
