(* ===== verification/Exec.thy ===== *)
theory Exec
  imports File
begin

text \<open>
  Creating, ending and waiting for processes (\<^verbatim>\<open>kernel/proc.c\<close>) and replacing the program of a process
  (\<^verbatim>\<open>kernel/exec.c\<close>, \<^verbatim>\<open>kernel/elf.h\<close>).  The arguments of \<open>kexec\<close> are a path and the list of argument strings;
  a write behind the end of \<open>ustack\<close> is the value \<^const>\<open>None\<close>.
\<close>

subsection \<open>Fork, exit and wait\<close>

text \<open>The loops over the open files of process \<open>p\<close>, from descriptor \<open>fd\<close> on, \<open>k\<close> descriptors.\<close>

fun dup_files :: "'a kstate_scheme \<Rightarrow> nat \<Rightarrow> nat \<Rightarrow> nat \<Rightarrow> nat \<Rightarrow> 'a kstate_scheme option" where
  "dup_files s p np fd 0 = Some s"
| "dup_files s p np fd (Suc k) = do {
     s \<leftarrow> (case pr_ofile (pr s p) fd of
            None \<Rightarrow> Some s
          | Some f \<Rightarrow> do {
              s \<leftarrow> filedup s f;
              Some (upd_proc np (pr_ofile_update (\<lambda>o1. o1(fd := Some f))) s)
            });
     dup_files s p np (Suc fd) k
   }"

definition kfork :: "'a kstate_scheme \<Rightarrow> (int \<times> 'a kstate_scheme) option" where
  "kfork s = do {
     (np, s) \<leftarrow> allocproc s;
     (case np of
        None \<Rightarrow> Some (-1, s)
      | Some np \<Rightarrow> do {
          (r, s) \<leftarrow> uvmcopy s (p_pagetable s) (pr_pagetable (pr s np)) (p_sz s);
          if r < 0 then do {
            s \<leftarrow> freeproc s np;
            Some (-1, s)
          } else do {
            let s = upd_proc np (pr_sz_update (\<lambda>_. p_sz s)) s;
            let tf = trapframes s (pr_trapframe (pr s (cur s)));
            let s = s\<lparr>trapframes := (trapframes s)(pr_trapframe (pr s np) := tf\<lparr>tf_a := (tf_a tf)(0 := 0)\<rparr>)\<rparr>;
            s \<leftarrow> dup_files s (cur s) np 0 NOFILE;
            cwd \<leftarrow> p_cwd s;
            (let (v, s) = vget s cwd;
                 s = upd_proc np (\<lambda>x. x\<lparr>pr_cwd := Some v, pr_name := safestrcpy (pr_name x) (pr_name (pr s (cur s))) 16,
                       pr_parent := Some (cur s), pr_state := RUNNABLE\<rparr>) s in
             Some (pr_pid (pr s np), s))
          }
        })
   }"

fun close_files :: "'a kstate_scheme \<Rightarrow> nat \<Rightarrow> nat \<Rightarrow> 'a kstate_scheme option" where
  "close_files s fd 0 = Some s"
| "close_files s fd (Suc k) = do {
     s \<leftarrow> (case pr_ofile (pr s (cur s)) fd of
            None \<Rightarrow> Some s
          | Some f \<Rightarrow> do {
              s \<leftarrow> fileclose s f;
              Some (upd_proc (cur s) (pr_ofile_update (\<lambda>o1. o1(fd := None))) s)
            });
     close_files s (Suc fd) k
   }"

definition kexit :: "'a kstate_scheme \<Rightarrow> int \<Rightarrow> (outcome \<times> 'a kstate_scheme) option" where
  "kexit s status = do {
     ensure (cur s \<noteq> initproc s) ''init exiting'';
     s \<leftarrow> close_files s 0 NOFILE;
     cwd \<leftarrow> p_cwd s;
     s \<leftarrow> vput s cwd;
     let s = reparent (s\<lparr>p_cwd := None\<rparr>) (cur s);
     let s = (case pr_parent (pr s (cur s)) of None \<Rightarrow> s | Some q \<Rightarrow> wakeup s (Wait_child q));
     Some (Exited, upd_proc (cur s) (\<lambda>x. x\<lparr>pr_xstate := status, pr_state := ZOMBIE\<rparr>) s)
   }"

definition kwait :: "'a kstate_scheme \<Rightarrow> u64 \<Rightarrow> (outcome \<times> 'a kstate_scheme) option" where
  "kwait s a =
     (case scan (\<lambda>q. pr_parent (pr s q) = Some (cur s) \<and> pr_state (pr s q) = ZOMBIE) 0 NPROC of
        Some q \<Rightarrow> do {
          let pid = pr_pid (pr s q);
          (r, s) \<leftarrow> (if a \<noteq> 0 then copyout s (p_pagetable s) a (put32 (\<lambda>_. 0) 0 (word_of_int (pr_xstate (pr s q)))) 4
                     else Some (0, s));
          if r < 0 then Some (Ret (-1), s)
          else do {
            s \<leftarrow> freeproc s q;
            Some (Ret pid, s)
          }
        }
      | None \<Rightarrow>
          if (\<forall>q<NPROC. pr_parent (pr s q) \<noteq> Some (cur s)) \<or> killed s (cur s) then Some (Ret (-1), s)
          else Some (Sleep (Wait_child (cur s)) (In_wait a), sleep_begin s (Wait_child (cur s))))"

subsection \<open>Exec\<close>

definition MAXARG :: nat where
  "MAXARG = 32"

definition ELF_MAGIC :: u32 where
  "ELF_MAGIC = 0x464C457F"

definition ELF_PROG_LOAD :: u32 where
  "ELF_PROG_LOAD = 1"

definition le64 :: "buffer \<Rightarrow> nat \<Rightarrow> u64" where
  "le64 d k = ucast (le32 d k) OR push_bit 32 (ucast (le32 d (k + 4)))"

definition put64 :: "buffer \<Rightarrow> nat \<Rightarrow> u64 \<Rightarrow> buffer" where
  "put64 d k w = put32 (put32 d k (ucast w)) (k + 4) (ucast (drop_bit 32 w))"

text \<open>The fields of \<open>struct elfhdr\<close> and \<open>struct proghdr\<close> that \<open>kexec\<close> reads, at their offsets.\<close>

record elfhdr =
  eh_magic :: u32
  eh_entry :: u64
  eh_phoff :: u64
  eh_phnum :: u16

record proghdr =
  ph_type :: u32
  ph_flags :: u32
  ph_off :: u64
  ph_vaddr :: u64
  ph_filesz :: u64
  ph_memsz :: u64

definition get_elfhdr :: "buffer \<Rightarrow> elfhdr" where
  "get_elfhdr d = \<lparr>eh_magic = le32 d 0, eh_entry = le64 d 24, eh_phoff = le64 d 32, eh_phnum = le16 d 56\<rparr>"

definition get_proghdr :: "buffer \<Rightarrow> proghdr" where
  "get_proghdr d = \<lparr>ph_type = le32 d 0, ph_flags = le32 d 4, ph_off = le64 d 8, ph_vaddr = le64 d 16, ph_filesz = le64 d 32,
     ph_memsz = le64 d 40\<rparr>"

definition flags2perm :: "hal_arch \<Rightarrow> u32 \<Rightarrow> u64" where
  "flags2perm A flags =
     (let perm = (if flags AND 1 \<noteq> 0 then PTE_X A else 0) in if flags AND 2 \<noteq> 0 then perm OR PTE_W A else perm)"

text \<open>\<open>vfs_read_kernel\<close> with a physical page as its destination.\<close>

definition read_into_page :: "'a kstate_scheme \<Rightarrow> nat \<Rightarrow> u64 \<Rightarrow> u32 \<Rightarrow> u32 \<Rightarrow> (int \<times> 'a kstate_scheme) option" where
  "read_into_page s vp pa n off = do {
     (r, kb, s) \<leftarrow> vfs_read_kernel s vp 0 (\<lambda>i. mb s (pa + of_nat i)) (sint n) off;
     Some (r, s\<lparr>mb := (\<lambda>x. if unat (x - pa) < 4096 then kb (unat (x - pa)) else mb s x)\<rparr>)
   }"

text \<open>The loop of \<open>loadseg\<close> at offset \<open>i\<close>.\<close>

partial_function (option) loadseg_loop ::
    "'a kstate_scheme \<Rightarrow> u64 \<Rightarrow> u64 \<Rightarrow> nat \<Rightarrow> u32 \<Rightarrow> u32 \<Rightarrow> u32 \<Rightarrow> (int \<times> 'a kstate_scheme) option" where
  "loadseg_loop s pt va vp off sz i =
     (if i < sz then do {
        pa \<leftarrow> walkaddr s pt (va + ucast i);
        ensure (pa \<noteq> 0) ''loadseg: address should exist'';
        let n = (if sz - i < 4096 then sz - i else 4096);
        (r, s) \<leftarrow> read_into_page s vp pa n (off + i);
        if word_of_int r \<noteq> n then Some (-1, s) else loadseg_loop s pt va vp off sz (i + 4096)
      } else Some (0, s))"

definition loadseg :: "'a kstate_scheme \<Rightarrow> u64 \<Rightarrow> u64 \<Rightarrow> nat \<Rightarrow> u32 \<Rightarrow> u32 \<Rightarrow> (int \<times> 'a kstate_scheme) option" where
  "loadseg s pt va vp off sz = loadseg_loop s pt va vp off sz 0"

text \<open>One program header: whether it succeeds (otherwise \<open>goto bad\<close>), and the size of the image so far.\<close>

definition load_ph :: "'a kstate_scheme \<Rightarrow> u64 \<Rightarrow> nat \<Rightarrow> u64 \<Rightarrow> proghdr \<Rightarrow> (bool \<times> u64 \<times> 'a kstate_scheme) option" where
  "load_ph s pt vp sz ph =
     (if ph_type ph \<noteq> ELF_PROG_LOAD then Some (True, sz, s)
      else if ph_memsz ph < ph_filesz ph then Some (False, sz, s)
      else if ph_vaddr ph + ph_memsz ph < ph_vaddr ph then Some (False, sz, s)
      else if ph_vaddr ph mod PGSIZE \<noteq> 0 then Some (False, sz, s)
      else let sz = (if ph_vaddr ph > sz then ph_vaddr ph else sz) in do {
        (sz1, s) \<leftarrow> uvmalloc s pt sz (ph_vaddr ph + ph_memsz ph) (flags2perm (arch s) (ph_flags ph));
        if sz1 = 0 then Some (False, sz, s)
        else do {
          (r, s) \<leftarrow> loadseg s pt (ph_vaddr ph) vp (ucast (ph_off ph)) (ucast (ph_filesz ph));
          Some (r \<ge> 0, sz1, s)
        }
      })"

fun load_program ::
    "buffer \<Rightarrow> 'a kstate_scheme \<Rightarrow> u64 \<Rightarrow> nat \<Rightarrow> u64 \<Rightarrow> u32 \<Rightarrow> nat \<Rightarrow> (bool \<times> u64 \<times> 'a kstate_scheme) option" where
  "load_program J s pt vp sz off 0 = Some (True, sz, s)"
| "load_program J s pt vp sz off (Suc k) = do {
     (r, d, s) \<leftarrow> vfs_read_kernel s vp 0 J 56 off;
     if r \<noteq> 56 then Some (False, sz, s)
     else do {
       (ok, sz, s) \<leftarrow> load_ph s pt vp sz (get_proghdr d);
       if ok then load_program d s pt vp sz (off + 56) k else Some (False, sz, s)
     }
   }"

text \<open>Copying the argument strings: the stack pointer and the addresses collected in \<open>ustack\<close>, or failure.\<close>

fun push_args ::
    "'a kstate_scheme \<Rightarrow> u64 \<Rightarrow> u64 \<Rightarrow> u64 \<Rightarrow> buffer list \<Rightarrow> u64 list \<Rightarrow> ((u64 \<times> u64 list) option \<times> 'a kstate_scheme) option" where
  "push_args s pt stackbase sp [] us = Some (Some (sp, us), s)"
| "push_args s pt stackbase sp (t # ts) us =
     (if length us \<ge> MAXARG then Some (None, s)
      else do {
        n \<leftarrow> strlen t;
        let sp = sp - (of_nat n + 1);
        let sp = sp - sp mod 16;
        if sp < stackbase then Some (None, s)
        else do {
          (r, s) \<leftarrow> copyout s pt sp t (of_nat n + 1);
          if r < 0 then Some (None, s) else push_args s pt stackbase sp ts (us @ [sp])
        }
      })"

fun put_ustack :: "buffer \<Rightarrow> nat \<Rightarrow> u64 list \<Rightarrow> buffer" where
  "put_ustack d k [] = d"
| "put_ustack d k (w # ws) = put_ustack (put64 d k w) (k + 8) ws"

text \<open>The address after the last slash before the NUL.\<close>

partial_function (option) last_elem :: "buffer \<Rightarrow> nat \<Rightarrow> nat \<Rightarrow> nat option" where
  "last_elem pth i k =
     (if pth i = 0 then Some k else last_elem pth (i + 1) (if pth i = 47 then i + 1 else k))"

text \<open>The label \<open>bad\<close>.\<close>

definition exec_bad :: "'a kstate_scheme \<Rightarrow> u64 \<Rightarrow> u64 \<Rightarrow> nat option \<Rightarrow> (int \<times> 'a kstate_scheme) option" where
  "exec_bad s pt sz vp = do {
     s \<leftarrow> (if pt \<noteq> 0 then proc_freepagetable s pt sz else Some s);
     s \<leftarrow> (case vp of None \<Rightarrow> Some s | Some vp \<Rightarrow> vput s vp);
     Some (-1, s)
   }"

text \<open>The stack and the arguments, and the switch to the new image.\<close>

definition exec_commit ::
    "'a kstate_scheme \<Rightarrow> buffer \<Rightarrow> u64 \<Rightarrow> u64 \<Rightarrow> u64 \<Rightarrow> u64 \<Rightarrow> nat \<Rightarrow> (int \<times> 'a kstate_scheme) option" where
  "exec_commit s pth pt sz entry sp argc = do {
     k \<leftarrow> last_elem pth 0 0;
     let ta = pr_trapframe (pr s (cur s));
     let oldpt = p_pagetable s;
     let oldsz = p_sz s;
     let s = upd_proc (cur s) (pr_name_update (\<lambda>nm. safestrcpy nm (\<lambda>i. pth (k + i)) 16)) s;
     let s = s\<lparr>p_pagetable := pt, p_sz := sz,
               trapframes := upd ta (\<lambda>tf. tf\<lparr>tf_a := (tf_a tf)(1 := sp), tf_epc := entry, tf_sp := sp\<rparr>) (trapframes s)\<rparr>;
     s \<leftarrow> proc_freepagetable s oldpt oldsz;
     Some (int argc, s)
   }"

definition exec_stack :: "'a kstate_scheme \<Rightarrow> buffer \<Rightarrow> buffer list \<Rightarrow> u64 \<Rightarrow> u64 \<Rightarrow> u64 \<Rightarrow> (int \<times> 'a kstate_scheme) option" where
  "exec_stack s pth argv pt sz entry =
     (let sz = PGROUNDUP sz in do {
        (sz1, s) \<leftarrow> uvmalloc s pt sz (sz + 2 * PGSIZE) (PTE_W (arch s));
        if sz1 = 0 then exec_bad s pt sz None
        else do {
          s \<leftarrow> uvmclear s pt (sz1 - 2 * PGSIZE);
          (a, s) \<leftarrow> push_args s pt (sz1 - PGSIZE) sz1 argv [];
          (case a of
             None \<Rightarrow> exec_bad s pt sz1 None
           | Some (sp, us) \<Rightarrow> do {
               ensure (length us < MAXARG) ''ustack'';
               let n = (of_nat (length us) + 1) * 8;
               let sp = sp - n;
               let sp = sp - sp mod 16;
               if sp < sz1 - PGSIZE then exec_bad s pt sz1 None
               else do {
                 (r, s) \<leftarrow> copyout s pt sp (put_ustack (\<lambda>_. 0) 0 (us @ [0])) n;
                 if r < 0 then exec_bad s pt sz1 None else exec_commit s pth pt sz1 entry sp (length us)
               }
             })
        }
      })"

definition kexec :: "buffer \<Rightarrow> 'a kstate_scheme \<Rightarrow> buffer \<Rightarrow> buffer list \<Rightarrow> (int \<times> 'a kstate_scheme) option" where
  "kexec J s pth argv = do {
     (v, s) \<leftarrow> vfs_namei J s pth;
     (case v of
        None \<Rightarrow> Some (-1, s)
      | Some vp \<Rightarrow> do {
          (r, d, s) \<leftarrow> vfs_read_kernel s vp 0 J 64 0;
          if r \<noteq> 64 then exec_bad s 0 0 (Some vp)
          else
            let elf = get_elfhdr d in
            if eh_magic elf \<noteq> ELF_MAGIC then exec_bad s 0 0 (Some vp)
            else do {
              (pt, s) \<leftarrow> proc_pagetable s (cur s);
              if pt = 0 then exec_bad s 0 0 (Some vp)
              else do {
                (ok, sz, s) \<leftarrow> load_program J s pt vp 0 (ucast (eh_phoff elf)) (unat (eh_phnum elf));
                if \<not> ok then exec_bad s pt sz (Some vp)
                else do {
                  s \<leftarrow> vput s vp;
                  exec_stack s pth argv pt sz (eh_entry elf)
                }
              }
            }
        })
   }"

end
