(* ===== verification/Syscall.thy ===== *)
theory Syscall
  imports Exec
begin

text \<open>
  System calls: argument fetching and dispatch (\<^verbatim>\<open>kernel/syscall.c\<close>), the calls on files (\<^verbatim>\<open>kernel/sysfile.c\<close>) and on
  processes (\<^verbatim>\<open>kernel/sysproc.c\<close>), and the trap handlers that lead to them (\<^verbatim>\<open>kernel/trap.c\<close>).  \<open>J\<close> is the content of
  uninitialised stack buffers.
\<close>

subsection \<open>Arguments\<close>

definition fetchaddr :: "'a kstate_scheme \<Rightarrow> u64 \<Rightarrow> (int \<times> u64 \<times> 'a kstate_scheme) option" where
  "fetchaddr s a =
     (if a \<ge> p_sz s \<or> a + 8 > p_sz s then Some (-1, 0, s)
      else do {
        (r, d, s) \<leftarrow> copyin s (p_pagetable s) (\<lambda>_. 0) 0 a 8;
        if r \<noteq> 0 then Some (-1, le64 d 0, s) else Some (0, le64 d 0, s)
      })"

definition fetchstr :: "'a kstate_scheme \<Rightarrow> u64 \<Rightarrow> buffer \<Rightarrow> int \<Rightarrow> (int \<times> buffer) option" where
  "fetchstr s a buf mx = do {
     (r, buf) \<leftarrow> copyinstr s (p_pagetable s) buf a (word_of_int mx);
     if r < 0 then Some (-1, buf)
     else do {
       n \<leftarrow> strlen buf;
       Some (int n, buf)
     }
   }"

definition argraw :: "'a kstate_scheme \<Rightarrow> nat \<Rightarrow> u64 option" where
  "argraw s n = do {
     ensure (n \<le> 5) ''argraw'';
     Some (tf_a (trapframes s (pr_trapframe (pr s (cur s)))) n)
   }"

definition argint :: "'a kstate_scheme \<Rightarrow> nat \<Rightarrow> int option" where
  "argint s n = do {
     w \<leftarrow> argraw s n;
     Some (sint (ucast w :: u32))
   }"

definition argaddr :: "'a kstate_scheme \<Rightarrow> nat \<Rightarrow> u64 option" where
  "argaddr s n = argraw s n"

definition argstr :: "'a kstate_scheme \<Rightarrow> nat \<Rightarrow> buffer \<Rightarrow> int \<Rightarrow> (int \<times> buffer) option" where
  "argstr s n buf mx = do {
     a \<leftarrow> argaddr s n;
     fetchstr s a buf mx
   }"

definition MAXPATH :: int where
  "MAXPATH = 128"

text \<open>The descriptor and its file, or \<^const>\<open>None\<close> for the result \<open>-1\<close>.\<close>

definition argfd :: "'a kstate_scheme \<Rightarrow> nat \<Rightarrow> (nat \<times> nat) option option" where
  "argfd s n = do {
     fd \<leftarrow> argint s n;
     Some (if fd < 0 \<or> fd \<ge> int NOFILE then None
           else case pr_ofile (pr s (cur s)) (nat fd) of None \<Rightarrow> None | Some f \<Rightarrow> Some (nat fd, f))
   }"

definition set_ofile :: "nat \<Rightarrow> nat option \<Rightarrow> 'a kstate_scheme \<Rightarrow> 'a kstate_scheme" where
  "set_ofile fd f s = upd_proc (cur s) (pr_ofile_update (\<lambda>o1. o1(fd := f))) s"

definition fdalloc :: "'a kstate_scheme \<Rightarrow> nat \<Rightarrow> int \<times> 'a kstate_scheme" where
  "fdalloc s f =
     (case scan (\<lambda>fd. pr_ofile (pr s (cur s)) fd = None) 0 NOFILE of
        None \<Rightarrow> (-1, s)
      | Some fd \<Rightarrow> (int fd, set_ofile fd (Some f) s))"

subsection \<open>System calls on files\<close>

definition sys_dup :: "'a kstate_scheme \<Rightarrow> (int \<times> 'a kstate_scheme) option" where
  "sys_dup s = do {
     a \<leftarrow> argfd s 0;
     (case a of
        None \<Rightarrow> Some (-1, s)
      | Some (_, f) \<Rightarrow>
          (case fdalloc s f of (fd, s) \<Rightarrow>
             if fd < 0 then Some (-1, s)
             else do {
               s \<leftarrow> filedup s f;
               Some (fd, s)
             }))
   }"

definition sys_read :: "buffer \<Rightarrow> 'a kstate_scheme \<Rightarrow> (outcome \<times> 'a kstate_scheme) option" where
  "sys_read J s = do {
     p \<leftarrow> argaddr s 1;
     n \<leftarrow> argint s 2;
     a \<leftarrow> argfd s 0;
     (case a of None \<Rightarrow> Some (Ret (-1), s) | Some (_, f) \<Rightarrow> fileread J s f p n)
   }"

definition sys_write :: "buffer \<Rightarrow> 'a kstate_scheme \<Rightarrow> (outcome \<times> 'a kstate_scheme) option" where
  "sys_write J s = do {
     p \<leftarrow> argaddr s 1;
     n \<leftarrow> argint s 2;
     a \<leftarrow> argfd s 0;
     (case a of None \<Rightarrow> Some (Ret (-1), s) | Some (_, f) \<Rightarrow> filewrite J s f p n)
   }"

definition sys_close :: "'a kstate_scheme \<Rightarrow> (int \<times> 'a kstate_scheme) option" where
  "sys_close s = do {
     a \<leftarrow> argfd s 0;
     (case a of
        None \<Rightarrow> Some (-1, s)
      | Some (fd, f) \<Rightarrow> do {
          s \<leftarrow> fileclose (set_ofile fd None s) f;
          Some (0, s)
        })
   }"

definition sys_fstat :: "buffer \<Rightarrow> 'a kstate_scheme \<Rightarrow> (int \<times> 'a kstate_scheme) option" where
  "sys_fstat J s = do {
     st \<leftarrow> argaddr s 1;
     a \<leftarrow> argfd s 0;
     (case a of None \<Rightarrow> Some (-1, s) | Some (_, f) \<Rightarrow> filestat J s f st)
   }"

definition sys_link :: "buffer \<Rightarrow> 'a kstate_scheme \<Rightarrow> (int \<times> 'a kstate_scheme) option" where
  "sys_link J s = do {
     (r, old) \<leftarrow> argstr s 0 J MAXPATH;
     if r < 0 then Some (-1, s)
     else do {
       (r, new) \<leftarrow> argstr s 1 J MAXPATH;
       if r < 0 then Some (-1, s)
       else do {
         (v, s) \<leftarrow> vfs_namei J s old;
         (case v of
            None \<Rightarrow> Some (-1, s)
          | Some ip \<Rightarrow>
              if v_type (vn s ip) = V_DIR then do {
                s \<leftarrow> vput s ip;
                Some (-1, s)
              } else do {
                (d, name, s) \<leftarrow> vfs_nameiparent J s new;
                (case d of
                   None \<Rightarrow> do {
                     s \<leftarrow> vput s ip;
                     Some (-1, s)
                   }
                 | Some dp \<Rightarrow> do {
                     (r, s) \<leftarrow> vfs_link s ip dp name;
                     s \<leftarrow> vput s dp;
                     s \<leftarrow> vput s ip;
                     Some (r, s)
                   })
              })
       }
     }
   }"

text \<open>The calls that fetch a path, find its parent directory, and operate on it by the last name.\<close>

definition on_parent ::
    "buffer \<Rightarrow> 'a kstate_scheme \<Rightarrow> buffer \<Rightarrow> ('a kstate_scheme \<Rightarrow> nat \<Rightarrow> buffer \<Rightarrow> (int \<times> 'a kstate_scheme) option) \<Rightarrow> (int \<times> 'a kstate_scheme) option" where
  "on_parent J s pth body = do {
     (d, name, s) \<leftarrow> vfs_nameiparent J s pth;
     (case d of
        None \<Rightarrow> Some (-1, s)
      | Some dp \<Rightarrow> do {
          (r, s) \<leftarrow> body s dp name;
          s \<leftarrow> vput s dp;
          Some (r, s)
        })
   }"

definition sys_unlink :: "buffer \<Rightarrow> 'a kstate_scheme \<Rightarrow> (int \<times> 'a kstate_scheme) option" where
  "sys_unlink J s = do {
     (r, pth) \<leftarrow> argstr s 0 J MAXPATH;
     if r < 0 then Some (-1, s)
     else if namecmp pth (lit ''/'') = 0 then Some (-1, s)
     else on_parent J s pth (\<lambda>s dp name.
       if namecmp name (lit ''.'') = 0 \<or> namecmp name (lit ''..'') = 0 then Some (-1, s) else vfs_unlink J s dp name)
   }"

definition sys_mkdir :: "buffer \<Rightarrow> 'a kstate_scheme \<Rightarrow> (int \<times> 'a kstate_scheme) option" where
  "sys_mkdir J s = do {
     (r, pth) \<leftarrow> argstr s 0 J MAXPATH;
     if r < 0 then Some (-1, s) else on_parent J s pth (\<lambda>s dp name. vfs_mkdir J s dp name)
   }"

definition sys_mknod :: "buffer \<Rightarrow> 'a kstate_scheme \<Rightarrow> (int \<times> 'a kstate_scheme) option" where
  "sys_mknod J s = do {
     ma \<leftarrow> argint s 1;
     mi \<leftarrow> argint s 2;
     (r, pth) \<leftarrow> argstr s 0 J MAXPATH;
     if r < 0 then Some (-1, s) else on_parent J s pth (\<lambda>s dp name. vfs_mknod s dp name ma mi)
   }"

definition open_file :: "nat \<Rightarrow> nat \<Rightarrow> u32 \<Rightarrow> 'a kstate_scheme \<Rightarrow> 'a kstate_scheme" where
  "open_file f vp omode s =
     (let app = omode AND O_APPEND \<noteq> 0 in
      upd_file f (\<lambda>x. x\<lparr>f_vnode := vp, f_readable := (omode AND O_WRONLY = 0),
        f_writable := (omode AND O_WRONLY \<noteq> 0 \<or> omode AND O_RDWR \<noteq> 0), f_appendable := app,
        f_off := (if app \<and> v_type (vn s vp) = V_FILE then v_size (vn s vp) else f_off x)\<rparr>) s)"

definition sys_open :: "buffer \<Rightarrow> 'a kstate_scheme \<Rightarrow> (int \<times> 'a kstate_scheme) option" where
  "sys_open J s = do {
     om \<leftarrow> argint s 1;
     let omode = (word_of_int om :: u32);
     (r, pth) \<leftarrow> argstr s 0 J MAXPATH;
     if r < 0 then Some (-1, s)
     else do {
       (r, v, s) \<leftarrow> vfs_open J s pth omode;
       if r < 0 then Some (-1, s)
       else do {
         vp \<leftarrow> v;
         (case filealloc s of
            (None, s) \<Rightarrow> do {
              s \<leftarrow> vput s vp;
              Some (-1, s)
            }
          | (Some f, s) \<Rightarrow>
              (case fdalloc s f of (fd, s) \<Rightarrow>
                 if fd < 0 then do {
                   s \<leftarrow> fileclose s f;
                   s \<leftarrow> vput s vp;
                   Some (-1, s)
                 }
                 else if v_type (vn s vp) = V_DEV \<and> (v_major (vn s vp) < 0 \<or> v_major (vn s vp) \<ge> NDEV) then do {
                   s \<leftarrow> vput s vp;
                   s \<leftarrow> fileclose s f;
                   Some (-1, s)
                 }
                 else do {
                   let s = (if v_type (vn s vp) = V_DEV
                            then upd_file f (\<lambda>x. x\<lparr>f_type := FD_DEVICE, f_major := v_major (vn s vp)\<rparr>) s
                            else upd_file f (\<lambda>x. x\<lparr>f_type := FD_INODE, f_off := 0\<rparr>) s);
                   s \<leftarrow> (if omode AND O_TRUNC \<noteq> 0 \<and> v_type (vn s vp) = V_FILE
                         then do { (_, s) \<leftarrow> vfs_truncate s vp; Some s } else Some s);
                   Some (fd, open_file f vp omode s)
                 }))
       }
     }
   }"

definition sys_chdir :: "buffer \<Rightarrow> 'a kstate_scheme \<Rightarrow> (int \<times> 'a kstate_scheme) option" where
  "sys_chdir J s = do {
     (r, pth) \<leftarrow> argstr s 0 J MAXPATH;
     if r < 0 then Some (-1, s)
     else do {
       (v, s) \<leftarrow> vfs_namei J s pth;
       (case v of
          None \<Rightarrow> Some (-1, s)
        | Some ip \<Rightarrow>
            if v_type (vn s ip) \<noteq> V_DIR then do {
              s \<leftarrow> vput s ip;
              Some (-1, s)
            } else do {
              cwd \<leftarrow> p_cwd s;
              s \<leftarrow> vput s cwd;
              Some (0, s\<lparr>p_cwd := Some ip\<rparr>)
            })
     }
   }"

text \<open>
  The loop of \<open>sys_exec\<close> from argument \<open>i\<close> on, with room for \<open>k\<close> more: whether it ended at the null argument, and
  the pages allocated so far, with the strings in them.
\<close>

fun exec_args ::
    "'a kstate_scheme \<Rightarrow> u64 \<Rightarrow> nat \<Rightarrow> (u64 \<times> buffer) list \<Rightarrow> nat \<Rightarrow> (bool \<times> (u64 \<times> buffer) list \<times> 'a kstate_scheme) option" where
  "exec_args s uargv i argv 0 = Some (False, argv, s)"
| "exec_args s uargv i argv (Suc k) = do {
     (r, uarg, s) \<leftarrow> fetchaddr s (uargv + 8 * of_nat i);
     if r < 0 then Some (False, argv, s)
     else if uarg = 0 then Some (True, argv, s)
     else
       (case kalloc s of (pa, s) \<Rightarrow>
          if pa = 0 then Some (False, argv, s)
          else do {
            (r, buf) \<leftarrow> fetchstr s uarg (\<lambda>j. mb s (pa + of_nat j)) 4096;
            if r < 0 then Some (False, argv @ [(pa, buf)], s)
            else exec_args s uargv (Suc i) (argv @ [(pa, buf)]) k
          })
   }"

fun kfree_all :: "'a kstate_scheme \<Rightarrow> u64 list \<Rightarrow> 'a kstate_scheme option" where
  "kfree_all s [] = Some s"
| "kfree_all s (pa # pas) = do {
     s \<leftarrow> kfree s pa;
     kfree_all s pas
   }"

definition sys_exec :: "buffer \<Rightarrow> 'a kstate_scheme \<Rightarrow> (int \<times> 'a kstate_scheme) option" where
  "sys_exec J s = do {
     uargv \<leftarrow> argaddr s 1;
     (r, pth) \<leftarrow> argstr s 0 J MAXPATH;
     if r < 0 then Some (-1, s)
     else do {
       (ok, argv, s) \<leftarrow> exec_args s uargv 0 [] MAXARG;
       (r, s) \<leftarrow> (if ok then kexec J s pth (map snd argv) else Some (-1, s));
       s \<leftarrow> kfree_all s (map fst argv);
       Some (r, s)
     }
   }"

definition sys_mount :: "buffer \<Rightarrow> 'a kstate_scheme \<Rightarrow> (int \<times> 'a kstate_scheme) option" where
  "sys_mount J s = do {
     (r, pth) \<leftarrow> argstr s 0 J MAXPATH;
     if r < 0 then Some (-1, s)
     else do {
       dev \<leftarrow> argint s 1;
       (r, fstype) \<leftarrow> argstr s 2 J 16;
       if r < 0 then Some (-1, s)
       else do {
         (mp, s) \<leftarrow> vfs_mount J s pth (word_of_int dev) fstype;
         Some (if mp = 0 then -1 else 0, s)
       }
     }
   }"

definition sys_umount :: "buffer \<Rightarrow> 'a kstate_scheme \<Rightarrow> (int \<times> 'a kstate_scheme) option" where
  "sys_umount J s = do {
     (r, pth) \<leftarrow> argstr s 0 J MAXPATH;
     if r < 0 then Some (-1, s) else vfs_umount s pth
   }"

definition close_both :: "'a kstate_scheme \<Rightarrow> nat \<Rightarrow> nat \<Rightarrow> (int \<times> 'a kstate_scheme) option" where
  "close_both s rf wr = do {
     s \<leftarrow> fileclose s rf;
     s \<leftarrow> fileclose s wr;
     Some (-1, s)
   }"

definition sys_pipe :: "'a kstate_scheme \<Rightarrow> (int \<times> 'a kstate_scheme) option" where
  "sys_pipe s = do {
     fdarray \<leftarrow> argaddr s 0;
     (r, f0, f1, s) \<leftarrow> pipealloc s;
     if r < 0 then Some (-1, s)
     else do {
       rf \<leftarrow> f0;
       wr \<leftarrow> f1;
       (case fdalloc s rf of (fd0, s) \<Rightarrow>
          if fd0 < 0 then close_both s rf wr
          else
            (case fdalloc s wr of (fd1, s) \<Rightarrow>
               if fd1 < 0 then close_both (set_ofile (nat fd0) None s) rf wr
               else do {
                 (r, s) \<leftarrow> copyout s (p_pagetable s) fdarray (put32 (\<lambda>_. 0) 0 (word_of_int fd0)) 4;
                 (r, s) \<leftarrow> (if r < 0 then Some (r, s)
                            else copyout s (p_pagetable s) (fdarray + 4) (put32 (\<lambda>_. 0) 0 (word_of_int fd1)) 4);
                 if r < 0 then close_both (set_ofile (nat fd1) None (set_ofile (nat fd0) None s)) rf wr
                 else Some (0, s)
               }))
     }
   }"

subsection \<open>System calls on processes\<close>

definition sys_exit :: "'a kstate_scheme \<Rightarrow> (outcome \<times> 'a kstate_scheme) option" where
  "sys_exit s = do {
     n \<leftarrow> argint s 0;
     kexit s n
   }"

definition sys_getpid :: "'a kstate_scheme \<Rightarrow> (int \<times> 'a kstate_scheme) option" where
  "sys_getpid s = Some (pr_pid (pr s (cur s)), s)"

definition sys_fork :: "'a kstate_scheme \<Rightarrow> (int \<times> 'a kstate_scheme) option" where
  "sys_fork s = kfork s"

definition sys_wait :: "'a kstate_scheme \<Rightarrow> (outcome \<times> 'a kstate_scheme) option" where
  "sys_wait s = do {
     p \<leftarrow> argaddr s 0;
     kwait s p
   }"

definition sys_sbrk :: "'a kstate_scheme \<Rightarrow> (int \<times> 'a kstate_scheme) option" where
  "sys_sbrk s = do {
     n \<leftarrow> argint s 0;
     t \<leftarrow> argint s 1;
     let a = p_sz s;
     if t = 1 \<or> n < 0 then do {
       (r, s) \<leftarrow> growproc s n;
       Some (if r < 0 then -1 else uint a, s)
     }
     else if a + word_of_int n < a then Some (-1, s)
     else if a + word_of_int n > USER_TOP (arch s) then Some (-1, s)
     else Some (uint a, s\<lparr>p_sz := p_sz s + word_of_int n\<rparr>)
   }"

definition pause :: "'a kstate_scheme \<Rightarrow> u32 \<Rightarrow> int \<Rightarrow> outcome \<times> 'a kstate_scheme" where
  "pause s ticks0 n =
     (if ticks s - ticks0 < word_of_int n then
        if killed s (cur s) then (Ret (-1), s) else (Sleep Tick (In_pause ticks0 n), sleep_begin s Tick)
      else (Ret 0, s))"

definition sys_pause :: "'a kstate_scheme \<Rightarrow> (outcome \<times> 'a kstate_scheme) option" where
  "sys_pause s = do {
     n \<leftarrow> argint s 0;
     Some (pause s (ticks s) (if n < 0 then 0 else n))
   }"

definition sys_kill :: "'a kstate_scheme \<Rightarrow> (int \<times> 'a kstate_scheme) option" where
  "sys_kill s = do {
     pid \<leftarrow> argint s 0;
     Some (kkill s pid)
   }"

definition sys_uptime :: "'a kstate_scheme \<Rightarrow> (int \<times> 'a kstate_scheme) option" where
  "sys_uptime s = Some (uint (ticks s), s)"

subsection \<open>Dispatch\<close>

definition returns :: "(int \<times> 'a kstate_scheme) option \<Rightarrow> (outcome \<times> 'a kstate_scheme) option" where
  "returns r = do {
     (v, s) \<leftarrow> r;
     Some (Ret v, s)
   }"

text \<open>The table \<open>syscalls\<close>: the handler of a number, \<^const>\<open>None\<close> for a number without one.\<close>

definition syscalls :: "buffer \<Rightarrow> int \<Rightarrow> ('a kstate_scheme \<Rightarrow> (outcome \<times> 'a kstate_scheme) option) option" where
  "syscalls J num =
     (if num = 1 then Some (\<lambda>s. returns (sys_fork s))
      else if num = 2 then Some sys_exit
      else if num = 3 then Some sys_wait
      else if num = 4 then Some (\<lambda>s. returns (sys_pipe s))
      else if num = 5 then Some (sys_read J)
      else if num = 6 then Some (\<lambda>s. returns (sys_kill s))
      else if num = 7 then Some (\<lambda>s. returns (sys_exec J s))
      else if num = 8 then Some (\<lambda>s. returns (sys_fstat J s))
      else if num = 9 then Some (\<lambda>s. returns (sys_chdir J s))
      else if num = 10 then Some (\<lambda>s. returns (sys_dup s))
      else if num = 11 then Some (\<lambda>s. returns (sys_getpid s))
      else if num = 12 then Some (\<lambda>s. returns (sys_sbrk s))
      else if num = 13 then Some sys_pause
      else if num = 14 then Some (\<lambda>s. returns (sys_uptime s))
      else if num = 15 then Some (\<lambda>s. returns (sys_open J s))
      else if num = 16 then Some (sys_write J)
      else if num = 17 then Some (\<lambda>s. returns (sys_mknod J s))
      else if num = 18 then Some (\<lambda>s. returns (sys_unlink J s))
      else if num = 19 then Some (\<lambda>s. returns (sys_link J s))
      else if num = 20 then Some (\<lambda>s. returns (sys_mkdir J s))
      else if num = 21 then Some (\<lambda>s. returns (sys_close s))
      else if num = 22 then Some (\<lambda>s. returns (sys_mount J s))
      else if num = 23 then Some (\<lambda>s. returns (sys_umount J s))
      else None)"

definition set_a0 :: "int \<Rightarrow> 'a kstate_scheme \<Rightarrow> 'a kstate_scheme" where
  "set_a0 v s = s\<lparr>trapframes := upd (pr_trapframe (pr s (cur s))) (\<lambda>tf. tf\<lparr>tf_a := (tf_a tf)(0 := word_of_int v)\<rparr>) (trapframes s)\<rparr>"

text \<open>A call that returns stores its value; one that sleeps stores it when it goes on.\<close>

definition finish :: "(outcome \<times> 'a kstate_scheme) option \<Rightarrow> (outcome \<times> 'a kstate_scheme) option" where
  "finish r = do {
     (v, s) \<leftarrow> r;
     Some (v, case v of Ret v \<Rightarrow> set_a0 v s | _ \<Rightarrow> s)
   }"

definition syscall :: "buffer \<Rightarrow> 'a kstate_scheme \<Rightarrow> (outcome \<times> 'a kstate_scheme) option" where
  "syscall J s =
     (let num = sint (ucast (tf_a (trapframes s (pr_trapframe (pr s (cur s)))) 7) :: u32) in
      case syscalls J num of
        Some f \<Rightarrow> finish (f s)
      | None \<Rightarrow> do {
          out \<leftarrow> printf (''%d %s: unknown sys call %d'' @ [CHR 0x0A])
            [PInt (word_of_int (pr_pid (pr s (cur s)))), PStr (Some (pr_name (pr s (cur s)))), PInt (word_of_int num)];
          Some (Ret (-1), set_a0 (-1) (emit out s))
        })"

text \<open>A sleeping call goes on after \<open>sched\<close> has returned in it.\<close>

definition go_on :: "'a kstate_scheme \<Rightarrow> resume \<Rightarrow> (outcome \<times> 'a kstate_scheme) option" where
  "go_on s r =
     (let s = sleep_end s in
      finish (case r of
        In_pipewrite pp a n i \<Rightarrow> pipewrite s pp a n i
      | In_piperead pp a n \<Rightarrow> piperead s pp a n
      | In_consoleread u dst target k \<Rightarrow> do {
          (v, _, s) \<leftarrow> consoleread_loop s u dst (\<lambda>_. 0) target (nat k);
          Some (v, s)
        }
      | In_wait a \<Rightarrow> kwait s a
      | In_pause t n \<Rightarrow> Some (pause s t n)))"

subsection \<open>Traps\<close>

text \<open>What the interrupt controller reports: input characters, a disk, another number, or nothing.\<close>

datatype irq = Uart "u32 list" | Disk | Other nat | Spurious

fun console_input :: "'a kstate_scheme \<Rightarrow> u32 list \<Rightarrow> 'a kstate_scheme option" where
  "console_input s [] = Some s"
| "console_input s (c # inp) = do {
     s \<leftarrow> consoleintr s c;
     console_input s inp
   }"

definition clockintr :: "'a kstate_scheme \<Rightarrow> u64 \<Rightarrow> 'a kstate_scheme" where
  "clockintr s hartid = (if hartid = 0 then wakeup (s\<lparr>ticks := ticks s + 1\<rparr>) Tick else s)"

definition devintr :: "'a kstate_scheme \<Rightarrow> u64 \<Rightarrow> u64 \<Rightarrow> irq \<Rightarrow> (int \<times> 'a kstate_scheme) option" where
  "devintr s hartid scause i =
     (if scause = 0x8000000000000009 then do {
        s \<leftarrow> (case i of
               Uart inp \<Rightarrow> console_input s inp
             | Disk \<Rightarrow> Some s
             | Other n \<Rightarrow> do {
                 out \<leftarrow> printf (''unexpected interrupt irq=%d'' @ [CHR 0x0A]) [PInt (of_nat n)];
                 Some (emit out s)
               }
             | Spurious \<Rightarrow> Some s);
        Some (1, s)
      }
      else if scause = 0x8000000000000005 then Some (2, clockintr s hartid)
      else Some (0, s))"

text \<open>
  \<open>usertrap\<close> up to the first check of \<open>killed\<close> after the cause has been handled: for a system call the outcome of
  \<open>syscall\<close>, and \<open>which_dev\<close>.
\<close>

definition set_epc :: "(u64 \<Rightarrow> u64) \<Rightarrow> 'a kstate_scheme \<Rightarrow> 'a kstate_scheme" where
  "set_epc f s = s\<lparr>trapframes := upd (pr_trapframe (pr s (cur s))) (tf_epc_update f) (trapframes s)\<rparr>"

definition usertrap_cause ::
    "buffer \<Rightarrow> 'a kstate_scheme \<Rightarrow> u64 \<Rightarrow> u64 \<Rightarrow> u64 \<Rightarrow> u64 \<Rightarrow> irq \<Rightarrow> (outcome \<times> int \<times> 'a kstate_scheme) option" where
  "usertrap_cause J s hartid scause sepc stval i =
     (let s = set_epc (\<lambda>_. sepc) s in
      if scause = 8 then
        if killed s (cur s) then do {
          (v, s) \<leftarrow> kexit s (-1);
          Some (v, 0, s)
        } else do {
          (v, s) \<leftarrow> syscall J (set_epc (\<lambda>e. e + 4) s);
          Some (v, 0, s)
        }
      else do {
        (d, s) \<leftarrow> devintr s hartid scause i;
        if d \<noteq> 0 then Some (Ret 0, d, s)
        else do {
          (pa, s) \<leftarrow> (if scause = 15 \<or> scause = 13 \<or> scause = 12
                      then vmfault s (p_pagetable s) stval (scause = 13 \<or> scause = 12) else Some (0, s));
          if pa \<noteq> 0 then Some (Ret 0, 0, s)
          else do {
            o1 \<leftarrow> printf (''usertrap(): unexpected scause 0x%lx pid=%d'' @ [CHR 0x0A]) [PInt scause, PInt (word_of_int (pr_pid (pr s (cur s))))];
            o2 \<leftarrow> printf (''            sepc=0x%lx stval=0x%lx'' @ [CHR 0x0A]) [PInt sepc, PInt stval];
            Some (Ret 0, 0, setkilled (emit (o1 @ o2) s) (cur s))
          }
        }
      })"

text \<open>The rest of \<open>usertrap\<close>: the process exits, or gives up the processor at a timer interrupt, or returns.\<close>

definition usertrap_rest :: "'a kstate_scheme \<Rightarrow> int \<Rightarrow> (outcome \<times> 'a kstate_scheme) option" where
  "usertrap_rest s which_dev =
     (if killed s (cur s) then kexit s (-1)
      else Some (Ret 0, if which_dev = 2 then yield_begin s else s))"

definition prepare_return :: "'a kstate_scheme \<Rightarrow> u64 \<Rightarrow> u64 \<Rightarrow> u64 \<Rightarrow> 'a kstate_scheme" where
  "prepare_return s satp usertrap_sym hartid =
     s\<lparr>trapframes := upd (pr_trapframe (pr s (cur s))) (\<lambda>tf. tf\<lparr>tf_kernel_satp := satp,
        tf_kernel_sp := pr_kstack (pr s (cur s)) + 2 * PGSIZE, tf_kernel_trap := usertrap_sym, tf_kernel_hartid := hartid\<rparr>)
        (trapframes s)\<rparr>"

text \<open>The first process sets up the file systems and starts \<^verbatim>\<open>/init\<close>.\<close>

definition forkret_first :: "buffer \<Rightarrow> 'a kstate_scheme \<Rightarrow> 'a kstate_scheme option" where
  "forkret_first J s = do {
     s \<leftarrow> fsinit s 1;
     (_, s) \<leftarrow> vfs_mount J s (lit ''/'') 1 (lit ''xv6fs'');
     (v, s) \<leftarrow> vfs_root s;
     (r, s) \<leftarrow> kexec J (s\<lparr>p_cwd := v\<rparr>) (lit ''/init'') [lit ''/init''];
     ensure (r \<noteq> -1) ''exec'';
     Some (set_a0 r s)
   }"

end
