(* ===== verification/Kview.thy ===== *)
theory Kview
  imports Syscall
begin

text \<open>
  What operations on memory and on single tables leave unchanged in the state of the kernel, in the form of
  simplification rules, and user memory seen from states of different types.
\<close>

subsection \<open>Memory\<close>

definition same_mem :: "'a vm_scheme \<Rightarrow> 'b vm_scheme \<Rightarrow> bool" where
  "same_mem s t \<longleftrightarrow> freelist t = freelist s \<and> mw t = mw s \<and> mb t = mb s \<and> kend t = kend s \<and> phystop t = phystop s
     \<and> arch t = arch s"

lemma same_mem_umem: "same_mem s t \<Longrightarrow> umem t pt = umem s pt"
  by (rule ext) (simp add: same_mem_def umem_def user_pte_def upage_def pte_of_def)

lemma same_mem_umem_inv:
  assumes "same_mem s t"
  shows "umem_inv t pt xs = umem_inv s pt xs"
proof -
  have "page_ok t = page_ok s" using assms by (simp add: same_mem_def page_ok_def fun_eq_iff)
  then show ?thesis
    using assms by (simp add: same_mem_def umem_inv_def user_pte_def upage_def pte_of_def pt_inv_def pt_node_def kmem_inv_def)
qed

lemma mem_only_k:
  assumes "mem_only s s'"
  shows "procs s' = procs s" "cur s' = cur s" "initproc s' = initproc s" "nextpid s' = nextpid s"
    "trapframes s' = trapframes s" "ftable s' = ftable s" "pipes s' = pipes s" "console s' = console s"
    "uart s' = uart s" "devsw s' = devsw s" "p_pagetable s' = p_pagetable s" "p_sz s' = p_sz s" "arch s' = arch s"
    "p_cwd s' = p_cwd s" "vnode_table s' = vnode_table s" "sym_trampoline s' = sym_trampoline s" "sym_forkret s' = sym_forkret s"
    "phystop s' = phystop s" "kend s' = kend s" "p_pid s' = p_pid s"
  using assms by (cases s; cases s'; simp add: mem_only_iff)+

subsection \<open>Single fields\<close>

lemma wakeup_fields [simp]:
  "pipes (wakeup s c) = pipes s" "cur (wakeup s c) = cur s" "p_pagetable (wakeup s c) = p_pagetable s"
  "arch (wakeup s c) = arch s" "ftable (wakeup s c) = ftable s" "console (wakeup s c) = console s"
  "uart (wakeup s c) = uart s" "initproc (wakeup s c) = initproc s" "nextpid (wakeup s c) = nextpid s"
  "p_cwd (wakeup s c) = p_cwd s" "p_sz (wakeup s c) = p_sz s" "vnode_table (wakeup s c) = vnode_table s"
  "trapframes (wakeup s c) = trapframes s"
  by (simp_all add: wakeup_def)

lemma upd_proc_fields [simp]:
  "pipes (upd_proc p f s) = pipes s" "cur (upd_proc p f s) = cur s" "p_pagetable (upd_proc p f s) = p_pagetable s"
  "arch (upd_proc p f s) = arch s" "ftable (upd_proc p f s) = ftable s" "console (upd_proc p f s) = console s"
  "uart (upd_proc p f s) = uart s" "initproc (upd_proc p f s) = initproc s" "nextpid (upd_proc p f s) = nextpid s"
  "p_cwd (upd_proc p f s) = p_cwd s" "p_sz (upd_proc p f s) = p_sz s" "vnode_table (upd_proc p f s) = vnode_table s"
  "trapframes (upd_proc p f s) = trapframes s" "procs (upd_proc p f s) = upd p f (procs s)"
  by (simp_all add: upd_proc_def)

lemma upd_pipe_fields [simp]:
  "pipes (upd_pipe p f s) = upd p f (pipes s)" "cur (upd_pipe p f s) = cur s" "p_pagetable (upd_pipe p f s) = p_pagetable s"
  "arch (upd_pipe p f s) = arch s" "ftable (upd_pipe p f s) = ftable s" "procs (upd_pipe p f s) = procs s"
  "console (upd_pipe p f s) = console s" "initproc (upd_pipe p f s) = initproc s"
  by (simp_all add: upd_pipe_def)

lemma upd_file_fields [simp]:
  "pipes (upd_file p f s) = pipes s" "cur (upd_file p f s) = cur s" "p_pagetable (upd_file p f s) = p_pagetable s"
  "arch (upd_file p f s) = arch s" "ftable (upd_file p f s) = upd p f (ftable s)" "procs (upd_file p f s) = procs s"
  "vnode_table (upd_file p f s) = vnode_table s" "console (upd_file p f s) = console s" "initproc (upd_file p f s) = initproc s"
  by (simp_all add: upd_file_def)

lemma sleep_begin_fields [simp]:
  "pipes (sleep_begin s c) = pipes s" "cur (sleep_begin s c) = cur s" "p_pagetable (sleep_begin s c) = p_pagetable s"
  "arch (sleep_begin s c) = arch s" "ftable (sleep_begin s c) = ftable s" "console (sleep_begin s c) = console s"
  "procs (sleep_begin s c) = upd (cur s) (\<lambda>x. x\<lparr>pr_chan := Some c, pr_state := SLEEPING\<rparr>) (procs s)"
  by (simp_all add: sleep_begin_def)

lemma same_mem_upd [simp]:
  "same_mem s (upd_pipe p f s)" "same_mem s (upd_proc q g s)" "same_mem s (upd_file k h s)"
  "same_mem s (wakeup s c)" "same_mem s (sleep_begin s c)"
  by (simp_all add: same_mem_def upd_pipe_def upd_proc_def upd_file_def wakeup_def sleep_begin_def)

lemmas umem_upd [simp] = same_mem_upd [THEN same_mem_umem] same_mem_upd [THEN same_mem_umem_inv]

lemma killed_cong [simp]:
  "killed (upd_pipe p f s) q = killed s q" "killed (upd_file k h s) q = killed s q" "killed (wakeup s c) q = killed s q"
  by (simp_all add: killed_def wakeup_def)

lemma killed_mem_only: "mem_only s s' \<Longrightarrow> killed s' p = killed s p"
  by (simp add: killed_def mem_only_k)

text \<open>Which processes a \<open>wakeup\<close> makes runnable.\<close>

lemma wakeup_procs:
  "procs (wakeup s c) p = (if p < NPROC \<and> p \<noteq> cur s \<and> pr_state (pr s p) = SLEEPING \<and> pr_chan (pr s p) = Some c
     then (pr s p)\<lparr>pr_state := RUNNABLE\<rparr> else pr s p)"
  by (simp add: wakeup_def)

subsection \<open>A kernel with empty tables\<close>

text \<open>An idle kernel over the memory and the disk of \<open>s\<close>, in which only process 0, with id 1, exists and runs.\<close>

definition unlocked :: sleeplock where
  "unlocked = \<lparr>locked = False, lk_pid = 0\<rparr>"

definition no_vnode :: vnode where
  "no_vnode = \<lparr>v_type = 0, v_dev = 0, v_major = 0, v_minor = 0, v_ops = None, v_mp = 0, v_ref = 0, v_lock = unlocked,
     v_inum = 0, v_ikey = 0, v_size = 0, v_priv = 0\<rparr>"

definition no_mount :: mount where
  "no_mount = \<lparr>mt_valid = False, mt_ops = None, mt_root = None, mt_mountpoint = None, mt_dev = 0, mt_path = (\<lambda>_. 0), mt_priv = 0\<rparr>"

definition no_ext2 :: ext2_mount_priv where
  "no_ext2 = \<lparr>em_sb = (\<lambda>_. 0), em_bg = get_bgdesc (\<lambda>_. 0), em_dev = 0, em_inode_size = 128, em_lock = unlocked, em_mnt = 0\<rparr>"

definition no_ext2_vnode :: ext2_vnode_priv where
  "no_ext2_vnode = \<lparr>ev_ino = zero_ext2_inode, ev_mp = 0, ev_inum = 0, ev_dirty = False, ev_orphaned = False\<rparr>"

definition no_fat32 :: fat32_mount where
  "no_fat32 = \<lparr>fm_dev = 0, fm_sec_per_clus = 1, fm_rsvd_sec_cnt = 0, fm_num_fats = 0, fm_fat_sz = 0, fm_first_data_sec = 0,
     fm_root_clus = 0, fm_tot_clus = 0, fm_free_count = 0, fm_bps = 512, fm_spb = 2, fm_lock = unlocked, fm_vfs_mount = 0\<rparr>"

definition no_fat32_vnode :: fat32_vnode where
  "no_fat32_vnode = \<lparr>fv_fm = 0, fv_first_clus = 0, fv_file_size = 0, fv_attrs = 0, fv_dirty = False, fv_pdir_clus = 0, fv_dent_off = 0\<rparr>"

definition no_trapframe :: trapframe where
  "no_trapframe = \<lparr>tf_kernel_satp = 0, tf_kernel_sp = 0, tf_kernel_trap = 0, tf_kernel_hartid = 0, tf_epc = 0, tf_sp = 0,
     tf_a = (\<lambda>_. 0), tf_other = (\<lambda>_. 0)\<rparr>"

definition no_proc :: proc where
  "no_proc = \<lparr>pr_state = UNUSED, pr_chan = None, pr_killed = False, pr_xstate = 0, pr_pid = 0, pr_parent = None, pr_kstack = 0,
     pr_sz = 0, pr_pagetable = 0, pr_trapframe = 0, pr_ctx_ra = 0, pr_ctx_sp = 0, pr_ofile = (\<lambda>_. None), pr_cwd = None,
     pr_name = (\<lambda>_. 0)\<rparr>"

definition no_file :: kfile where
  "no_file = \<lparr>f_type = FD_NONE, f_ref = 0, f_readable = False, f_writable = False, f_appendable = False, f_pipe = 0,
     f_vnode = 0, f_off = 0, f_major = 0\<rparr>"

definition empty_pipe :: pipe where
  "empty_pipe = \<lparr>pi_data = (\<lambda>_. 0), pi_nread = 0, pi_nwrite = 0, pi_readopen = True, pi_writeopen = True\<rparr>"

definition empty_cons :: cons where
  "empty_cons = \<lparr>c_buf = (\<lambda>_. 0), c_r = 0, c_w = 0, c_e = 0\<rparr>"

definition idle :: "'a fs_scheme \<Rightarrow> kstate" where
  "idle s = \<lparr>freelist = freelist s, mw = mw s, mb = mb s, kend = kend s, phystop = phystop s, arch = arch s, p_sz = p_sz s,
     p_pagetable = p_pagetable s, p_pid = 1, bufs = bufs s, lru = lru s, disk = disk s, dwrites = dwrites s,
     log_start = log_start s, log_outstanding = log_outstanding s, log_committing = log_committing s, log_dev = log_dev s,
     lh_n = lh_n s, lh_block = lh_block s, sb = sb s, itable = itable s,
     ticks = 0, p_cwd = None, vnode_table = (\<lambda>_. no_vnode), mounttable = (\<lambda>_. 0), nmount = 0,
     fstypes = (\<lambda>_. (XV6FS, \<lambda>_. 0)), nfstype = 0, mounts = (\<lambda>_. no_mount), xv6fs_privs = (\<lambda>_. None),
     ext2_mounts = (\<lambda>_. no_ext2), ext2_privs = (\<lambda>_. no_ext2_vnode), fat32_mounts = (\<lambda>_. no_fat32), fat32_privs = (\<lambda>_. no_fat32_vnode),
     procs = (\<lambda>p. if p = 0 then no_proc\<lparr>pr_state := RUNNING, pr_pid := 1\<rparr> else no_proc), cur = 0, initproc = 0, nextpid = 2,
     sym_trampoline = 0, sym_forkret = 0, trapframes = (\<lambda>_. no_trapframe), ftable = (\<lambda>_. no_file), pipes = (\<lambda>_. empty_pipe),
     console = empty_cons, uart = [], devsw = (\<lambda>_. False)\<rparr>"

text \<open>Memory in which the first user page is mapped, readable and writable.\<close>

definition user_demo :: vm where
  "user_demo = vm_demo\<lparr>freelist := 0x6000, mw := (\<lambda>a. if a = 0x2000 then 0xC01 else if a = 0x3000 then 0x1001
     else if a = 0x4000 then 0x1417 else if a = 0x6000 then 0x7000 else 0)\<rparr>"

lemma entry_idx: "i \<le> PXMASK \<Longrightarrow> unat (8 * i) = 8 * unat i \<and> unat i < 512"
proof -
  assume "i \<le> PXMASK"
  then have "unat i \<le> 511" by (simp add: word_le_nat_alt PXMASK_def)
  then show ?thesis by (simp add: unat_word_ariths)
qed

lemma user_demo_entry:
  assumes "i \<le> PXMASK"
  shows "mw user_demo (0x2000 + 8 * i) = (if i = 0 then 0xC01 else 0)"
    "mw user_demo (0x3000 + 8 * i) = (if i = 0 then 0x1001 else 0)"
    "mw user_demo (0x4000 + 8 * i) = (if i = 0 then 0x1417 else 0)"
proof -
  have "8 * i = 0 \<longleftrightarrow> i = 0" "unat (8 * i) < 4096" using entry_idx [OF assms] by (auto simp: unat_eq_zero [symmetric])
  moreover have "(b :: u64) + x = c \<longleftrightarrow> x = c - b" for b c x by (auto simp: algebra_simps)
  ultimately show "mw user_demo (0x2000 + 8 * i) = (if i = 0 then 0xC01 else 0)"
    "mw user_demo (0x3000 + 8 * i) = (if i = 0 then 0x1001 else 0)"
    "mw user_demo (0x4000 + 8 * i) = (if i = 0 then 0x1417 else 0)"
    by (auto simp: user_demo_def)
qed

lemma user_demo_arch [simp]: "arch user_demo = riscv_arch"
  by (simp add: user_demo_def vm_demo_def)

lemma user_demo_node:
  "idx_ok is \<Longrightarrow> length is < 3 \<Longrightarrow> node riscv_arch (mw user_demo) 0x2000 is =
     (if is = [] then Some 0x2000 else if is = [0] then Some 0x3000 else if is = [0, 0] then Some 0x4000 else None)"
  by (cases "is"; cases "tl is")
    (auto simp: user_demo_entry user_demo_entry [of 0, simplified] Let_def riscv_PTE2PA_def)

lemma user_demo_pt_node:
  "pt_node user_demo 0x2000 is p \<longleftrightarrow> is = [] \<and> p = 0x2000 \<or> is = [0] \<and> p = 0x3000 \<or> is = [0, 0] \<and> p = 0x4000"
  using user_demo_node [of "is"] by (auto simp: pt_node_def split: if_splits)

lemma user_demo_pte:
  assumes "va < MAXVA riscv_arch"
  shows "pte_of user_demo 0x2000 va = (if in_page 0 va then 0x1417 else 0)"
proof -
  have PX0: "PX l 0 = 0" for l by (simp add: PX_def)
  have "same_vpage va 0 \<longleftrightarrow> path 2 va = path 2 0 \<and> PX 0 va = PX 0 0"
    by (rule same_vpage_path [symmetric]) (use assms in auto)
  moreover have "same_vpage va 0 \<longleftrightarrow> in_page 0 va" by (rule same_vpage_aligned) (simp add: pg_aligned_def)
  ultimately show ?thesis
    using user_demo_node [of "path 2 va"] user_demo_entry(3) [of "PX 0 va"]
    by (auto simp: pte_of_def leaf_def numeral_2_eq_2 PX0)
qed

lemma user_demo_pte_user: "user_pte user_demo 0x2000 va \<longleftrightarrow> va < MAXVA riscv_arch \<and> in_page 0 va"
  by (auto simp: user_pte_def user_demo_pte split: if_splits)

lemma user_demo_inv: "umem_inv user_demo 0x2000 [0x6000, 0x7000]" "p_pagetable user_demo = 0x2000"
  "in_page 0 va \<Longrightarrow> uwritable user_demo 0x2000 va"
proof -
  have k: "kmem_inv user_demo [0x6000, 0x7000]"
    by (simp add: kmem_inv_def user_demo_def vm_demo_def page_ok_def pg_aligned_def PGSIZE_def)
  have "pt_inv user_demo 0x2000 [0x6000, 0x7000]"
    unfolding pt_inv_def user_demo_pt_node using k
    by (auto simp: page_ok_def pg_aligned_def PGSIZE_def user_demo_def vm_demo_def)
  moreover have "upage user_demo 0x2000 va = 0x5000" if "user_pte user_demo 0x2000 va" for va
    using that by (auto simp: upage_def user_demo_pte user_demo_pte_user riscv_PTE2PA_def)
  moreover have "same_vpage va wa" if "user_pte user_demo 0x2000 va" "user_pte user_demo 0x2000 wa" for va wa
    using that same_vpage_aligned [of 0 va] same_vpage_aligned [of 0 wa]
    by (auto simp: user_demo_pte_user pg_aligned_def same_vpage_def)
  ultimately show "umem_inv user_demo 0x2000 [0x6000, 0x7000]"
    by (simp add: umem_inv_def pg_aligned_def PGSIZE_def)
  show "p_pagetable user_demo = 0x2000" by (simp add: user_demo_def vm_demo_def)
  show "in_page 0 va \<Longrightarrow> uwritable user_demo 0x2000 va"
  proof -
    assume p: "in_page 0 va"
    then have "unat va < 4096" by (simp add: in_page_def PGSIZE_def word_less_nat_alt)
    then have "va < MAXVA riscv_arch" by (simp add: word_less_nat_alt)
    with p show ?thesis by (simp add: uwritable_def user_demo_pte_user user_demo_pte)
  qed
qed

text \<open>The buffer cache of an idle kernel, whatever its mounts.\<close>

lemma idle_cache:
  "p_pid s = 1 \<Longrightarrow> holds ((idle s)\<lparr>ext2_mounts := M, fat32_mounts := N\<rparr>) P L = holds s P L"
  "cview ((idle s)\<lparr>ext2_mounts := M, fat32_mounts := N\<rparr>) = cview s"
  by (simp_all add: idle_def holds_def bio_inv_def buf_ok_def cached_def cview_def fun_eq_iff split: option.split)

text \<open>An idle kernel over the disk \<open>D\<close> with one block in the log.\<close>

definition disk_demo :: "(u32 \<Rightarrow> u32 \<Rightarrow> buffer) \<Rightarrow> ext2_mount_priv \<Rightarrow> fat32_mount \<Rightarrow> kstate" where
  "disk_demo D e f = (idle (log_demo D \<lparr>sb = sb_demo, itable = itable_demo\<rparr>))\<lparr>ext2_mounts := (\<lambda>_. e), fat32_mounts := (\<lambda>_. f)\<rparr>"

lemma disk_demo_holds: "holds (disk_demo D e f) (\<lambda>b. if b = 0 then 1 else 0) {}"
proof -
  let ?s = "log_demo D \<lparr>sb = sb_demo, itable = itable_demo\<rparr>"
  have "pins_of ?s (logged ?s) = (\<lambda>b. if b = 0 then 1 else 0)"
    by (auto simp: pins_of_def logged_def cached_def NBUF_def fun_eq_iff)
  then have "holds ?s (\<lambda>b. if b = 0 then 1 else 0) {}" using log_demo_inv by (metis log_holds_def log_inv_def)
  then show ?thesis unfolding disk_demo_def by (subst idle_cache(1)) simp_all
qed

lemma disk_demo_mounts [simp]: "ext2_mounts (disk_demo D e f) mp = e" "fat32_mounts (disk_demo D e f) fm = f"
  by (simp_all add: disk_demo_def)

lemma disk_demo_cview: "d \<noteq> 1 \<Longrightarrow> cview (disk_demo D e f) d n = D d n"
  unfolding disk_demo_def idle_cache(2) by (simp add: log_demo_cview)

definition idle_demo :: kstate where
  "idle_demo = (idle (fs_demo itable_demo ()))\<lparr>freelist := freelist user_demo, mw := mw user_demo, mb := mb user_demo,
     kend := kend user_demo, phystop := phystop user_demo, arch := arch user_demo, p_sz := p_sz user_demo, p_pagetable := 0x2000\<rparr>"

lemma idle_demo_fields [simp]:
  "procs idle_demo = (\<lambda>p. if p = 0 then no_proc\<lparr>pr_state := RUNNING, pr_pid := 1\<rparr> else no_proc)" "cur idle_demo = 0"
  "pipes idle_demo = (\<lambda>_. empty_pipe)" "ftable idle_demo = (\<lambda>_. no_file)" "console idle_demo = empty_cons"
  "p_pagetable idle_demo = 0x2000" "arch idle_demo = riscv_arch" "initproc idle_demo = 0" "nextpid idle_demo = 2"
  by (simp_all add: idle_demo_def idle_def)

lemma idle_demo_same: "same_mem user_demo idle_demo"
  by (simp add: same_mem_def idle_demo_def)

lemma idle_demo_mem: "umem_inv idle_demo 0x2000 [0x6000, 0x7000]" "arch idle_demo \<in> {riscv_arch, loongarch_arch}"
  "in_page 0 va \<Longrightarrow> uwritable idle_demo 0x2000 va"
proof -
  show "umem_inv idle_demo 0x2000 [0x6000, 0x7000]"
    using same_mem_umem_inv [OF idle_demo_same] user_demo_inv(1) by simp
  show "in_page 0 va \<Longrightarrow> uwritable idle_demo 0x2000 va"
    using idle_demo_same user_demo_inv(3) by (simp add: uwritable_def user_pte_def pte_of_def same_mem_def)
qed simp

end
