(* ===== verification/Ring.thy ===== *)
theory Ring
  imports File
begin

text \<open>
  Circular buffers with free-running 32-bit counters, as used by pipes and by the console input: the interface, what it
  gives as a queue of bytes, and that both data structures provide it.
\<close>

text \<open>The bytes between the two counters of a buffer of \<open>cap\<close> bytes, oldest first.\<close>

definition ring_bytes :: "nat \<Rightarrow> buffer \<Rightarrow> u32 \<Rightarrow> u32 \<Rightarrow> byte list" where
  "ring_bytes cap d r w = map (\<lambda>i. d ((unat r + i) mod cap)) [0..<unat (w - r)]"

lemma length_ring_bytes [simp]: "length (ring_bytes cap d r w) = unat (w - r)"
  by (simp add: ring_bytes_def)

lemma ring_bytes_Nil_iff [simp]: "ring_bytes cap d r w = [] \<longleftrightarrow> r = w"
  by (metis length_0_conv length_ring_bytes right_minus_eq unat_eq_zero)

lemma unat_succ_mod:
  assumes "cap dvd 2 ^ 32"
  shows "(unat ((r :: u32) + 1) + i) mod cap = (unat r + Suc i) mod cap"
proof -
  have "unat (r + 1) = (unat r + 1) mod 2 ^ 32" by (simp add: unat_word_ariths)
  then have "unat (r + 1) mod cap = (unat r + 1) mod cap" using assms by (simp add: mod_mod_cancel)
  from mod_add_cong [OF this refl, of i] show ?thesis by simp
qed

lemma unat_distance_mod:
  assumes "cap dvd 2 ^ 32"
  shows "(unat (r :: u32) + unat (w - r)) mod cap = unat w mod cap"
proof -
  have "unat (r + (w - r)) = (unat r + unat (w - r)) mod 2 ^ 32" by (simp only: unat_word_ariths) simp
  then have "unat w = (unat r + unat (w - r)) mod 2 ^ 32" by simp
  then show ?thesis using assms by (simp add: mod_mod_cancel)
qed

text \<open>
  What the code relies on: \<open>put\<close> stores a byte at the write counter and advances it, \<open>get\<close> advances the read
  counter, and the capacity divides \<open>2 ^ 32\<close>, so that the position does not jump when a counter wraps round.
\<close>

locale ring_buffer =
  fixes cap :: nat
    and data :: "'q \<Rightarrow> buffer"
    and rd :: "'q \<Rightarrow> u32"
    and wr :: "'q \<Rightarrow> u32"
    and put :: "byte \<Rightarrow> 'q \<Rightarrow> 'q"
    and get :: "'q \<Rightarrow> 'q"
  assumes cap_pos: "0 < cap" "cap < 2 ^ 32"
    and cap_dvd: "cap dvd 2 ^ 32"
    and put_data: "data (put b q) = (data q)(unat (wr q) mod cap := b)"
    and put_rd: "rd (put b q) = rd q"
    and put_wr: "wr (put b q) = wr q + 1"
    and get_data: "data (get q) = data q"
    and get_rd: "rd (get q) = rd q + 1"
    and get_wr: "wr (get q) = wr q"
begin

lemma put_bytes:
  assumes "unat (wr q - rd q) < cap"
  shows "ring_bytes cap (data (put b q)) (rd (put b q)) (wr (put b q)) = ring_bytes cap (data q) (rd q) (wr q) @ [b]"
proof -
  let ?n = "unat (wr q - rd q)"
  have n: "unat (wr q + 1 - rd q) = Suc ?n"
  proof -
    have "unat ((wr q - rd q) + 1) = (?n + 1) mod 2 ^ 32" by (simp only: unat_word_ariths) simp
    also have "\<dots> = Suc ?n" using assms cap_pos by simp
    finally have "unat ((wr q - rd q) + 1) = Suc ?n" .
    then show ?thesis by (simp add: algebra_simps)
  qed
  have pos: "(unat (rd q) + ?n) mod cap = unat (wr q) mod cap" by (rule unat_distance_mod [OF cap_dvd])
  have keep: "(unat (rd q) + i) mod cap \<noteq> unat (wr q) mod cap" if "i < ?n" for i
  proof
    assume "(unat (rd q) + i) mod cap = unat (wr q) mod cap"
    then have "(unat (rd q) + ?n) mod cap = (unat (rd q) + i) mod cap" using pos by simp
    then have "cap dvd ?n - i" using that mod_eq_dvd_iff_nat [of "unat (rd q) + i" "unat (rd q) + ?n" cap] by simp
    then show False using that assms dvd_imp_le [of cap "?n - i"] by simp
  qed
  show ?thesis
    by (auto simp: ring_bytes_def put_data put_rd put_wr n pos keep)
qed

lemma get_bytes:
  assumes "rd q \<noteq> wr q"
  shows "ring_bytes cap (data q) (rd q) (wr q)
    = data q (unat (rd q) mod cap) # ring_bytes cap (data (get q)) (rd (get q)) (wr (get q))"
proof -
  let ?n = "unat (wr q - rd q)"
  have nz: "wr q - rd q \<noteq> 0" using assms by simp
  then have "0 < ?n" by (simp add: unat_gt_0)
  moreover have "unat (wr q - rd q - 1) = ?n - 1" by (rule unat_minus_one [OF nz])
  ultimately have n: "?n = Suc (unat (wr q - (rd q + 1)))" by (simp add: diff_diff_eq)
  show ?thesis
    unfolding ring_bytes_def get_data get_rd get_wr n
    by (simp add: upt_conv_Cons map_Suc_upt [symmetric] unat_succ_mod [OF cap_dvd] o_def del: upt_Suc)
qed

lemma get_length:
  assumes "rd q \<noteq> wr q"
  shows "unat (wr (get q) - rd (get q)) < unat (wr q - rd q)"
  using arg_cong [OF get_bytes [OF assms], of length] by simp

lemma put_length:
  assumes "unat (wr q - rd q) < cap"
  shows "unat (wr (put b q) - rd (put b q)) = Suc (unat (wr q - rd q))"
  using arg_cong [OF put_bytes [OF assms], of length] by simp

end

subsection \<open>The pipe\<close>

definition pipe_put :: "byte \<Rightarrow> pipe \<Rightarrow> pipe" where
  "pipe_put b p = p\<lparr>pi_data := (pi_data p)(unat (pi_nwrite p mod PIPESIZE) := b), pi_nwrite := pi_nwrite p + 1\<rparr>"

definition pipe_get :: "pipe \<Rightarrow> pipe" where
  "pipe_get p = pi_nread_update (\<lambda>r. r + 1) p"

lemma unat_mod_PIPESIZE: "unat (x mod PIPESIZE) = unat x mod 512"
  by (simp add: unat_mod PIPESIZE_def)

interpretation pipe: ring_buffer 512 pi_data pi_nread pi_nwrite pipe_put pipe_get
  by unfold_locales (simp_all add: pipe_put_def pipe_get_def unat_mod_PIPESIZE)

definition pipe_bytes :: "pipe \<Rightarrow> byte list" where
  "pipe_bytes p = ring_bytes 512 (pi_data p) (pi_nread p) (pi_nwrite p)"

definition pipe_ok :: "pipe \<Rightarrow> bool" where
  "pipe_ok p \<longleftrightarrow> length (pipe_bytes p) \<le> 512"

lemma pipe_full_iff: "pipe_ok p \<Longrightarrow> pi_nwrite p = pi_nread p + PIPESIZE \<longleftrightarrow> length (pipe_bytes p) = 512"
proof -
  have "length (pipe_bytes p) = 512 \<longleftrightarrow> unat (pi_nwrite p - pi_nread p) = unat (512 :: u32)"
    by (simp add: pipe_bytes_def)
  also have "\<dots> \<longleftrightarrow> pi_nwrite p - pi_nread p = 512" by (simp only: word_unat_eq_iff)
  also have "\<dots> \<longleftrightarrow> pi_nwrite p = pi_nread p + PIPESIZE" by (auto simp: PIPESIZE_def algebra_simps)
  finally show ?thesis by simp
qed

lemma pipe_put_bytes:
  assumes "pipe_ok p" "pi_nwrite p \<noteq> pi_nread p + PIPESIZE"
  shows "pipe_bytes (pipe_put b p) = pipe_bytes p @ [b]" "pipe_ok (pipe_put b p)"
proof -
  have lt: "length (pipe_bytes p) < 512"
    using assms pipe_full_iff [OF assms(1)] by (auto simp: pipe_ok_def)
  then show "pipe_bytes (pipe_put b p) = pipe_bytes p @ [b]" by (simp add: pipe_bytes_def pipe.put_bytes)
  with lt show "pipe_ok (pipe_put b p)" by (simp add: pipe_ok_def)
qed

lemma pipe_get_bytes:
  assumes "pi_nread p \<noteq> pi_nwrite p"
  shows "pipe_bytes p = pi_data p (unat (pi_nread p mod PIPESIZE)) # pipe_bytes (pipe_get p)"
    "pipe_ok p \<Longrightarrow> pipe_ok (pipe_get p)"
proof -
  show eq: "pipe_bytes p = pi_data p (unat (pi_nread p mod PIPESIZE)) # pipe_bytes (pipe_get p)"
    using pipe.get_bytes [OF assms] by (simp add: pipe_bytes_def unat_mod_PIPESIZE)
  show "pipe_ok p \<Longrightarrow> pipe_ok (pipe_get p)" unfolding pipe_ok_def eq by simp
qed

lemma pipe_bytes_Nil [simp]: "pipe_bytes p = [] \<longleftrightarrow> pi_nread p = pi_nwrite p"
  by (simp add: pipe_bytes_def)

subsection \<open>The console input\<close>

text \<open>The line being edited is between the read and the edit counter; what a reader may take ends at the write counter.\<close>

definition cons_put :: "byte \<Rightarrow> cons \<Rightarrow> cons" where
  "cons_put b c = c\<lparr>c_buf := (c_buf c)(unat (c_e c mod INPUT_BUF_SIZE) := b), c_e := c_e c + 1\<rparr>"

definition cons_get :: "cons \<Rightarrow> cons" where
  "cons_get c = c_r_update (\<lambda>r. r + 1) c"

lemma unat_mod_INPUT: "unat (x mod INPUT_BUF_SIZE) = unat x mod 128"
  by (simp add: unat_mod INPUT_BUF_SIZE_def)

interpretation cons: ring_buffer 128 c_buf c_r c_e cons_put cons_get
  by unfold_locales (simp_all add: cons_put_def cons_get_def unat_mod_INPUT)

end
