(* ===== verification/Pipes.thy ===== *)
theory Pipes
  imports Kview Ring
begin

text \<open>
  Pipes as queues of bytes: what a segment of \<open>pipewrite\<close> or \<open>piperead\<close>, up to its return or its next sleep, does to
  the queue and to user memory, and that no reader or writer is left asleep when there is something for it to do.
\<close>

subsection \<open>One byte from and to user memory\<close>

lemma unat_diff_1: "unat ((x :: u64) - d) < unat (1 :: u64) \<longleftrightarrow> x = d"
  by (simp add: unat_eq_zero)

lemma copyin_byte:
  assumes "arch s \<in> {riscv_arch, loongarch_arch}" "umem_inv s (p_pagetable s) xs"
  obtains r b s' xs' where "copyin s (p_pagetable s) dst 0 va 1 = Some (r, b, s')" "umem_inv s' (p_pagetable s) xs'"
    "mem_only s s'" "lazily s s' (p_pagetable s)" "r = 0 \<or> r = -1"
    "r = 0 \<Longrightarrow> umem s' (p_pagetable s) va = Some (b 0)" "umem s (p_pagetable s) va \<noteq> None \<Longrightarrow> r = 0"
proof -
  note fmt = supported_arch_format [OF assms(1)]
  obtain r b s' xs' where c: "copyin_loop s (p_pagetable s) dst 0 va 1 = Some (r, b, s')"
      "umem_inv s' (p_pagetable s) xs'" "mem_only s s'" "lazily s s' (p_pagetable s)" "r = 0 \<or> r = -1"
      "r = 0 \<Longrightarrow> unat (x - va) < unat (1 :: u64) \<Longrightarrow> umem s' (p_pagetable s) x = Some (b (0 + unat (x - va)))" for x
    using copyin_loop_ok [OF fmt supported_U [OF assms(1)] assms(2) refl, of dst 0 va 1] by blast
  show thesis
  proof (rule that)
    show "copyin s (p_pagetable s) dst 0 va 1 = Some (r, b, s')" using c(1) by (simp add: copyin_def)
    show "umem s' (p_pagetable s) va = Some (b 0)" if "r = 0" using c(6) [OF that, of va] by simp
    show "r = 0" if "umem s (p_pagetable s) va \<noteq> None"
    proof -
      have "user_pte s (p_pagetable s) x" if "unat (x - va) < unat (1 :: u64)" for x
        using that \<open>umem s (p_pagetable s) va \<noteq> None\<close> unfolding unat_diff_1 by (simp add: umem_def split: if_splits)
      from copyin_loop_mapped [OF fmt assms(2), of va 1 dst 0, OF this] c(1) show ?thesis by auto
    qed
  qed (use c in auto)
qed

lemma copyout_byte:
  assumes "arch s \<in> {riscv_arch, loongarch_arch}" "umem_inv s (p_pagetable s) xs"
  obtains r s' xs' where "copyout s (p_pagetable s) va (\<lambda>_. c) 1 = Some (r, s')" "umem_inv s' (p_pagetable s) xs'"
    "mem_only s s'" "r = 0 \<or> r = -1" "r = 0 \<Longrightarrow> umem s' (p_pagetable s) va = Some c"
    "\<And>x. x \<noteq> va \<Longrightarrow> umem s' (p_pagetable s) x = umem s (p_pagetable s) x
       \<or> umem s (p_pagetable s) x = None \<and> umem s' (p_pagetable s) x = Some 0"
proof -
  note fmt = supported_arch_format [OF assms(1)]
  obtain r s' xs' where c: "copyout_loop s (p_pagetable s) va (\<lambda>_. c) 0 1 = Some (r, s')"
      "umem_inv s' (p_pagetable s) xs'" "mem_only s s'" "r = 0 \<or> r = -1"
      "r = 0 \<Longrightarrow> unat (x - va) < unat (1 :: u64) \<Longrightarrow> umem s' (p_pagetable s) x = Some c"
      "\<not> unat (x - va) < unat (1 :: u64) \<Longrightarrow> umem s' (p_pagetable s) x = umem s (p_pagetable s) x
         \<or> umem s (p_pagetable s) x = None \<and> umem s' (p_pagetable s) x = Some 0" for x
    using copyout_loop_ok [OF fmt supported_U [OF assms(1)] assms(2) refl, of va "\<lambda>_. c" 0 1] by blast
  show thesis
  proof (rule that)
    show "copyout s (p_pagetable s) va (\<lambda>_. c) 1 = Some (r, s')" using c(1) by (simp add: copyout_def)
    show "umem s' (p_pagetable s) va = Some c" if "r = 0" using c(5) [OF that, of va] by simp
    show "umem s' (p_pagetable s) x = umem s (p_pagetable s) x
       \<or> umem s (p_pagetable s) x = None \<and> umem s' (p_pagetable s) x = Some 0" if "x \<noteq> va" for x
      using c(6) [of x] that unfolding unat_diff_1 by blast
  qed (use c in auto)
qed

subsection \<open>Writing\<close>

text \<open>
  How a segment of \<open>pipewrite\<close> ends that has written the bytes \<open>bs\<close>: with an error before the first byte; at the end
  of the request, or before a byte that is not mapped; or asleep because the pipe is full.  In the last two cases it has
  woken the readers.
\<close>

definition pipewrite_ends ::
    "'a kstate_scheme \<Rightarrow> u64 \<Rightarrow> u64 \<Rightarrow> int \<Rightarrow> int \<Rightarrow> nat \<Rightarrow> byte list \<Rightarrow> outcome \<Rightarrow> 'a kstate_scheme \<Rightarrow> bool" where
  "pipewrite_ends s pp a n i k bs v s' \<longleftrightarrow>
     (v = Ret (-1) \<and> bs = [] \<and> 0 < k \<and> (\<not> pi_readopen (pipes s pp) \<or> killed s (cur s)) \<and> procs s' = procs s)
   \<or> (v = Ret (i + int (length bs))
       \<and> (length bs = k \<or> length bs < k \<and> umem s (p_pagetable s) (a + word_of_int (i + int (length bs))) = None)
       \<and> procs s' = procs (wakeup s (Pipe_read pp)))
   \<or> (v = Sleep (Pipe_write pp) (In_pipewrite pp a n (i + int (length bs))) \<and> length bs < k
       \<and> length (pipe_bytes (pipes s' pp)) = 512 \<and> pi_readopen (pipes s pp)
       \<and> procs s' = procs (sleep_begin (wakeup s (Pipe_read pp)) (Pipe_write pp)))"

lemma procs_wakeup_cong:
  "procs t = procs s \<Longrightarrow> cur t = cur s \<Longrightarrow> procs (wakeup t c) = procs (wakeup s c)"
  by (simp add: wakeup_def cong: if_cong)

lemma pipewrite_loop_ok:
  assumes "arch s \<in> {riscv_arch, loongarch_arch}" "umem_inv s (p_pagetable s) xs" "pipe_ok (pipes s pp)"
  shows "\<exists>v s' xs' bs. pipewrite_loop s pp a n i k = Some (v, s') \<and> umem_inv s' (p_pagetable s) xs'
    \<and> pipe_bytes (pipes s' pp) = pipe_bytes (pipes s pp) @ bs \<and> pipe_ok (pipes s' pp)
    \<and> (\<forall>j<length bs. umem s' (p_pagetable s) (a + word_of_int (i + int j)) = Some (bs ! j))
    \<and> lazily s s' (p_pagetable s) \<and> pipewrite_ends s pp a n i k bs v s'
    \<and> pi_readopen (pipes s' pp) = pi_readopen (pipes s pp) \<and> pi_writeopen (pipes s' pp) = pi_writeopen (pipes s pp)
    \<and> cur s' = cur s"
  using assms
proof (induction k arbitrary: s xs i)
  case 0
  then show ?case
    by (intro exI [of _ "Ret i"] exI [of _ "wakeup s (Pipe_read pp)"] exI [of _ xs] exI [of _ "[]"])
      (simp add: pipewrite_ends_def lazily_def)
next
  case (Suc k)
  let ?p = "pipes s pp" and ?pt = "p_pagetable s" and ?va = "a + word_of_int i"
  consider (stop) "\<not> pi_readopen ?p \<or> killed s (cur s)"
    | (full) "pi_readopen ?p" "\<not> killed s (cur s)" "pi_nwrite ?p = pi_nread ?p + PIPESIZE"
    | (room) "pi_readopen ?p" "\<not> killed s (cur s)" "pi_nwrite ?p \<noteq> pi_nread ?p + PIPESIZE" by blast
  then show ?case
  proof cases
    case stop
    then show ?thesis using Suc.prems
      by (intro exI [of _ "Ret (-1)"] exI [of _ s] exI [of _ xs] exI [of _ "[]"])
        (auto simp: pipewrite_ends_def lazily_def Let_def)
  next
    case full
    then show ?thesis using Suc.prems pipe_full_iff [OF Suc.prems(3)]
      by (intro exI [of _ "Sleep (Pipe_write pp) (In_pipewrite pp a n i)"] exI [of _ xs] exI [of _ "[]"]
           exI [of _ "sleep_begin (wakeup s (Pipe_read pp)) (Pipe_write pp)"])
        (simp add: pipewrite_ends_def lazily_def Let_def)
  next
    case room
    obtain r b t ys where c: "copyin s ?pt (\<lambda>_. 0) 0 ?va 1 = Some (r, b, t)" "umem_inv t ?pt ys" "mem_only s t"
        "lazily s t ?pt" "r = 0 \<or> r = -1" "r = 0 \<Longrightarrow> umem t ?pt ?va = Some (b 0)" "umem s ?pt ?va \<noteq> None \<Longrightarrow> r = 0"
      by (rule copyin_byte [OF Suc.prems(1,2), where dst = "\<lambda>_. 0" and va = ?va]) blast
    note m = mem_only_k [OF c(3)]
    show ?thesis
    proof (cases "r = -1")
      case True
      then have "umem s ?pt ?va = None" using c(7) by fastforce
      then show ?thesis using room True c m Suc.prems
        by (intro exI [of _ "Ret i"] exI [of _ "wakeup t (Pipe_read pp)"] exI [of _ ys] exI [of _ "[]"])
          (auto simp: pipewrite_ends_def lazily_def Let_def intro: procs_wakeup_cong)
    next
      case False
      define u where "u = upd_pipe pp (pipe_put (b 0)) t"
      have eq: "pipewrite_loop s pp a n i (Suc k) = pipewrite_loop u pp a n (i + 1) k"
        using room False by (simp add: Let_def c(1) u_def pipe_put_def [abs_def])
      have u: "arch u = arch s" "p_pagetable u = ?pt" "pipes u pp = pipe_put (b 0) ?p" "cur u = cur s" "procs u = procs s"
        "umem u = umem t" "killed u = killed s"
        by (simp_all add: u_def m fun_eq_iff killed_def)
      have inv: "arch u \<in> {riscv_arch, loongarch_arch}" "umem_inv u (p_pagetable u) ys" "pipe_ok (pipes u pp)"
        using Suc.prems(1) c(2) pipe_put_bytes(2) [OF Suc.prems(3) room(3)] by (simp_all add: u u_def m)
      obtain v s' xs' bs where IH: "pipewrite_loop u pp a n (i + 1) k = Some (v, s')" "umem_inv s' ?pt xs'"
          "pipe_bytes (pipes s' pp) = pipe_bytes (pipes u pp) @ bs" "pipe_ok (pipes s' pp)"
          "\<forall>j<length bs. umem s' ?pt (a + word_of_int (i + 1 + int j)) = Some (bs ! j)"
          "lazily u s' ?pt" "pipewrite_ends u pp a n (i + 1) k bs v s'"
          "pi_readopen (pipes s' pp) = pi_readopen (pipes u pp)" "pi_writeopen (pipes s' pp) = pi_writeopen (pipes u pp)" "cur s' = cur u"
        using Suc.IH [OF inv, of "i + 1"] unfolding u(2) by blast
      have r0: "r = 0" using False c(5) by simp
      have lz: "lazily s s' ?pt" using c(4) IH(6) unfolding lazily_def u(6) by metis
      have bytes: "pipe_bytes (pipes s' pp) = pipe_bytes ?p @ (b 0 # bs)"
        using IH(3) pipe_put_bytes(1) [OF Suc.prems(3) room(3)] by (simp add: u(3))
      have first: "umem s' ?pt ?va = Some (b 0)"
        using IH(6) c(6) [OF r0] unfolding lazily_def u(6) by (metis option.distinct(1))
      have um: "\<forall>j<length (b 0 # bs). umem s' ?pt (a + word_of_int (i + int j)) = Some ((b 0 # bs) ! j)"
        using IH(5) first by (auto simp: less_Suc_eq_0_disj add.assoc)
      have none: "umem s ?pt x = None" if "umem u ?pt x = None" for x
        using c(4) that unfolding lazily_def u(6) by metis
      have wk: "procs (wakeup u c) = procs (wakeup s c)" for c by (rule procs_wakeup_cong) (simp_all add: u)
      have "pi_readopen (pipe_put (b 0) ?p) = pi_readopen ?p" by (simp add: pipe_put_def)
      then have ends: "pipewrite_ends s pp a n i (Suc k) (b 0 # bs) v s'"
        using IH(7) room none unfolding pipewrite_ends_def u sleep_begin_fields wk wakeup_fields
        by (auto simp: add.assoc)
      show ?thesis
        using eq IH(1,2,4,8,9,10) bytes um lz ends
        by (intro exI [of _ v] exI [of _ s'] exI [of _ xs'] exI [of _ "b 0 # bs"]) (simp add: u pipe_put_def)
    qed
  qed
qed

subsection \<open>Reading\<close>

lemma copyout_byte_mapped:
  assumes "arch s \<in> {riscv_arch, loongarch_arch}" "umem_inv s (p_pagetable s) xs" "uwritable s (p_pagetable s) va"
  obtains m where "copyout s (p_pagetable s) va (\<lambda>_. c) 1 = Some (0, s\<lparr>mb := m\<rparr>)"
    "\<And>x. umem (s\<lparr>mb := m\<rparr>) (p_pagetable s) x = (if x = va then Some c else umem s (p_pagetable s) x)"
proof -
  have w: "uwritable s (p_pagetable s) x" if "unat (x - va) < unat (1 :: u64)" for x
    using that assms(3) unfolding unat_diff_1 by simp
  from copyout_loop_mapped [OF supported_arch_format [OF assms(1)] assms(2), of va 1 "\<lambda>_. c" 0, OF w]
  obtain m where m: "copyout s (p_pagetable s) va (\<lambda>_. c) 1 = Some (0, s\<lparr>mb := m\<rparr>)" by (auto simp: copyout_def)
  have none: "umem (s\<lparr>mb := m\<rparr>) (p_pagetable s) x = None \<longleftrightarrow> umem s (p_pagetable s) x = None" for x
    by (simp add: umem_def)
  have "umem (s\<lparr>mb := m\<rparr>) (p_pagetable s) x = (if x = va then Some c else umem s (p_pagetable s) x)" for x
  proof -
    obtain r s' where c: "copyout s (p_pagetable s) va (\<lambda>_. c) 1 = Some (r, s')" "r = 0 \<Longrightarrow> umem s' (p_pagetable s) va = Some c"
        "x \<noteq> va \<Longrightarrow> umem s' (p_pagetable s) x = umem s (p_pagetable s) x \<or> umem s (p_pagetable s) x = None"
      by (rule copyout_byte [OF assms(1,2), of va c]) blast
    have "r = 0" "s' = s\<lparr>mb := m\<rparr>" using c(1) m by auto
    then show ?thesis using c(2,3) none [of x] by (metis (no_types))
  qed
  with m show thesis by (rule that)
qed

lemma word_of_int_less_inj:
  "\<lbrakk>0 \<le> i; i < 2 ^ 63; 0 \<le> j; j < 2 ^ 63\<rbrakk> \<Longrightarrow> (word_of_int i :: u64) = word_of_int j \<longleftrightarrow> i = j"
  by (auto simp: word_of_int_eq_iff take_bit_int_eq_self)

lemma piperead_loop_ok:
  assumes "arch s \<in> {riscv_arch, loongarch_arch}" "umem_inv s (p_pagetable s) xs" "pipe_ok (pipes s pp)"
    "\<And>j. j < k \<Longrightarrow> uwritable s (p_pagetable s) (a + word_of_int (i + int j))" "0 \<le> i" "i + int k < 2 ^ 63"
  shows "\<exists>s'. piperead_loop s pp a i k = Some (i + int (length (take k (pipe_bytes (pipes s pp)))), s')
    \<and> pipe_bytes (pipes s' pp) = drop k (pipe_bytes (pipes s pp)) \<and> pipe_ok (pipes s' pp) \<and> umem_inv s' (p_pagetable s) xs
    \<and> (\<forall>j<min k (length (pipe_bytes (pipes s pp))).
         umem s' (p_pagetable s) (a + word_of_int (i + int j)) = Some (pipe_bytes (pipes s pp) ! j))
    \<and> (\<forall>x. (\<forall>j<min k (length (pipe_bytes (pipes s pp))). x \<noteq> a + word_of_int (i + int j)) \<longrightarrow>
         umem s' (p_pagetable s) x = umem s (p_pagetable s) x)"
  using assms
proof (induction k arbitrary: s i)
  case 0
  then show ?case by simp
next
  case (Suc k)
  let ?p = "pipes s pp" and ?pt = "p_pagetable s" and ?va = "a + word_of_int i"
  show ?case
  proof (cases "pi_nread ?p = pi_nwrite ?p")
    case True
    then have "pipe_bytes ?p = []" by simp
    with True Suc.prems(2,3) show ?thesis by (simp add: Let_def del: pipe_bytes_Nil)
  next
    case False
    define c where "c = pi_data ?p (unat (pi_nread ?p mod PIPESIZE))"
    have bytes: "pipe_bytes ?p = c # pipe_bytes (pipe_get ?p)" using pipe_get_bytes(1) [OF False] by (simp add: c_def)
    have "uwritable s ?pt ?va" using Suc.prems(4) [of 0] by simp
    then obtain m where m: "copyout s ?pt ?va (\<lambda>_. c) 1 = Some (0, s\<lparr>mb := m\<rparr>)"
        "\<And>x. umem (s\<lparr>mb := m\<rparr>) ?pt x = (if x = ?va then Some c else umem s ?pt x)"
      by (rule copyout_byte_mapped [OF Suc.prems(1,2), where c = c]) blast
    define u where "u = upd_pipe pp pipe_get (s\<lparr>mb := m\<rparr>)"
    have eq: "piperead_loop s pp a i (Suc k) = piperead_loop u pp a (i + 1) k"
      using False m(1) by (simp add: Let_def c_def [symmetric] u_def pipe_get_def [abs_def])
    have u: "arch u = arch s" "p_pagetable u = ?pt" "pipes u pp = pipe_get ?p"
        "umem u ?pt x = (if x = ?va then Some c else umem s ?pt x)" for x
      using m(2) by (simp_all add: u_def)
    have wr: "uwritable u pt x = uwritable s pt x" for pt x
      by (simp add: u_def uwritable_def user_pte_def pte_of_def upd_pipe_def)
    have inv: "arch u \<in> {riscv_arch, loongarch_arch}" "umem_inv u (p_pagetable u) xs" "pipe_ok (pipes u pp)"
        "\<And>j. j < k \<Longrightarrow> uwritable u (p_pagetable u) (a + word_of_int (i + 1 + int j))" "0 \<le> i + 1" "i + 1 + int k < 2 ^ 63"
      using Suc.prems(1,2,5,6) Suc.prems(4) [of "Suc _"] pipe_get_bytes(2) [OF False Suc.prems(3)]
      by (simp_all add: u wr add.assoc) (simp add: u_def)
    obtain s' where IH: "piperead_loop u pp a (i + 1) k = Some (i + 1 + int (length (take k (pipe_bytes (pipe_get ?p)))), s')"
      "pipe_bytes (pipes s' pp) = drop k (pipe_bytes (pipe_get ?p))" "pipe_ok (pipes s' pp)" "umem_inv s' ?pt xs"
      "\<And>j. j < min k (length (pipe_bytes (pipe_get ?p))) \<Longrightarrow>
         umem s' ?pt (a + word_of_int (i + 1 + int j)) = Some (pipe_bytes (pipe_get ?p) ! j)"
      "\<And>x. (\<forall>j<min k (length (pipe_bytes (pipe_get ?p))). x \<noteq> a + word_of_int (i + 1 + int j)) \<Longrightarrow>
         umem s' ?pt x = umem u ?pt x"
      using Suc.IH [OF inv] unfolding u(2,3) by blast
    have "\<forall>j<min k (length (pipe_bytes (pipe_get ?p))). ?va \<noteq> a + word_of_int (i + 1 + int j)"
      using Suc.prems(5,6) by (simp add: word_of_int_less_inj del: of_int_add)
    then have va: "umem s' ?pt ?va = Some c" using IH(6) [of ?va] by (simp add: u)
    have rd: "umem s' ?pt (a + word_of_int (i + int j)) = Some (pipe_bytes ?p ! j)"
      if "j < min (Suc k) (length (pipe_bytes ?p))" for j
      using that va IH(5) [of "j - 1"] unfolding bytes by (cases j) (simp_all add: add.assoc)
    have fr: "umem s' ?pt x = umem s ?pt x"
      if "\<forall>j<min (Suc k) (length (pipe_bytes ?p)). x \<noteq> a + word_of_int (i + int j)" for x
    proof -
      have "x \<noteq> ?va" using that [rule_format, of 0] by (simp add: bytes)
      moreover have "\<forall>j<min k (length (pipe_bytes (pipe_get ?p))). x \<noteq> a + word_of_int (i + 1 + int j)"
        using that [rule_format, of "Suc _"] by (simp add: bytes add.assoc)
      ultimately show ?thesis using IH(6) [of x] by (simp add: u)
    qed
    show ?thesis using eq IH(1-4) rd fr by (auto simp: bytes)
  qed
qed

subsection \<open>The two ends of a pipe\<close>

text \<open>C26: A segment of \<open>pipewrite\<close> returns for every request, appends to the queue of the pipe exactly the user bytes from
  the current position on, in order, and never more than fit into 512 bytes, also when the counters wrap round; it ends
  as \<open>pipewrite_ends\<close> says: with an error, at the end of the request, at an unmapped byte, or asleep with the pipe full.\<close>

theorem pipewrite_correct:
  assumes "arch s \<in> {riscv_arch, loongarch_arch}" "umem_inv s (p_pagetable s) xs" "pipe_ok (pipes s pp)"
  shows "\<exists>v s' xs' bs. pipewrite s pp a n i = Some (v, s') \<and> umem_inv s' (p_pagetable s) xs'
    \<and> pipe_bytes (pipes s' pp) = pipe_bytes (pipes s pp) @ bs \<and> pipe_ok (pipes s' pp)
    \<and> (\<forall>j<length bs. umem s' (p_pagetable s) (a + word_of_int (i + int j)) = Some (bs ! j))
    \<and> lazily s s' (p_pagetable s) \<and> pipewrite_ends s pp a n i (nat (n - i)) bs v s'"
  using pipewrite_loop_ok [OF assms, of a n i "nat (n - i)"] unfolding pipewrite_def by blast

theorem pipewrite_correct_witness:
  "\<exists>v s' bs. pipewrite idle_demo 0x4000 0x100 5 0 = Some (v, s') \<and> pipe_bytes (pipes s' 0x4000) = bs \<and> length bs \<le> 512"
proof -
  have "pipe_ok (pipes idle_demo 0x4000)" by (simp add: pipe_ok_def pipe_bytes_def empty_pipe_def)
  from pipewrite_correct [OF idle_demo_mem(2) _ this, of _ "0x100" 5 0] idle_demo_mem(1)
  show ?thesis by (fastforce simp: pipe_ok_def)
qed



subsection \<open>No process is left asleep\<close>

text \<open>
  What a process may be asleep for: a reader only for an empty pipe with an open write end, a writer only for a full pipe
  with an open read end.
\<close>

definition waits_at :: "pipe \<Rightarrow> u64 \<Rightarrow> proc \<Rightarrow> bool" where
  "waits_at P pp x \<longleftrightarrow> (pr_state x = SLEEPING \<longrightarrow>
        (pr_chan x = Some (Pipe_read pp) \<longrightarrow> pipe_bytes P = [] \<and> pi_writeopen P)
      \<and> (pr_chan x = Some (Pipe_write pp) \<longrightarrow> length (pipe_bytes P) = 512 \<and> pi_readopen P))"

definition pipe_waits :: "'a kstate_scheme \<Rightarrow> u64 \<Rightarrow> bool" where
  "pipe_waits s pp \<longleftrightarrow> pipe_ok (pipes s pp) \<and> (\<forall>p<NPROC. waits_at (pipes s pp) pp (pr s p))"

text \<open>
  The steps that processes take on a pipe: the running process executes a segment of \<open>pipewrite\<close> or \<open>piperead\<close>, from its
  start or after a wakeup, or closes an end; a process is killed; the clock ticks; the running process yields; the
  scheduler switches to another process.
\<close>

inductive pipe_step :: "u64 \<Rightarrow> 'a kstate_scheme \<Rightarrow> 'a kstate_scheme \<Rightarrow> bool" for pp where
  pwrite: "\<lbrakk>pr_state (pr s (cur s)) = RUNNING; arch s \<in> {riscv_arch, loongarch_arch}; umem_inv s (p_pagetable s) xs;
     pipewrite s pp a n i = Some (v, s')\<rbrakk> \<Longrightarrow> pipe_step pp s s'"
| pread: "\<lbrakk>pr_state (pr s (cur s)) = RUNNING; piperead s pp a n = Some (v, s')\<rbrakk> \<Longrightarrow> pipe_step pp s s'"
| pclose: "\<lbrakk>pr_state (pr s (cur s)) = RUNNING; pipeclose s pp writable = Some s'\<rbrakk> \<Longrightarrow> pipe_step pp s s'"
| kill: "pipe_step pp s (snd (kkill s pid))"
| tick: "pr_state (pr s (cur s)) = RUNNING \<Longrightarrow> pipe_step pp s (clockintr s h)"
| yield: "pipe_step pp s (yield_begin s)"
| switch: "pipe_step pp s (snd (sched_visit s p))"
| resume: "pr_state (pr s (cur s)) = RUNNING \<Longrightarrow> pipe_step pp s (sleep_end s)"

lemma copyout_frame: "copyout s pt va src len = Some (r, s') \<Longrightarrow> mem_only s s'"
  using copyout_loop_frame by (fastforce simp: copyout_def)

lemma piperead_loop_frame:
  "piperead_loop s pp a i k = Some (r, s') \<Longrightarrow>
     procs s' = procs s \<and> cur s' = cur s \<and> (pipe_ok (pipes s pp) \<longrightarrow> pipe_ok (pipes s' pp))
   \<and> pi_readopen (pipes s' pp) = pi_readopen (pipes s pp) \<and> pi_writeopen (pipes s' pp) = pi_writeopen (pipes s pp)"
proof (induction k arbitrary: s i)
  case (Suc k)
  show ?case
  proof (cases "pi_nread (pipes s pp) = pi_nwrite (pipes s pp)")
    case False
    then obtain q t where c: "copyout s (p_pagetable s) (a + word_of_int i)
        (\<lambda>_. pi_data (pipes s pp) (unat (pi_nread (pipes s pp) mod PIPESIZE))) 1 = Some (q, t)"
      using Suc.prems by (auto simp: Let_def bind_eq_Some_conv)
    note m = mem_only_k [OF copyout_frame [OF c]]
    show ?thesis
    proof (cases "q = -1")
      case True
      then show ?thesis using Suc.prems False c m by (auto simp: Let_def)
    next
      case ok: False
      have "piperead_loop (upd_pipe pp pipe_get t) pp a (i + 1) k = Some (r, s')"
        using Suc.prems False c ok by (simp add: Let_def pipe_get_def [abs_def])
      from Suc.IH [OF this] show ?thesis
        using m pipe_get_bytes(2) [OF False] by (simp add: pipe_get_def)
    qed
  qed (use Suc.prems in simp)
qed simp

text \<open>A process that sleeps after a wakeup slept before, on a channel that was not woken.\<close>

lemma wakeup_sleeping:
  "\<lbrakk>pr_state (pr s (cur s)) = RUNNING; p < NPROC; pr_state (pr (wakeup s c) p) = SLEEPING\<rbrakk> \<Longrightarrow>
     pr (wakeup s c) p = pr s p \<and> pr_state (pr s p) = SLEEPING \<and> pr_chan (pr s p) \<noteq> Some c"
  by (auto simp: wakeup_procs split: if_splits)

lemma pipe_waitsD:
  assumes "pipe_waits s pp" "p < NPROC" "pr_state (pr s p) = SLEEPING"
  shows "pr_chan (pr s p) = Some (Pipe_read pp) \<Longrightarrow> pipe_bytes (pipes s pp) = [] \<and> pi_writeopen (pipes s pp)"
    "pr_chan (pr s p) = Some (Pipe_write pp) \<Longrightarrow> length (pipe_bytes (pipes s pp)) = 512 \<and> pi_readopen (pipes s pp)"
  using assms by (auto simp: pipe_waits_def waits_at_def)

lemma pipewrite_waits:
  assumes run: "pr_state (pr s (cur s)) = RUNNING" and w: "pipe_waits s pp"
    and mem: "arch s \<in> {riscv_arch, loongarch_arch}" "umem_inv s (p_pagetable s) xs"
    and eq: "pipewrite s pp a n i = Some (v, s')"
  shows "pipe_waits s' pp"
proof -
  have ok: "pipe_ok (pipes s pp)" using w by (simp add: pipe_waits_def)
  obtain bs where L: "pipe_bytes (pipes s' pp) = pipe_bytes (pipes s pp) @ bs" "pipe_ok (pipes s' pp)"
      "pipewrite_ends s pp a n i (nat (n - i)) bs v s'"
      "pi_readopen (pipes s' pp) = pi_readopen (pipes s pp)" "pi_writeopen (pipes s' pp) = pi_writeopen (pipes s pp)"
    using pipewrite_loop_ok [OF mem ok, of a n i "nat (n - i)"] eq unfolding pipewrite_def by auto
  have full: "length (pipe_bytes (pipes s' pp)) = 512 \<and> pi_readopen (pipes s' pp)"
    if "p < NPROC" "pr_state (pr s p) = SLEEPING" "pr_chan (pr s p) = Some (Pipe_write pp)" for p
    using pipe_waitsD(2) [OF w that] L(1,2,4) by (simp add: pipe_ok_def)
  from L(3) consider "bs = []" "procs s' = procs s" | "procs s' = procs (wakeup s (Pipe_read pp))"
    | "procs s' = procs (sleep_begin (wakeup s (Pipe_read pp)) (Pipe_write pp))"
      "length (pipe_bytes (pipes s' pp)) = 512" "pi_readopen (pipes s pp)"
    unfolding pipewrite_ends_def by blast
  then show ?thesis
  proof cases
    case 1
    then show ?thesis using w L by (simp add: pipe_waits_def waits_at_def del: pipe_bytes_Nil)
  next
    case 2
    have "waits_at (pipes s' pp) pp (pr s' p)" if "p < NPROC" for p
      using that full wakeup_sleeping [OF run, of p "Pipe_read pp"] unfolding waits_at_def 2 by auto
    with L(2) show ?thesis by (simp add: pipe_waits_def)
  next
    case 3
    have "waits_at (pipes s' pp) pp (pr s' p)" if "p < NPROC" for p
    proof (cases "p = cur s")
      case True
      then show ?thesis using 3 L(4) by (simp add: waits_at_def)
    next
      case False
      then have "pr s' p = pr (wakeup s (Pipe_read pp)) p" using 3(1) by simp
      then show ?thesis using that full wakeup_sleeping [OF run, of p "Pipe_read pp"] unfolding waits_at_def by auto
    qed
    with L(2) show ?thesis by (simp add: pipe_waits_def)
  qed
qed

lemma piperead_waits:
  assumes run: "pr_state (pr s (cur s)) = RUNNING" and w: "pipe_waits s pp" and eq: "piperead s pp a n = Some (v, s')"
  shows "pipe_waits s' pp"
proof (cases "pi_nread (pipes s pp) = pi_nwrite (pipes s pp) \<and> pi_writeopen (pipes s pp)")
  case True
  then consider "s' = s" | "s' = sleep_begin s (Pipe_read pp)"
    using eq by (auto simp: piperead_def Let_def split: if_splits)
  then show ?thesis
  proof cases
    case 2
    then show ?thesis using w True by (auto simp: pipe_waits_def waits_at_def upd_apply)
  qed (use w in simp)
next
  case False
  then obtain i t where t: "piperead_loop s pp a 0 (nat n) = Some (i, t)" "s' = wakeup t (Pipe_write pp)"
    using eq by (auto simp: piperead_def Let_def bind_eq_Some_conv)
  note fr = piperead_loop_frame [OF t(1)]
  have "pr_chan (pr s p) \<noteq> Some (Pipe_read pp)" if "p < NPROC" "pr_state (pr s p) = SLEEPING" for p
    using pipe_waitsD(1) [OF w that] False by auto
  then have "waits_at (pipes s' pp) pp (pr s' p)" if "p < NPROC" for p
    using that fr run wakeup_sleeping [of t p "Pipe_write pp"] unfolding waits_at_def t(2) by auto
  then show ?thesis using w fr by (simp add: pipe_waits_def t(2))
qed

lemma pipeclose_waits:
  assumes run: "pr_state (pr s (cur s)) = RUNNING" and w: "pipe_waits s pp" and eq: "pipeclose s pp writable = Some s'"
  shows "pipe_waits s' pp"
proof -
  define u where "u = (if writable then wakeup (upd_pipe pp (pi_writeopen_update (\<lambda>_. False)) s) (Pipe_read pp)
               else wakeup (upd_pipe pp (pi_readopen_update (\<lambda>_. False)) s) (Pipe_write pp))"
  have "mem_only u s'" using eq kfree_frame by (auto simp: pipeclose_def u_def [symmetric] Let_def split: if_splits)
  then have s': "procs s' = procs u" "pipes s' = pipes u" by (simp_all add: mem_only_k)
  have "pipe_waits u pp"
    using w run unfolding pipe_waits_def waits_at_def u_def
    by (auto simp: wakeup_procs pipe_bytes_def pipe_ok_def split: if_splits)
  then show ?thesis by (simp add: pipe_waits_def s')
qed

lemma pipe_step_waits:
  assumes "pipe_step pp s s'" "pipe_waits s pp"
  shows "pipe_waits s' pp"
  using assms(1)
proof cases
  case pwrite
  then show ?thesis using pipewrite_waits assms(2) by blast
next
  case pread
  then show ?thesis using piperead_waits assms(2) by blast
next
  case pclose
  then show ?thesis using pipeclose_waits assms(2) by blast
next
  case (tick h)
  have "pipe_waits (wakeup (s\<lparr>ticks := ticks s + 1\<rparr>) Tick) pp"
    using assms(2) tick(2) unfolding pipe_waits_def waits_at_def by (auto simp: wakeup_procs)
  then show ?thesis using assms(2) tick by (simp add: clockintr_def)
qed (use assms(2) in \<open>auto simp: pipe_waits_def waits_at_def upd_apply yield_begin_def sleep_end_def kkill_def sched_visit_def
      load_cur_def save_cur_def split: option.splits\<close>)

text \<open>C28: No wakeup on a pipe is lost: whatever segments of \<open>pipewrite\<close>, \<open>piperead\<close> and \<open>pipeclose\<close> the processes execute
  and however they are scheduled, interrupted and killed between them, a process is never asleep as a reader of a pipe
  that holds bytes or has no writer, nor as a writer of a pipe that has room or no reader.\<close>

theorem pipe_no_lost_wakeup:
  assumes "(pipe_step pp)\<^sup>*\<^sup>* s s'" "pipe_waits s pp"
  shows "pipe_waits s' pp"
  using assms
  by (induction rule: rtranclp_induct) (auto intro: pipe_step_waits)

theorem pipe_no_lost_wakeup_witness:
  "(pipe_step 0x4000)\<^sup>*\<^sup>* idle_demo (yield_begin idle_demo) \<and> pipe_waits (yield_begin idle_demo) 0x4000"
proof -
  have r: "(pipe_step 0x4000)\<^sup>*\<^sup>* idle_demo (yield_begin idle_demo)" by (blast intro: pipe_step.yield)
  moreover have "pipe_waits idle_demo 0x4000"
    by (auto simp: pipe_waits_def waits_at_def pipe_ok_def pipe_bytes_def empty_pipe_def no_proc_def)
  ultimately show ?thesis using pipe_no_lost_wakeup by blast
qed

end
