(* ===== verification/Lines.thy ===== *)
theory Lines
  imports Kview Ring
begin

text \<open>
  The console input as a line editor: characters of the line being typed can still be erased; complete lines are ready
  for readers.  The interrupt handler of \<^verbatim>\<open>kernel/console.c\<close> implements it on its circular buffer.
\<close>

subsection \<open>The line editor\<close>

record line_editor =
  ready :: "byte list"
  typed :: "byte list"

text \<open>One input character: print the process list, kill the line, erase a character, or append one.\<close>

definition line_edit :: "u32 \<Rightarrow> line_editor \<Rightarrow> line_editor" where
  "line_edit c l =
     (if c = 16 then l
      else if c = 21 then l\<lparr>typed := []\<rparr>
      else if c = 8 \<or> c = 127 then l\<lparr>typed := butlast (typed l)\<rparr>
      else if c \<noteq> 0 \<and> length (ready l @ typed l) < 128 then
        let b = (if c = 13 then 10 else ucast c); line = typed l @ [b] in
        if b = 10 \<or> c = 4 \<or> length (ready l @ line) = 128 then \<lparr>ready = ready l @ line, typed = []\<rparr> else l\<lparr>typed := line\<rparr>
      else l)"

subsection \<open>The circular buffer\<close>

definition cons_bytes :: "cons \<Rightarrow> byte list" where
  "cons_bytes c = ring_bytes 128 (c_buf c) (c_r c) (c_e c)"

definition cons_lines :: "cons \<Rightarrow> line_editor" where
  "cons_lines c = \<lparr>ready = take (unat (c_w c - c_r c)) (cons_bytes c), typed = drop (unat (c_w c - c_r c)) (cons_bytes c)\<rparr>"

text \<open>The counters are in order, at most 128 apart, and a newline ends the line at once.\<close>

definition cons_ok :: "cons \<Rightarrow> bool" where
  "cons_ok c \<longleftrightarrow> length (cons_bytes c) \<le> 128 \<and> unat (c_w c - c_r c) \<le> length (cons_bytes c) \<and> 10 \<notin> set (typed (cons_lines c))"

lemma length_cons_bytes: "length (cons_bytes c) = unat (c_e c - c_r c)"
  by (simp add: cons_bytes_def)

lemma ring_bytes_shrink:
  assumes "r \<noteq> w"
  shows "ring_bytes cap d r (w - 1) = butlast (ring_bytes cap d r w)"
    "last (ring_bytes cap d r w) = d ((unat r + unat (w - r) - 1) mod cap)"
proof -
  have nz: "w - r \<noteq> 0" using assms by simp
  then have pos: "0 < unat (w - r)" by (simp add: unat_gt_0)
  obtain k where k: "unat (w - r) = Suc k" using pos by (cases "unat (w - r)") auto
  have "unat (w - 1 - r) = k" using unat_minus_one [OF nz] k by (simp add: algebra_simps)
  then show "ring_bytes cap d r (w - 1) = butlast (ring_bytes cap d r w)"
    by (simp add: ring_bytes_def k)
  show "last (ring_bytes cap d r w) = d ((unat r + unat (w - r) - 1) mod cap)"
    using pos by (simp add: ring_bytes_def last_map)
qed

lemma typed_Nil_iff:
  assumes "cons_ok c"
  shows "typed (cons_lines c) = [] \<longleftrightarrow> c_e c = c_w c"
proof -
  have "typed (cons_lines c) = [] \<longleftrightarrow> unat (c_e c - c_r c) \<le> unat (c_w c - c_r c)"
    by (simp add: cons_lines_def length_cons_bytes)
  also have "\<dots> \<longleftrightarrow> unat (c_e c - c_r c) = unat (c_w c - c_r c)"
    using assms by (auto simp: cons_ok_def length_cons_bytes)
  also have "\<dots> \<longleftrightarrow> c_e c = c_w c" by (simp flip: word_unat_eq_iff)
  finally show ?thesis .
qed

text \<open>Erasing the last character.\<close>

lemma erase_ok:
  assumes ok: "cons_ok c" and ne: "c_e c \<noteq> c_w c"
  defines "c' \<equiv> c\<lparr>c_e := c_e c - 1\<rparr>"
  shows "cons_lines c' = (cons_lines c)\<lparr>typed := butlast (typed (cons_lines c))\<rparr>" "cons_ok c'"
    "c_buf c (unat ((c_e c - 1) mod INPUT_BUF_SIZE)) = last (typed (cons_lines c))"
    "length (typed (cons_lines c')) < length (typed (cons_lines c))"
proof -
  let ?n = "unat (c_w c - c_r c)"
  have tn: "typed (cons_lines c) \<noteq> []" using typed_Nil_iff [OF ok] ne by simp
  then have lt: "?n < length (cons_bytes c)" by (simp add: cons_lines_def)
  then have re: "c_r c \<noteq> c_e c" by (auto simp: length_cons_bytes)
  have bytes: "cons_bytes c' = butlast (cons_bytes c)"
    using ring_bytes_shrink(1) [OF re] by (simp add: cons_bytes_def c'_def)
  have "take ?n (butlast (cons_bytes c)) = take ?n (cons_bytes c)" using lt by (simp add: take_butlast)
  then show eq: "cons_lines c' = (cons_lines c)\<lparr>typed := butlast (typed (cons_lines c))\<rparr>"
    using lt unfolding cons_lines_def bytes by (simp add: c'_def drop_butlast)
  show "cons_ok c'"
    using ok lt unfolding cons_ok_def eq bytes by (auto simp: c'_def dest: in_set_butlastD)
  have pos: "0 < unat (c_e c - c_r c)" using lt by (simp add: length_cons_bytes)
  have "(unat (c_r c) + unat (c_e c - c_r c) - 1) mod 128 = unat (c_e c - 1) mod 128"
    using unat_distance_mod [of 128 "c_r c" "c_e c - 1"] unat_minus_one [of "c_e c - c_r c"] re pos
    by (simp add: algebra_simps)
  moreover have "last (typed (cons_lines c)) = last (cons_bytes c)" using lt by (simp add: cons_lines_def)
  ultimately show "c_buf c (unat ((c_e c - 1) mod INPUT_BUF_SIZE)) = last (typed (cons_lines c))"
    using ring_bytes_shrink(2) [OF re, of 128 "c_buf c"] by (simp add: cons_bytes_def unat_mod_INPUT)
  show "length (typed (cons_lines c')) < length (typed (cons_lines c))" using tn by (simp add: eq)
qed

lemma kill_line_ok:
  assumes "cons_ok c" "kill_line c out = (c', out')"
  shows "cons_lines c' = (cons_lines c)\<lparr>typed := []\<rparr> \<and> cons_ok c'"
  using assms
proof (induction c out rule: kill_line.induct)
  case (1 c out)
  show ?case
  proof (cases "c_e c = c_w c")
    case True
    then have "c' = c" using 1(3) by (simp add: kill_line.simps [of c])
    then show ?thesis using 1(2) typed_Nil_iff [OF 1(2)] True by simp
  next
    case False
    note e = erase_ok [OF 1(2) False]
    have "typed (cons_lines c) \<noteq> []" using typed_Nil_iff [OF 1(2)] False by simp
    then have "last (typed (cons_lines c)) \<noteq> 10" using 1(2) last_in_set unfolding cons_ok_def by metis
    then have g: "c_e c \<noteq> c_w c \<and> c_buf c (unat ((c_e c - 1) mod INPUT_BUF_SIZE)) \<noteq> 10" using False e(3) by simp
    then have "kill_line (c\<lparr>c_e := c_e c - 1\<rparr>) (out @ consputc BACKSPACE) = (c', out')"
      using 1(3) by (simp add: kill_line.simps [of c])
    from 1(1) [OF g e(2) this] show ?thesis by (simp add: e(1))
  qed
qed

text \<open>Appending a character, and committing the line.\<close>

lemma append_ok:
  assumes ok: "cons_ok c" and room: "length (cons_bytes c) < 128"
  shows "cons_lines (cons_put b c) = (cons_lines c)\<lparr>typed := typed (cons_lines c) @ [b]\<rparr>"
    "b \<noteq> 10 \<Longrightarrow> cons_ok (cons_put b c)"
    "cons_lines ((cons_put b c)\<lparr>c_w := c_e c + 1\<rparr>) = \<lparr>ready = ready (cons_lines c) @ typed (cons_lines c) @ [b], typed = []\<rparr>"
    "cons_ok ((cons_put b c)\<lparr>c_w := c_e c + 1\<rparr>)" "length (cons_bytes (cons_put b c)) = Suc (length (cons_bytes c))"
proof -
  have bytes: "cons_bytes (cons_put b c) = cons_bytes c @ [b]"
    using cons.put_bytes [of c b] room by (simp add: cons_bytes_def length_cons_bytes)
  have n: "unat (c_w c - c_r c) \<le> length (cons_bytes c)" using ok by (simp add: cons_ok_def)
  show l: "cons_lines (cons_put b c) = (cons_lines c)\<lparr>typed := typed (cons_lines c) @ [b]\<rparr>"
    using n bytes by (simp add: cons_lines_def cons_put_def)
  show "b \<noteq> 10 \<Longrightarrow> cons_ok (cons_put b c)"
    using ok room n l bytes unfolding cons_ok_def by (auto simp: cons_put_def)
  show len: "length (cons_bytes (cons_put b c)) = Suc (length (cons_bytes c))" by (simp add: bytes)
  have r: "c_r (cons_put b c) = c_r c" by (simp add: cons_put_def)
  have all: "unat (c_e c + 1 - c_r c) = length (cons_bytes (cons_put b c))"
    unfolding length_cons_bytes by (simp add: cons_put_def)
  have same: "cons_bytes ((cons_put b c)\<lparr>c_w := x\<rparr>) = cons_bytes (cons_put b c)" for x by (simp add: cons_bytes_def)
  have "ready (cons_lines c) @ typed (cons_lines c) = cons_bytes c" by (simp add: cons_lines_def)
  then show c: "cons_lines ((cons_put b c)\<lparr>c_w := c_e c + 1\<rparr>)
      = \<lparr>ready = ready (cons_lines c) @ typed (cons_lines c) @ [b], typed = []\<rparr>"
    unfolding cons_lines_def same using all by (simp add: bytes r)
  show "cons_ok ((cons_put b c)\<lparr>c_w := c_e c + 1\<rparr>)"
    unfolding cons_ok_def c same using all len room by (simp add: r)
qed

subsection \<open>The interrupt handler\<close>

lemma ucast_10: "c < 256 \<Longrightarrow> (ucast (c :: u32) :: byte) = 10 \<longleftrightarrow> c = 10"
proof -
  assume "c < 256"
  then have "unat c < 256" by (simp add: word_less_nat_alt)
  then have "unat (ucast c :: byte) = unat c" by (simp add: unsigned_ucast_eq take_bit_nat_eq_self)
  then show ?thesis by (simp add: word_unat_eq_iff)
qed

text \<open>C29: The console interrupt handler implements the line editor on its 128-byte circular buffer: for every input
  character the complete lines and the line being typed after \<open>consoleintr\<close> are those of the editor after the character,
  also when the free-running counters wrap round; when a line becomes complete, no reader is left asleep.\<close>

theorem consoleintr_refines:
  assumes "cons_ok (console s)" "c < 256" "consoleintr s c = Some s'"
  shows "cons_lines (console s') = line_edit c (cons_lines (console s)) \<and> cons_ok (console s')
    \<and> (ready (cons_lines (console s')) \<noteq> ready (cons_lines (console s)) \<longrightarrow>
         (\<forall>p<NPROC. p \<noteq> cur s \<longrightarrow> pr_state (pr s' p) = SLEEPING \<longrightarrow> pr_chan (pr s' p) \<noteq> Some Cons_read))"
proof -
  let ?C = "console s"
  have rt: "ready (cons_lines ?C) @ typed (cons_lines ?C) = cons_bytes ?C" by (simp add: cons_lines_def)
  then have len: "length (ready (cons_lines ?C)) + length (typed (cons_lines ?C)) = length (cons_bytes ?C)"
    by (metis length_append)
  consider (dump) "c = 16" | (kill) "c = 21" | (erase) "c = 8 \<or> c = 127"
    | (skip) "c \<notin> {16, 21, 8, 127}" "\<not> (c \<noteq> 0 \<and> length (cons_bytes ?C) < 128)"
    | (put) "c \<notin> {16, 21, 8, 127}" "c \<noteq> 0" "length (cons_bytes ?C) < 128" by auto
  then show ?thesis
  proof cases
    case dump
    then have "console s' = ?C" using assms(3) by (auto simp: consoleintr_def procdump_def emit_def bind_eq_Some_conv)
    then show ?thesis using assms(1) dump by (simp add: line_edit_def)
  next
    case kill
    obtain C out where k: "kill_line ?C [] = (C, out)" by fastforce
    then have "console s' = C" using assms(3) kill by (auto simp: consoleintr_def emit_def Let_def)
    then show ?thesis using kill_line_ok [OF assms(1) k] kill by (simp add: line_edit_def)
  next
    case erase
    then have s': "console s' = (if c_e ?C \<noteq> c_w ?C then ?C\<lparr>c_e := c_e ?C - 1\<rparr> else ?C)"
      using assms(3) by (auto simp: consoleintr_def emit_def Let_def)
    show ?thesis
      using erase assms(1) erase_ok [OF assms(1)] typed_Nil_iff [OF assms(1)] unfolding s'
      by (cases "c_e ?C = c_w ?C") (auto simp: line_edit_def)
  next
    case skip
    then have "console s' = ?C"
      using assms(3) by (auto simp: consoleintr_def Let_def word_less_nat_alt length_cons_bytes INPUT_BUF_SIZE_def)
    then show ?thesis using assms(1) skip rt by (auto simp: line_edit_def)
  next
    case put
    define b where "b = (if c = 13 then 10 else ucast c :: byte)"
    define d where "d = (if c = 13 then 10 else c)"
    have bd: "ucast d = b" "d = 10 \<longleftrightarrow> b = 10" "d = 4 \<longleftrightarrow> c = 4" using ucast_10 [OF assms(2)] by (auto simp: b_def d_def)
    note A = append_ok [OF assms(1) put(3), of b]
    have full: "c_e ?C + 1 - c_r ?C = INPUT_BUF_SIZE \<longleftrightarrow> Suc (length (cons_bytes ?C)) = 128"
      using A(5) unfolding length_cons_bytes by (auto simp: cons_put_def word_unat_eq_iff INPUT_BUF_SIZE_def)
    define stop where "stop \<longleftrightarrow> b = 10 \<or> c = 4 \<or> Suc (length (cons_bytes ?C)) = 128"
    let ?t = "emit (consputc d) s"
    have s': "s' = (if stop then wakeup (?t\<lparr>console := (cons_put b ?C)\<lparr>c_w := c_e ?C + 1\<rparr>\<rparr>) Cons_read
        else ?t\<lparr>console := cons_put b ?C\<rparr>)"
      using assms(3) put full bd
      by (auto simp: consoleintr_def Let_def word_less_nat_alt length_cons_bytes INPUT_BUF_SIZE_def cons_put_def stop_def
          d_def [symmetric])
    have ed: "line_edit c (cons_lines ?C) = (if stop then \<lparr>ready = ready (cons_lines ?C) @ typed (cons_lines ?C) @ [b], typed = []\<rparr>
        else (cons_lines ?C)\<lparr>typed := typed (cons_lines ?C) @ [b]\<rparr>)"
      using put len by (simp add: line_edit_def Let_def b_def [symmetric] stop_def)
    show ?thesis
    proof (cases stop)
      case True
      then show ?thesis using A(3,4) by (auto simp: s' ed wakeup_procs emit_def)
    next
      case False
      then have "b \<noteq> 10" by (simp add: stop_def)
      with False show ?thesis using A(1,2) by (simp add: s' ed)
    qed
  qed
qed

theorem consoleintr_refines_witness:
  "\<exists>s'. consoleintr idle_demo 97 = Some s' \<and> typed (cons_lines (console s')) = [97]"
proof -
  have ok: "cons_ok (console idle_demo)" "cons_lines (console idle_demo) = \<lparr>ready = [], typed = []\<rparr>"
    by (simp_all add: cons_ok_def cons_lines_def cons_bytes_def ring_bytes_def empty_cons_def)
  obtain s' where s': "consoleintr idle_demo 97 = Some s'" by (simp add: consoleintr_def Let_def empty_cons_def INPUT_BUF_SIZE_def)
  from consoleintr_refines [OF ok(1) _ s'] ok(2) s' show ?thesis by (simp add: line_edit_def)
qed

end
