(* ===== verification/Path.thy ===== *)
theory Path
  imports Vfs
begin

text \<open>
  Path names: iterating \<open>skipelem\<close> of \<^verbatim>\<open>kernel/vfs.c\<close> splits a path at its slashes.
\<close>

subsection \<open>Splitting a string\<close>

definition slash_char :: byte where
  "slash_char = 0x2F"

fun split_path :: "cstring \<Rightarrow> cstring list" where
  "split_path [] = [[]]"
| "split_path (c # p) = (if c = slash_char then [] # split_path p
     else (case split_path p of [] \<Rightarrow> [[c]] | w # ws \<Rightarrow> (c # w) # ws))"

definition elements :: "cstring \<Rightarrow> cstring list" where
  "elements p = filter (\<lambda>w. w \<noteq> []) (split_path p)"

lemma elements_slash [simp]: "elements (slash_char # p) = elements p" "elements [] = []"
  by (simp_all add: elements_def)

lemma elements_dropWhile: "elements (dropWhile (\<lambda>c. c = slash_char) p) = elements p"
  by (induction p) simp_all

lemma split_path_word:
  "slash_char \<notin> set w \<Longrightarrow> p = [] \<or> hd p = slash_char \<Longrightarrow> split_path (w @ p) = w # tl (split_path p)"
proof (induction w)
  case Nil
  then show ?case by (cases p) auto
qed auto

lemma elements_word:
  assumes "slash_char \<notin> set w" "w \<noteq> []" "p = [] \<or> hd p = slash_char"
  shows "elements (w @ p) = w # elements p"
proof -
  obtain ws where "split_path p = [] # ws" using assms(3) by (cases p) auto
  then show ?thesis using assms(2) split_path_word [OF assms(1,3)] by (simp add: elements_def)
qed

subsection \<open>The scanning loops\<close>

lemma cs_drop: "cs p (k + i) = cs (drop k p) i"
  by (auto simp: cs_def)

lemma skip_slashes_cs: "skip_slashes (cs p) k = Some (k + length (takeWhile (\<lambda>c. c = slash_char) (drop k p)))"
proof (induction "length p - k" arbitrary: k)
  case 0
  then show ?case by (subst skip_slashes.simps) (simp add: cs_def)
next
  case (Suc n)
  then have k: "k < length p" by simp
  have d: "drop k p = p ! k # drop (Suc k) p" using k by (simp add: Cons_nth_drop_Suc)
  have IH: "skip_slashes (cs p) (Suc k) = Some (Suc k + length (takeWhile (\<lambda>c. c = slash_char) (drop (Suc k) p)))"
    by (rule Suc.hyps) (use Suc.hyps(2) in simp)
  show ?case by (subst skip_slashes.simps) (use k IH in \<open>simp add: d slash_char_def\<close>)
qed

lemma skip_name_cs:
  assumes "wf_cstring p"
  shows "skip_name (cs p) k = Some (k + length (takeWhile (\<lambda>c. c \<noteq> slash_char) (drop k p)))"
proof (induction "length p - k" arbitrary: k)
  case 0
  then show ?case by (subst skip_name.simps) (simp add: cs_def)
next
  case (Suc n)
  then have k: "k < length p" by simp
  have d: "drop k p = p ! k # drop (Suc k) p" using k by (simp add: Cons_nth_drop_Suc)
  have nz: "p ! k \<noteq> 0" using assms k by (simp add: wf_cstring_nth)
  have IH: "skip_name (cs p) (Suc k) = Some (Suc k + length (takeWhile (\<lambda>c. c \<noteq> slash_char) (drop (Suc k) p)))"
    by (rule Suc.hyps) (use Suc.hyps(2) in simp)
  show ?case by (subst skip_name.simps) (use k IH nz in \<open>simp add: d slash_char_def\<close>)
qed

subsection \<open>One element\<close>

text \<open>A name array that holds the string \<open>w\<close>.\<close>

definition holds_name :: "buffer \<Rightarrow> cstring \<Rightarrow> bool" where
  "holds_name nm w \<longleftrightarrow> (\<forall>i<length w. nm i = w ! i) \<and> nm (length w) = 0"

lemma skipelem_cs:
  assumes "wf_cstring p"
  shows "\<exists>r. skipelem (cs p) k name = Some r \<and>
    (case r of None \<Rightarrow> elements (drop k p) = []
     | Some (k', nm) \<Rightarrow> k < k' \<and> (\<exists>w. elements (drop k p) = w # elements (drop k' p) \<and> holds_name nm (take (VDIRSIZ - 1) w)))"
proof -
  define q where "q = dropWhile (\<lambda>c. c = slash_char) (drop k p)"
  define a where "a = k + length (takeWhile (\<lambda>c. c = slash_char) (drop k p))"
  have q: "q = drop a p" by (simp add: q_def a_def dropWhile_eq_drop add.commute)
  have el: "elements (drop k p) = elements q" by (simp add: q_def elements_dropWhile)
  have first: "skip_slashes (cs p) k = Some a" by (simp add: skip_slashes_cs a_def)
  have at: "cs p a = cs q 0" using cs_drop [of p a 0] by (simp add: q)
  show ?thesis
  proof (cases "q = []")
    case True
    then have "cs p a = 0" unfolding at by (simp add: cs_def)
    then show ?thesis using first True el by (intro exI [of _ None]) (simp add: skipelem_def)
  next
    case False
    define w where "w = takeWhile (\<lambda>c. c \<noteq> slash_char) q"
    define rest where "rest = dropWhile (\<lambda>c. c \<noteq> slash_char) q"
    have hd: "hd q \<noteq> slash_char" using False hd_dropWhile [of "\<lambda>c. c = slash_char" "drop k p"] by (simp add: q_def)
    have "w \<noteq> []" using False hd by (cases q) (simp_all add: w_def)
    moreover have "slash_char \<notin> set w" by (auto simp: w_def dest: set_takeWhileD)
    moreover have "q = w @ rest" by (simp add: w_def rest_def)
    moreover have "rest = [] \<or> hd rest = slash_char" using hd_dropWhile [of "\<lambda>c. c \<noteq> slash_char" q] by (auto simp: rest_def)
    ultimately have w: "w \<noteq> []" "slash_char \<notin> set w" "q = w @ rest" "rest = [] \<or> hd rest = slash_char" by blast+
    have len: "length q \<le> length p - a" by (simp add: q)
    have nz: "cs p a \<noteq> 0"
      using wf_cstring_nth [OF assms, of a] False unfolding at by (simp add: q cs_def)
    define e where "e = a + length w"
    define e' where "e' = e + length (takeWhile (\<lambda>c. c = slash_char) (drop e p))"
    have "drop e p = drop (length w) q" by (simp add: e_def q add.commute)
    then have rest: "drop e p = rest" using w(3) by simp
    have nm: "skip_name (cs p) a = Some e" by (simp add: skip_name_cs [OF assms] e_def w_def q)
    have sl: "skip_slashes (cs p) e = Some e'" by (simp add: skip_slashes_cs e'_def)
    define l where "l = min (length w) (VDIRSIZ - 1)"
    define nm' where "nm' = (copy_into name 0 (cs p) a l)(l := 0)"
    have sk: "skipelem (cs p) k name = Some (Some (e', nm'))"
      using first nz nm sl by (simp add: skipelem_def Let_def nm'_def l_def e_def)
    have "cs p (a + i) = w ! i" if "i < length w" for i
      using that w(3) by (simp add: cs_drop q [symmetric] nth_append)
    then have "holds_name nm' (take (VDIRSIZ - 1) w)"
      by (auto simp: holds_name_def nm'_def l_def min.commute)
    moreover have "elements (drop k p) = w # elements (drop e' p)"
    proof -
      have "drop e' p = dropWhile (\<lambda>c. c = slash_char) (drop e p)"
        by (simp add: e'_def dropWhile_eq_drop add.commute)
      then have "elements (drop e' p) = elements rest" by (simp add: rest elements_dropWhile)
      then show ?thesis using el w elements_word by simp
    qed
    moreover have "k < e'" using w(1) by (simp add: e'_def e_def a_def)
    ultimately show ?thesis using sk by (intro exI [of _ "Some (e', nm')"]) auto
  qed
qed

subsection \<open>A whole path\<close>

text \<open>The sequence of names that the loop of path resolution sees: \<open>while((rest = skipelem(rest, name)) != 0)\<close>.\<close>

partial_function (option) path_names :: "buffer \<Rightarrow> nat \<Rightarrow> buffer \<Rightarrow> buffer list option" where
  "path_names pth k name = do {
     e \<leftarrow> skipelem pth k name;
     (case e of
        None \<Rightarrow> Some []
      | Some (k, name) \<Rightarrow> do {
          names \<leftarrow> path_names pth k name;
          Some (name # names)
        })
   }"

text \<open>C30: Iterating \<open>skipelem\<close> over a path ends and yields its non-empty components between slashes, in order, each cut to
  255 characters and NUL-terminated in the name array.\<close>

theorem skipelem_splits:
  assumes "wf_cstring p"
  shows "\<exists>names. path_names (cs p) k name = Some names
    \<and> list_all2 holds_name names (map (take (VDIRSIZ - 1)) (elements (drop k p)))"
proof (induction "length p - k" arbitrary: k name rule: less_induct)
  case less
  obtain r where r: "skipelem (cs p) k name = Some r"
    "case r of None \<Rightarrow> elements (drop k p) = []
     | Some (k', nm) \<Rightarrow> k < k' \<and> (\<exists>w. elements (drop k p) = w # elements (drop k' p) \<and> holds_name nm (take (VDIRSIZ - 1) w))"
    using skipelem_cs [OF assms, of k name] by blast
  show ?case
  proof (cases r)
    case None
    then show ?thesis using r by (subst path_names.simps) simp
  next
    case (Some x)
    obtain k' nm where x: "x = (k', nm)" by fastforce
    obtain w where w: "elements (drop k p) = w # elements (drop k' p)" "holds_name nm (take (VDIRSIZ - 1) w)" "k < k'"
      using r(2) Some x by auto
    have "length p - k' < length p - k" using w(1,3) by (cases "k < length p") auto
    from less.hyps [OF this] obtain names where
      "path_names (cs p) k' nm = Some names" "list_all2 holds_name names (map (take (VDIRSIZ - 1)) (elements (drop k' p)))" by blast
    then show ?thesis using r(1) Some x w by (subst path_names.simps) simp
  qed
qed

theorem skipelem_splits_witness:
  "\<exists>names. path_names (cs [0x2F, 0x61, 0x2F, 0x2F, 0x62, 0x63]) 0 (\<lambda>_. 0) = Some names
     \<and> list_all2 holds_name names [[0x61], [0x62, 0x63]]"
  using skipelem_splits [of "[0x2F, 0x61, 0x2F, 0x2F, 0x62, 0x63]" 0 "\<lambda>_. 0"]
  by (simp add: wf_cstring_def elements_def slash_char_def VDIRSIZ_def)

end
