(* ===== verification/Sched.thy ===== *)
theory Sched
  imports Kview
begin

text \<open>
  The process table: kernel stacks, process ids, killing, and the scheduler.
\<close>

subsection \<open>What page-table operations cannot change\<close>

lemma uvmunmap_loop_frame: "uvmunmap_loop s pt a e fr = Some s' \<Longrightarrow> mem_only s s'"
proof (erule uvmunmap_loop.raw_induct [where P = "\<lambda>s _ _ _ _ s'. mem_only s s'", rotated], goal_cases)
  case (1 f s pt a e fr s')
  show ?case
  proof (cases "a < e")
    case True
    then obtain pte t where w: "walk s pt a False = Some (pte, t)" using 1(2) by (auto simp: bind_eq_Some_conv)
    note st = walk_frame [OF w]
    have rest: "mem_only s s'" if "mem_only t u" "f u p x y z = Some s'" for u p x y z
      using st that(1) 1(1) [OF that(2)] by (meson mem_only_trans)
    have fr: "mem_only t (u\<lparr>mw := m\<rparr>)" if "(if fr then kfree t q else Some t) = Some u" for u q m
      using that kfree_frame by (auto split: if_splits intro: mem_only_trans [OF _ mem_only_mw])
    show ?thesis
      using 1(2) True w rest [OF mem_only_refl] rest [OF fr]
      by (auto simp: bind_eq_Some_conv split: if_splits)
  qed (use 1(2) in simp)
qed

lemma uvmunmap_frame: "uvmunmap s pt va n fr = Some s' \<Longrightarrow> mem_only s s'"
  by (auto simp: uvmunmap_def ensure_def split: if_splits dest: uvmunmap_loop_frame)

lemma freewalk_loop_frame: "freewalk_loop s pt i = Some s' \<Longrightarrow> mem_only s s'"
proof (erule freewalk_loop.raw_induct [where P = "\<lambda>s _ _ s'. mem_only s s'", rotated], goal_cases)
  case (1 f s pt i s')
  note IH = 1(1) and eq = 1(2)
  let ?a = "pt + 8 * of_nat i"
  consider "512 \<le> i" | "i < 512" "mw s ?a AND PTE_V (arch s) = 0"
    | "i < 512" "mw s ?a AND PTE_V (arch s) \<noteq> 0" by linarith
  then show ?case
  proof cases
    case 1
    then show ?thesis using eq kfree_frame by simp
  next
    case 2
    then show ?thesis using IH eq by simp
  next
    case 3
    then obtain t where t: "f s (PTE2PA (arch s) (mw s ?a)) 0 = Some t" "f (t\<lparr>mw := (mw t)(?a := 0)\<rparr>) pt (Suc i) = Some s'"
      using eq by (auto simp: Let_def ensure_def bind_eq_Some_conv split: if_splits)
    show ?thesis by (rule mem_only_trans [OF IH [OF t(1)] mem_only_trans [OF mem_only_mw IH [OF t(2)]]])
  qed
qed

lemma uvmfree_frame: "uvmfree s pt sz = Some s' \<Longrightarrow> mem_only s s'"
  by (auto simp: uvmfree_def freewalk_def bind_eq_Some_conv split: if_splits
      dest!: uvmunmap_frame freewalk_loop_frame intro: mem_only_trans)

lemma hal_vm_map_trampoline_frame: "hal_vm_map_trampoline s pt tp tf = Some (r, s') \<Longrightarrow> mem_only s s'"
  by (auto simp: hal_vm_map_trampoline_def Let_def bind_eq_Some_conv split: if_splits
      dest!: mappages_frame uvmunmap_frame intro: mem_only_trans)

lemma proc_freepagetable_frame: "proc_freepagetable s pt sz = Some s' \<Longrightarrow> mem_only s s'"
  by (auto simp: proc_freepagetable_def hal_vm_unmap_trampoline_def bind_eq_Some_conv split: if_splits
      dest!: uvmfree_frame uvmunmap_frame intro: mem_only_trans)

lemma uvmcreate_frame: "uvmcreate s = (pt, s') \<Longrightarrow> mem_only s s'"
  using mem_only_trans [OF mem_only_kalloc mem_only_memset]
  by (auto simp: uvmcreate_def Let_def split: prod.splits if_splits dest: kalloc_frame intro: mem_only_trans mem_only_memset)

lemma proc_pagetable_frame:
  assumes "proc_pagetable s p = Some (pt, s')"
  shows "mem_only s s'"
proof -
  obtain q t where c: "uvmcreate s = (q, t)" by fastforce
  note st = uvmcreate_frame [OF c]
  have "mem_only s u" if "hal_vm_map_trampoline t q x y = Some (r, u)" for x y r u
    using st hal_vm_map_trampoline_frame [OF that] by (rule mem_only_trans)
  note u = this
  have "mem_only s v" if "hal_vm_map_trampoline t q x y = Some (r, u)" "uvmfree u q' sz = Some v" for x y r u q' sz v
    using u [OF that(1)] uvmfree_frame [OF that(2)] by (rule mem_only_trans)
  with u show ?thesis
    using assms c st by (auto simp: proc_pagetable_def bind_eq_Some_conv split: if_splits)
qed

text \<open>What \<open>freeproc\<close> leaves: the entry is unused, the others are as they were.\<close>

lemma freeproc_procs:
  assumes "freeproc s p = Some s'"
  shows "pr_state (pr s' p) = UNUSED" "\<And>q. q \<noteq> p \<Longrightarrow> pr s' q = pr s q" "nextpid s' = nextpid s" "cur s' = cur s"
    "pr_killed (pr s' p) = False" "pr_pid (pr s' p) = 0" "initproc s' = initproc s"
proof -
  from assms obtain t u where t: "(if pr_trapframe (pr s p) \<noteq> 0 then kfree s (pr_trapframe (pr s p)) else Some s) = Some t"
      "(if pr_pagetable (pr (upd_proc p (pr_trapframe_update (\<lambda>_. 0)) t) p) \<noteq> 0
        then proc_freepagetable (upd_proc p (pr_trapframe_update (\<lambda>_. 0)) t)
          (pr_pagetable (pr (upd_proc p (pr_trapframe_update (\<lambda>_. 0)) t) p)) (pr_sz (pr (upd_proc p (pr_trapframe_update (\<lambda>_. 0)) t) p))
        else Some (upd_proc p (pr_trapframe_update (\<lambda>_. 0)) t)) = Some u"
      "s' = upd_proc p (\<lambda>x. x\<lparr>pr_pagetable := 0, pr_sz := 0, pr_pid := 0, pr_parent := None, pr_name := (pr_name x)(0 := 0),
             pr_chan := None, pr_killed := False, pr_xstate := 0, pr_state := UNUSED\<rparr>) u"
    by (auto simp: freeproc_def Let_def bind_eq_Some_conv)
  have "mem_only s t" "mem_only (upd_proc p (pr_trapframe_update (\<lambda>_. 0)) t) u"
    using t(1,2) kfree_frame proc_freepagetable_frame by (auto split: if_splits)
  note m = this [THEN mem_only_k(1)] this [THEN mem_only_k(4)] this [THEN mem_only_k(2)] this [THEN mem_only_k(3)]
  show "pr_state (pr s' p) = UNUSED" "nextpid s' = nextpid s" "cur s' = cur s" "pr_killed (pr s' p) = False"
    "pr_pid (pr s' p) = 0" "initproc s' = initproc s"
    by (simp_all add: t(3) m)
  show "\<And>q. q \<noteq> p \<Longrightarrow> pr s' q = pr s q" by (simp add: t(3) m)
qed

subsection \<open>Allocation\<close>

text \<open>Both outcomes of \<open>allocproc\<close>.\<close>

lemma allocproc_cases:
  assumes "allocproc s = Some (r, s')"
  obtains (full) "r = None" "s' = s" "\<And>p. p < NPROC \<Longrightarrow> pr_state (pr s p) \<noteq> UNUSED"
  | (nomem) p where "r = None" "p < NPROC" "pr_state (pr s p) = UNUSED" "pr_state (pr s' p) = UNUSED"
      "\<And>q. q \<noteq> p \<Longrightarrow> pr s' q = pr s q" "nextpid s' = nextpid s + 1"
  | (ok) p where "r = Some p" "p < NPROC" "pr_state (pr s p) = UNUSED" "\<And>q. q < p \<Longrightarrow> pr_state (pr s q) \<noteq> UNUSED"
      "pr_state (pr s' p) = USED" "pr_pid (pr s' p) = nextpid s" "pr_killed (pr s' p) = pr_killed (pr s p)"
      "\<And>q. q \<noteq> p \<Longrightarrow> pr s' q = pr s q" "nextpid s' = nextpid s + 1"
proof (cases "scan (\<lambda>p. pr_state (pr s p) = UNUSED) 0 NPROC")
  case None
  then show thesis using assms scan_NoneD [OF None] by (intro full) (auto simp: allocproc_def)
next
  case (Some p)
  note sc = scan_SomeD [OF Some]
  let ?s1 = "upd_proc p (\<lambda>x. x\<lparr>pr_pid := nextpid s, pr_state := USED\<rparr>) (s\<lparr>nextpid := nextpid s + 1\<rparr>)"
  obtain tf t where k: "kalloc ?s1 = (tf, t)" by fastforce
  note mk = mem_only_k [OF kalloc_frame [OF k]]
  let ?s2 = "upd_proc p (pr_trapframe_update (\<lambda>_. tf)) t"
  have s2: "pr_state (pr ?s2 p) = USED" "pr_pid (pr ?s2 p) = nextpid s" "\<And>q. q \<noteq> p \<Longrightarrow> pr ?s2 q = pr s q"
    "nextpid ?s2 = nextpid s + 1" "pr_killed (pr ?s2 p) = pr_killed (pr s p)" by (simp_all add: mk)
  have fail: thesis if "r = None" "freeproc u p = Some s'" "\<And>q. q \<noteq> p \<Longrightarrow> pr u q = pr s q" "nextpid u = nextpid s + 1" for u
    using that sc freeproc_procs [OF that(2)] by (intro nomem [of p]) auto
  have eq: "allocproc s = (if tf = 0 then do { s \<leftarrow> freeproc ?s2 p; Some (None, s) }
      else do {
        (pt, u) \<leftarrow> proc_pagetable ?s2 p;
        let u = upd_proc p (pr_pagetable_update (\<lambda>_. pt)) u;
        if pt = 0 then do { s \<leftarrow> freeproc u p; Some (None, s) }
        else Some (Some p, upd_proc p (\<lambda>x. x\<lparr>pr_ctx_ra := sym_forkret u, pr_ctx_sp := pr_kstack x + 2 * PGSIZE\<rparr>) u) })"
    by (simp add: allocproc_def Some allocpid_def k Let_def)
  show thesis
  proof (cases "tf = 0")
    case True
    then obtain v where "freeproc ?s2 p = Some v" "r = None" "s' = v"
      using assms eq by (cases "freeproc ?s2 p") auto
    then show thesis using s2 by (intro fail [of ?s2]) blast+
  next
    case False
    then have e: "do { (pt, u) \<leftarrow> proc_pagetable ?s2 p;
        let u = upd_proc p (pr_pagetable_update (\<lambda>_. pt)) u;
        if pt = 0 then do { s \<leftarrow> freeproc u p; Some (None, s) }
        else Some (Some p, upd_proc p (\<lambda>x. x\<lparr>pr_ctx_ra := sym_forkret u, pr_ctx_sp := pr_kstack x + 2 * PGSIZE\<rparr>) u) } = Some (r, s')"
      using assms unfolding eq by (simp only: if_False)
    then obtain pt u where c: "proc_pagetable ?s2 p = Some (pt, u)" by (cases "proc_pagetable ?s2 p") auto
    note mu = mem_only_k [OF proc_pagetable_frame [OF c]]
    let ?s3 = "upd_proc p (pr_pagetable_update (\<lambda>_. pt)) u"
    have s3: "pr_state (pr ?s3 p) = USED" "pr_pid (pr ?s3 p) = nextpid s" "\<And>q. q \<noteq> p \<Longrightarrow> pr ?s3 q = pr s q"
      "nextpid ?s3 = nextpid s + 1" "pr_killed (pr ?s3 p) = pr_killed (pr s p)" using s2 by (simp_all add: mu)
    show thesis
    proof (cases "pt = 0")
      case True
      then obtain v where "freeproc ?s3 p = Some v" "r = None" "s' = v"
        using e unfolding c by (auto simp: Let_def bind_eq_Some_conv)
      then show thesis using s3 by (intro fail [of ?s3]) blast+
    next
      case pt: False
      then have "r = Some p" "s' = upd_proc p (\<lambda>x. x\<lparr>pr_ctx_ra := sym_forkret ?s3, pr_ctx_sp := pr_kstack x + 2 * PGSIZE\<rparr>) ?s3"
        using e unfolding c by (auto simp: Let_def)
      then show thesis using s3 sc by (intro ok [of p]) auto
    qed
  qed
qed

text \<open>The process ids in use are positive, below the next one to be given out, and pairwise different.\<close>

definition pids_ok :: "'a kstate_scheme \<Rightarrow> bool" where
  "pids_ok s \<longleftrightarrow> 0 < nextpid s
     \<and> (\<forall>p<NPROC. pr_state (pr s p) \<noteq> UNUSED \<longrightarrow> 0 < pr_pid (pr s p) \<and> pr_pid (pr s p) < nextpid s)
     \<and> (\<forall>p<NPROC. \<forall>q<NPROC. p \<noteq> q \<longrightarrow> pr_state (pr s p) \<noteq> UNUSED \<longrightarrow> pr_state (pr s q) \<noteq> UNUSED \<longrightarrow>
          pr_pid (pr s p) \<noteq> pr_pid (pr s q))"

lemma pids_ok_weaken:
  assumes "pids_ok s" "nextpid s \<le> nextpid s'" "\<And>q. pr s' q = pr s q \<or> pr_state (pr s' q) = UNUSED"
  shows "pids_ok s'"
proof -
  have "pr_state (pr s' q) \<noteq> UNUSED \<Longrightarrow> pr s' q = pr s q" for q using assms(3) by blast
  with assms(1,2) show ?thesis by (force simp: pids_ok_def)
qed


lemma NPROC_pos [simp]: "0 < NPROC" "Suc 0 < NPROC"
  by (simp_all add: NPROC_def)

lemma idle_demo_scan: "scan (\<lambda>p. pr_state (pr idle_demo p) = UNUSED) 0 NPROC = Some 1"
  by (rule scan_SomeI) (auto simp: no_proc_def)

text \<open>On LoongArch a process needs no mapping of the trampoline: two free pages are enough.\<close>

definition la_demo :: kstate where
  "la_demo = idle_demo\<lparr>arch := loongarch_arch\<rparr>"

lemma la_demo_fields [simp]:
  "freelist la_demo = 0x6000" "mw la_demo 0x6000 = 0x7000" "arch la_demo = loongarch_arch" "nextpid la_demo = 2"
  "procs la_demo = (\<lambda>p. if p = 0 then no_proc\<lparr>pr_state := RUNNING, pr_pid := 1\<rparr> else no_proc)"
  by (simp_all add: la_demo_def) (simp_all add: idle_demo_def user_demo_def)

lemma upd_proc_mem [simp]: "freelist (upd_proc p f s) = freelist s" "mw (upd_proc p f s) = mw s"
  by (simp_all add: upd_proc_def)

text \<open>Two free pages in the list are enough for \<open>allocproc\<close> there.\<close>

lemma la_alloc:
  assumes "scan (\<lambda>p. pr_state (pr s p) = UNUSED) 0 NPROC = Some p" "freelist s \<noteq> 0" "mw s (freelist s) \<noteq> 0" "arch s = loongarch_arch"
  shows "\<exists>s'. allocproc s = Some (Some p, s')"
  using assms by (simp add: allocproc_def allocpid_def kalloc_def Let_def proc_pagetable_def uvmcreate_def
      hal_vm_map_trampoline_def upd_proc_def page_memset_def)

lemma la_demo_alloc: "\<exists>s'. allocproc la_demo = Some (Some 1, s')"
  by (rule la_alloc) (use idle_demo_scan in simp_all)


subsection \<open>Killing\<close>



text \<open>C33: Entries that are not in use have process id 0 and are not skipped by \<open>kill\<close>: \<open>kill(0)\<close> succeeds, marks the first
  unused entry killed, and the next process that is created in this entry starts its life killed.\<close>

theorem kill_zero_kills_next_process:
  assumes "p < NPROC" "pr_state (pr s p) = UNUSED" "pr_pid (pr s p) = 0"
    and "\<forall>q<p. pr_state (pr s q) \<noteq> UNUSED \<and> pr_pid (pr s q) \<noteq> 0"
    and "allocproc (snd (kkill s 0)) = Some (Some r, s')"
  shows "fst (kkill s 0) = 0 \<and> r = p \<and> killed s' r"
proof -
  have "scan (\<lambda>p. pr_pid (pr s p) = 0) 0 NPROC = Some p" by (rule scan_SomeI) (use assms(1,3,4) in auto)
  then have k: "kkill s 0 = (0, upd_proc p (\<lambda>x. x\<lparr>pr_killed := True,
      pr_state := (if pr_state x = SLEEPING then RUNNABLE else pr_state x)\<rparr>) s)" by (simp add: kkill_def)
  from assms(5) show ?thesis
  proof (cases rule: allocproc_cases)
    case (ok q)
    have "q = p"
    proof (rule ccontr)
      assume "q \<noteq> p"
      then consider "q < p" | "p < q" by linarith
      then show False
      proof cases
        case 1
        then show False using ok(3) assms(4) unfolding k by (auto simp: upd_apply split: if_splits)
      next
        case 2
        then show False using ok(4) [OF 2] assms(2) unfolding k by simp
      qed
    qed
    then show ?thesis using ok(1,7) by (simp add: k killed_def)
  qed auto
qed

theorem kill_zero_kills_next_process_witness:
  "\<exists>s'. allocproc (snd (kkill la_demo 0)) = Some (Some 1, s') \<and> killed s' 1"
proof -
  have sc: "scan (\<lambda>p. pr_pid (pr la_demo p) = 0) 0 NPROC = Some 1"
    by (rule scan_SomeI) (auto simp: no_proc_def)
  have k: "kkill la_demo 0 = (0, upd_proc 1 (\<lambda>x. x\<lparr>pr_killed := True,
      pr_state := (if pr_state x = SLEEPING then RUNNABLE else pr_state x)\<rparr>) la_demo)"
    unfolding kkill_def sc by simp
  let ?t = "snd (kkill la_demo 0)"
  have "\<exists>s'. allocproc ?t = Some (Some 1, s')"
  proof (rule la_alloc)
    show "scan (\<lambda>p. pr_state (pr ?t p) = UNUSED) 0 NPROC = Some 1"
      by (rule scan_SomeI) (auto simp: k no_proc_def upd_apply)
  qed (simp_all add: k)
  then obtain s' where s': "allocproc ?t = Some (Some 1, s')" by blast
  have "\<forall>q<1. pr_state (pr la_demo q) \<noteq> UNUSED \<and> pr_pid (pr la_demo q) \<noteq> 0" by simp
  from kill_zero_kills_next_process [OF _ _ _ this s'] s' show ?thesis by (simp add: no_proc_def)
qed

subsection \<open>The scheduler\<close>

text \<open>
  The \<open>for\<close> loop of \<open>scheduler\<close> over \<open>k\<close> entries from \<open>p\<close> on: the processes it switches to, and the state after it.  What a
  process does until it switches back is the parameter \<open>run\<close>.
\<close>

fun scheduler_loop :: "(nat \<Rightarrow> 'a kstate_scheme \<Rightarrow> 'a kstate_scheme) \<Rightarrow> 'a kstate_scheme \<Rightarrow> nat \<Rightarrow> nat \<Rightarrow> nat list \<times> 'a kstate_scheme" where
  "scheduler_loop run s p 0 = ([], s)"
| "scheduler_loop run s p (Suc k) =
     (case sched_visit s p of
        (True, s) \<Rightarrow> (case scheduler_loop run (run p s) (Suc p) k of (ps, s) \<Rightarrow> (p # ps, s))
      | (False, s) \<Rightarrow> scheduler_loop run s (Suc p) k)"

lemma sched_visit_other:
  "q \<noteq> p \<Longrightarrow> pr_state (pr (snd (sched_visit s p)) q) = pr_state (pr s q)"
  by (simp add: sched_visit_def load_cur_def save_cur_def upd_apply)

lemma scheduler_loop_runs:
  assumes "\<And>p s. p \<noteq> q \<Longrightarrow> pr_state (pr s q) = RUNNABLE \<Longrightarrow> pr_state (pr (run p s) q) = RUNNABLE"
    and "pr_state (pr s q) = RUNNABLE" "p \<le> q" "q < p + k"
  shows "q \<in> set (fst (scheduler_loop run s p k))"
  using assms(2-4)
proof (induction k arbitrary: s p)
  case (Suc k)
  show ?case
  proof (cases "p = q")
    case True
    then show ?thesis using Suc.prems(1) by (auto simp: sched_visit_def split: prod.splits)
  next
    case False
    obtain b t where v: "sched_visit s p = (b, t)" by fastforce
    have t: "pr_state (pr t q) = RUNNABLE" using sched_visit_other [of q p s] False Suc.prems(1) v by simp
    note r = assms(1) [OF False t]
    show ?thesis
      using Suc.IH [OF t, of "Suc p"] Suc.IH [OF r, of "Suc p"] False Suc.prems(2,3)
      by (cases b) (auto simp: v split: prod.splits)
  qed
qed simp



subsection \<open>Kernel stacks\<close>

text \<open>The guard page below the stack of process \<open>p\<close> and its two pages.\<close>

definition kstack_slot :: "hal_arch \<Rightarrow> nat \<Rightarrow> u64 set" where
  "kstack_slot A p = {x. unat (KSTACK A (of_nat p)) - 4096 \<le> unat x \<and> unat x < unat (KSTACK A (of_nat p)) + 8192}"

lemma unat_KSTACK:
  assumes "p < 64"
  shows "unat (KSTACK riscv_arch (of_nat p)) = 0x3FFFFFF000 - (p + 1) * 12288"
    "unat (KSTACK loongarch_arch (of_nat p)) = 0xFFFFFFFFFFFFF000 - (p * 3 + 2) * 4096"
proof -
  have p: "unat (of_nat p :: u64) = p" using assms by (simp add: unat_of_nat)
  have a: "unat ((of_nat p + 1) * 3 * PGSIZE :: u64) = (p + 1) * 12288" "unat ((of_nat p * 3 + 2) * PGSIZE :: u64) = (p * 3 + 2) * 4096"
    using assms by (simp_all add: unat_word_ariths p PGSIZE_def)
  show "unat (KSTACK riscv_arch (of_nat p)) = 0x3FFFFFF000 - (p + 1) * 12288"
    unfolding riscv_fields riscv_KSTACK_def riscv_TRAMPOLINE_def
    by (subst unat_sub) (use a assms in \<open>simp_all add: word_le_nat_alt PGSIZE_def\<close>)
  show "unat (KSTACK loongarch_arch (of_nat p)) = 0xFFFFFFFFFFFFF000 - (p * 3 + 2) * 4096"
    unfolding loongarch_fields la_KSTACK_def la_KSTACK_TOP_def
    by (subst unat_sub) (use a assms in \<open>simp_all add: word_le_nat_alt PGSIZE_def\<close>)
qed

text \<open>C35: On both architectures the kernel stacks of the 64 processes, two pages and the guard page below them each, are
  page-aligned, pairwise disjoint and inside the window of kernel addresses that the page-table walker accepts; no
  address computation wraps round.\<close>

theorem kstacks_disjoint:
  assumes "A \<in> {riscv_arch, loongarch_arch}" "p < NPROC" "q < NPROC"
  shows "pg_aligned (KSTACK A (of_nat p)) \<and> (p \<noteq> q \<longrightarrow> kstack_slot A p \<inter> kstack_slot A q = {})
    \<and> (\<forall>x\<in>kstack_slot A p. hal_pagetable_va_valid A x)"
proof -
  have pq: "p < 64" "q < 64" using assms(2,3) by (simp_all add: NPROC_def)
  note u = unat_KSTACK [OF pq(1)] and w = unat_KSTACK [OF pq(2)]
  have bot: "unat la_KSTACK_REGION_BOTTOM = 0xFFFFFFFFFFFFF000 - 192 * 4096"
    unfolding la_KSTACK_REGION_BOTTOM_def la_KSTACK_TOP_def by (subst unat_sub) (simp_all add: PGSIZE_def word_le_nat_alt)
  consider "A = riscv_arch" | "A = loongarch_arch" using assms(1) by blast
  then show ?thesis
  proof cases
    case 1
    have "unat (KSTACK A (of_nat p)) = 4096 * (0x3FFFFFF - (p + 1) * 3)" using u(1) 1 by simp
    then have "pg_aligned (KSTACK A (of_nat p))" by (simp add: pg_aligned_unat)
    moreover have "kstack_slot A p \<inter> kstack_slot A q = {}" if "p \<noteq> q"
      using that pq unfolding kstack_slot_def 1 u(1) w(1) by auto
    moreover have "hal_pagetable_va_valid A x" if "x \<in> kstack_slot A p" for x
      using that pq unfolding kstack_slot_def 1 u(1) by (auto simp: riscv_va_valid_def word_less_nat_alt)
    ultimately show ?thesis by blast
  next
    case 2
    have "unat (KSTACK A (of_nat p)) = 4096 * (0xFFFFFFFFFFFFF - (p * 3 + 2))" using u(2) 2 by simp
    then have "pg_aligned (KSTACK A (of_nat p))" by (simp add: pg_aligned_unat)
    moreover have "kstack_slot A p \<inter> kstack_slot A q = {}" if "p \<noteq> q"
      using that pq unfolding kstack_slot_def 2 u(2) w(2) by auto
    moreover have "hal_pagetable_va_valid A x" if "x \<in> kstack_slot A p" for x
      using that pq unfolding kstack_slot_def 2 u(2)
      by (auto simp: la_va_valid_def word_less_nat_alt word_le_nat_alt bot la_KSTACK_TOP_def)
    ultimately show ?thesis by blast
  qed
qed

theorem kstacks_disjoint_witness:
  "kstack_slot riscv_arch 3 \<inter> kstack_slot riscv_arch 4 = {} \<and> pg_aligned (KSTACK loongarch_arch (of_nat 63))"
  using kstacks_disjoint [of riscv_arch 3 4] kstacks_disjoint [of loongarch_arch 63 0] by (simp add: NPROC_def)

end
