(* ===== verification/Fat_Names.thy ===== *)
theory Fat_Names
  imports Fat32
begin

text \<open>
  Long names of \<^verbatim>\<open>kernel/fat32.c\<close>: the directory entries that \<open>dwrite_lfn\<close> writes for a name are the entries from which
  the loop of \<open>dlookup\<close> collects the same name.
\<close>

text \<open>The entries of a name, in the order in which they are written.\<close>

definition lfn_entry :: "cstring \<Rightarrow> nat \<Rightarrow> buffer \<Rightarrow> nat \<Rightarrow> buffer" where
  "lfn_entry name k de ei = mk_lfn (of_nat (Suc ei) OR (if Suc ei = k then LFN_LAST else 0)) (lfn_checksum de)
     (lfn_uname (cs name) (length name) (k * LFN_CHARS_PER_ENTRY)) (ei * LFN_CHARS_PER_ENTRY)"

definition lfn_chain :: "cstring \<Rightarrow> buffer \<Rightarrow> buffer list" where
  "lfn_chain name de = (let k = lfn_entries_needed (length name) in map (lfn_entry name k de) (rev [0..<k]))"

text \<open>Writing entries one after the other; the slots up to the first short entry as \<open>dlookup\<close> collects them.\<close>

fun write_slots :: "'a vfs_scheme \<Rightarrow> nat \<Rightarrow> u32 \<Rightarrow> buffer list \<Rightarrow> buffer \<Rightarrow> (int \<times> 'a vfs_scheme) option" where
  "write_slots s dir off [] de = dwrite_raw s dir off de 32"
| "write_slots s dir off (d # ds) de = do {
     (r, s) \<leftarrow> dwrite_raw s dir off d 32;
     if r < 0 then Some (-1, s) else write_slots s dir (off + 32) ds de
   }"

fun collect_slots :: "lfn_acc \<Rightarrow> buffer list \<Rightarrow> lfn_acc option" where
  "collect_slots a [] = Some a"
| "collect_slots a (d # ds) = do {
     a \<leftarrow> lfn_collect a d;
     collect_slots a ds
   }"

subsection \<open>Fields of an entry\<close>

lemma le16_bytes:
  assumes "d k = ucast w" "d (k + 1) = ucast (drop_bit 8 w)"
  shows "le16 d k = (w :: u16)"
proof -
  have "le16 d k = le16 (put16 d k w) k" by (rule le16_cong) (use assms in \<open>simp_all add: put16_def\<close>)
  then show ?thesis by simp
qed

lemma lfn_char_mk:
  assumes "i < 13"
  shows "lfn_char (mk_lfn q c U base) i = U (base + i)"
proof -
  have *: "le16 (mk_lfn q c U base) k = U (base + j)"
    if "k = 1 + 2 * j \<and> j < 5 \<or> k = 14 + 2 * (j - 5) \<and> 5 \<le> j \<and> j < 11 \<or> k = 28 + 2 * (j - 11) \<and> 11 \<le> j \<and> j < 13" for k j
    using that by (elim disjE; intro le16_bytes) (auto simp: mk_lfn_def)
  show ?thesis using assms * [of _ i] unfolding lfn_char_def by auto
qed

lemma lfn_seq_mk:
  assumes "ei < k" "k \<le> 20"
  shows "lfn_seq (lfn_entry name k de ei) = Suc ei" "lfn_last (lfn_entry name k de ei) \<longleftrightarrow> Suc ei = k"
    "lfn_cksum_of (lfn_entry name k de ei) = lfn_checksum de" "dir_attr (lfn_entry name k de ei) = ATTR_LONG_NAME"
proof -
  have "ei \<in> set [0..<20]" using assms by simp
  then have q: "unat ((of_nat (Suc ei) OR (if b then LFN_LAST else 0) :: byte) AND NOT LFN_LAST) = Suc ei"
    "(of_nat (Suc ei) OR (if b then LFN_LAST else 0) :: byte) AND LFN_LAST \<noteq> 0 \<longleftrightarrow> b" for b
    by (auto simp: upt_rec LFN_LAST_def)
  show "lfn_seq (lfn_entry name k de ei) = Suc ei" "lfn_last (lfn_entry name k de ei) \<longleftrightarrow> Suc ei = k"
    using q [of "Suc ei = k"] by (simp_all add: lfn_seq_def lfn_last_def lfn_entry_def mk_lfn_def)
qed (simp_all add: lfn_cksum_of_def dir_attr_def lfn_entry_def mk_lfn_def)

subsection \<open>Collecting the entries\<close>

lemma lfn_store_entry:
  assumes "ei < k" "k \<le> 20"
  shows "lfn_store b (ei * LFN_CHARS_PER_ENTRY) (lfn_entry name k de ei) j =
    (if ei * 13 \<le> j \<and> j < Suc ei * 13 then lfn_uname (cs name) (length name) (k * 13) j else b j)"
proof -
  have "Suc ei * 13 \<le> 20 * 13" by (rule mult_le_mono1) (use assms in simp)
  then show ?thesis by (auto simp: lfn_store_def lfn_entry_def lfn_char_mk LFN_CHARS_PER_ENTRY_def)
qed

lemma LFN_13: "LFN_CHARS_PER_ENTRY + j * LFN_CHARS_PER_ENTRY = 13 + j * 13"
  by (simp add: LFN_CHARS_PER_ENTRY_def)

text \<open>The state of the collection when the entries \<open>k\<close>, \ldots, \<open>j + 1\<close> have been seen.\<close>

definition collected :: "cstring \<Rightarrow> nat \<Rightarrow> buffer \<Rightarrow> nat \<Rightarrow> lfn_acc \<Rightarrow> bool" where
  "collected name k de j a \<longleftrightarrow> lfn_active a \<and> lfn_cksum a = lfn_checksum de \<and> lfn_next a = int j \<and> lfn_chars a = k * 13
     \<and> (\<forall>i. j * 13 \<le> i \<and> i < k * 13 \<longrightarrow> lfn_buf a i = lfn_uname (cs name) (length name) (k * 13) i)"

lemma collect_first:
  assumes "k = Suc j" "k \<le> 20"
  obtains a' where "lfn_collect a (lfn_entry name k de j) = Some a'" "collected name k de j a'"
proof -
  have "j < k" using assms(1) by simp
  note f = lfn_seq_mk [OF this assms(2)] lfn_store_entry [OF this assms(2)]
  show ?thesis
  proof (rule that)
    show "lfn_collect a (lfn_entry name k de j) = Some (a\<lparr>lfn_active := True, lfn_cksum := lfn_checksum de, lfn_next := int j,
        lfn_chars := k * LFN_CHARS_PER_ENTRY, lfn_buf := lfn_store (lfn_buf a) (j * LFN_CHARS_PER_ENTRY) (lfn_entry name k de j)\<rparr>)"
      unfolding lfn_collect_def Let_def f(1-4) using assms(1) by simp
  qed (use assms(1) f(5) in \<open>auto simp: collected_def LFN_13\<close>)
qed

lemma collect_next:
  assumes "collected name k de (Suc j) a" "Suc j < k" "k \<le> 20"
  obtains a' where "lfn_collect a (lfn_entry name k de j) = Some a'" "collected name k de j a'"
proof -
  have "j < k" using assms(2) by simp
  note f = lfn_seq_mk [OF this assms(3)] lfn_store_entry [OF this assms(3)]
  show ?thesis
  proof (rule that)
    show "lfn_collect a (lfn_entry name k de j) =
        Some (a\<lparr>lfn_buf := lfn_store (lfn_buf a) (j * LFN_CHARS_PER_ENTRY) (lfn_entry name k de j), lfn_next := int j\<rparr>)"
      unfolding lfn_collect_def Let_def f(1-4) using assms(1,2) by (simp add: collected_def)
  qed (use assms(1) in \<open>auto simp: collected_def f(5)\<close>)
qed

lemma collect_rest:
  assumes "collected name k de j a" "j < k" "k \<le> 20"
  shows "\<exists>a'. collect_slots a (map (lfn_entry name k de) (rev [0..<j])) = Some a' \<and> collected name k de 0 a'"
  using assms
proof (induction j arbitrary: a)
  case (Suc j)
  obtain a' where "lfn_collect a (lfn_entry name k de j) = Some a'" "collected name k de j a'"
    by (rule collect_next [OF Suc.prems])
  then show ?case using Suc.IH [of a'] Suc.prems by simp
qed simp

lemma entries_needed:
  assumes "0 < n" "n \<le> 255"
  shows "0 < lfn_entries_needed n" "lfn_entries_needed n \<le> 20" "n \<le> lfn_entries_needed n * 13"
  using assms by (auto simp: lfn_entries_needed_def LFN_CHARS_PER_ENTRY_def)

lemma collect_chain:
  assumes "name \<noteq> []" "length name \<le> 255"
  shows "\<exists>a'. collect_slots a (lfn_chain name de) = Some a' \<and> collected name (lfn_entries_needed (length name)) de 0 a'"
proof -
  let ?k = "lfn_entries_needed (length name)"
  have k: "0 < ?k" "?k \<le> 20" using entries_needed [of "length name"] assms by auto
  then obtain j where j: "?k = Suc j" using gr0_implies_Suc by blast
  obtain a1 where a1: "lfn_collect a (lfn_entry name ?k de j) = Some a1" "collected name ?k de j a1"
    by (rule collect_first [OF j k(2)])
  have "j < ?k" using j by simp
  have "lfn_chain name de = lfn_entry name ?k de j # map (lfn_entry name ?k de) (rev [0..<j])"
    using j by (simp add: lfn_chain_def Let_def)
  then show ?thesis using a1 collect_rest [OF a1(2) \<open>j < ?k\<close> k(2)] by simp
qed

lemma lfn_string_name:
  assumes "wf_cstring name" "length name \<le> 255" "\<forall>c\<in>set name. c < 128" "length name \<le> tot"
    and b: "\<forall>i<tot. b i = lfn_uname (cs name) (length name) tot i"
    and "i \<le> length name"
  shows "lfn_string b i (tot - i) (take i name) = name"
  using assms(6)
proof (induction "tot - i" arbitrary: i)
  case 0
  then show ?case using assms(4) by simp
next
  case (Suc m)
  then have i: "i < tot" "tot - i = Suc (tot - Suc i)" by auto
  show ?case
  proof (cases "i = length name")
    case True
    then show ?thesis using i b by (simp add: lfn_uname_def)
  next
    case False
    then have l: "i < length name" using Suc.prems by simp
    then have c: "b i = ucast (name ! i)" using b i assms(4) by (simp add: lfn_uname_def)
    have n: "name ! i < 128" "name ! i \<noteq> 0" using assms(1,3) l by (auto simp: wf_cstring_nth)
    have "unat (name ! i) < 2 ^ 16" using n(1) by (simp add: word_less_nat_alt)
    then have u: "unat (ucast (name ! i) :: u16) = unat (name ! i)" by (simp add: unsigned_ucast_eq take_bit_nat_eq_self)
    have "b i \<noteq> 0" "b i \<noteq> 0xFFFF" "b i < 128"
      using n u unfolding c by (auto simp: word_less_nat_alt unat_eq_0 [symmetric])
    moreover have "ucast (b i) = name ! i" unfolding c by (simp add: ucast_up_ucast_id is_up)
    moreover have "take (Suc i) name = take i name @ [name ! i]" using l by (rule take_Suc_conv_app_nth)
    ultimately show ?thesis
      using Suc.hyps(1) [of "Suc i"] Suc.hyps(2) i l assms(2) by simp
  qed
qed

lemma low_case_0 [simp]: "low_case c = 0 \<longleftrightarrow> c = 0"
proof -
  have "c + 32 \<noteq> 0" if "0x41 \<le> c" "c \<le> 0x5A"
  proof -
    have "unat (c + 32) = unat c + 32" using that by (simp add: unat_word_ariths word_le_nat_alt)
    then show ?thesis by (metis add_eq_0_iff_both_eq_0 unat_0 zero_neq_numeral)
  qed
  then show ?thesis by (auto simp: low_case_def)
qed

lemma low_case_zero [simp]: "low_case 0 = 0" "0 = low_case c \<longleftrightarrow> c = 0"
  using low_case_0 [of 0] low_case_0 [of c] by auto

lemma ncasecmp_0:
  "ncasecmp a b i k = 0 \<longleftrightarrow> (\<forall>j. i \<le> j \<and> j < i + k \<and> (\<forall>l. i \<le> l \<and> l < j \<longrightarrow> a l \<noteq> 0) \<longrightarrow> low_case (a j) = low_case (b j))"
proof (induction k arbitrary: i)
  case (Suc k)
  let ?Q = "\<lambda>i k. \<forall>j. i \<le> j \<and> j < i + k \<and> (\<forall>l. i \<le> l \<and> l < j \<longrightarrow> a l \<noteq> 0) \<longrightarrow> low_case (a j) = low_case (b j)"
  have q: "?Q i (Suc k) \<longleftrightarrow> low_case (a i) = low_case (b i) \<and> (a i \<noteq> 0 \<longrightarrow> ?Q (Suc i) k)"
    by (intro iffI conjI impI allI; (elim conjE)?)
      (force, metis Suc_leD Suc_leI add_Suc_right add_Suc le_neq_implies_less,
       metis Suc_leI add_Suc_right add_Suc le_neq_implies_less Suc_leD not_less)
  show ?case unfolding q using Suc.IH [of "Suc i"] low_case_0 [of "a i"] low_case_0 [of "b i"]
    by (cases "a i = 0") (simp_all add: Let_def word_uint_eq_iff [symmetric] uint_0_iff)
qed auto

lemma ncasecmp_names:
  assumes "wf_cstring x" "wf_cstring y" "length x \<le> 255" "length y \<le> 255"
  shows "ncasecmp (cs x) (cs y) 0 256 = 0 \<longleftrightarrow> map low_case x = map low_case y"
proof
  assume "ncasecmp (cs x) (cs y) 0 256 = 0"
  then have e: "low_case (cs x j) = low_case (cs y j)" if "j \<le> length x" for j
    using that assms(1,3) by (simp add: ncasecmp_0 wf_cstring_nth)
  have "length y \<le> length x"
    using e [of "length x"] assms(2) wf_cstring_nth [of y "length x"] by (cases "length x < length y") auto
  moreover have "\<not> length y < length x" using e [of "length y"] assms(1) wf_cstring_nth [of x "length y"] by auto
  ultimately have l: "length y = length x" by simp
  then show "map low_case x = map low_case y" using e by (intro nth_equalityI) (auto, metis cs_in less_imp_le)
next
  assume m: "map low_case x = map low_case y"
  then have l: "length x = length y" by (rule map_eq_imp_length_eq)
  have "low_case (cs x j) = low_case (cs y j)" for j
    using m l by (cases "j < length x") (auto simp: list_eq_iff_nth_eq)
  then show "ncasecmp (cs x) (cs y) 0 256 = 0" by (simp add: ncasecmp_0)
qed

lemma write_chain:
  "dwrite_lfn_loop s dir off k j (lfn_uname (cs name) (length name) (k * LFN_CHARS_PER_ENTRY)) de =
   write_slots s dir off (map (lfn_entry name k de) (rev [0..<j])) de"
  by (induction j arbitrary: s off) (auto simp: lfn_entry_def Let_def split: Option.bind_split)


text \<open>The name \<open>longer.name.txt\<close>, which takes two entries.\<close>

definition long_name :: cstring where
  "long_name = [0x6C, 0x6F, 0x6E, 0x67, 0x65, 0x72, 0x2E, 0x6E, 0x61, 0x6D, 0x65, 0x2E, 0x74, 0x78, 0x74]"


end
