(* ===== verification/Rawio.thy ===== *)
theory Rawio
  imports Bio
begin

text \<open>
  Blocks that are read and written through the buffer cache without the log, as \<^verbatim>\<open>kernel/ext2.c\<close> and \<^verbatim>\<open>kernel/fat32.c\<close> do: \<open>bread\<close>
  and \<open>brelse\<close>, or \<open>bread\<close>, \<open>bwrite\<close> and \<open>brelse\<close>, for a process that already holds the buffers \<open>L\<close>.
\<close>

lemma clean_block:
  assumes "holds s P L" "on_disk d n" "\<And>b. b \<in> L \<Longrightarrow> \<not> cached s b d n" "cached s b d n \<or> P b = 0 \<and> (\<forall>a. \<not> cached s a d n)" "P b = 0"
  shows "cview s d n = disk s d n"
proof (cases "cached s b d n")
  case True
  have inv: "bio_inv s P" and b: "b < NBUF" using assms(1) True by (auto simp: holds_def cached_def)
  have d: "d \<noteq> 0" using assms(2) by (rule on_disk_nz)
  have "\<not> block_locked s b" using assms(1,3) True b by (auto simp: holds_def)
  then show ?thesis
    using bio_invD(3) [OF inv b] cached_valid [OF inv True d] assms(5) cview_cached [OF inv True d] True
    by (auto simp: buf_ok_def cached_def)
next
  case False
  then show ?thesis using assms(4) cview_uncached by blast
qed

lemma raw_peek:
  assumes h: "holds s P L" and od: "on_disk d n" and free: "\<And>b. b \<in> L \<Longrightarrow> \<not> cached s b d n"
    and room: "\<exists>b<NBUF. b \<notin> L \<and> P b = 0"
  obtains b s1 s2 where "bread s d n = Some (Some b, s1)" "bdata s1 b = cview s d n" "bio_only s s1"
    "brelse s1 b = Some s2" "holds s2 P L" "cview s2 = cview s" "disk s2 = disk s" "bio_only s s2"
proof -
  obtain b s1 where 1: "bread s d n = Some (Some b, s1)" "holds s1 P (insert b L)" "b \<notin> L" "cached s1 b d n"
    "bdata s1 b = cview s d n" "cview s1 = cview s" "disk s1 = disk s" "bio_only s s1"
    "cached s b d n \<or> P b = 0 \<and> (\<forall>a. \<not> cached s a d n)"
    using bread_holds [OF h od free] room by blast
  have cl: "P b = 0 \<Longrightarrow> bdata s1 b = disk s1 d n" using clean_block [OF h od free 1(9)] 1(5,7) by simp
  obtain s2 where 2: "brelse s1 b = Some s2" "holds s2 P (insert b L - {b})" "cview s2 = cview s1" "disk s2 = disk s1" "bio_only s1 s2"
    using brelse_holds [OF 1(2) insertI1 1(4) cl] by blast
  have "holds s2 P L" using 2(2) 1(3) by simp
  then show ?thesis using that [OF 1(1,5,8) 2(1)] 2(3,4) 1(6,7) bio_only_trans [OF 1(8) 2(5)] by simp
qed

lemma raw_store:
  assumes h: "holds s P L" and b: "b \<in> L" and c: "cached s b d n"
  obtains s2 where "bwrite (set_data s b x) b = Some s2" "holds s2 P L" "cview s2 = (cview s)(d := (cview s d)(n := x))"
    "disk s2 = (disk s)(d := (disk s d)(n := x))" "bio_only s s2" "\<And>a. bdata s2 a = (if a = b then x else bdata s a)"
    "\<And>a e m. cached s2 a e m \<longleftrightarrow> cached s a e m"
proof -
  note sd = set_data_holds [OF h b c, of x]
  have c': "cached (set_data s b x) b d n" using c sd(7) by simp
  obtain s2 where 2: "bwrite (set_data s b x) b = Some s2" "holds s2 P L" "cview s2 = cview (set_data s b x)"
    "disk s2 = (disk (set_data s b x))(d := (disk (set_data s b x) d)(n := bdata (set_data s b x) b))"
    "bio_only (set_data s b x) s2" "\<And>a. bdata s2 a = bdata (set_data s b x) a" "\<And>a e m. cached s2 a e m \<longleftrightarrow> cached (set_data s b x) a e m"
    using bwrite_holds [OF sd(1) b c'] by blast
  show ?thesis
  proof (rule that)
    show "bio_only s s2" using sd(5) 2(5) by (rule bio_only_trans)
  qed (use 2 sd in auto)
qed

lemma raw_poke:
  assumes h: "holds s P L" and od: "on_disk d n" and free: "\<And>b. b \<in> L \<Longrightarrow> \<not> cached s b d n"
    and room: "\<exists>b<NBUF. b \<notin> L \<and> P b = 0"
  obtains b t1 t2 t3 where "bread s d n = Some (Some b, t1)" "bdata t1 b = cview s d n"
    "bwrite (set_data t1 b x) b = Some t2" "brelse t2 b = Some t3" "holds t3 P L"
    "cview t3 = (cview s)(d := (cview s d)(n := x))" "disk t3 = (disk s)(d := (disk s d)(n := x))" "bio_only s t3"
    "\<And>a. a \<in> L \<Longrightarrow> bdata t3 a = bdata s a" "\<And>a e k. a \<in> L \<Longrightarrow> cached t3 a e k \<longleftrightarrow> cached s a e k"
proof -
  obtain b t1 where 1: "bread s d n = Some (Some b, t1)" "holds t1 P (insert b L)" "b \<notin> L" "cached t1 b d n" "bdata t1 b = cview s d n"
    "cview t1 = cview s" "disk t1 = disk s" "bio_only s t1" "\<And>a. a \<noteq> b \<Longrightarrow> bufs t1 a = bufs s a"
    using bread_holds [OF h od free] room by blast
  obtain t2 where 2: "bwrite (set_data t1 b x) b = Some t2" "holds t2 P (insert b L)" "cview t2 = (cview t1)(d := (cview t1 d)(n := x))"
    "disk t2 = (disk t1)(d := (disk t1 d)(n := x))" "bio_only t1 t2" "\<And>a. bdata t2 a = (if a = b then x else bdata t1 a)"
    "\<And>a e k. cached t2 a e k \<longleftrightarrow> cached t1 a e k"
    by (rule raw_store [OF 1(2) insertI1 1(4), of x]) blast
  have cl: "P b = 0 \<Longrightarrow> bdata t2 b = disk t2 d n" and c: "cached t2 b d n" using 1(4) 2(4,6,7) by auto
  obtain t3 where 3: "brelse t2 b = Some t3" "holds t3 P (insert b L - {b})" "cview t3 = cview t2" "disk t3 = disk t2"
    "bio_only t2 t3" "\<And>a. bdata t3 a = bdata t2 a" "\<And>a e k. cached t3 a e k \<longleftrightarrow> cached t2 a e k"
    using brelse_holds [OF 2(2) insertI1 c cl] by blast
  show ?thesis
  proof (rule that [OF 1(1,5) 2(1) 3(1)])
    show "bio_only s t3" using 1(8) 2(5) 3(5) bio_only_trans by metis
    show "bdata t3 a = bdata s a" "cached t3 a e k \<longleftrightarrow> cached s a e k" if "a \<in> L" for a e k
      using that 1(3,9) 2(6,7) 3(6,7) by (metis, metis cached_def)
  qed (use 1(3,6,7) 2(3,4) 3(2-4) in simp_all)
qed

end
