(* ===== verification/Fat_Table.thy ===== *)
theory Fat_Table
  imports Kview Rawio Records
begin

text \<open>
  The file allocation table of \<^verbatim>\<open>kernel/fat32.c\<close> as a table of cluster numbers, and the effect of \<open>read_fat\<close>, \<open>write_fat\<close>,
  \<open>alloc_clus\<close> and \<open>free_chain\<close> on it.  These operations bypass the log: they write through the buffer cache.
\<close>

lemma scan_Suc: "\<not> Q 0 \<Longrightarrow> scan Q 0 (Suc k) = map_option Suc (scan (\<lambda>i. Q (Suc i)) 0 k)"
proof (cases "scan (\<lambda>i. Q (Suc i)) 0 k")
  case None
  assume "\<not> Q 0"
  with None have "\<not> Q j" if "j < Suc k" for j using that by (cases j) (auto simp: scan_None_iff)
  then have "scan Q 0 (Suc k) = None" by (auto simp: scan_None_iff)
  then show ?thesis using None by simp
next
  case (Some i)
  assume z: "\<not> Q 0"
  have "\<not> Q j" if "j < Suc i" for j using scan_SomeD [OF Some] z that by (cases j) auto
  then show ?thesis using scan_SomeD [OF Some] Some by (auto intro!: scan_SomeI)
qed

subsection \<open>Where an entry is\<close>

text \<open>A volume whose table fits the disk, with blocks that are whole numbers of sectors; a second copy starts at least a block
  after the first.\<close>

definition fat_volume :: "fat32_mount \<Rightarrow> bool" where
  "fat_volume m \<longleftrightarrow> 1 \<le> fm_dev m \<and> fm_dev m \<le> HAL_NDISK \<and> unat (fm_bps m) * unat (fm_spb m) = BSIZE \<and> 4 dvd unat (fm_bps m)
     \<and> (unat (fm_rsvd_sec_cnt m) + 2 * unat (fm_fat_sz m)) * unat (fm_bps m) \<le> unat RAMDISK_BLOCKS * BSIZE
     \<and> 4 * (unat (fm_tot_clus m) + 2) \<le> unat (fm_fat_sz m) * unat (fm_bps m)
     \<and> (1 < fm_num_fats m \<longrightarrow> BSIZE \<le> unat (fm_fat_sz m) * unat (fm_bps m))"

definition in_table :: "fat32_mount \<Rightarrow> u32 \<Rightarrow> bool" where
  "in_table m c \<longleftrightarrow> unat c < unat (fm_tot_clus m) + 2"

text \<open>The byte address of an entry on the volume.\<close>

definition fat_addr :: "fat32_mount \<Rightarrow> u32 \<Rightarrow> nat" where
  "fat_addr m c = unat (fm_rsvd_sec_cnt m) * unat (fm_bps m) + 4 * unat c"

lemma sector_address:
  assumes v: "fat_volume m" and s: "unat sec * unat (fm_bps m) + unat off < unat RAMDISK_BLOCKS * BSIZE" and o: "unat off < unat (fm_bps m)"
  shows "unat (sec_block m sec) = (unat sec * unat (fm_bps m) + unat off) div BSIZE"
    "unat (sec_byte m sec off) = (unat sec * unat (fm_bps m) + unat off) mod BSIZE"
    "on_disk (fm_dev m) (sec_block m sec)"
proof -
  let ?b = "unat (fm_bps m)" and ?p = "unat (fm_spb m)" and ?s = "unat sec" and ?o = "unat off"
  have bp: "?b * ?p = BSIZE" using v by (simp add: fat_volume_def)
  have pos: "0 < ?b" using o by linarith
  have b: "?b < 2 ^ 16" using unsigned_less [of "fm_bps m"] by simp
  have "0 < ?p" using bp by (cases "?p = 0") (simp_all add: BSIZE_def)
  then have m: "?s mod ?p < ?p" by simp
  have lt: "?s mod ?p * ?b + ?o < BSIZE"
  proof -
    have "?s mod ?p * ?b + ?o < Suc (?s mod ?p) * ?b" using o by simp
    also have "\<dots> \<le> ?p * ?b" using m by (intro mult_le_mono1) simp
    finally show ?thesis using bp by (simp add: mult.commute)
  qed
  have split: "?s * ?b + ?o = ?s div ?p * BSIZE + (?s mod ?p * ?b + ?o)"
  proof -
    have "?s = ?s div ?p * ?p + ?s mod ?p" by simp
    then have "?s * ?b = ?s div ?p * ?p * ?b + ?s mod ?p * ?b" by (metis add_mult_distrib)
    then show ?thesis using bp by (simp add: mult.assoc mult.commute)
  qed
  have q: "?s div ?p = (?s * ?b + ?o) div BSIZE" "?s mod ?p * ?b + ?o = (?s * ?b + ?o) mod BSIZE"
    unfolding split using lt by simp_all
  show blk: "unat (sec_block m sec) = (?s * ?b + ?o) div BSIZE" using q(1) by (simp add: sec_block_def unat_div)
  have "?s < 2 ^ 32" using unsigned_less [of sec] by simp
  then have "?s mod ?p < 2 ^ 32" by (rule le_less_trans [OF mod_less_eq_dividend])
  moreover have "?s mod ?p * ?b + ?o < 2 ^ 32" "?s mod ?p * ?b < 2 ^ 32" using lt by (simp_all add: BSIZE_def)
  moreover have "unat (ucast (fm_bps m) :: u32) = ?b" using b by (simp add: unsigned_ucast_eq take_bit_nat_eq_self)
  ultimately show "unat (sec_byte m sec off) = (?s * ?b + ?o) mod BSIZE"
    unfolding q(2) [symmetric] by (simp add: sec_byte_def unat_word_ariths unat_mod)
  have "(?s * ?b + ?o) div BSIZE < unat RAMDISK_BLOCKS" using s by (simp add: less_mult_imp_div_less)
  then show "on_disk (fm_dev m) (sec_block m sec)"
    using v blk by (simp add: on_disk_def fat_volume_def word_less_nat_alt)
qed

lemma fat_entry_address:
  assumes v: "fat_volume m" and c: "in_table m c"
  shows "unat (fat_sec m c) * unat (fm_bps m) + unat (fat_off m c) = fat_addr m c" "unat (fat_off m c) < unat (fm_bps m)"
    "unat (fat_sec m c + fm_fat_sz m) = unat (fat_sec m c) + unat (fm_fat_sz m)"
    "fat_addr m c + 4 \<le> (unat (fm_rsvd_sec_cnt m) + unat (fm_fat_sz m)) * unat (fm_bps m)" "4 dvd fat_addr m c"
proof -
  let ?b = "unat (fm_bps m)" and ?r = "unat (fm_rsvd_sec_cnt m)" and ?f = "unat (fm_fat_sz m)" and ?c = "unat c"
  have lim: "(?r + 2 * ?f) * ?b \<le> 2 ^ 24" "4 * (unat (fm_tot_clus m) + 2) \<le> ?f * ?b" "4 dvd ?b" "?b * unat (fm_spb m) = 1024"
    using v by (simp_all add: fat_volume_def BSIZE_def RAMDISK_BLOCKS_def)
  have pos: "0 < ?b" using lim(4) by (cases "?b = 0") simp_all
  have b: "?b < 2 ^ 16" using unsigned_less [of "fm_bps m"] by simp
  have u: "unat (ucast (fm_bps m) :: u32) = ?b" using b by (simp add: unsigned_ucast_eq take_bit_nat_eq_self)
  have "4 * ?c + 4 \<le> 4 * (unat (fm_tot_clus m) + 2)" using c by (simp add: in_table_def)
  then have c4: "4 * ?c + 4 \<le> ?f * ?b" using lim(2) by (rule le_trans)
  have e: "(?r + 2 * ?f) * ?b = ?r * ?b + 2 * (?f * ?b)" by (simp add: algebra_simps)
  have "?c * 4 < 2 ^ 32" using c4 lim(1) e by simp
  then have m4: "unat (c * 4) = 4 * ?c" by (simp add: unat_word_ariths mult.commute)
  have d: "4 * ?c div ?b < ?f" using c4 by (intro less_mult_imp_div_less) linarith
  have sm: "?r + 2 * ?f \<le> 2 ^ 24"
  proof -
    have "?r + 2 * ?f \<le> (?r + 2 * ?f) * ?b" using pos by simp
    then show ?thesis using lim(1) by linarith
  qed
  have fs: "unat (fat_sec m c) = ?r + 4 * ?c div ?b"
    using d sm by (simp add: fat_sec_def unat_word_ariths(1) unat_div m4 u)
  have fo: "unat (fat_off m c) = 4 * ?c mod ?b" by (simp add: fat_off_def unat_mod m4 u)
  show "unat (fat_sec m c) * ?b + unat (fat_off m c) = fat_addr m c"
    unfolding fs fo fat_addr_def by (simp add: add_mult_distrib)
  show "unat (fat_off m c) < ?b" unfolding fo using pos by simp
  show "unat (fat_sec m c + fm_fat_sz m) = unat (fat_sec m c) + ?f"
    using d sm fs by (simp add: unat_word_ariths(1))
  show "fat_addr m c + 4 \<le> (?r + ?f) * ?b" using c4 by (simp add: fat_addr_def add_mult_distrib)
  show "4 dvd fat_addr m c" using lim(3) by (simp add: fat_addr_def)
qed

text \<open>The blocks that hold the two copies of an entry, and its offset in them.\<close>

definition fat_blk :: "fat32_mount \<Rightarrow> u32 \<Rightarrow> u32" where
  "fat_blk m c = sec_block m (fat_sec m c)"

definition fat_pos :: "fat32_mount \<Rightarrow> u32 \<Rightarrow> nat" where
  "fat_pos m c = unat (sec_byte m (fat_sec m c) (fat_off m c))"

definition fat_blk2 :: "fat32_mount \<Rightarrow> u32 \<Rightarrow> u32" where
  "fat_blk2 m c = sec_block m (fat_sec m c + fm_fat_sz m)"

definition fat_pos2 :: "fat32_mount \<Rightarrow> u32 \<Rightarrow> nat" where
  "fat_pos2 m c = unat (sec_byte m (fat_sec m c + fm_fat_sz m) (fat_off m c))"

lemma fat_places:
  assumes v: "fat_volume m" and c: "in_table m c"
  shows "unat (fat_blk m c) = fat_addr m c div BSIZE" "fat_pos m c = fat_addr m c mod BSIZE" "on_disk (fm_dev m) (fat_blk m c)"
    "unat (fat_blk2 m c) = (fat_addr m c + unat (fm_fat_sz m) * unat (fm_bps m)) div BSIZE"
    "fat_pos2 m c = (fat_addr m c + unat (fm_fat_sz m) * unat (fm_bps m)) mod BSIZE" "on_disk (fm_dev m) (fat_blk2 m c)"
proof -
  note a = fat_entry_address [OF v c]
  let ?b = "unat (fm_bps m)" and ?f = "unat (fm_fat_sz m)"
  have lim: "(unat (fm_rsvd_sec_cnt m) + 2 * ?f) * ?b \<le> unat RAMDISK_BLOCKS * BSIZE" using v by (simp add: fat_volume_def)
  then have l: "fat_addr m c + ?f * ?b < unat RAMDISK_BLOCKS * BSIZE" using a(4) by (simp add: algebra_simps)
  have s2: "unat (fat_sec m c + fm_fat_sz m) * ?b + unat (fat_off m c) = fat_addr m c + ?f * ?b"
    using a(1,3) by (simp add: algebra_simps)
  show "unat (fat_blk m c) = fat_addr m c div BSIZE" "fat_pos m c = fat_addr m c mod BSIZE" "on_disk (fm_dev m) (fat_blk m c)"
    using sector_address [OF v _ a(2), of "fat_sec m c"] l a(1) by (simp_all add: fat_blk_def fat_pos_def)
  show "unat (fat_blk2 m c) = (fat_addr m c + ?f * ?b) div BSIZE" "fat_pos2 m c = (fat_addr m c + ?f * ?b) mod BSIZE"
    "on_disk (fm_dev m) (fat_blk2 m c)"
    using sector_address [OF v _ a(2), of "fat_sec m c + fm_fat_sz m"] l s2 by (simp_all add: fat_blk2_def fat_pos2_def)
qed

text \<open>Entries do not overlap, in the first copy or between the copies.\<close>

lemma four_apart:
  fixes x y u w :: nat
  assumes "4 dvd x" "4 dvd y" "x \<noteq> y" "x + w = y + u"
  shows "u + 4 \<le> w \<or> w + 4 \<le> u"
  using assms unfolding dvd_def by clarsimp

lemma addr_disjoint:
  assumes "4 dvd x" "4 dvd y" "x \<noteq> (y :: nat)" "x div BSIZE = y div BSIZE"
  shows "x mod BSIZE + 4 \<le> y mod BSIZE \<or> y mod BSIZE + 4 \<le> x mod BSIZE"
  by (rule four_apart [OF assms(1-3)]) (metis assms(4) add.assoc add.commute div_mult_mod_eq)

lemma fat_disjoint:
  assumes v: "fat_volume m" and c: "in_table m c" and c': "in_table m c'"
  shows "c \<noteq> c' \<Longrightarrow> fat_blk m c = fat_blk m c' \<Longrightarrow> fat_pos m c + 4 \<le> fat_pos m c' \<or> fat_pos m c' + 4 \<le> fat_pos m c"
    "fat_blk m c = fat_blk2 m c' \<Longrightarrow> fat_pos m c + 4 \<le> fat_pos2 m c' \<or> fat_pos2 m c' + 4 \<le> fat_pos m c"
    "1 < fm_num_fats m \<Longrightarrow> fat_blk m c \<noteq> fat_blk2 m c"
proof -
  let ?d = "unat (fm_fat_sz m) * unat (fm_bps m)"
  note p = fat_places [OF v c] and p' = fat_places [OF v c']
  note a = fat_entry_address(4,5) [OF v c] and a' = fat_entry_address(4,5) [OF v c']
  show "fat_pos m c + 4 \<le> fat_pos m c' \<or> fat_pos m c' + 4 \<le> fat_pos m c" if "c \<noteq> c'" "fat_blk m c = fat_blk m c'"
    unfolding p(2) p'(2)
    by (rule addr_disjoint) (use a a' that p(1) p'(1) in \<open>auto simp: fat_addr_def word_unat_eq_iff\<close>)
  have "4 dvd unat (fm_bps m)" using v by (simp add: fat_volume_def)
  then have "4 dvd fat_addr m c' + ?d" using a'(2) by simp
  moreover have "fat_addr m c < fat_addr m c' + ?d" using a(1) by (simp add: fat_addr_def add_mult_distrib)
  ultimately show "fat_pos m c + 4 \<le> fat_pos2 m c' \<or> fat_pos2 m c' + 4 \<le> fat_pos m c" if "fat_blk m c = fat_blk2 m c'"
    unfolding p(2) p'(5) by (intro addr_disjoint) (use a that p(1) p'(4) in auto)
  show "fat_blk m c \<noteq> fat_blk2 m c" if "1 < fm_num_fats m"
  proof -
    have "BSIZE \<le> ?d" using v that by (simp add: fat_volume_def)
    then have "(fat_addr m c + BSIZE) div BSIZE \<le> (fat_addr m c + ?d) div BSIZE" by (intro div_le_mono) simp
    moreover have "(fat_addr m c + BSIZE) div BSIZE = Suc (fat_addr m c div BSIZE)" by (simp add: BSIZE_def)
    ultimately have "unat (fat_blk m c) < unat (fat_blk2 m c)" using p(1,4) by simp
    then show ?thesis by auto
  qed
qed

subsection \<open>Reading and writing entries\<close>

text \<open>The upper four bits of an entry are not part of its value.\<close>

definition fat_value :: "buffer \<Rightarrow> nat \<Rightarrow> u32" where
  "fat_value d k = le32 d k AND 0x0FFFFFFF"

definition fat_table :: "'a vfs_scheme \<Rightarrow> fat32_mount \<Rightarrow> u32 \<Rightarrow> u32" where
  "fat_table s m c = (if in_table m c then fat_value (cview s (fm_dev m) (fat_blk m c)) (fat_pos m c) else 0)"

lemma fat_value_set: "fat_value (set_fat_entry d k v) k = v AND 0x0FFFFFFF"
proof (rule bit_word_eqI)
  fix n
  have "\<not> (bit (0xF0000000 :: u32) n \<and> bit (0x0FFFFFFF :: u32) n)"
    unfolding bit_and_iff [symmetric] by simp
  then show "bit (fat_value (set_fat_entry d k v) k) n = bit (v AND 0x0FFFFFFF) n"
    by (auto simp: fat_value_def set_fat_entry_def bit_and_iff bit_or_iff)
qed

interpretation fat_entries: disk_table fat_value set_fat_entry 4 "\<lambda>v. v AND 0x0FFFFFFF" "\<lambda>_. True" fat_blk fat_pos
  "\<lambda>m c. fat_volume m \<and> in_table m c"
proof unfold_locales
  show "fat_value (set_fat_entry d k v) k = v AND 0x0FFFFFFF" for d k v by (rule fat_value_set)
  show "set_fat_entry d k v j = d j" if "j < k \<or> k + 4 \<le> j" for j k d v using that by (auto simp: set_fat_entry_def put32_other)
  show "fat_value d k = fat_value e k" if "\<And>i. k \<le> i \<Longrightarrow> i < k + 4 \<Longrightarrow> d i = e i" for k d e
  proof -
    have "le32 d k = le32 e k" using that by (intro le32_cong) auto
    then show ?thesis by (simp add: fat_value_def)
  qed
qed (use fat_disjoint(1) in blast)

text \<open>Nothing is locked, and the log leaves two buffers unpinned.\<close>

definition fat_ready :: "'a vfs_scheme \<Rightarrow> (nat \<Rightarrow> nat) \<Rightarrow> bool" where
  "fat_ready s P \<longleftrightarrow> holds s P {} \<and> (\<exists>a<NBUF. \<exists>b<NBUF. a \<noteq> b \<and> P a = 0 \<and> P b = 0)"

lemma bio_only_fm: "bio_only s s' \<Longrightarrow> fat32_mounts s' = fat32_mounts s"
  by (cases s; cases s'; simp add: bio_only_def)

lemma read_fat_ok:
  assumes r: "fat_ready s P" and v: "fat_volume (fmt s fm)" and c: "in_table (fmt s fm) c"
  obtains s' where "read_fat s fm c = Some (fat_table s (fmt s fm) c, s')" "fat_ready s' P" "cview s' = cview s" "bio_only s s'"
proof -
  let ?m = "fmt s fm"
  have h: "holds s P {}" and room: "\<exists>b<NBUF. b \<notin> {} \<and> P b = 0" using r by (auto simp: fat_ready_def)
  obtain b s1 s2 where 1: "bread s (fm_dev ?m) (fat_blk ?m c) = Some (Some b, s1)"
    "bdata s1 b = cview s (fm_dev ?m) (fat_blk ?m c)" "brelse s1 b = Some s2" "holds s2 P {}" "cview s2 = cview s" "bio_only s s2"
    by (rule raw_peek [OF h fat_places(3) [OF v c] _ room]) auto
  have "read_fat s fm c = Some (fat_table s ?m c, s2)"
    using 1(1-3) c by (simp add: read_fat_def fat_table_def fat_value_def fat_blk_def fat_pos_def Let_def)
  then show ?thesis using that 1(4-6) r by (auto simp: fat_ready_def)
qed

text \<open>The second copy of an entry is written while the buffer of the first is held.\<close>

lemma write_mirror:
  assumes v: "fat_volume m" and c: "in_table m c" and h: "holds s P {b}" and b: "cached s b (fm_dev m) (fat_blk m c)"
    and room: "\<exists>a<NBUF. a \<notin> {b} \<and> P a = 0"
  obtains t where "(if 1 < fm_num_fats m then do {
      (bo2, t) \<leftarrow> bread s (fm_dev m) (fat_blk2 m c);
      (case bo2 of None \<Rightarrow> Some t
       | Some bp2 \<Rightarrow> do {
           t \<leftarrow> bwrite (set_data t bp2 (set_fat_entry (bdata t bp2) (fat_pos2 m c) x)) bp2;
           brelse t bp2
         })
    } else Some s) = Some t" "holds t P {b}" "bio_only s t" "bdata t b = bdata s b" "cached t b (fm_dev m) (fat_blk m c)"
    "disk t (fm_dev m) (fat_blk m c) = disk s (fm_dev m) (fat_blk m c)"
    "\<And>c'. in_table m c' \<Longrightarrow> fat_value (cview t (fm_dev m) (fat_blk m c')) (fat_pos m c') = fat_value (cview s (fm_dev m) (fat_blk m c')) (fat_pos m c')"
proof (cases "1 < fm_num_fats m")
  case True
  let ?d = "fm_dev m" and ?n2 = "fat_blk2 m c"
  let ?Y = "set_fat_entry (cview s ?d ?n2) (fat_pos2 m c) x"
  have ne: "fat_blk m c \<noteq> ?n2" using fat_disjoint(3) [OF v c c True] .
  then have free: "\<And>a. a \<in> {b} \<Longrightarrow> \<not> cached s a ?d ?n2" using b by (auto simp: cached_def)
  obtain b2 t1 t2 t where 1: "bread s ?d ?n2 = Some (Some b2, t1)" "bdata t1 b2 = cview s ?d ?n2" "bwrite (set_data t1 b2 ?Y) b2 = Some t2"
    "brelse t2 b2 = Some t" "holds t P {b}" "cview t = (cview s)(?d := (cview s ?d)(?n2 := ?Y))"
    "disk t = (disk s)(?d := (disk s ?d)(?n2 := ?Y))" "bio_only s t" "bdata t b = bdata s b" "\<And>e k. cached t b e k \<longleftrightarrow> cached s b e k"
    by (rule raw_poke [OF h fat_places(6) [OF v c] free room, of ?Y]) auto
  have "fat_value (cview t ?d (fat_blk m c')) (fat_pos m c') = fat_value (cview s ?d (fat_blk m c')) (fat_pos m c')" if "in_table m c'" for c'
    using fat_entries.decode_apart fat_disjoint(2) [OF v that c] by (auto simp: 1(6))
  then show ?thesis using True that [of t] 1 b ne by simp
qed (use that [of s] h b in simp)

lemma write_fat_ok:
  assumes r: "fat_ready s P" and v: "fat_volume (fmt s fm)" and c: "in_table (fmt s fm) c"
  obtains s' where "write_fat s fm c x = Some s'" "fat_ready s' P" "bio_only s s'"
    "fat_table s' (fmt s fm) = (fat_table s (fmt s fm))(c := x AND 0x0FFFFFFF)"
proof -
  let ?m = "fmt s fm"
  let ?d = "fm_dev ?m" and ?n = "fat_blk ?m c"
  let ?X = "set_fat_entry (cview s ?d ?n) (fat_pos ?m c) x"
  have h: "holds s P {}" and two: "\<exists>a<NBUF. \<exists>b<NBUF. a \<noteq> b \<and> P a = 0 \<and> P b = 0" using r by (auto simp: fat_ready_def)
  then have room: "\<exists>b<NBUF. b \<notin> {} \<and> P b = 0" by auto
  obtain b s1 where 1: "bread s ?d ?n = Some (Some b, s1)" "holds s1 P {b}" "cached s1 b ?d ?n"
    "bdata s1 b = cview s ?d ?n" "cview s1 = cview s" "bio_only s s1"
    using bread_holds [OF h fat_places(3) [OF v c]] room by blast
  obtain s2 where 2: "bwrite (set_data s1 b ?X) b = Some s2" "holds s2 P {b}" "cview s2 = (cview s1)(?d := (cview s1 ?d)(?n := ?X))"
    "disk s2 = (disk s1)(?d := (disk s1 ?d)(?n := ?X))" "bio_only s1 s2" "\<And>a. bdata s2 a = (if a = b then ?X else bdata s1 a)"
    "\<And>a e k. cached s2 a e k \<longleftrightarrow> cached s1 a e k"
    by (rule raw_store [OF 1(2) _ 1(3), of ?X]) auto
  have cb: "cached s2 b ?d ?n" using 1(3) 2(7) by simp
  have rm: "\<exists>a<NBUF. a \<notin> {b} \<and> P a = 0" using two by auto
  note mirror = write_mirror [OF v c 2(2) cb rm, where x = x]
  show ?thesis
  proof (rule mirror)
    fix s3
    assume 3: "(if 1 < fm_num_fats ?m then do {
        (bo2, t) \<leftarrow> bread s2 ?d (fat_blk2 ?m c);
        (case bo2 of None \<Rightarrow> Some t
         | Some bp2 \<Rightarrow> do {
             t \<leftarrow> bwrite (set_data t bp2 (set_fat_entry (bdata t bp2) (fat_pos2 ?m c) x)) bp2;
             brelse t bp2
           })
      } else Some s2) = Some s3" "holds s3 P {b}" "bio_only s2 s3" "bdata s3 b = bdata s2 b" "cached s3 b ?d ?n" "disk s3 ?d ?n = disk s2 ?d ?n"
      "\<And>c'. in_table ?m c' \<Longrightarrow> fat_value (cview s3 ?d (fat_blk ?m c')) (fat_pos ?m c') = fat_value (cview s2 ?d (fat_blk ?m c')) (fat_pos ?m c')"
    have cl: "P b = 0 \<Longrightarrow> bdata s3 b = disk s3 ?d ?n" using 3(4,6) 2(4,6) by simp
    obtain s4 where 4: "brelse s3 b = Some s4" "holds s4 P ({b} - {b})" "cview s4 = cview s3" "bio_only s3 s4"
      using brelse_holds [OF 3(2) _ 3(5) cl] by blast
    have w: "write_fat s fm c x = Some s4"
      using 1(1,4) 2(1) 3(1) 4(1) unfolding write_fat_def Let_def fat_blk_def fat_pos_def fat_blk2_def fat_pos2_def by simp
    have V: "cview s2 ?d = (cview s ?d)(?n := ?X)" by (simp add: 2(3) 1(5))
    have "fat_table s4 ?m c' = ((fat_table s ?m)(c := x AND 0x0FFFFFFF)) c'" for c'
    proof (cases "in_table ?m c'")
      case True
      then have "fat_value (cview s2 ?d (fat_blk ?m c')) (fat_pos ?m c') =
          (if c' = c then x AND 0x0FFFFFFF else fat_value (cview s ?d (fat_blk ?m c')) (fat_pos ?m c'))"
        using v c by (intro fat_entries.table_update [OF _ _ _ V]) simp_all
      then show ?thesis using 3(7) [OF True] True by (simp add: fat_table_def 4(3))
    qed (use c in \<open>auto simp: fat_table_def\<close>)
    then have "fat_table s4 ?m = (fat_table s ?m)(c := x AND 0x0FFFFFFF)" by (rule ext)
    moreover have "bio_only s s4" using 1(6) 2(5) 3(3) 4(4) bio_only_trans by metis
    moreover have "fat_ready s4 P" using 4(2) two by (simp add: fat_ready_def)
    ultimately show ?thesis using that [OF w] by blast
  qed
qed

text \<open>Taking and releasing the lock of the volume does not touch the table.\<close>

lemma fm_lock_frame [simp]:
  "cview (upd_fm fm f s) = cview s" "fat_ready (upd_fm fm f s) P = fat_ready s P" "fat_table (upd_fm fm f s) m = fat_table s m"
  "fmt (upd_fm fm f s) fm = f (fmt s fm)"
proof -
  show v: "cview (upd_fm fm f s) = cview s"
    by (simp add: cview_def cached_def upd_fm_def fun_eq_iff split: option.split)
  show "fat_table (upd_fm fm f s) m = fat_table s m" by (rule ext) (simp add: fat_table_def v)
qed (simp_all add: fat_ready_def upd_fm_def holds_def bio_inv_def buf_ok_def cached_def)

lemma fm_lock_irrelevant [simp]:
  "fat_volume (m\<lparr>fm_lock := l\<rparr>) = fat_volume m" "in_table (m\<lparr>fm_lock := l\<rparr>) = in_table m" "fat_table s (m\<lparr>fm_lock := l\<rparr>) = fat_table s m"
  by (simp_all add: fat_volume_def in_table_def fat_table_def fat_blk_def fat_pos_def sec_block_def sec_byte_def fat_sec_def fat_off_def fun_eq_iff)

lemma alloc_clus_loop_ok:
  assumes "fat_ready s P" "fat_volume (fmt s fm)" "\<And>i. i < k \<Longrightarrow> in_table (fmt s fm) (c + of_nat i)"
  shows "\<exists>r s'. alloc_clus_loop s fm c k = Some (r, s') \<and> fat_ready s' P \<and> bio_only s s'
    \<and> (case scan (\<lambda>i. fat_table s (fmt s fm) (c + of_nat i) = FAT32_FREE) 0 k of
         None \<Rightarrow> r = 0 \<and> fat_table s' (fmt s fm) = fat_table s (fmt s fm)
       | Some i \<Rightarrow> r = c + of_nat i \<and> fat_table s' (fmt s fm) = (fat_table s (fmt s fm))(r := FAT32_EOC))"
  using assms
proof (induction k arbitrary: s c)
  case 0
  then show ?case by (simp add: scan_def)
next
  case (Suc k)
  let ?m = "fmt s fm"
  have c: "in_table ?m c" using Suc.prems(3) [of 0] by simp
  obtain s1 where 1: "read_fat s fm c = Some (fat_table s ?m c, s1)" "fat_ready s1 P" "cview s1 = cview s" "bio_only s s1"
    by (rule read_fat_ok [OF Suc.prems(1,2) c])
  have m1: "fmt s1 fm = ?m" using bio_only_fm [OF 1(4)] by simp
  have t1: "fat_table s1 ?m = fat_table s ?m" by (rule ext) (simp add: fat_table_def 1(3))
  show ?case
  proof (cases "fat_table s ?m c = FAT32_FREE")
    case True
    obtain s2 where 2: "write_fat s1 fm c FAT32_EOC = Some s2" "fat_ready s2 P" "bio_only s1 s2"
      "fat_table s2 ?m = (fat_table s1 ?m)(c := FAT32_EOC AND 0x0FFFFFFF)"
      by (rule write_fat_ok [OF 1(2), of fm c FAT32_EOC]) (use Suc.prems(2) c in \<open>simp_all add: m1\<close>)
    have "scan (\<lambda>i. fat_table s ?m (c + of_nat i) = FAT32_FREE) 0 (Suc k) = Some 0"
      using True by (intro scan_SomeI) auto
    then show ?thesis using True 1(1) 2 t1 bio_only_trans [OF 1(4) 2(3)] by (auto simp: FAT32_EOC_def)
  next
    case False
    have it: "in_table ?m (c + 1 + of_nat i)" if "i < k" for i
      using Suc.prems(3) [of "Suc i"] that by (simp add: add.assoc)
    obtain r s' where 2: "alloc_clus_loop s1 fm (c + 1) k = Some (r, s')"
      "fat_ready s' P" "bio_only s1 s'"
      "case scan (\<lambda>i. fat_table s ?m (c + 1 + of_nat i) = FAT32_FREE) 0 k of
         None \<Rightarrow> r = 0 \<and> fat_table s' ?m = fat_table s ?m
       | Some i \<Rightarrow> r = c + 1 + of_nat i \<and> fat_table s' ?m = (fat_table s ?m)(r := FAT32_EOC)"
      using Suc.IH [of s1 "c + 1", unfolded m1 t1, OF 1(2) Suc.prems(2) it] by blast
    let ?Q = "\<lambda>i. fat_table s ?m (c + of_nat i) = FAT32_FREE"
    have sc: "scan ?Q 0 (Suc k) = map_option Suc (scan (\<lambda>i. fat_table s ?m (c + 1 + of_nat i) = FAT32_FREE) 0 k)"
      using False by (simp add: scan_Suc [of ?Q] add.assoc)
    show ?thesis using False 1(1) 2 bio_only_trans [OF 1(4) 2(3)]
      by (auto simp: sc add.assoc split: option.splits)
  qed
qed


subsection \<open>Chains\<close>

definition fat_link :: "(u32 \<Rightarrow> u32) \<Rightarrow> u32 \<Rightarrow> u32 \<Rightarrow> bool" where
  "fat_link T a b \<longleftrightarrow> T a = b \<and> in_chain b"

lemma in_chain_0 [simp]: "\<not> in_chain 0"
  by (simp add: in_chain_def)

text \<open>Freeing the head of a chain and then what the rest reaches frees what the head reaches, also when the chain is a cycle.\<close>

lemma link_head:
  assumes "in_chain (T c)"
  shows "(fat_link T)\<^sup>*\<^sup>* c d \<longleftrightarrow> d = c \<or> (fat_link (T(c := 0)))\<^sup>*\<^sup>* (T c) d"
proof
  assume "(fat_link T)\<^sup>*\<^sup>* c d"
  then show "d = c \<or> (fat_link (T(c := 0)))\<^sup>*\<^sup>* (T c) d"
  proof (induction rule: rtranclp_induct)
    case (step d e)
    show ?case
    proof (cases "d = c")
      case True
      then show ?thesis using step.hyps(2) by (simp add: fat_link_def)
    next
      case False
      then have "fat_link (T(c := 0)) d e" using step.hyps(2) by (simp add: fat_link_def)
      then show ?thesis using step.IH False rtranclp.rtrancl_into_rtrancl [of "fat_link (T(c := 0))"] by blast
    qed
  qed simp
next
  have "fat_link (T(c := 0)) \<le> fat_link T" by (auto simp: fat_link_def split: if_splits)
  then have "(fat_link (T(c := 0)))\<^sup>*\<^sup>* \<le> (fat_link T)\<^sup>*\<^sup>*" by (rule rtranclp_mono)
  moreover have "fat_link T c (T c)" using assms by (simp add: fat_link_def)
  moreover assume "d = c \<or> (fat_link (T(c := 0)))\<^sup>*\<^sup>* (T c) d"
  ultimately show "(fat_link T)\<^sup>*\<^sup>* c d" by (auto intro: converse_rtranclp_into_rtranclp)
qed

lemma link_end:
  assumes "\<not> in_chain (T c)"
  shows "(fat_link T)\<^sup>*\<^sup>* c d \<longleftrightarrow> d = c"
  using assms by (auto simp: fat_link_def elim: converse_rtranclpE)

lemma free_chain_loop_ok:
  assumes "fat_ready s P" "fat_volume (fmt s fm)" "in_table (fmt s fm) c" "in_chain c"
    "\<And>d. in_chain (fat_table s (fmt s fm) d) \<Longrightarrow> in_table (fmt s fm) (fat_table s (fmt s fm) d)"
  shows "\<exists>s'. free_chain_loop s fm c = Some s' \<and> fat_ready s' P \<and> bio_only s s'
    \<and> fat_table s' (fmt s fm) = (\<lambda>d. if (fat_link (fat_table s (fmt s fm)))\<^sup>*\<^sup>* c d then FAT32_FREE else fat_table s (fmt s fm) d)"
  using assms
proof (induction "card {d. fat_table s (fmt s fm) d \<noteq> 0}" arbitrary: s c rule: less_induct)
  case less
  let ?m = "fmt s fm" and ?T = "fat_table s (fmt s fm)"
  obtain s1 where 1: "read_fat s fm c = Some (?T c, s1)" "fat_ready s1 P" "cview s1 = cview s" "bio_only s s1"
    by (rule read_fat_ok [OF less.prems(1-3)])
  have m1: "fmt s1 fm = ?m" using bio_only_fm [OF 1(4)] by simp
  have t1: "fat_table s1 ?m = ?T" by (rule ext) (simp add: fat_table_def 1(3))
  obtain s2 where 2: "write_fat s1 fm c FAT32_FREE = Some s2" "fat_ready s2 P" "bio_only s1 s2" "fat_table s2 ?m = ?T(c := 0)"
    by (rule write_fat_ok [OF 1(2), of fm c FAT32_FREE]) (use less.prems(2,3) in \<open>simp_all add: m1 t1 FAT32_FREE_def\<close>)
  have m2: "fmt s2 fm = ?m" using bio_only_fm [OF 2(3)] m1 by simp
  have b: "bio_only s s2" using 1(4) 2(3) by (rule bio_only_trans)
  show ?case
  proof (cases "in_chain (?T c)")
    case True
    have nz: "?T c \<noteq> 0" using True by auto
    have e: "{d. fat_table s2 ?m d \<noteq> 0} = {d. ?T d \<noteq> 0} - {c}" using 2(4) by auto
    have dec: "card {d. fat_table s2 (fmt s2 fm) d \<noteq> 0} < card {d. ?T d \<noteq> 0}"
      unfolding m2 e by (rule card_Diff1_less [OF finite]) (simp add: nz)
    have closed: "in_table ?m (fat_table s2 ?m d)" if "in_chain (fat_table s2 ?m d)" for d
      using that less.prems(5) [of d] by (auto simp: 2(4) split: if_splits)
    obtain s' where s': "free_chain_loop s2 fm (?T c) = Some s'" "fat_ready s' P" "bio_only s2 s'"
      "fat_table s' ?m = (\<lambda>d. if (fat_link (?T(c := 0)))\<^sup>*\<^sup>* (?T c) d then FAT32_FREE else (?T(c := 0)) d)"
      using less.hyps [OF dec, unfolded m2, OF 2(2) less.prems(2) less.prems(5) [OF True] True closed]
      unfolding 2(4) by blast
    have "\<not> FAT32_EOC_MIN \<le> ?T c" using True by (simp add: in_chain_def not_le)
    then have "free_chain_loop s fm c = Some s'"
      using 1(1) 2(1) s'(1) less.prems(4) by (simp add: free_chain_loop.simps [of s])
    moreover have "fat_table s' ?m = (\<lambda>d. if (fat_link ?T)\<^sup>*\<^sup>* c d then FAT32_FREE else ?T d)"
      unfolding s'(4) by (rule ext) (simp add: link_head [where T = ?T and c = c, OF True] FAT32_FREE_def)
    ultimately show ?thesis using s'(2) bio_only_trans [OF b s'(3)] by blast
  next
    case False
    then have "free_chain_loop s fm c = Some s2"
      using 1(1) 2(1) less.prems(4) by (simp add: free_chain_loop.simps [of s] free_chain_loop.simps [of s2])
    moreover have "fat_table s2 ?m = (\<lambda>d. if (fat_link ?T)\<^sup>*\<^sup>* c d then FAT32_FREE else ?T d)"
      unfolding 2(4) by (rule ext) (simp add: link_end [where T = ?T and c = c, OF False] FAT32_FREE_def)
    ultimately show ?thesis using 2(2) b by blast
  qed
qed

text \<open>C16: \<open>free_chain\<close> returns for every table whose links stay inside the table, also when the chain runs into a cycle, because
  it marks each cluster free before it follows the link.  Exactly the clusters that the chain reaches are free afterwards;
  every other entry is unchanged, and the lock of the volume is released.\<close>

theorem free_chain_terminates:
  fixes s :: "'a vfs_scheme"
  assumes "fat_ready s P" "fat_volume (fmt s fm)" "\<not> locked (fm_lock (fmt s fm))" "in_chain c" "in_table (fmt s fm) c"
    and "\<forall>d. in_chain (fat_table s (fmt s fm) d) \<longrightarrow> in_table (fmt s fm) (fat_table s (fmt s fm) d)"
  shows "\<exists>s'. free_chain s fm c = Some s' \<and> fat_ready s' P \<and> \<not> locked (fm_lock (fmt s' fm))
    \<and> (\<forall>d. fat_table s' (fmt s fm) d =
          (if (fat_link (fat_table s (fmt s fm)))\<^sup>*\<^sup>* c d then FAT32_FREE else fat_table s (fmt s fm) d))"
proof -
  define s0 where "s0 = upd_fm fm (fm_lock_update (\<lambda>_. \<lparr>locked = True, lk_pid = p_pid s\<rparr>)) s"
  have a: "acquire_fm s fm = Some s0" using assms(3) by (simp add: acquire_fm_def acquiresleep_def s0_def)
  have T0: "fat_table s0 (fmt s fm) = fat_table s (fmt s fm)" "fat_table t (fmt s0 fm) = fat_table t (fmt s fm)"
      "in_table (fmt s0 fm) = in_table (fmt s fm)" for t :: "'a vfs_scheme"
    by (simp_all add: s0_def)
  have r0: "fat_ready s0 P" "fat_volume (fmt s0 fm)" using assms(1,2) by (simp_all add: s0_def)
  have "\<exists>s1. free_chain_loop s0 fm c = Some s1 \<and> fat_ready s1 P \<and> bio_only s0 s1 \<and> fat_table s1 (fmt s fm) =
      (\<lambda>d. if (fat_link (fat_table s (fmt s fm)))\<^sup>*\<^sup>* c d then FAT32_FREE else fat_table s (fmt s fm) d)"
    using assms(4-6) by (intro free_chain_loop_ok [OF r0, of c, unfolded T0]) auto
  then obtain s1 where "free_chain_loop s0 fm c = Some s1" "fat_ready s1 P"
    "fat_table s1 (fmt s fm) = (\<lambda>d. if (fat_link (fat_table s (fmt s fm)))\<^sup>*\<^sup>* c d then FAT32_FREE else fat_table s (fmt s fm) d)"
    by blast
  with a show ?thesis
    by (intro exI [of _ "release_fm s1 fm"]) (simp add: free_chain_def release_fm_def releasesleep_def)
qed

text \<open>C38: A table of one sector cannot be written when two copies share a block.  If the volume has a second copy of the table and
  both copies of an entry lie in the same block, \<open>write_fat\<close> reads the block of the second copy while it holds the buffer
  of the first: it waits for itself and never returns.\<close>

theorem write_fat_self_deadlock:
  assumes "fat_ready s P" "on_disk (fm_dev (fmt s fm)) (fat_blk (fmt s fm) c)"
    and "1 < fm_num_fats (fmt s fm)" "fat_blk2 (fmt s fm) c = fat_blk (fmt s fm) c"
  shows "write_fat s fm c x = None"
proof -
  let ?m = "fmt s fm"
  let ?d = "fm_dev ?m" and ?n = "fat_blk ?m c"
  have h: "holds s P {}" and room: "\<exists>b<NBUF. b \<notin> {} \<and> P b = 0" using assms(1) by (auto simp: fat_ready_def)
  obtain b s1 where 1: "bread s ?d ?n = Some (Some b, s1)" "holds s1 P {b}" "cached s1 b ?d ?n"
    using bread_holds [OF h assms(2)] room by blast
  obtain s2 where 2: "bwrite (set_data s1 b (set_fat_entry (bdata s1 b) (fat_pos ?m c) x)) b = Some s2" "holds s2 P {b}"
    "\<And>a e k. cached s2 a e k \<longleftrightarrow> cached s1 a e k"
    by (rule raw_store [OF 1(2) _ 1(3)]) blast+
  have "bread s2 ?d ?n = None"
  proof -
    have inv: "bio_inv s2 P" and lb: "block_locked s2 b" "cached s2 b ?d ?n"
      using 2(2,3) 1(3) by (auto simp: holds_def cached_def)
    have d: "?d \<noteq> 0" using assms(2) by (rule on_disk_nz)
    let ?Q = "\<lambda>b. b_dev (bufs s2 b) = ?d \<and> b_blockno (bufs s2 b) = ?n"
    have b: "b \<in> set (lru s2)" "?Q b" using bio_invD(2) [OF inv] lb(2) by (simp_all add: cached_def)
    then have "find ?Q (lru s2) \<noteq> None" unfolding find_None_iff by blast
    then obtain b' where b': "find ?Q (lru s2) = Some b'" by blast
    have "cached s2 b' ?d ?n" using find_SomeD [OF b'] bio_invD(2) [OF inv] by (simp add: cached_def)
    then have "find ?Q (lru s2) = Some b" using b' bio_invD(4) [OF inv _ lb(2) d] by simp
    then have "bget s2 ?d ?n = None" using lb(1) by (simp add: bget_def acquire_buf_def acquiresleep_def upd_buf_def)
    then show ?thesis using assms(2) by (auto simp: bread_def on_disk_def)
  qed
  then show ?thesis
    using assms(3,4) 1(1) 2(1) unfolding write_fat_def Let_def fat_blk_def fat_pos_def fat_blk2_def by simp
qed

subsection \<open>A concrete volume\<close>

text \<open>Two copies of a table of two 512-byte sectors from sector 2 of device 2 on, in which clusters 2 and 3 form a cycle; and the
  same volume with copies of one sector.\<close>

definition fat_mount_demo :: fat32_mount where
  "fat_mount_demo = \<lparr>fm_dev = 2, fm_sec_per_clus = 1, fm_rsvd_sec_cnt = 2, fm_num_fats = 2, fm_fat_sz = 2, fm_first_data_sec = 6,
     fm_root_clus = 2, fm_tot_clus = 100, fm_free_count = 0, fm_bps = 512, fm_spb = 2, fm_lock = initsleeplock, fm_vfs_mount = 0\<rparr>"

definition fat_disk_demo :: "u32 \<Rightarrow> u32 \<Rightarrow> buffer" where
  "fat_disk_demo d n = (\<lambda>_. 0)(8 := if d = 2 \<and> n = 1 then 3 else 0, 12 := if d = 2 \<and> n = 1 then 2 else 0)"

definition fat_demo :: "fat32_mount \<Rightarrow> kstate" where
  "fat_demo m = disk_demo fat_disk_demo no_ext2 m"

lemma fat_demo_ready: "fat_ready (fat_demo m) (\<lambda>b. if b = 0 then 1 else 0)"
  unfolding fat_ready_def fat_demo_def
  by (intro conjI disk_demo_holds exI [of _ 1] exI [of _ 2]) (simp_all add: NBUF_def)

lemma fat_demo_cview: "cview (fat_demo m) 2 n = fat_disk_demo 2 n"
  unfolding fat_demo_def by (rule disk_demo_cview) simp

lemma fat_demo_volume: "fat_volume fat_mount_demo" "fmt (fat_demo m) fm = m"
  by (simp_all add: fat_volume_def fat_mount_demo_def HAL_NDISK_def BSIZE_def RAMDISK_BLOCKS_def fat_demo_def)

lemma fat_demo_table:
  "fat_table (fat_demo fat_mount_demo) fat_mount_demo 2 = 3" "fat_table (fat_demo fat_mount_demo) fat_mount_demo 3 = 2"
  "d \<noteq> 2 \<Longrightarrow> d \<noteq> 3 \<Longrightarrow> fat_table (fat_demo fat_mount_demo) fat_mount_demo d = 0"
proof -
  have p: "fat_blk fat_mount_demo d = 1" "fat_pos fat_mount_demo d = 4 * unat d" if "in_table fat_mount_demo d" for d
  proof -
    have a: "fat_addr fat_mount_demo d = 1024 + 4 * unat d" "unat d < 102" using that
      by (simp_all add: fat_addr_def in_table_def fat_mount_demo_def)
    then show "fat_pos fat_mount_demo d = 4 * unat d" using fat_places(2) [OF fat_demo_volume(1) that] by (simp add: BSIZE_def)
    have "unat (fat_blk fat_mount_demo d) = 1" using fat_places(1) [OF fat_demo_volume(1) that] a by (simp add: BSIZE_def)
    then show "fat_blk fat_mount_demo d = 1" by (simp add: word_unat_eq_iff)
  qed
  have e: "fat_table (fat_demo fat_mount_demo) fat_mount_demo d =
      (if in_table fat_mount_demo d then fat_value (fat_disk_demo 2 1) (4 * unat d) else 0)" for d
    using p [of d] fat_demo_cview [of fat_mount_demo 1] by (simp add: fat_table_def) (simp add: fat_mount_demo_def)
  have t: "in_table fat_mount_demo 2" "in_table fat_mount_demo 3" by (simp_all add: in_table_def fat_mount_demo_def)
  show "fat_table (fat_demo fat_mount_demo) fat_mount_demo 2 = 3" "fat_table (fat_demo fat_mount_demo) fat_mount_demo 3 = 2"
    using t by (simp_all add: e fat_value_def le32_def fat_disk_demo_def)
  show "fat_table (fat_demo fat_mount_demo) fat_mount_demo d = 0" if "d \<noteq> 2" "d \<noteq> 3"
  proof -
    have "unat d \<noteq> 2" "unat d \<noteq> 3" using that by (auto simp: word_unat_eq_iff)
    then have "4 * unat d + j \<noteq> 8" "4 * unat d + j \<noteq> 12" if "j < 4" for j using that by presburger+
    from this [of 0] this [of 1] this [of 2] this [of 3] show ?thesis by (simp add: e fat_value_def le32_def fat_disk_demo_def)
  qed
qed


theorem free_chain_terminates_witness:
  "\<exists>s'. free_chain (fat_demo fat_mount_demo) 7 2 = Some s' \<and> fat_table s' fat_mount_demo 2 = FAT32_FREE \<and> fat_table s' fat_mount_demo 3 = FAT32_FREE"
proof -
  let ?T = "fat_table (fat_demo fat_mount_demo) fat_mount_demo"
  have h: "\<not> locked (fm_lock fat_mount_demo)" "in_chain 2" "in_table fat_mount_demo 2"
    by (simp_all add: fat_mount_demo_def initsleeplock_def in_chain_def in_table_def FAT32_EOC_MIN_def)
  have cl: "\<forall>d. in_chain (?T d) \<longrightarrow> in_table fat_mount_demo (?T d)"
  proof
    fix d show "in_chain (?T d) \<longrightarrow> in_table fat_mount_demo (?T d)"
      using fat_demo_table by (cases "d = 2"; cases "d = 3") (simp_all add: in_table_def fat_mount_demo_def)
  qed
  have "fat_link ?T 2 3" using fat_demo_table(1) by (simp add: fat_link_def in_chain_def FAT32_EOC_MIN_def)
  then have "(fat_link ?T)\<^sup>*\<^sup>* 2 3" by blast
  then show ?thesis
    using free_chain_terminates [OF fat_demo_ready, of fat_mount_demo 7 2, unfolded fat_demo_volume(2), OF fat_demo_volume(1) h cl] by auto
qed

theorem write_fat_self_deadlock_witness:
  "write_fat (fat_demo (fat_mount_demo\<lparr>fm_fat_sz := 1\<rparr>)) 7 5 0 = None"
proof -
  let ?m = "fat_mount_demo\<lparr>fm_fat_sz := 1\<rparr>"
  have "on_disk (fm_dev ?m) (fat_blk ?m 5)" "1 < fm_num_fats ?m" "fat_blk2 ?m 5 = fat_blk ?m 5"
    by (simp_all add: fat_mount_demo_def fat_blk_def fat_blk2_def sec_block_def fat_sec_def on_disk_def HAL_NDISK_def RAMDISK_BLOCKS_def)
  then show ?thesis using write_fat_self_deadlock [OF fat_demo_ready, of ?m 7 5 0, unfolded fat_demo_volume(2)] by blast
qed

end
