(* ===== verification/Ext2_Meta.thy ===== *)
theory Ext2_Meta
  imports Kview Rawio
begin

text \<open>
  The inode table and the block bitmap of \<^verbatim>\<open>kernel/ext2.c\<close>: what \<open>write_inode\<close> stores is what \<open>read_inode\<close> returns, and which
  block \<open>ext2_balloc\<close> takes.
\<close>

subsection \<open>Inodes as bytes\<close>

lemma put_words_other: "i < k \<or> k + 4 * n \<le> i \<Longrightarrow> put_words d k a n i = d i"
  by (induction n) (auto simp: put32_other)

lemma put_words_at: "i < n \<Longrightarrow> le32 (put_words d k a n) (k + 4 * i) = a i"
proof (induction n)
  case (Suc n)
  then show ?case by (cases "i = n") auto
qed simp

lemma put_words_fields:
  "j + 4 \<le> k \<or> k + 4 * n \<le> j \<Longrightarrow> le32 (put_words d k a n) j = le32 d j"
  "j + 2 \<le> k \<or> k + 4 * n \<le> j \<Longrightarrow> le16 (put_words d k a n) j = le16 d j"
  by (auto intro!: le32_cong le16_cong simp: put_words_other)

lemma le16_copy_other: "j + 2 \<le> d \<or> d + n \<le> j \<Longrightarrow> le16 (copy_into dst d src k n) j = le16 dst j"
  by (rule le16_cong) auto

text \<open>An inode as it comes from disk has 15 block numbers and 12 bytes of \<open>i_osd2\<close>.\<close>

definition disk_form :: "ext2_inode_disk \<Rightarrow> bool" where
  "disk_form ino \<longleftrightarrow> (\<forall>i\<ge>15. i_block ino i = 0) \<and> (\<forall>i\<ge>12. i_osd2 ino i = 0)"

lemma get_put_ext2_inode:
  assumes "disk_form ino"
  shows "get_ext2_inode (put_ext2_inode d k ino) k = ino"
proof -
  have b: "(\<lambda>i. if i < 15 then i_block ino i else 0) = i_block ino" "(\<lambda>i. if i < 12 then i_osd2 ino i else 0) = i_osd2 ino"
    using assms by (auto simp: disk_form_def fun_eq_iff not_less)
  show ?thesis
    unfolding get_ext2_inode_def put_ext2_inode_def Let_def
    by (simp add: le32_copy_into_other le16_copy_other put_words_fields put_words_at add.assoc [symmetric] cong: if_cong)
      (simp add: b)
qed

lemma put_ext2_inode_other: "i < k \<or> k + 128 \<le> i \<Longrightarrow> put_ext2_inode d k ino i = d i"
  unfolding put_ext2_inode_def Let_def by (auto simp: put_words_other put32_other put16_other)

lemma get_ext2_inode_cong:
  assumes "\<And>i. k \<le> i \<Longrightarrow> i < k + 128 \<Longrightarrow> d i = e i"
  shows "get_ext2_inode d k = get_ext2_inode e k"
proof -
  have "le32 d (k + j) = le32 e (k + j)" if "j + 4 \<le> 128" for j using that by (intro le32_cong) (auto intro!: assms)
  moreover have "le16 d (k + j) = le16 e (k + j)" if "j + 2 \<le> 128" for j using that by (intro le16_cong) (auto intro!: assms)
  moreover have "le32 d k = le32 e k" "le16 d k = le16 e k" by (auto intro!: le32_cong le16_cong assms)
  ultimately show ?thesis
    unfolding get_ext2_inode_def by (simp add: assms add.assoc del: add_2_eq_Suc' cong: if_cong)
qed

subsection \<open>The inode table\<close>

definition inode_size_ok :: "ext2_mount_priv \<Rightarrow> bool" where
  "inode_size_ok m \<longleftrightarrow> em_inode_size m \<in> {128, 256, 512, 1024}"

text \<open>The block of an inode and its offset in it, and the inode that readers see there.\<close>

definition inode_blk :: "ext2_mount_priv \<Rightarrow> u32 \<Rightarrow> u32" where
  "inode_blk m inum = bg_inode_table (em_bg m) + (inum - 1) div (of_nat BSIZE div em_inode_size m)"

definition inode_off :: "ext2_mount_priv \<Rightarrow> u32 \<Rightarrow> nat" where
  "inode_off m inum = unat ((inum - 1) mod (of_nat BSIZE div em_inode_size m) * em_inode_size m)"

definition disk_inode :: "'a vfs_scheme \<Rightarrow> ext2_mount_priv \<Rightarrow> u32 \<Rightarrow> ext2_inode_disk" where
  "disk_inode s m inum = get_ext2_inode (cview s (em_dev m) (inode_blk m inum)) (inode_off m inum)"

lemma inode_off_eq:
  assumes "inode_size_ok m"
  obtains p where "0 < p" "unat (of_nat BSIZE div em_inode_size m :: u32) = p" "p * unat (em_inode_size m) = BSIZE" "128 \<le> unat (em_inode_size m)"
    "\<And>inum. inode_off m inum = unat (inum - 1) mod p * unat (em_inode_size m)"
proof
  let ?p = "unat (of_nat BSIZE div em_inode_size m :: u32)"
  have z: "em_inode_size m = 128 \<or> em_inode_size m = 256 \<or> em_inode_size m = 512 \<or> em_inode_size m = 1024"
    using assms by (simp add: inode_size_ok_def)
  then show p: "0 < ?p" "?p * unat (em_inode_size m) = BSIZE" "128 \<le> unat (em_inode_size m)" by (auto simp: BSIZE_def)
  show "inode_off m inum = unat (inum - 1) mod ?p * unat (em_inode_size m)" for inum
  proof -
    have "unat (inum - 1) mod ?p < ?p" using p(1) by simp
    then have "unat (inum - 1) mod ?p * unat (em_inode_size m) \<le> ?p * unat (em_inode_size m)" by (intro mult_le_mono1) simp
    then have "unat (inum - 1) mod ?p * unat (em_inode_size m) \<le> BSIZE" unfolding p(2) .
    then have "unat (inum - 1) mod ?p * unat (em_inode_size m) < 2 ^ 32" by (rule le_less_trans) (simp add: BSIZE_def)
    then show ?thesis unfolding inode_off_def unat_word_ariths(2) unat_mod by simp
  qed
qed simp

lemma inode_places:
  assumes "inode_size_ok m"
  shows "ino_block m inum = Some (inode_blk m inum)"
    "\<exists>w. ino_offset m inum = Some w \<and> unat w = inode_off m inum"
    "inode_off m inum + 128 \<le> BSIZE"
    "j \<noteq> inum \<Longrightarrow> inode_blk m j = inode_blk m inum \<Longrightarrow> inode_off m j + 128 \<le> inode_off m inum \<or> inode_off m inum + 128 \<le> inode_off m j"
proof -
  obtain p where p: "0 < p" "unat (of_nat BSIZE div em_inode_size m :: u32) = p" "p * unat (em_inode_size m) = BSIZE"
    "128 \<le> unat (em_inode_size m)" "\<And>inum. inode_off m inum = unat (inum - 1) mod p * unat (em_inode_size m)"
    by (rule inode_off_eq [OF assms]) blast
  have g: "em_inode_size m \<noteq> 0 \<and> em_inode_size m \<le> of_nat BSIZE" using assms by (auto simp: inode_size_ok_def BSIZE_def)
  show "ino_block m inum = Some (inode_blk m inum)" "\<exists>w. ino_offset m inum = Some w \<and> unat w = inode_off m inum"
    using g by (simp_all add: ino_block_def ino_offset_def inode_blk_def inode_off_def ensure_def)
  have lt: "unat (j - 1) mod p < p" for j :: u32 using p(1) by simp
  have step: "x * unat (em_inode_size m) + 128 \<le> y * unat (em_inode_size m)" if "x < y" for x y
  proof -
    have "x * unat (em_inode_size m) + 128 \<le> Suc x * unat (em_inode_size m)" using p(4) by simp
    also have "\<dots> \<le> y * unat (em_inode_size m)" using that by (intro mult_le_mono1) simp
    finally show ?thesis .
  qed
  show "inode_off m inum + 128 \<le> BSIZE" unfolding p(5) using step [OF lt] p(3) by simp
  show "inode_off m j + 128 \<le> inode_off m inum \<or> inode_off m inum + 128 \<le> inode_off m j"
    if "j \<noteq> inum" "inode_blk m j = inode_blk m inum"
  proof -
    have "(j - 1) div (of_nat BSIZE div em_inode_size m) = (inum - 1) div (of_nat BSIZE div em_inode_size m)"
      using that(2) by (simp add: inode_blk_def)
    then have "unat (j - 1) div p = unat (inum - 1) div p" unfolding p(2) [symmetric] unat_div [symmetric] by simp
    moreover have "unat (j - 1) \<noteq> unat (inum - 1)" using that(1) by (simp add: word_unat_eq_iff [symmetric])
    ultimately have "unat (j - 1) mod p \<noteq> unat (inum - 1) mod p" by (metis div_mult_mod_eq)
    then show ?thesis unfolding p(5) using step by (metis linorder_neqE_nat)
  qed
qed

lemma bio_only_em: "bio_only s s' \<Longrightarrow> ext2_mounts s' = ext2_mounts s"
  by (cases s; cases s'; simp add: bio_only_def)

interpretation e2inodes: disk_table get_ext2_inode put_ext2_inode 128 "\<lambda>ino. ino" disk_form inode_blk inode_off "\<lambda>m _. inode_size_ok m"
proof unfold_locales
  show "get_ext2_inode (put_ext2_inode d k ino) k = ino" if "disk_form ino" for d k ino using that by (rule get_put_ext2_inode)
  show "put_ext2_inode d k ino j = d j" if "j < k \<or> k + 128 \<le> j" for j k d ino using that by (rule put_ext2_inode_other)
  show "get_ext2_inode d k = get_ext2_inode e k" if "\<And>i. k \<le> i \<Longrightarrow> i < k + 128 \<Longrightarrow> d i = e i" for k d e
    using that by (rule get_ext2_inode_cong)
qed (use inode_places(4) in blast)

text \<open>C13: The inode table of ext2 is a table.  On a mount with a supported inode size, \<open>write_inode\<close> succeeds and changes the inode
  with the given number and no other, and a \<open>read_inode\<close> of that number then returns exactly the inode that was written.
  The inode goes to the disk, not only to the cache.\<close>

theorem ext2_inode_roundtrip:
  fixes s :: "'a vfs_scheme"
  assumes "holds s P {}" "\<exists>b<NBUF. P b = 0" "inode_size_ok (ext2_mounts s mp)" "disk_form ino"
    and "on_disk (em_dev (ext2_mounts s mp)) (inode_blk (ext2_mounts s mp) inum)"
  shows "\<exists>s'. write_inode s mp inum ino = Some (0, s') \<and> holds s' P {}
    \<and> disk_inode s' (ext2_mounts s mp) = (disk_inode s (ext2_mounts s mp))(inum := ino)
    \<and> get_ext2_inode (disk s' (em_dev (ext2_mounts s mp)) (inode_blk (ext2_mounts s mp) inum)) (inode_off (ext2_mounts s mp) inum) = ino
    \<and> (\<exists>s''. read_inode s' mp inum = Some (Some ino, s'') \<and> holds s'' P {} \<and> cview s'' = cview s')"
proof -
  let ?m = "ext2_mounts s mp"
  let ?d = "em_dev ?m" and ?n = "inode_blk ?m inum" and ?k = "inode_off ?m inum"
  let ?X = "put_ext2_inode (cview s ?d ?n) ?k ino"
  note pl = inode_places [OF assms(3)]
  obtain w where w: "ino_offset ?m inum = Some w" "unat w = ?k" using pl(2) by blast
  have room: "\<exists>b<NBUF. b \<notin> {} \<and> P b = 0" using assms(2) by simp
  obtain b t1 t2 s' where 1: "bread s ?d ?n = Some (Some b, t1)" "bdata t1 b = cview s ?d ?n" "bwrite (set_data t1 b ?X) b = Some t2"
    "brelse t2 b = Some s'" "holds s' P {}" "cview s' = (cview s)(?d := (cview s ?d)(?n := ?X))"
    "disk s' = (disk s)(?d := (disk s ?d)(?n := ?X))" "bio_only s s'"
    by (rule raw_poke [OF assms(1,5) _ room, of ?X]) auto
  have m: "ext2_mounts s' = ext2_mounts s" using 1(8) by (rule bio_only_em)
  have wr: "write_inode s mp inum ino = Some (0, s')"
    using 1(1-4) w pl(1,3) by (simp add: write_inode_def)
  have gp: "get_ext2_inode ?X ?k = ino" by (rule get_put_ext2_inode [OF assms(4)])
  have "cview s' ?d = (cview s ?d)(?n := ?X)" by (simp add: 1(6))
  then have dj: "disk_inode s' ?m j = ((disk_inode s ?m)(inum := ino)) j" for j
    using e2inodes.table_update [OF assms(3,3,4), of "cview s' ?d" "cview s ?d" inum j] by (simp add: disk_inode_def)
  have od': "on_disk (em_dev (ext2_mounts s' mp)) (inode_blk (ext2_mounts s' mp) inum)" using assms(5) m by simp
  obtain c u1 s'' where 2: "bread s' ?d ?n = Some (Some c, u1)" "bdata u1 c = cview s' ?d ?n" "brelse u1 c = Some s''" "holds s'' P {}"
    "cview s'' = cview s'"
    by (rule raw_peek [OF 1(5) assms(5) _ room]) auto
  have "cview s' ?d ?n = ?X" by (simp add: 1(6))
  then have "read_inode s' mp inum = Some (Some ino, s'')"
    using 2(1-3) w pl(1) gp by (simp add: read_inode_def m)
  moreover have "disk_inode s' ?m = (disk_inode s ?m)(inum := ino)" by (rule ext) (rule dj)
  moreover have "get_ext2_inode (disk s' ?d ?n) ?k = ino" using gp by (simp add: 1(7))
  ultimately show ?thesis using wr 1(5) 2(4,5) by blast
qed

subsection \<open>The block bitmap\<close>

text \<open>Whether bit \<open>i\<close> of the bitmap in block \<open>n\<close> of the volume is set.\<close>

definition bitmap_bit :: "'a vfs_scheme \<Rightarrow> ext2_mount_priv \<Rightarrow> u32 \<Rightarrow> nat \<Rightarrow> bool" where
  "bitmap_bit s m n i \<longleftrightarrow> bit (cview s (em_dev m) n (i div 8)) (i mod 8)"

definition first_clear :: "'a vfs_scheme \<Rightarrow> ext2_mount_priv \<Rightarrow> u32 \<Rightarrow> nat \<Rightarrow> nat option" where
  "first_clear s m n lim = scan (\<lambda>i. \<not> bitmap_bit s m n i) 1 lim"

lemma em_lock_frame [simp]:
  "cview (upd_em mp f s) = cview s" "holds (upd_em mp f s) P L = holds s P L" "disk (upd_em mp f s) = disk s"
  "ext2_mounts (upd_em mp f s) mp = f (ext2_mounts s mp)" "bdata (upd_em mp f s) b = bdata s b" "cached (upd_em mp f s) = cached s"
proof -
  show "cview (upd_em mp f s) = cview s" by (simp add: cview_def cached_def upd_em_def fun_eq_iff split: option.split)
qed (simp_all add: upd_em_def holds_def bio_inv_def buf_ok_def cached_def fun_eq_iff)

lemma set_bit_byte: "bit (((x :: buffer)(i div 8 := x (i div 8) OR bit_mask i)) (j div 8)) (j mod 8) \<longleftrightarrow> j = i \<or> bit (x (j div 8)) (j mod 8)"
proof (cases "j div 8 = i div 8")
  case True
  then have "j mod 8 = i mod 8 \<longleftrightarrow> j = i" by (metis div_mult_mod_eq)
  then show ?thesis using True by (auto simp: bit_or_mask)
next
  case False
  then show ?thesis by auto
qed

text \<open>What \<open>bitmap_alloc\<close> does: the first clear bit from 1 on is set and returned.\<close>

lemma bitmap_alloc_ok:
  fixes s :: "'a vfs_scheme"
  assumes h: "holds s P {}" and p: "\<exists>b<NBUF. P b = 0" and od: "on_disk (em_dev (ext2_mounts s mp)) bb"
    and lk: "\<not> locked (em_lock (ext2_mounts s mp))"
  shows "\<exists>s'. bitmap_alloc s mp bb nbits base = Some (case first_clear s (ext2_mounts s mp) bb (min (unat nbits) (BSIZE * 8)) of
        None \<Rightarrow> -1 | Some i \<Rightarrow> int i + base, s')
    \<and> holds s' P {} \<and> ext2_mounts s' mp = (ext2_mounts s mp)\<lparr>em_lock := \<lparr>locked = False, lk_pid = 0\<rparr>\<rparr>
    \<and> cview s' = (case first_clear s (ext2_mounts s mp) bb (min (unat nbits) (BSIZE * 8)) of
         None \<Rightarrow> cview s
       | Some i \<Rightarrow> (cview s)(em_dev (ext2_mounts s mp) := (cview s (em_dev (ext2_mounts s mp)))(bb :=
           (cview s (em_dev (ext2_mounts s mp)) bb)(i div 8 := cview s (em_dev (ext2_mounts s mp)) bb (i div 8) OR bit_mask i))))"
proof -
  let ?m = "ext2_mounts s mp"
  let ?d = "em_dev ?m"
  have room: "\<exists>b<NBUF. b \<notin> {} \<and> P b = 0" using p by simp
  obtain b s1 where 1: "bread s ?d bb = Some (Some b, s1)" "holds s1 P {b}" "cached s1 b ?d bb" "bdata s1 b = cview s ?d bb"
    "cview s1 = cview s" "disk s1 = disk s" "bio_only s s1" "cached s b ?d bb \<or> P b = 0 \<and> (\<forall>a. \<not> cached s a ?d bb)"
    using bread_holds [OF h od] room by blast
  have m1: "ext2_mounts s1 = ext2_mounts s" and pid: "p_pid s1 = p_pid s" using 1(7) bio_only_em bio_only_more(2) by blast+
  define t where "t = upd_em mp (em_lock_update (\<lambda>_. \<lparr>locked = True, lk_pid = p_pid s\<rparr>)) s1"
  have a: "acquire_em s1 mp = Some t" using lk by (simp add: acquire_em_def acquiresleep_def t_def m1 pid)
  have t: "holds t P {b}" "cached t b ?d bb" "bdata t b = cview s ?d bb" "cview t = cview s" "disk t = disk s"
    "ext2_mounts t mp = ?m\<lparr>em_lock := \<lparr>locked = True, lk_pid = p_pid s\<rparr>\<rparr>"
    using 1(2-6) m1 by (simp_all add: t_def)
  have sc: "scan (\<lambda>i. cview s ?d bb (i div 8) AND bit_mask i = 0) 1 lim = first_clear s ?m bb lim" for lim
    unfolding first_clear_def bitmap_bit_def bit_mask_and ..
  show ?thesis
  proof (cases "first_clear s ?m bb (min (unat nbits) (BSIZE * 8))")
    case None
    have cl: "P b = 0 \<Longrightarrow> bdata (release_em t mp) b = disk (release_em t mp) ?d bb"
      using clean_block [OF h od _ 1(8)] t(3,5) by (simp add: release_em_def)
    obtain s' where 2: "brelse (release_em t mp) b = Some s'" "holds s' P ({b} - {b})" "cview s' = cview (release_em t mp)"
      "bio_only (release_em t mp) s'"
      using brelse_holds [of "release_em t mp" P "{b}" b ?d bb] t(1,2) cl by (auto simp: release_em_def)
    have "ext2_mounts s' mp = ?m\<lparr>em_lock := \<lparr>locked = False, lk_pid = 0\<rparr>\<rparr>"
      using bio_only_em [OF 2(4)] t(6) by (simp add: release_em_def releasesleep_def)
    then show ?thesis
      using 1(1) a 2 None t(3,4) by (simp add: bitmap_alloc_def sc Let_def del: One_nat_def) (simp add: release_em_def)
  next
    case (Some i)
    let ?X = "(cview s ?d bb)(i div 8 := cview s ?d bb (i div 8) OR bit_mask i)"
    obtain t2 where 2: "bwrite (set_data t b ?X) b = Some t2" "holds t2 P {b}" "cview t2 = (cview t)(?d := (cview t ?d)(bb := ?X))"
      "disk t2 = (disk t)(?d := (disk t ?d)(bb := ?X))" "bio_only t t2" "\<And>a. bdata t2 a = (if a = b then ?X else bdata t a)"
      "\<And>a e k. cached t2 a e k \<longleftrightarrow> cached t a e k"
      by (rule raw_store [OF t(1) _ t(2), of ?X]) blast+
    have cl: "P b = 0 \<Longrightarrow> bdata (release_em t2 mp) b = disk (release_em t2 mp) ?d bb" using 2(4,6) by (simp add: release_em_def)
    obtain s' where 3: "brelse (release_em t2 mp) b = Some s'" "holds s' P ({b} - {b})" "cview s' = cview (release_em t2 mp)"
      "bio_only (release_em t2 mp) s'"
      using brelse_holds [of "release_em t2 mp" P "{b}" b ?d bb] t(2) 2(2,7) cl by (auto simp: release_em_def)
    have "ext2_mounts s' mp = ?m\<lparr>em_lock := \<lparr>locked = False, lk_pid = 0\<rparr>\<rparr>"
      using bio_only_em [OF 3(4)] bio_only_em [OF 2(5)] t(6) by (simp add: release_em_def releasesleep_def)
    then show ?thesis
      using 1(1) a 2(1,3) 3 Some t(3,4) by (simp add: bitmap_alloc_def sc Let_def del: One_nat_def) (simp add: release_em_def)
  qed
qed

lemma ext2_count_ok:
  fixes s :: "'a vfs_scheme"
  assumes h: "holds s P {}" and p: "\<exists>b<NBUF. P b = 0" and od: "on_disk (em_dev (ext2_mounts s mp)) 1"
    and lk: "\<not> locked (em_lock (ext2_mounts s mp))" and k: "k + 4 \<le> BSIZE"
  obtains s' where "ext2_count s mp k d = Some s'" "holds s' P {}" "\<not> locked (em_lock (ext2_mounts s' mp))"
    "le32 (cview s' (em_dev (ext2_mounts s mp)) 1) k = le32 (em_sb (ext2_mounts s mp)) k + d"
    "\<And>e n. e \<noteq> em_dev (ext2_mounts s mp) \<or> n \<noteq> 1 \<Longrightarrow> cview s' e n = cview s e n"
proof -
  let ?m = "ext2_mounts s mp"
  let ?d = "em_dev ?m"
  define t where "t = upd_em mp (em_sb_update (\<lambda>b. put32 b k (le32 b k + d)))
    (upd_em mp (em_lock_update (\<lambda>_. \<lparr>locked = True, lk_pid = p_pid s\<rparr>)) s)"
  have t: "holds t P {}" "cview t = cview s" "ext2_mounts t mp = ?m\<lparr>em_lock := \<lparr>locked = True, lk_pid = p_pid s\<rparr>,
      em_sb := put32 (em_sb ?m) k (le32 (em_sb ?m) k + d)\<rparr>" using h by (simp_all add: t_def)
  let ?X = "copy_into (cview t ?d 1) 0 (em_sb (ext2_mounts t mp)) 0 BSIZE"
  have od': "on_disk (em_dev (ext2_mounts t mp)) 1" using od t(3) by simp
  have room: "\<exists>b<NBUF. b \<notin> {} \<and> P b = 0" using p by simp
  obtain b t1 t2 s1 where 1: "bread t ?d 1 = Some (Some b, t1)" "bdata t1 b = cview t ?d 1" "bwrite (set_data t1 b ?X) b = Some t2"
    "brelse t2 b = Some s1" "holds s1 P {}" "cview s1 = (cview t)(?d := (cview t ?d)(1 := ?X))" "bio_only t s1"
    by (rule raw_poke [OF t(1) od _ room, of ?X]) auto
  have m: "ext2_mounts s1 = ext2_mounts t" using 1(7) by (rule bio_only_em)
  have dv: "em_dev (ext2_mounts t mp) = ?d" using t(3) by simp
  have m1: "ext2_mounts t1 = ext2_mounts t" using bio_only_em [OF bread_frame [OF 1(1)]] .
  have "ext2_count s mp k d = Some (release_em s1 mp)"
    using lk 1(1-4) unfolding ext2_count_def acquire_em_def acquiresleep_def
    by (simp add: t_def [symmetric] ext2_sb_write_def dv m1)
  moreover have "holds (release_em s1 mp) P {}" "cview (release_em s1 mp) = cview s1"
    "\<not> locked (em_lock (ext2_mounts (release_em s1 mp) mp))"
    using 1(5) by (simp_all add: release_em_def releasesleep_def)
  moreover have "le32 (cview s1 ?d 1) k = le32 (em_sb ?m) k + d"
    using k by (simp add: 1(6) le32_copy_into t(3))
  ultimately show ?thesis using that [of "release_em s1 mp"] by (simp add: 1(6) t(2))
qed

text \<open>C14: \<open>ext2_balloc\<close> takes the first clear bit of the block bitmap from bit 1 on, sets it and no other, returns its index, and
  writes a free-block count reduced by one to the super block; when every bit in range is set it returns 0 and changes
  nothing on the disk.\<close>

theorem ext2_balloc_correct:
  fixes s :: "'a vfs_scheme"
  assumes "holds s P {}" "\<exists>b<NBUF. P b = 0" "\<not> locked (em_lock (ext2_mounts s mp))"
    and "on_disk (em_dev (ext2_mounts s mp)) (bg_block_bitmap (em_bg (ext2_mounts s mp)))"
    and "bg_block_bitmap (em_bg (ext2_mounts s mp)) \<noteq> 1"
  shows "\<exists>r s'. ext2_balloc s mp = Some (r, s') \<and> holds s' P {} \<and> \<not> locked (em_lock (ext2_mounts s' mp))
    \<and> (case first_clear s (ext2_mounts s mp) (bg_block_bitmap (em_bg (ext2_mounts s mp)))
            (min (unat (s_blocks_count (em_sb (ext2_mounts s mp)))) (BSIZE * 8)) of
         None \<Rightarrow> r = 0 \<and> cview s' = cview s
       | Some i \<Rightarrow> unat r = i
           \<and> (\<forall>j. bitmap_bit s' (ext2_mounts s mp) (bg_block_bitmap (em_bg (ext2_mounts s mp))) j \<longleftrightarrow>
                 j = i \<or> bitmap_bit s (ext2_mounts s mp) (bg_block_bitmap (em_bg (ext2_mounts s mp))) j)
           \<and> s_free_blocks_count (cview s' (em_dev (ext2_mounts s mp)) 1) = s_free_blocks_count (em_sb (ext2_mounts s mp)) - 1)"
proof -
  let ?m = "ext2_mounts s mp"
  let ?d = "em_dev ?m" and ?bb = "bg_block_bitmap (em_bg ?m)" and ?n = "s_blocks_count (em_sb ?m)"
  let ?c = "first_clear s ?m ?bb (min (unat ?n) (BSIZE * 8))"
  note ba = bitmap_alloc_ok [OF assms(1,2,4,3), of ?n 0]
  show ?thesis
  proof (cases ?c)
    case None
    then show ?thesis using ba by (auto simp: ext2_balloc_def)
  next
    case (Some i)
    from ba Some obtain s1 where 1: "bitmap_alloc s mp ?bb ?n 0 = Some (int i, s1)" "holds s1 P {}"
      "ext2_mounts s1 mp = ?m\<lparr>em_lock := \<lparr>locked = False, lk_pid = 0\<rparr>\<rparr>"
      "cview s1 = (cview s)(?d := (cview s ?d)(?bb := (cview s ?d ?bb)(i div 8 := cview s ?d ?bb (i div 8) OR bit_mask i)))"
      by auto
    have i: "i < unat ?n" using scan_SomeD [OF Some [unfolded first_clear_def]] by simp
    have lk: "\<not> locked (em_lock (ext2_mounts s1 mp))" and od: "on_disk (em_dev (ext2_mounts s1 mp)) 1"
      using 1(3) assms(4) by (auto simp: on_disk_def RAMDISK_BLOCKS_def)
    have k: "(12 :: nat) + 4 \<le> BSIZE" by (simp add: BSIZE_def)
    obtain s2 where 2: "ext2_count s1 mp 12 (-1) = Some s2" "holds s2 P {}" "\<not> locked (em_lock (ext2_mounts s2 mp))"
      "le32 (cview s2 (em_dev (ext2_mounts s1 mp)) 1) 12 = le32 (em_sb (ext2_mounts s1 mp)) 12 + (-1)"
      "\<And>e n. e \<noteq> em_dev (ext2_mounts s1 mp) \<or> n \<noteq> 1 \<Longrightarrow> cview s2 e n = cview s1 e n"
      by (rule ext2_count_ok [OF 1(2) assms(2) od lk k, of "-1"]) blast
    have "ext2_balloc s mp = Some (word_of_int (int i), s2)" using 1(1) 2(1) by (simp add: ext2_balloc_def)
    moreover have "unat (word_of_int (int i) :: u32) = i"
      using i unsigned_less [of ?n, where 'a = nat] by (simp add: unat_of_nat)
    moreover have "bitmap_bit s2 ?m ?bb j \<longleftrightarrow> j = i \<or> bitmap_bit s ?m ?bb j" for j
      using 2(5) [of ?d ?bb] assms(5) set_bit_byte [of "cview s ?d ?bb" i j] by (simp add: bitmap_bit_def 1(4))
    moreover have "s_free_blocks_count (cview s2 ?d 1) = s_free_blocks_count (em_sb ?m) - 1"
      using 2(4) 1(3) by (simp add: s_free_blocks_count_def)
    ultimately show ?thesis using 2(2,3) Some by auto
  qed
qed

text \<open>
  On disk bit \<open>j\<close> of the block bitmap stands for block \<open>s_first_data_block + j\<close>, and \<open>s_first_data_block\<close> is 1 on a volume with
  blocks of 1024 bytes.
\<close>

definition s_first_data_block :: "buffer \<Rightarrow> u32" where
  "s_first_data_block b = le32 b 20"

definition ext2_in_use :: "'a vfs_scheme \<Rightarrow> ext2_mount_priv \<Rightarrow> nat \<Rightarrow> bool" where
  "ext2_in_use s m n \<longleftrightarrow> bitmap_bit s m (bg_block_bitmap (em_bg m)) (n - unat (s_first_data_block (em_sb m)))"

text \<open>C36: \<open>ext2_balloc\<close> takes a bit index for a block number.  On a volume whose first data block is 1 and whose group descriptor
  block, block 2, is in use, every block that \<open>ext2_balloc\<close> hands out was in use before: the first clear bit \<open>r\<close> stands for
  block \<open>r + 1\<close>, and the bit of block \<open>r\<close> is set.\<close>

theorem ext2_balloc_hands_out_used_block:
  fixes s :: "'a vfs_scheme"
  assumes "holds s P {}" "\<exists>b<NBUF. P b = 0" "\<not> locked (em_lock (ext2_mounts s mp))"
    and "on_disk (em_dev (ext2_mounts s mp)) (bg_block_bitmap (em_bg (ext2_mounts s mp)))"
    and "s_first_data_block (em_sb (ext2_mounts s mp)) = 1" "ext2_in_use s (ext2_mounts s mp) 2"
    and "ext2_balloc s mp = Some (r, s')" "r \<noteq> 0"
  shows "ext2_in_use s (ext2_mounts s mp) (unat r)"
proof -
  let ?m = "ext2_mounts s mp"
  let ?bb = "bg_block_bitmap (em_bg ?m)" and ?n = "s_blocks_count (em_sb ?m)"
  let ?c = "first_clear s ?m ?bb (min (unat ?n) (BSIZE * 8))"
  note ba = bitmap_alloc_ok [OF assms(1,2,4,3), of ?n 0]
  obtain i where i: "?c = Some i" using ba assms(7,8) by (cases ?c) (auto simp: ext2_balloc_def)
  note c = scan_SomeD [OF i [unfolded first_clear_def]]
  have "r = word_of_int (int i)" using ba assms(7) i by (auto simp: ext2_balloc_def split: Option.bind_splits)
  then have r: "unat r = i" using c unsigned_less [of ?n, where 'a = nat] by (simp add: unat_of_nat)
  have "bitmap_bit s ?m ?bb 1" using assms(5,6) by (simp add: ext2_in_use_def)
  then have "1 < i" using c by (metis nat_less_le)
  then have "1 \<le> i - 1 \<and> i - 1 < i" by simp
  then have "bitmap_bit s ?m ?bb (i - 1)" using c by blast
  then show ?thesis using assms(5) r by (simp add: ext2_in_use_def)
qed

subsection \<open>A concrete volume\<close>

text \<open>A volume on device 2 whose bitmap, in block 3, has bits 0 to 7 set.\<close>

definition ext2_mount_demo :: ext2_mount_priv where
  "ext2_mount_demo = \<lparr>em_sb = (\<lambda>_. 0)(4 := 100, 12 := 50, 20 := 1),
     em_bg = (get_bgdesc (\<lambda>_. 0))\<lparr>bg_block_bitmap := 3, bg_inode_table := 5\<rparr>, em_dev = 2, em_inode_size = 128,
     em_lock = initsleeplock, em_mnt = 0\<rparr>"

definition ext2_demo :: kstate where
  "ext2_demo = disk_demo (\<lambda>d n. (\<lambda>_. 0)(0 := if d = 2 \<and> n = 3 then 0xFF else 0)) ext2_mount_demo no_fat32"

lemma ext2_demo_ready:
  "holds ext2_demo (\<lambda>b. if b = 0 then 1 else 0) {}" "\<exists>b<NBUF. (if b = 0 then 1 else 0) = (0 :: nat)" "ext2_mounts ext2_demo mp = ext2_mount_demo"
  unfolding ext2_demo_def by (rule disk_demo_holds) (auto simp: NBUF_def intro!: exI [of _ 1])

lemma ext2_mount_demo_ok:
  "inode_size_ok ext2_mount_demo" "\<not> locked (em_lock ext2_mount_demo)" "on_disk (em_dev ext2_mount_demo) (bg_block_bitmap (em_bg ext2_mount_demo))"
  "bg_block_bitmap (em_bg ext2_mount_demo) \<noteq> 1" "s_first_data_block (em_sb ext2_mount_demo) = 1" "s_blocks_count (em_sb ext2_mount_demo) = 100"
  "on_disk (em_dev ext2_mount_demo) (inode_blk ext2_mount_demo 12)" "s_free_blocks_count (em_sb ext2_mount_demo) = 50"
  by (simp_all add: ext2_mount_demo_def inode_size_ok_def initsleeplock_def on_disk_def HAL_NDISK_def RAMDISK_BLOCKS_def
      s_first_data_block_def s_blocks_count_def s_free_blocks_count_def le32_def inode_blk_def BSIZE_def)

lemma ext2_demo_bit: "bitmap_bit ext2_demo ext2_mount_demo (bg_block_bitmap (em_bg ext2_mount_demo)) i \<longleftrightarrow> i < 8"
proof -
  have "cview ext2_demo 2 3 = (\<lambda>_. 0)(0 := 0xFF)" unfolding ext2_demo_def by (subst disk_demo_cview) simp_all
  moreover have "bit (0xFF :: byte) (i mod 8)"
  proof -
    have "i mod 8 \<in> {0, 1, 2, 3, 4, 5, 6, 7}" by (simp add: mod_less_divisor) presburger
    then show ?thesis by auto
  qed
  ultimately show ?thesis by (auto simp: bitmap_bit_def ext2_mount_demo_def)
qed

lemma ext2_demo_first: "first_clear ext2_demo ext2_mount_demo (bg_block_bitmap (em_bg ext2_mount_demo)) 100 = Some 8"
  unfolding first_clear_def ext2_demo_bit by (rule scan_SomeI) auto

theorem ext2_inode_roundtrip_witness:
  "disk_form zero_ext2_inode \<and> (\<exists>s' s''. write_inode ext2_demo 7 12 zero_ext2_inode = Some (0, s') \<and> read_inode s' 7 12 = Some (Some zero_ext2_inode, s''))"
proof -
  have "disk_form zero_ext2_inode" by (simp add: disk_form_def zero_ext2_inode_def get_ext2_inode_def)
  then show ?thesis
    using ext2_inode_roundtrip [OF ext2_demo_ready(1,2), of 7 zero_ext2_inode 12, unfolded ext2_demo_ready(3), OF ext2_mount_demo_ok(1) _ ext2_mount_demo_ok(7)]
    by blast
qed

theorem ext2_balloc_correct_witness:
  "\<exists>r s'. ext2_balloc ext2_demo 7 = Some (r, s') \<and> unat r = 8 \<and> s_free_blocks_count (cview s' 2 1) = 49"
proof -
  have l: "min (unat (s_blocks_count (em_sb ext2_mount_demo))) (BSIZE * 8) = 100" and d: "em_dev ext2_mount_demo = 2"
    by (simp_all add: ext2_mount_demo_ok(6) BSIZE_def) (simp add: ext2_mount_demo_def)
  show ?thesis
    using ext2_balloc_correct [OF ext2_demo_ready(1,2), of 7, unfolded ext2_demo_ready(3), OF ext2_mount_demo_ok(2-4)]
    unfolding l ext2_demo_first d by (auto simp: ext2_mount_demo_ok(8))
qed

theorem ext2_balloc_hands_out_used_block_witness:
  "\<exists>r s'. ext2_balloc ext2_demo 7 = Some (r, s') \<and> r \<noteq> 0 \<and> ext2_in_use ext2_demo ext2_mount_demo (unat r)"
proof -
  have l: "min (unat (s_blocks_count (em_sb ext2_mount_demo))) (BSIZE * 8) = 100" by (simp add: ext2_mount_demo_ok(6) BSIZE_def)
  have u: "ext2_in_use ext2_demo ext2_mount_demo 2" by (simp add: ext2_in_use_def ext2_demo_bit ext2_mount_demo_ok(5))
  have k: "(12 :: nat) + 4 \<le> BSIZE" by (simp add: BSIZE_def)
  obtain s1 where 1: "bitmap_alloc ext2_demo 7 (bg_block_bitmap (em_bg ext2_mount_demo)) (s_blocks_count (em_sb ext2_mount_demo)) 0 = Some (8, s1)"
    "holds s1 (\<lambda>b. if b = 0 then 1 else 0) {}" "ext2_mounts s1 7 = ext2_mount_demo\<lparr>em_lock := \<lparr>locked = False, lk_pid = 0\<rparr>\<rparr>"
    using bitmap_alloc_ok [OF ext2_demo_ready(1,2), of 7 _ "s_blocks_count (em_sb ext2_mount_demo)" 0, unfolded ext2_demo_ready(3),
        OF ext2_mount_demo_ok(3,2)] unfolding l ext2_demo_first by auto
  have "on_disk (em_dev (ext2_mounts s1 7)) 1" "\<not> locked (em_lock (ext2_mounts s1 7))"
    using ext2_mount_demo_ok(3) by (auto simp: 1(3) on_disk_def RAMDISK_BLOCKS_def)
  then obtain s2 where "ext2_count s1 7 12 (-1) = Some s2"
    by (rule ext2_count_ok [OF 1(2) ext2_demo_ready(2) _ _ k, of 7 "-1"]) blast
  then have b: "ext2_balloc ext2_demo 7 = Some (8, s2)" using 1(1) by (simp add: ext2_balloc_def ext2_demo_ready(3))
  have "ext2_in_use ext2_demo ext2_mount_demo (unat (8 :: u32))"
    by (rule ext2_balloc_hands_out_used_block [OF ext2_demo_ready(1,2), of 7, unfolded ext2_demo_ready(3), OF ext2_mount_demo_ok(2,3,5) u b]) simp
  then show ?thesis using b by (intro exI [of _ 8]) simp
qed

end
