(* ===== verification/Ext2_Dirs.thy ===== *)
theory Ext2_Dirs
  imports Ext2_Meta
begin

text \<open>
  Directory blocks of \<^verbatim>\<open>kernel/ext2.c\<close> as finite maps from names to inode numbers: \<open>ext2_dir_lookup\<close> looks a name up in
  the map and \<open>ext2_dir_add\<close> extends it, by reusing a deleted entry or by splitting an entry that is longer than it has to
  be.
\<close>

definition ed_name_list :: "buffer \<Rightarrow> nat \<Rightarrow> cstring" where
  "ed_name_list d k = map (ed_name d k) [0..<ed_name_len d k]"

abbreviation ed_len :: "buffer \<Rightarrow> nat \<Rightarrow> nat" where
  "ed_len d k \<equiv> unat (ed_rec_len d k)"

text \<open>The entries at offsets \<open>es\<close> tile the block from offset \<open>k\<close> on: each is long enough for its header and name, which has no
  NUL, and is followed by the next.\<close>

fun dir_tiles :: "buffer \<Rightarrow> nat \<Rightarrow> nat list \<Rightarrow> bool" where
  "dir_tiles d k [] \<longleftrightarrow> k = BSIZE"
| "dir_tiles d k (e # es) \<longleftrightarrow> e = k \<and> unat (ed_space (ed_name_len d k)) \<le> ed_len d k \<and> k + ed_len d k \<le> BSIZE
     \<and> wf_cstring (ed_name_list d k) \<and> dir_tiles d (k + ed_len d k) es"

definition ed_live :: "buffer \<Rightarrow> nat \<Rightarrow> bool" where
  "ed_live d e \<longleftrightarrow> ed_inode d e \<noteq> 0 \<and> 0 < ed_name_len d e"

definition dir_map :: "buffer \<Rightarrow> nat list \<Rightarrow> (cstring \<times> u32) list" where
  "dir_map d es = map (\<lambda>e. (ed_name_list d e, ed_inode d e)) (filter (ed_live d) es)"

subsection \<open>Lengths and names\<close>

lemma align_4: "w AND NOT 3 = push_bit 2 (drop_bit 2 (w :: u32))"
proof -
  have m: "(3 :: u32) = mask 2" by (simp add: mask_eq_exp_minus_1)
  show ?thesis unfolding m
    by (intro bit_word_eqI) (auto simp: bit_push_bit_iff bit_drop_bit_eq bit_and_iff bit_not_iff bit_mask_iff not_less simp del: add_2_eq_Suc)
qed

lemma ed_space_bounds:
  assumes "n \<le> 255"
  shows "8 + n \<le> unat (ed_space n)" "unat (ed_space n) \<le> 11 + n"
proof -
  have u: "unat (of_nat (11 + n) :: u32) = 11 + n" using assms by (intro unat_of_nat_small) simp
  have "unat (drop_bit 2 (of_nat (11 + n) :: u32)) = (11 + n) div 4"
    unfolding unat_drop_bit_eq u by (simp add: drop_bit_eq_div)
  moreover have "ed_space n = push_bit 2 (drop_bit 2 (of_nat (11 + n)))"
    unfolding ed_space_def align_4 by (simp add: add.commute)
  ultimately have "unat (ed_space n) = (11 + n) div 4 * 4"
    using assms unfolding push_bit_eq_mult by (simp add: unat_word_ariths)
  then show "8 + n \<le> unat (ed_space n)" "unat (ed_space n) \<le> 11 + n" by auto
qed

lemma ed_name_len_le: "ed_name_len d k \<le> 255"
  using unsigned_less [of "d (k + 6)", where 'a = nat] by (simp add: ed_name_len_def)

lemma tile_room: "unat (ed_space (ed_name_len d k)) \<le> ed_len d k \<Longrightarrow> k + 8 + ed_name_len d k \<le> k + ed_len d k"
  using ed_space_bounds(1) [OF ed_name_len_le, of d k] by linarith

lemma ed_matches_name:
  assumes "wf_cstring (ed_name_list d k)" "wf_cstring name"
  shows "ed_matches d k (cs name) \<longleftrightarrow> ed_name_list d k = name"
proof -
  let ?n = "ed_name_len d k"
  have nz: "ed_name d k i \<noteq> 0" if "i < ?n" for i
    using wf_cstring_nth [OF assms(1), of i] that by (simp add: ed_name_list_def)
  then have s: "strncmp (ed_name d k) (cs name) ?n = 0 \<longleftrightarrow> (\<forall>i<?n. ed_name d k i = cs name i)"
    by (auto simp: strncmp_zero_iff)
  show ?thesis
  proof
    assume "ed_matches d k (cs name)"
    then have m: "\<And>i. i < ?n \<Longrightarrow> ed_name d k i = cs name i" "cs name ?n = 0" using s by (auto simp: ed_matches_def)
    then have "length name = ?n"
      using wf_cstring_nth [OF assms(2), of ?n] m(1) [of "length name"] nz [of "length name"]
      by (cases "?n < length name"; cases "length name < ?n") auto
    then show "ed_name_list d k = name" using m(1) by (intro nth_equalityI) (simp_all add: ed_name_list_def)
  next
    assume e: "ed_name_list d k = name"
    then have "length name = ?n" by (auto simp: ed_name_list_def)
    then show "ed_matches d k (cs name)" using e s by (auto simp: ed_matches_def ed_name_list_def)
  qed
qed

subsection \<open>Lookup\<close>

lemma tiles_pos: "unat (ed_space (ed_name_len d k)) \<le> ed_len d k \<Longrightarrow> 0 < ed_len d k"
  using ed_space_bounds(1) [OF ed_name_len_le, of d k] by linarith

lemma tiles_offset:
  assumes "k + ed_len d k \<le> BSIZE"
  shows "off + ucast (ed_rec_len d k) + of_nat (BSIZE - (k + ed_len d k)) = off + (of_nat (BSIZE - k) :: u32)"
proof -
  have "BSIZE - k = ed_len d k + (BSIZE - (k + ed_len d k))" using assms by simp
  then have "(of_nat (BSIZE - k) :: u32) = of_nat (ed_len d k) + of_nat (BSIZE - (k + ed_len d k))" by (metis of_nat_add)
  then show ?thesis by (simp add: add.assoc)
qed

lemma lookup_tiles:
  assumes "dir_tiles d k es" "wf_cstring name"
  shows "ext2_lookup_block d (cs name) k off = (case map_of (dir_map d es) name of
      Some i \<Rightarrow> Found i | None \<Rightarrow> End_at (off + of_nat (BSIZE - k)))"
  using assms(1)
proof (induction es arbitrary: k off)
  case Nil
  then show ?case by (simp add: ext2_lookup_block.simps dir_map_def)
next
  case (Cons e es)
  then have t: "e = k" "unat (ed_space (ed_name_len d k)) \<le> ed_len d k" "k + ed_len d k \<le> BSIZE" "wf_cstring (ed_name_list d k)"
    "dir_tiles d (k + ed_len d k) es" by auto
  have p: "0 < ed_len d k" by (rule tiles_pos [OF t(2)])
  then have k: "k < BSIZE" "ed_rec_len d k \<noteq> 0" using t(3) by auto
  note m = ed_matches_name [OF t(4) assms(2)]
  show ?case
  proof (cases "ed_live d k \<and> ed_name_list d k = name")
    case True
    then show ?thesis using k m t(1) by (simp add: ext2_lookup_block.simps [of d] dir_map_def ed_live_def)
  next
    case False
    have "map_of (dir_map d (e # es)) name = map_of (dir_map d es) name" using False t(1) by (auto simp: dir_map_def)
    moreover have "ext2_lookup_block d (cs name) k off =
        ext2_lookup_block d (cs name) (k + ed_len d k) (off + ucast (ed_rec_len d k))"
      using False k m by (subst ext2_lookup_block.simps) (auto simp: ed_live_def)
    ultimately show ?thesis using Cons.IH [OF t(5), of "off + ucast (ed_rec_len d k)"] by (simp add: tiles_offset [OF t(3)] split: option.split)
  qed
qed

subsection \<open>Adding an entry\<close>

lemma tiles_ge: "dir_tiles d k es \<Longrightarrow> x \<in> set es \<Longrightarrow> k \<le> x"
  by (induction es arbitrary: k) fastforce+

lemma tiles_append:
  "dir_tiles d k (A @ e # B) \<Longrightarrow> dir_tiles d e (e # B) \<and> k \<le> e \<and> (\<forall>x\<in>set A. x + ed_len d x \<le> e \<and> x + 8 + ed_name_len d x \<le> e)"
proof (induction A arbitrary: k)
  case (Cons x A)
  then have "dir_tiles d (k + ed_len d k) (A @ e # B)" "x = k" "unat (ed_space (ed_name_len d k)) \<le> ed_len d k" by auto
  with Cons.IH [OF this(1)] tile_room [OF this(3)] show ?case by auto
qed auto

text \<open>Entries before and after the bytes that change keep their fields.\<close>

lemma fields_cong:
  assumes "\<And>i. x \<le> i \<Longrightarrow> i < x + 8 + ed_name_len d x \<Longrightarrow> d' i = d i"
  shows "ed_inode d' x = ed_inode d x" "ed_rec_len d' x = ed_rec_len d x" "ed_name_len d' x = ed_name_len d x"
    "ed_name_list d' x = ed_name_list d x" "ed_live d' x = ed_live d x"
proof -
  show i: "ed_inode d' x = ed_inode d x" and "ed_rec_len d' x = ed_rec_len d x" and n: "ed_name_len d' x = ed_name_len d x"
    unfolding ed_inode_def ed_rec_len_def ed_name_len_def
    by (auto intro!: le32_cong le16_cong assms arg_cong [where f = unat])
  show "ed_name_list d' x = ed_name_list d x" unfolding ed_name_list_def n by (auto simp: ed_name_def intro!: assms)
  show "ed_live d' x = ed_live d x" by (simp add: ed_live_def i n)
qed

lemma tiles_cong:
  assumes "dir_tiles d k es" "\<And>i. k \<le> i \<Longrightarrow> d' i = d i"
  shows "dir_tiles d' k es" "dir_map d' es = dir_map d es"
proof -
  have f: "ed_inode d' x = ed_inode d x" "ed_rec_len d' x = ed_rec_len d x" "ed_name_len d' x = ed_name_len d x"
    "ed_name_list d' x = ed_name_list d x" "ed_live d' x = ed_live d x" if "k \<le> x" for x
    using that by (intro fields_cong; simp add: assms(2))+
  show "dir_tiles d' k es" using assms(1) f
  proof (induction es arbitrary: k)
    case (Cons e es)
    then show ?case by auto
  qed simp
  have "\<forall>x\<in>set es. k \<le> x" using tiles_ge [OF assms(1)] by blast
  then show "dir_map d' es = dir_map d es" unfolding dir_map_def by (induction es) (auto simp: f)
qed

lemma tiles_prefix:
  assumes "dir_tiles d k (A @ e # B)" "\<And>i. i < e \<Longrightarrow> d' i = d i" "dir_tiles d' e C"
  shows "dir_tiles d' k (A @ C)" "dir_map d' A = dir_map d A"
proof -
  have f: "ed_inode d' x = ed_inode d x" "ed_rec_len d' x = ed_rec_len d x" "ed_name_len d' x = ed_name_len d x"
    "ed_name_list d' x = ed_name_list d x" "ed_live d' x = ed_live d x" if "x \<in> set A" for x
  proof -
    have "x + 8 + ed_name_len d x \<le> e" using that tiles_append [OF assms(1)] by blast
    then have "d' i = d i" if "x \<le> i" "i < x + 8 + ed_name_len d x" for i using that by (intro assms(2)) simp
    from fields_cong [of x d d', OF this] show "ed_inode d' x = ed_inode d x" "ed_rec_len d' x = ed_rec_len d x" "ed_name_len d' x = ed_name_len d x"
      "ed_name_list d' x = ed_name_list d x" "ed_live d' x = ed_live d x" by blast+
  qed
  show "dir_tiles d' k (A @ C)" using assms(1) f
  proof (induction A arbitrary: k)
    case Nil
    then show ?case using assms(3) by simp
  next
    case (Cons x A)
    then show ?case by auto
  qed
  show "dir_map d' A = dir_map d A" unfolding dir_map_def using f by (induction A) auto
qed

text \<open>The entry that \<open>put_ed\<close> writes.\<close>

lemma put_ed_fields:
  assumes "length name \<le> 255"
  shows "ed_inode (put_ed d k inum len (length name) ft (cs name)) k = inum"
    "ed_rec_len (put_ed d k inum len (length name) ft (cs name)) k = len"
    "ed_name_len (put_ed d k inum len (length name) ft (cs name)) k = length name"
    "ed_name_list (put_ed d k inum len (length name) ft (cs name)) k = name"
    "i < k \<or> k + 8 + length name \<le> i \<Longrightarrow> put_ed d k inum len (length name) ft (cs name) i = d i"
proof -
  let ?d = "put_ed d k inum len (length name) ft (cs name)"
  show "ed_inode ?d k = inum"
  proof -
    have "le32 ?d k = le32 (put32 d k inum) k"
      by (rule le32_cong) (simp_all add: put_ed_def Let_def put16_other)
    then show ?thesis by (simp add: ed_inode_def)
  qed
  show "ed_rec_len ?d k = len"
  proof -
    have "le16 ?d (k + 4) = le16 (put16 (put32 d k inum) (k + 4) len) (k + 4)"
      by (rule le16_cong) (simp_all add: put_ed_def Let_def)
    then show ?thesis by (simp add: ed_rec_len_def)
  qed
  show n: "ed_name_len ?d k = length name"
    using assms by (simp add: ed_name_len_def put_ed_def Let_def unat_of_nat)
  show "ed_name_list ?d k = name"
    unfolding ed_name_list_def n by (rule nth_equalityI) (simp_all add: ed_name_def put_ed_def Let_def)
  show "?d i = d i" if "i < k \<or> k + 8 + length name \<le> i"
    using that by (auto simp: put_ed_def Let_def put16_other put32_other)
qed

text \<open>What the scan for a hole finds.\<close>

lemma hole_tiles:
  assumes "dir_tiles d k es"
  shows "case ext2_hole_block d need k off of
      Reuse e \<Rightarrow> e \<in> set es \<and> ed_inode d e = 0 \<and> unat need \<le> ed_len d e
    | Split e \<Rightarrow> e \<in> set es \<and> unat (ed_space (ed_name_len d e)) + unat need \<le> ed_len d e
    | No_entry \<Rightarrow> False | Next off' \<Rightarrow> off' = off + of_nat (BSIZE - k)"
  using assms
proof (induction es arbitrary: k off)
  case Nil
  then show ?case by (simp add: ext2_hole_block.simps)
next
  case (Cons e es)
  then have t: "e = k" "unat (ed_space (ed_name_len d k)) \<le> ed_len d k" "k + ed_len d k \<le> BSIZE" "dir_tiles d (k + ed_len d k) es" by auto
  have "0 < ed_len d k" by (rule tiles_pos [OF t(2)])
  then have k: "k < BSIZE" "ed_rec_len d k \<noteq> 0" using t(3) by auto
  have u: "unat (ucast (ed_rec_len d k) :: u32) = ed_len d k"
    using unsigned_less [of "ed_rec_len d k", where 'a = nat] by (simp add: unsigned_ucast_eq take_bit_nat_eq_self)
  then have w: "unat (ucast (ed_rec_len d k) - ed_space (ed_name_len d k)) = ed_len d k - unat (ed_space (ed_name_len d k))"
    using t(2) by (subst unat_sub) (simp_all add: word_le_nat_alt)
  have r: "need \<le> ucast (ed_rec_len d k) \<longleftrightarrow> unat need \<le> ed_len d k"
    "need \<le> ucast (ed_rec_len d k) - ed_space (ed_name_len d k) \<longleftrightarrow> unat need \<le> ed_len d k - unat (ed_space (ed_name_len d k))"
    by (simp_all add: word_le_nat_alt u w)
  have i: "case ext2_hole_block d need (k + ed_len d k) (off + ucast (ed_rec_len d k)) of
      Reuse e \<Rightarrow> e \<in> set es \<and> ed_inode d e = 0 \<and> unat need \<le> ed_len d e
    | Split e \<Rightarrow> e \<in> set es \<and> unat (ed_space (ed_name_len d e)) + unat need \<le> ed_len d e
    | No_entry \<Rightarrow> False | Next off' \<Rightarrow> off' = off + of_nat (BSIZE - k)"
    using Cons.IH [OF t(4), of "off + ucast (ed_rec_len d k)"] unfolding tiles_offset [OF t(3)] .
  show ?case
  proof (cases "ed_inode d k = 0 \<and> unat need \<le> ed_len d k")
    case True
    then show ?thesis using k r t(1) by (subst ext2_hole_block.simps) simp
  next
    case F: False
    show ?thesis
    proof (cases "unat need \<le> ed_len d k - unat (ed_space (ed_name_len d k))")
      case True
      then show ?thesis using k r t(1,2) F by (subst ext2_hole_block.simps) (auto simp: Let_def)
    next
      case False
      then have "ext2_hole_block d need k off = ext2_hole_block d need (k + ed_len d k) (off + ucast (ed_rec_len d k))"
        using k r F by (subst ext2_hole_block.simps) (auto simp: Let_def)
      then show ?thesis using i by (auto split: hole.splits)
    qed
  qed
qed

text \<open>The contents of the block after \<open>ext2_dir_add\<close> has used the hole \<open>h\<close>.\<close>

definition added_block :: "buffer \<Rightarrow> hole \<Rightarrow> cstring \<Rightarrow> u32 \<Rightarrow> byte \<Rightarrow> buffer" where
  "added_block d h name inum ft =
     (case h of
        Reuse k \<Rightarrow> put_ed d k inum (ed_rec_len d k) (length name) ft (cs name)
      | Split k \<Rightarrow>
          (let real_len = ed_space (ed_name_len d k) in
           put_ed (put16 d (k + 4) (ucast real_len)) (k + unat real_len) inum (ucast (ucast (ed_rec_len d k) - real_len))
             (length name) ft (cs name))
      | _ \<Rightarrow> d)"

lemma map_of_insert:
  "map_of (X @ Y) name = None \<Longrightarrow> map_of (X @ (name, i) # Y) = (map_of (X @ Y))(name \<mapsto> i)"
  by (auto simp: fun_eq_iff map_add_def split: option.splits)

lemma add_reuse:
  assumes t: "dir_tiles d k (A @ e # B)" and n: "wf_cstring name" "name \<noteq> []" "length name \<le> 255" and i: "inum \<noteq> 0"
    and new: "map_of (dir_map d (A @ e # B)) name = None" and h: "ed_inode d e = 0" "unat (ed_space (length name)) \<le> ed_len d e"
  shows "dir_tiles (added_block d (Reuse e) name inum ft) k (A @ e # B)"
    "map_of (dir_map (added_block d (Reuse e) name inum ft) (A @ e # B)) = (map_of (dir_map d (A @ e # B)))(name \<mapsto> inum)"
proof -
  let ?d = "added_block d (Reuse e) name inum ft"
  note f = put_ed_fields [OF n(3), where d = d and k = e and inum = inum and len = "ed_rec_len d e" and ft = ft]
  have d: "?d = put_ed d e inum (ed_rec_len d e) (length name) ft (cs name)" by (simp add: added_block_def)
  have te: "e + ed_len d e \<le> BSIZE" "dir_tiles d (e + ed_len d e) B" using tiles_append [OF t] by auto
  have room: "8 + length name \<le> ed_len d e" using ed_space_bounds(1) [OF n(3)] h(2) by linarith
  have B: "dir_tiles ?d (e + ed_len d e) B" "dir_map ?d B = dir_map d B"
    using tiles_cong [OF te(2), of ?d] f(5) room unfolding d by auto
  have E: "dir_tiles ?d e (e # B)" unfolding d using B(1) [unfolded d] te(1) n(1) h(2) by (simp add: f(1-4))
  have P: "i < e \<Longrightarrow> ?d i = d i" for i using f(5) unfolding d by simp
  show "dir_tiles ?d k (A @ e # B)" by (rule tiles_prefix(1) [OF t P E])
  have A: "dir_map ?d A = dir_map d A" by (rule tiles_prefix(2) [OF t P E])
  have live: "ed_live ?d e" "ed_name_list ?d e = name" "ed_inode ?d e = inum" "\<not> ed_live d e"
    using n(2) i h(1) unfolding d by (auto simp: ed_live_def f(1-4))
  then have "dir_map ?d (A @ e # B) = dir_map d A @ (name, inum) # dir_map d B" "dir_map d (A @ e # B) = dir_map d A @ dir_map d B"
    using A B(2) by (simp_all add: dir_map_def)
  then show "map_of (dir_map ?d (A @ e # B)) = (map_of (dir_map d (A @ e # B)))(name \<mapsto> inum)"
    using map_of_insert new by metis
qed

lemma add_split:
  assumes t: "dir_tiles d k (A @ e # B)" and n: "wf_cstring name" "name \<noteq> []" "length name \<le> 255" and i: "inum \<noteq> 0"
    and new: "map_of (dir_map d (A @ e # B)) name = None"
    and h: "unat (ed_space (ed_name_len d e)) + unat (ed_space (length name)) \<le> ed_len d e"
    and e2: "e2 = e + unat (ed_space (ed_name_len d e))"
  shows "dir_tiles (added_block d (Split e) name inum ft) k (A @ e # e2 # B)"
    "map_of (dir_map (added_block d (Split e) name inum ft) (A @ e # e2 # B)) = (map_of (dir_map d (A @ e # B)))(name \<mapsto> inum)"
proof -
  let ?d = "added_block d (Split e) name inum ft" and ?r = "unat (ed_space (ed_name_len d e))"
  let ?d1 = "put16 d (e + 4) (ucast (ed_space (ed_name_len d e)))" and ?rest = "ucast (ucast (ed_rec_len d e) - ed_space (ed_name_len d e) :: u32)"
  note f = put_ed_fields [OF n(3), where d = ?d1 and k = e2 and inum = inum and len = ?rest and ft = ft]
  have d: "?d = put_ed ?d1 e2 inum ?rest (length name) ft (cs name)" by (simp add: added_block_def e2 Let_def)
  have te: "e + ed_len d e \<le> BSIZE" "dir_tiles d (e + ed_len d e) B" "wf_cstring (ed_name_list d e)" using tiles_append [OF t] by auto
  have room: "8 + length name \<le> unat (ed_space (length name))" using ed_space_bounds(1) [OF n(3)] .
  have r: "8 + ed_name_len d e \<le> ?r" "?r \<le> 266" using ed_space_bounds [OF ed_name_len_le, of d e] ed_name_len_le [of d e] by auto
  have lt: "ed_len d e < 2 ^ 16" using unsigned_less [of "ed_rec_len d e", where 'a = nat] by simp
  have u: "unat (ucast (ed_space (ed_name_len d e)) :: u16) = ?r" using r(2) by (simp add: unsigned_ucast_eq take_bit_nat_eq_self)
  have ur: "unat (?rest :: u16) = ed_len d e - ?r"
  proof -
    have "unat (ucast (ed_rec_len d e) :: u32) = ed_len d e" using lt by (simp add: unsigned_ucast_eq take_bit_nat_eq_self)
    then have "unat (ucast (ed_rec_len d e) - ed_space (ed_name_len d e) :: u32) = ed_len d e - ?r"
      using h by (subst unat_sub) (simp_all add: word_le_nat_alt)
    then show ?thesis using lt by (simp add: unsigned_ucast_eq take_bit_nat_eq_self)
  qed
  have B: "dir_tiles ?d (e + ed_len d e) B" "dir_map ?d B = dir_map d B"
    using tiles_cong [OF te(2), of ?d] f(5) room h r(1) e2 unfolding d by (auto simp: put16_other)
  have same: "?d j = d j" if "j < e2" "j \<noteq> e + 4" "j \<noteq> e + 5" for j using f(5) that unfolding d by (simp add: put16_other)
  have E: "ed_rec_len ?d e = ucast (ed_space (ed_name_len d e))" "ed_inode ?d e = ed_inode d e" "ed_name_len ?d e = ed_name_len d e"
  proof -
    have "le16 ?d (e + 4) = le16 ?d1 (e + 4)" using f(5) r(1) e2 unfolding d by (intro le16_cong) auto
    then show "ed_rec_len ?d e = ucast (ed_space (ed_name_len d e))" by (simp add: ed_rec_len_def)
    show "ed_inode ?d e = ed_inode d e" unfolding ed_inode_def using r(1) e2 by (intro le32_cong same) auto
    show "ed_name_len ?d e = ed_name_len d e" unfolding ed_name_len_def using r(1) e2 by (intro arg_cong [where f = unat] same) auto
  qed
  then have N: "ed_name_list ?d e = ed_name_list d e"
    unfolding ed_name_list_def E(3) ed_name_def using r(1) e2 by (auto intro!: same)
  note F = f(1-4) [folded d]
  have "ed_len ?d e2 = ed_len d e - ?r" unfolding F(2) by (rule ur)
  moreover have "ed_len ?d e = ?r" "e2 + (ed_len d e - ?r) = e + ed_len d e" using u e2 h by (simp_all add: E)
  moreover have "e2 \<le> BSIZE" "unat (ed_space (length name)) \<le> ed_len d e - ?r" using e2 h te(1) by linarith+
  ultimately have T: "dir_tiles ?d e (e # e2 # B)"
    using B(1) te n(1) by (simp add: E(3) N F(3,4) e2 [symmetric])
  have P: "i < e \<Longrightarrow> ?d i = d i" for i using same e2 by simp
  show "dir_tiles ?d k (A @ e # e2 # B)" by (rule tiles_prefix(1) [OF t P T])
  have A: "dir_map ?d A = dir_map d A" by (rule tiles_prefix(2) [OF t P T])
  have live: "ed_live ?d e2" "ed_name_list ?d e2 = name" "ed_inode ?d e2 = inum" "ed_live ?d e = ed_live d e"
    using n(2) i by (auto simp: ed_live_def E F)
  have "dir_map ?d (A @ e # e2 # B) = dir_map d (A @ [e]) @ (name, inum) # dir_map d B" "dir_map d (A @ e # B) = dir_map d (A @ [e]) @ dir_map d B"
    using A B(2) live N E(2) by (auto simp: dir_map_def)
  then show "map_of (dir_map ?d (A @ e # e2 # B)) = (map_of (dir_map d (A @ e # B)))(name \<mapsto> inum)"
    using map_of_insert new by metis
qed

text \<open>A hole is inside the block, and using it extends the map of the block.\<close>

lemma hole_room:
  assumes "dir_tiles d 0 es" "length name \<le> 255"
  shows "case ext2_hole_block d (ed_space (length name)) 0 off of
      Reuse e \<Rightarrow> e + 8 + length name \<le> BSIZE
    | Split e \<Rightarrow> e + 8 \<le> BSIZE \<and> e + unat (ed_space (ed_name_len d e)) + 8 + length name \<le> BSIZE
    | No_entry \<Rightarrow> False | Next off' \<Rightarrow> off' = off + of_nat BSIZE"
proof -
  have "e + ed_len d e \<le> BSIZE" if "e \<in> set es" for e
    using split_list [OF that] tiles_append [of d 0 _ e] assms(1) by force
  then show ?thesis
    using hole_tiles [OF assms(1), of "ed_space (length name)" off] ed_space_bounds(1) [OF assms(2)] by (fastforce split: hole.splits)
qed

lemma hole_off:
  "ext2_hole_block d need k off = (case ext2_hole_block d need k 0 of Next o' \<Rightarrow> Next (off + o') | h \<Rightarrow> h)"
proof (induction "BSIZE - k" arbitrary: k off rule: less_induct)
  case less
  let ?r = "ucast (ed_rec_len d k) :: u32" and ?k = "k + ed_len d k"
  show ?case
  proof (cases "k < BSIZE \<and> ed_rec_len d k \<noteq> 0 \<and> \<not> (ed_inode d k = 0 \<and> need \<le> ?r) \<and> \<not> need \<le> ?r - ed_space (ed_name_len d k)")
    case True
    then have "BSIZE - ?k < BSIZE - k" by (simp add: unat_gt_0 diff_less_mono2)
    note IH = less.hyps [OF this]
    have "ext2_hole_block d need k off' = ext2_hole_block d need ?k (off' + ?r)" for off'
      using True by (subst ext2_hole_block.simps) (auto simp: Let_def)
    then show ?thesis using IH [of "off + ?r"] IH [of ?r] by (simp split: hole.splits)
  next
    case False
    then show ?thesis by (subst (1 2) ext2_hole_block.simps) (auto simp: Let_def)
  qed
qed

lemma hole_added:
  assumes "dir_tiles d 0 es" "wf_cstring name" "name \<noteq> []" "length name \<le> 255" "inum \<noteq> 0" "map_of (dir_map d es) name = None"
    and "h = ext2_hole_block d (ed_space (length name)) 0 off" "\<And>o'. h \<noteq> Next o'"
  obtains es' where "dir_tiles (added_block d h name inum ft) 0 es'"
    "map_of (dir_map (added_block d h name inum ft) es') = (map_of (dir_map d es))(name \<mapsto> inum)"
proof (cases h)
  case (Reuse e)
  then have h: "e \<in> set es" "ed_inode d e = 0" "unat (ed_space (length name)) \<le> ed_len d e"
    using hole_tiles [OF assms(1), of "ed_space (length name)" off] assms(7) by auto
  then obtain A B where es: "es = A @ e # B" by (meson split_list)
  show ?thesis using add_reuse [OF assms(1) [unfolded es] assms(2-5) assms(6) [unfolded es] h(2,3), folded es] that Reuse by blast
next
  case (Split e)
  then have h: "e \<in> set es" "unat (ed_space (ed_name_len d e)) + unat (ed_space (length name)) \<le> ed_len d e"
    using hole_tiles [OF assms(1), of "ed_space (length name)" off] assms(7) by auto
  then obtain A B where es: "es = A @ e # B" by (meson split_list)
  show ?thesis using add_split [OF assms(1) [unfolded es] assms(2-5) assms(6) [unfolded es] h(2) refl, folded es] that Split by blast
qed (use hole_tiles [OF assms(1), of "ed_space (length name)" off] assms(7,8) in auto)

subsection \<open>Directories of direct blocks\<close>

text \<open>The inode \<open>ino\<close> on device \<open>dv\<close> is a directory of the direct blocks \<open>bs\<close>, whose contents are given by \<open>V\<close>.\<close>

definition dir_blocks :: "ext2_inode_disk \<Rightarrow> u32 \<Rightarrow> (u32 \<Rightarrow> buffer) \<Rightarrow> u32 list \<Rightarrow> bool" where
  "dir_blocks ino dv V bs \<longleftrightarrow> length bs \<le> EXT2_NDIRECT \<and> unat (e_size ino) = length bs * BSIZE \<and> distinct bs
     \<and> map (i_block ino) [0..<length bs] = bs \<and> (\<forall>b\<in>set bs. b \<noteq> 0 \<and> on_disk dv b \<and> (\<exists>es. dir_tiles (V b) 0 es))"

text \<open>The name \<open>nm\<close> in the first of the blocks that has it.\<close>

fun dir_find :: "(u32 \<Rightarrow> buffer) \<Rightarrow> u32 list \<Rightarrow> cstring \<Rightarrow> u32 option" where
  "dir_find V [] nm = None"
| "dir_find V (b # bs) nm = (case ext2_lookup_block (V b) (cs nm) 0 0 of Found i \<Rightarrow> Some i | _ \<Rightarrow> dir_find V bs nm)"

definition dir_hole :: "buffer \<Rightarrow> cstring \<Rightarrow> hole" where
  "dir_hole d name = ext2_hole_block d (ed_space (length name)) 0 0"

definition dir_room :: "buffer \<Rightarrow> cstring \<Rightarrow> bool" where
  "dir_room d name = (case dir_hole d name of Next o' \<Rightarrow> False | _ \<Rightarrow> True)"

lemma bio_only_ev: "bio_only s s' \<Longrightarrow> ext2_privs s' = ext2_privs s"
  by (cases s; cases s'; simp add: bio_only_def)

lemmas bio_only_ext2 = bio_only_ev bio_only_em

text \<open>One round of a loop over the blocks: the offset, the block and where it ends.\<close>

lemma dir_round:
  assumes "dir_blocks (ev_ino (ext2_privs s dp)) dv V bs" "j < length bs" "off = of_nat (j * BSIZE)"
  shows "off < e_size (ev_ino (ext2_privs s dp))" "unat off mod BSIZE = 0" "ext2_bmap s dp (off div of_nat BSIZE) False = Some (bs ! j, s)"
    "bs ! j \<noteq> 0" "on_disk dv (bs ! j)" "\<exists>es. dir_tiles (V (bs ! j)) 0 es" "off + of_nat BSIZE = of_nat (Suc j * BSIZE)"
proof -
  note D = assms(1) [unfolded dir_blocks_def EXT2_NDIRECT_def]
  have j: "j < 12" using D assms(2) by linarith
  then have u: "unat off = j * BSIZE" unfolding assms(3) by (intro unat_of_nat_small) (simp add: BSIZE_def)
  then show "off < e_size (ev_ino (ext2_privs s dp))" using D assms(2) by (simp add: word_less_nat_alt BSIZE_def)
  show "unat off mod BSIZE = 0" by (simp add: u)
  have "unat (off div of_nat BSIZE) = j" by (simp add: unat_div u) (simp add: BSIZE_def)
  moreover have "i_block (ev_ino (ext2_privs s dp)) j = bs ! j" using D assms(2) by (metis add_0 minus_nat.diff_0 nth_map_upt)
  ultimately show "ext2_bmap s dp (off div of_nat BSIZE) False = Some (bs ! j, s)"
    using j by (simp add: ext2_bmap_def EXT2_NDIRECT_def ext2_bmap_direct_def)
  show "bs ! j \<noteq> 0" "on_disk dv (bs ! j)" "\<exists>es. dir_tiles (V (bs ! j)) 0 es" using D assms(2) by auto
  show "off + of_nat BSIZE = of_nat (Suc j * BSIZE)" unfolding assms(3) by simp
qed

lemma dir_last:
  assumes "dir_blocks ino dv V bs"
  shows "\<not> of_nat (length bs * BSIZE) < e_size ino"
proof -
  have "e_size ino = of_nat (unat (e_size ino))" by simp
  also have "unat (e_size ino) = length bs * BSIZE" using assms by (simp add: dir_blocks_def)
  finally show ?thesis by simp
qed

lemma lookup_loop_ok:
  fixes s :: "'a vfs_scheme"
  assumes "holds s P {}" and room: "\<exists>b<NBUF. P b = 0" and "dv = em_dev (ext2_mounts s (ev_mp (ext2_privs s dp)))"
    and "dir_blocks (ev_ino (ext2_privs s dp)) dv (cview s dv) bs" and nm: "wf_cstring nm" and "j \<le> length bs"
  shows "\<exists>s'. holds s' P {} \<and> cview s' = cview s \<and> bio_only s s'
    \<and> ext2_dir_lookup_loop s dp (cs nm) (of_nat (j * BSIZE)) = (case dir_find (cview s dv) (drop j bs) nm of
        None \<Rightarrow> Some (-1, None, s')
      | Some i \<Rightarrow> do {
          (r, s'') \<leftarrow> ext2_iget s' (ev_mp (ext2_privs s dp)) i;
          Some (if r = None then -1 else 0, Some r, s'')
        })"
  using assms(1,3,4,6)
proof (induction "length bs - j" arbitrary: j s)
  case 0
  then show ?case using dir_last [OF 0(4)] by (intro exI [of _ s]) (simp add: ext2_dir_lookup_loop.simps [of s])
next
  case (Suc n)
  let ?off = "of_nat (j * BSIZE) :: u32" and ?b = "bs ! j"
  have j: "j < length bs" using Suc.hyps(2) by simp
  note R = dir_round [OF Suc.prems(3) j refl]
  obtain es where es: "dir_tiles (cview s dv ?b) 0 es" using R(6) by blast
  obtain b s1 s2 where 1: "bread s dv ?b = Some (Some b, s1)" "bdata s1 b = cview s dv ?b" "bio_only s s1"
    "brelse s1 b = Some s2" "holds s2 P {}" "cview s2 = cview s" "disk s2 = disk s" "bio_only s s2"
    by (rule raw_peek [OF Suc.prems(1) R(5)]) (use room in auto)
  have dr: "drop j bs = ?b # drop (Suc j) bs" using j by (rule Cons_nth_drop_Suc [symmetric])
  note L = lookup_tiles [OF es nm]
  show ?case
  proof (cases "map_of (dir_map (cview s dv ?b) es) nm")
    case (Some i)
    then show ?thesis using R(1-4) 1 Suc.prems(2) L [of ?off] L [of 0]
      by (intro exI [of _ s2]) (simp add: ext2_dir_lookup_loop.simps [of s] dr)
  next
    case None
    have "ext2_dir_lookup_loop s dp (cs nm) ?off = ext2_dir_lookup_loop s2 dp (cs nm) (of_nat (Suc j * BSIZE))"
      using R(1-4) R(7) 1 Suc.prems(2) L [of ?off] None by (subst ext2_dir_lookup_loop.simps) (simp add: add.commute)
    moreover have "dir_find (cview s dv) (drop j bs) nm = dir_find (cview s dv) (drop (Suc j) bs) nm" using L [of 0] None by (simp add: dr)
    moreover have n: "n = length bs - Suc j" "Suc j \<le> length bs" using Suc.hyps(2) by auto
    note IH = Suc.hyps(1) [of "Suc j" s2, unfolded bio_only_ext2 [OF 1(8)] 1(6), OF n(1) 1(5) Suc.prems(2,3) n(2)]
    ultimately show ?thesis
      using IH bio_only_trans [OF 1(8)] by auto
  qed
qed

lemma add_loop_ok:
  fixes s :: "'a vfs_scheme"
  assumes "holds s P {}" and room: "\<exists>b<NBUF. P b = 0" and "dv = em_dev (ext2_mounts s (ev_mp (ext2_privs s dp)))"
    and "dir_blocks (ev_ino (ext2_privs s dp)) dv (cview s dv) bs" and len: "length name \<le> 255"
    and "j \<le> length bs" "\<exists>b\<in>set (drop j bs). dir_room (cview s dv b) name"
  shows "\<exists>b s'. ext2_dir_add_loop s dp (cs name) (length name) inum ft (of_nat (j * BSIZE)) = Some (Inl 0, s')
    \<and> b \<in> set bs \<and> dir_room (cview s dv b) name \<and> holds s' P {} \<and> bio_only s s'
    \<and> cview s' = (cview s)(dv := (cview s dv)(b := added_block (cview s dv b) (dir_hole (cview s dv b) name) name inum ft))"
  using assms(1,3,4,6,7)
proof (induction "length bs - j" arbitrary: j s)
  case 0
  then show ?case by simp
next
  case (Suc n)
  let ?off = "of_nat (j * BSIZE) :: u32" and ?b = "bs ! j"
  let ?d = "cview s dv ?b"
  have j: "j < length bs" using Suc.hyps(2) by simp
  note R = dir_round [OF Suc.prems(3) j refl]
  obtain es where es: "dir_tiles ?d 0 es" using R(6) by blast
  have hole: "ext2_hole_block ?d (ed_space (length name)) 0 ?off = (case dir_hole ?d name of Next o' \<Rightarrow> Next (?off + o') | h \<Rightarrow> h)"
    unfolding dir_hole_def by (rule hole_off)
  note H = hole_room [OF es len, of 0, folded dir_hole_def]
  have b: "?b \<in> set bs" using j by simp
  show ?case
  proof (cases "dir_room ?d name")
    case True
    obtain b t1 t2 t3 where 1: "bread s dv ?b = Some (Some b, t1)" "bdata t1 b = ?d"
      "bwrite (set_data t1 b (added_block ?d (dir_hole ?d name) name inum ft)) b = Some t2" "brelse t2 b = Some t3" "holds t3 P {}"
      "cview t3 = (cview s)(dv := (cview s dv)(?b := added_block ?d (dir_hole ?d name) name inum ft))" "bio_only s t3"
      by (rule raw_poke [OF Suc.prems(1) R(5), where x = "added_block ?d (dir_hole ?d name) name inum ft"]) (use room in auto)
    have "ext2_dir_add_loop s dp (cs name) (length name) inum ft ?off = Some (Inl 0, t3)"
      using R(1-4) 1(1-4) Suc.prems(2) hole H True
      by (subst ext2_dir_add_loop.simps) (auto simp: dir_room_def added_block_def Let_def split: hole.splits)
    then show ?thesis using True b 1(5-7) by blast
  next
    case False
    obtain b s1 s2 where 1: "bread s dv ?b = Some (Some b, s1)" "bdata s1 b = ?d" "bio_only s s1"
      "brelse s1 b = Some s2" "holds s2 P {}" "cview s2 = cview s" "disk s2 = disk s" "bio_only s s2"
      by (rule raw_peek [OF Suc.prems(1) R(5)]) (use room in auto)
    have "ext2_dir_add_loop s dp (cs name) (length name) inum ft ?off = ext2_dir_add_loop s2 dp (cs name) (length name) inum ft (of_nat (Suc j * BSIZE))"
      using R(1-4) R(7) 1(1-4) Suc.prems(2) hole H False
      by (subst ext2_dir_add_loop.simps) (auto simp: dir_room_def add.commute split: hole.splits)
    moreover have n: "n = length bs - Suc j" "Suc j \<le> length bs" using Suc.hyps(2) by auto
    moreover have "\<exists>b\<in>set (drop (Suc j) bs). dir_room (cview s dv b) name"
      using Suc.prems(5) False Cons_nth_drop_Suc [OF j] by (metis set_ConsD)
    note IH = Suc.hyps(1) [of "Suc j" s2, unfolded bio_only_ext2 [OF 1(8)] 1(6), OF n(1) 1(5) Suc.prems(2,3) n(2) this]
    ultimately show ?thesis
      using IH bio_only_trans [OF 1(8)] by auto
  qed
qed

text \<open>Changing one block changes what is found.\<close>

lemma dir_find_None:
  assumes "dir_find V bs nm = None" "b \<in> set bs" "dir_tiles (V b) 0 es" "wf_cstring nm"
  shows "map_of (dir_map (V b) es) nm = None"
  using assms(1,2)
proof (induction bs)
  case (Cons a bs)
  then show ?case using lookup_tiles [OF assms(3,4), of 0] by (auto split: dscan.splits option.splits)
qed simp

lemma dir_find_upd:
  assumes "distinct bs" "b \<in> set bs" "dir_find V bs name = None" "wf_cstring nm" "wf_cstring name"
    and "\<And>b. b \<in> set bs \<Longrightarrow> \<exists>es. dir_tiles (V b) 0 es" "dir_tiles (V b) 0 es" "dir_tiles d' 0 es'"
    and "map_of (dir_map d' es') = (map_of (dir_map (V b) es))(name \<mapsto> inum)"
  shows "dir_find (V(b := d')) bs nm = (if nm = name then Some inum else dir_find V bs nm)"
  using assms(1-3,6)
proof (induction bs)
  case (Cons a bs)
  have same: "dir_find (V(b := d')) bs x = dir_find V bs x" if "b \<notin> set bs" for x
    using that by (induction bs) (auto split: dscan.splits)
  obtain ea where ea: "dir_tiles (V a) 0 ea" using Cons.prems(4) by auto
  note L = lookup_tiles [OF assms(7,4), of 0] lookup_tiles [OF assms(8,4), of 0] lookup_tiles [OF ea assms(4), of 0]
    lookup_tiles [OF ea assms(5), of 0] lookup_tiles [OF assms(7,5), of 0]
  show ?case
  proof (cases "a = b")
    case True
    then show ?thesis using Cons.prems(1,3) L same assms(9) by (auto simp flip: fun_upd_def split: option.splits)
  next
    case False
    then show ?thesis using Cons L by (auto split: option.splits)
  qed
qed simp


text \<open>C11: \<open>ext2_dir_add\<close> adds exactly one name to a directory.  If the name is not in the directory and one of its blocks has
  room for it, either in a deleted entry or behind the name of an entry that is longer than it has to be, the call
  returns 0.  Afterwards the entries tile their blocks again, the new name has the new inode number, every other name has
  the one it had, and no block outside the directory has changed.\<close>

theorem ext2_dir_add_refines:
  fixes s :: "'a vfs_scheme"
  assumes "holds s P {}" "\<exists>b<NBUF. P b = 0" "priv_of s dir = Some dp" "dv = em_dev (ext2_mounts s (ev_mp (ext2_privs s dp)))"
    and "dir_blocks (ev_ino (ext2_privs s dp)) dv (cview s dv) bs"
    and "wf_cstring name" "name \<noteq> []" "length name \<le> 255" "inum \<noteq> 0"
    and "dir_find (cview s dv) bs name = None" "\<exists>b\<in>set bs. dir_room (cview s dv b) name"
  shows "\<exists>s'. ext2_dir_add s dir (cs name) inum ft = Some (0, s') \<and> holds s' P {} \<and> bio_only s s'
    \<and> dir_blocks (ev_ino (ext2_privs s' dp)) dv (cview s' dv) bs
    \<and> (\<forall>nm. wf_cstring nm \<longrightarrow> dir_find (cview s' dv) bs nm = (if nm = name then Some inum else dir_find (cview s dv) bs nm))
    \<and> (\<forall>d n. d \<noteq> dv \<or> n \<notin> set bs \<longrightarrow> cview s' d n = cview s d n)"
proof -
  obtain b s' where 1: "ext2_dir_add_loop s dp (cs name) (length name) inum ft 0 = Some (Inl 0, s')" "b \<in> set bs"
    "dir_room (cview s dv b) name" "holds s' P {}" "bio_only s s'"
    "cview s' = (cview s)(dv := (cview s dv)(b := added_block (cview s dv b) (dir_hole (cview s dv b) name) name inum ft))"
    using add_loop_ok [OF assms(1,2,4,5,8), of 0 inum ft] assms(11) by auto
  have tiles: "\<And>b. b \<in> set bs \<Longrightarrow> \<exists>es. dir_tiles (cview s dv b) 0 es" using assms(5) by (auto simp: dir_blocks_def)
  then obtain es where es: "dir_tiles (cview s dv b) 0 es" using 1(2) by blast
  obtain es' where es': "dir_tiles (cview s' dv b) 0 es'" "map_of (dir_map (cview s' dv b) es') = (map_of (dir_map (cview s dv b) es))(name \<mapsto> inum)"
  proof (rule hole_added [OF es assms(6-9) dir_find_None [OF assms(10) 1(2) es assms(6)] dir_hole_def])
    show "dir_hole (cview s dv b) name \<noteq> Next o'" for o' using 1(3) by (auto simp: dir_room_def)
  qed (use that 1(6) in auto)
  have v: "cview s' dv = (cview s dv)(b := cview s' dv b)" unfolding 1(6) by simp
  have "distinct bs" using assms(5) by (simp add: dir_blocks_def)
  then have "\<forall>nm. wf_cstring nm \<longrightarrow> dir_find (cview s' dv) bs nm = (if nm = name then Some inum else dir_find (cview s dv) bs nm)"
    using dir_find_upd [OF _ 1(2) assms(10) _ assms(6) tiles es es'] v by metis
  moreover have "dir_blocks (ev_ino (ext2_privs s' dp)) dv (cview s' dv) bs"
  proof -
    have "\<exists>es. dir_tiles (cview s' dv a) 0 es" if "a \<in> set bs" for a
      using tiles [OF that] es'(1) unfolding 1(6) by (cases "a = b") auto
    then show ?thesis using assms(5) bio_only_ev [OF 1(5)] by (simp add: dir_blocks_def)
  qed
  moreover have "ext2_dir_add s dir (cs name) inum ft = Some (0, s')"
    using 1(1) assms(3) strlen_cs [OF assms(6)] by (simp add: ext2_dir_add_def)
  moreover have "\<forall>d n. d \<noteq> dv \<or> n \<notin> set bs \<longrightarrow> cview s' d n = cview s d n" using 1(2) unfolding 1(6) by auto
  ultimately show ?thesis using 1(4,5) by blast
qed

subsection \<open>Removing an entry\<close>

lemma ev_cache:
  "holds (s\<lparr>ext2_privs := M\<rparr>) P L = holds s P L" "cview (s\<lparr>ext2_privs := M\<rparr>) = cview s"
  by (simp_all add: holds_def bio_inv_def buf_ok_def cached_def cview_def fun_eq_iff split: option.split)

lemma unlink_stuck:
  assumes "k < BSIZE" "ed_rec_len d k = 0" "\<not> (ed_inode d k \<noteq> 0 \<and> ed_matches d k name)"
  shows "ext2_unlink_block d name k off = None"
proof -
  have "\<not> (k < BSIZE \<and> ed_rec_len d k = 0 \<and> (ed_inode d k = 0 \<or> \<not> ed_matches d k name))"
    if "ext2_unlink_block d name k off = Some r" for r
    by (rule ext2_unlink_block.raw_induct [OF _ that, where P = "\<lambda>d name k off r.
          \<not> (k < BSIZE \<and> ed_rec_len d k = 0 \<and> (ed_inode d k = 0 \<or> \<not> ed_matches d k name))"]) (fastforce split: if_splits)
  then show ?thesis using assms by (cases "ext2_unlink_block d name k off") auto
qed

text \<open>C39: \<open>ext2_unlink\<close> does not return from a directory block with an entry of length 0.  The scan for the name neither finds a
  match at the entry nor moves past it.  \<open>ext2_dir_lookup\<close>, which has a guard for this, reports the block as corrupt.\<close>

theorem ext2_unlink_hangs:
  fixes s :: "'a vfs_scheme"
  assumes "holds s P {}" "\<exists>b<NBUF. P b = 0" "priv_of s dir = Some dp" "dv = em_dev (ext2_mounts s (ev_mp (ext2_privs s dp)))"
    and "0 < e_size (ev_ino (ext2_privs s dp))" "i_block (ev_ino (ext2_privs s dp)) 0 = n" "n \<noteq> 0" "on_disk dv n"
    and "ed_rec_len (cview s dv n) 0 = 0" "\<not> (ed_inode (cview s dv n) 0 \<noteq> 0 \<and> ed_matches (cview s dv n) 0 name)"
  shows "ext2_unlink s dir name = None \<and> (\<exists>s'. ext2_dir_lookup s dir name = Some (-1, None, s'))"
proof
  let ?t = "ext2_update_time s dp False True"
  have t: "holds ?t P {}" "cview ?t = cview s" "ext2_mounts ?t = ext2_mounts s" "ev_mp (ext2_privs ?t dp) = ev_mp (ext2_privs s dp)"
    "e_size (ev_ino (ext2_privs ?t dp)) = e_size (ev_ino (ext2_privs s dp))" "i_block (ev_ino (ext2_privs ?t dp)) = i_block (ev_ino (ext2_privs s dp))"
    using assms(1) by (simp_all add: ext2_update_time_def Let_def upd_ev_def ev_cache)
  obtain b s1 where 1: "bread ?t dv n = Some (Some b, s1)" "bdata s1 b = cview s dv n"
    by (rule raw_peek [OF t(1) assms(8)]) (use assms(2) t(2) in auto)
  have "ext2_unlink_loop ?t dir dp name 0 = None"
    using 1 t(3-6) assms(4-7) unlink_stuck [OF _ assms(9,10), of 0]
    by (subst ext2_unlink_loop.simps) (simp add: ext2_bmap_def EXT2_NDIRECT_def ext2_bmap_direct_def BSIZE_def)
  then show "ext2_unlink s dir name = None" using assms(3) by (simp add: ext2_unlink_def)
  obtain b s1 s2 where 2: "bread s dv n = Some (Some b, s1)" "bdata s1 b = cview s dv n" "brelse s1 b = Some s2"
    by (rule raw_peek [OF assms(1,8)]) (use assms(2) in auto)
  have "ext2_lookup_block (cview s dv n) name 0 0 = Corrupt"
    using assms(9,10) by (subst ext2_lookup_block.simps) (auto simp: BSIZE_def)
  then have "ext2_dir_lookup_loop s dp name 0 = Some (-1, None, s2)"
    using 2 assms(4-7) by (subst ext2_dir_lookup_loop.simps) (simp add: ext2_bmap_def EXT2_NDIRECT_def ext2_bmap_direct_def)
  then show "\<exists>s'. ext2_dir_lookup s dir name = Some (-1, None, s')" using assms(3) by (simp add: ext2_dir_lookup_def)
qed

subsection \<open>Applications\<close>

text \<open>A directory of one block, with vnode 3 and inode data at address 5; its block has the contents \<open>d\<close>.\<close>

definition dir_demo :: "buffer \<Rightarrow> kstate" where
  "dir_demo d = (disk_demo (\<lambda>_ _. d) ext2_mount_demo no_fat32)\<lparr>vnode_table := (\<lambda>_. no_vnode\<lparr>v_priv := 5\<rparr>),
     ext2_privs := (\<lambda>_. \<lparr>ev_ino = zero_ext2_inode\<lparr>e_size := of_nat BSIZE, i_block := (\<lambda>_. 9)\<rparr>, ev_mp = 7, ev_inum = 2, ev_dirty = False,
       ev_orphaned = False\<rparr>)\<rparr>"

definition dot_block :: buffer where
  "dot_block = (\<lambda>_. 0)(0 := 2, 5 := 4, 6 := 1, 8 := 0x2E)"

lemma vnode_cache:
  "holds (s\<lparr>vnode_table := V, ext2_privs := M\<rparr>) P L = holds s P L" "cview (s\<lparr>vnode_table := V, ext2_privs := M\<rparr>) = cview s"
  by (simp_all add: holds_def bio_inv_def buf_ok_def cached_def cview_def fun_eq_iff split: option.split)

lemma dir_demo_ready:
  "holds (dir_demo d) (\<lambda>b. if b = 0 then 1 else 0) {}" "priv_of (dir_demo d) v = Some 5" "cview (dir_demo d) 2 n = d"
  "2 = em_dev (ext2_mounts (dir_demo d) (ev_mp (ext2_privs (dir_demo d) 5)))" "e_size (ev_ino (ext2_privs (dir_demo d) 5)) = of_nat BSIZE"
  "i_block (ev_ino (ext2_privs (dir_demo d) 5)) k = 9" "on_disk 2 9"
  unfolding dir_demo_def vnode_cache
  by (simp_all add: disk_demo_holds disk_demo_cview priv_of_def ext2_mount_demo_def on_disk_def HAL_NDISK_def RAMDISK_BLOCKS_def)

lemma dot_block_fields:
  "ed_inode dot_block 0 = 2" "ed_rec_len dot_block 0 = of_nat BSIZE" "ed_name_len dot_block 0 = 1" "ed_name_list dot_block 0 = [0x2E]"
  by (simp_all add: dot_block_def ed_inode_def ed_rec_len_def ed_name_len_def ed_name_list_def ed_name_def le32_def le16_def BSIZE_def)

lemma dot_block_tiles: "dir_tiles dot_block 0 [0]" "dir_map dot_block [0] = [([0x2E], 2)]"
  by (simp_all add: dot_block_fields dir_map_def ed_live_def ed_space_def BSIZE_def wf_cstring_def)

lemma dot_dir:
  "dir_blocks (ev_ino (ext2_privs (dir_demo dot_block) 5)) 2 (cview (dir_demo dot_block) 2) [9]"
proof -
  have "\<exists>es. dir_tiles dot_block 0 es" using dot_block_tiles(1) by blast
  then show ?thesis unfolding dir_blocks_def by (simp add: dir_demo_ready EXT2_NDIRECT_def) (simp add: BSIZE_def)
qed

lemma dot_find:
  assumes "wf_cstring nm"
  shows "dir_find (cview (dir_demo dot_block) 2) [9] nm = (if nm = [0x2E] then Some 2 else None)"
  using lookup_tiles [OF dot_block_tiles(1) assms, of 0] by (simp add: dir_demo_ready dot_block_tiles(2))

lemma dot_room: "dir_room (cview (dir_demo dot_block) 2 9) [0x61]"
  unfolding dir_demo_ready dir_room_def dir_hole_def
  by (subst ext2_hole_block.simps) (simp add: dot_block_fields Let_def BSIZE_def ed_space_def)


theorem ext2_dir_add_refines_witness:
  "\<exists>s'. ext2_dir_add (dir_demo dot_block) 3 (cs [0x61]) 12 1 = Some (0, s')
     \<and> dir_find (cview s' 2) [9] [0x61] = Some 12 \<and> dir_find (cview s' 2) [9] [0x2E] = Some 2"
proof -
  have w: "wf_cstring [0x61]" "wf_cstring [0x2E]" by (simp_all add: wf_cstring_def)
  show ?thesis
    using ext2_dir_add_refines [OF dir_demo_ready(1) ext2_demo_ready(2) dir_demo_ready(2,4) dot_dir w(1), of 12 3 1] dot_find [OF w(1)]
      dot_find [OF w(2)] dot_room w by auto
qed

theorem ext2_unlink_hangs_witness:
  "ext2_unlink (dir_demo (\<lambda>_. 0)) 3 (cs [0x61]) = None"
  using ext2_unlink_hangs [where n = 9 and name = "cs [0x61]" and dir = 3,
      OF dir_demo_ready(1) ext2_demo_ready(2) dir_demo_ready(2,4) _ dir_demo_ready(6) _ dir_demo_ready(7)]
  by (simp add: dir_demo_ready(3,5) BSIZE_def ed_rec_len_def ed_inode_def le16_def le32_def)

end
