(* ===== verification/Spec2Isabelle.thy ===== *)
theory Spec2Isabelle
  imports Recovery Log_Space Filewrite Pipes Lines Path Sched Fat_Names Fat_Table Ext2_Dirs
begin

text \<open>
  A verification of the xv6 kernel with a virtual file system layer, ext2 and FAT32 file systems and a hardware abstraction
  layer for RISC-V and LoongArch.  Paths below are relative to \<^verbatim>\<open>src/xv6-riscv-xv6-riscv-rev5\<close>.

  \<^bold>\<open>The program.\<close>  User programs enter the kernel through system calls (\<^verbatim>\<open>kernel/syscall.c\<close>, \<^verbatim>\<open>kernel/sysfile.c\<close>,
  \<^verbatim>\<open>kernel/sysproc.c\<close>).  Calls on processes use the process table (\<^verbatim>\<open>kernel/proc.c\<close>, \<^verbatim>\<open>kernel/exec.c\<close>), which uses virtual
  memory (\<^verbatim>\<open>kernel/vm.c\<close>) and the page allocator (\<^verbatim>\<open>kernel/kalloc.c\<close>).  Calls on files use the file table
  (\<^verbatim>\<open>kernel/file.c\<close>), which dispatches to pipes (\<^verbatim>\<open>kernel/pipe.c\<close>), the console (\<^verbatim>\<open>kernel/console.c\<close>) and vnodes
  (\<^verbatim>\<open>kernel/vfs.c\<close>).  A vnode belongs to one of three file systems: the native one (\<^verbatim>\<open>kernel/xv6fs.c\<close> on
  \<^verbatim>\<open>kernel/fs.c\<close>), which writes through the log (\<^verbatim>\<open>kernel/log.c\<close>), or \<^verbatim>\<open>kernel/ext2.c\<close> or \<^verbatim>\<open>kernel/fat32.c\<close>, which write through the
  buffer cache directly.  All of them use the buffer cache (\<^verbatim>\<open>kernel/bio.c\<close>) on the disk.

  \<^bold>\<open>How code becomes definitions.\<close>  A kernel function that can change the state is a function
  \<open>'s \<Rightarrow> \<dots> \<Rightarrow> ('r \<times> 's) option\<close>, written with \<open>do\<close> in the order of the code.  The value \<open>None\<close> means that the function does not
  return: it panics, dereferences a null pointer, divides by zero, writes outside of an array, or waits for a sleep lock
  that the same process holds.  A C function that returns an error code returns it here too, so every early return of the source is
  a branch.  The state is one record, extended along the layers: physical memory and the free list (\<open>kmem\<close>), the running
  process as virtual memory sees it (\<open>vm\<close>), cache and disk (\<open>bio\<close>), the log (\<open>log\<close>), inode table and superblock (\<open>fs\<close>), vnodes,
  mounts and the private data of the file systems (\<open>vfs\<close>), and processes, open files, pipes and console (\<open>kstate\<close>).  Each
  component is polymorphic in what is above it, so its functions apply to every larger state.  Integers are words of
  their width wherever they can wrap around.  Byte arrays are functions from offsets to bytes; on-disk structures are read
  and written as little-endian bytes at the offsets of the C structures.  Loops that end by counting are \<open>fun\<close> or
  \<open>function\<close>; loops whose end depends on data are \<open>partial_function (option)\<close>, where running for ever is \<open>None\<close>; theorems that such a loop
  returns are stated as such.  No fuel is used anywhere.

  \<^bold>\<open>Concurrency.\<close>  Code between two points where a process can give up the processor is one step: a spin lock makes it
  atomic.  A call that sleeps returns the outcome \<open>Sleep\<close> with the channel and the point at which it continues (\<open>outcome\<close>, \<open>resume\<close> and
  \<open>go_on\<close>); interleavings of such segments are sequences of steps (\<open>Pipes\<close>, \<open>Log_Space\<close>, \<open>Sched\<close>, \<open>Inode\<close>).

  \<^bold>\<open>Theories that model code.\<close>
  \<^item> \<open>Prelude\<close>: words, buffers, little-endian fields, scans, and the failure \<open>panic\<close>.
  \<^item> \<open>CString\<close> (\<^verbatim>\<open>kernel/string.c\<close>), \<open>Kalloc\<close> (\<^verbatim>\<open>kernel/kalloc.c\<close>), \<open>Hal\<close> (page-table entries of \<^verbatim>\<open>hal/riscv/arch.h\<close> and
    \<^verbatim>\<open>hal/loongarch/arch.h\<close>), \<open>Vm\<close> (\<^verbatim>\<open>kernel/vm.c\<close>).
  \<^item> \<open>Bio\<close> (\<^verbatim>\<open>kernel/sleeplock.c\<close>, \<^verbatim>\<open>kernel/bio.c\<close>, \<^verbatim>\<open>hal/loongarch/hal_ramdisk.c\<close>), \<open>Log\<close> (\<^verbatim>\<open>kernel/log.c\<close>), \<open>Fs\<close> (\<^verbatim>\<open>kernel/fs.c\<close>).
  \<^item> \<open>Vnode\<close> and \<open>Vtable\<close> (data and vnode table of \<^verbatim>\<open>kernel/vfs.c\<close>), \<open>Xv6fs\<close> (\<^verbatim>\<open>kernel/xv6fs.c\<close>), \<open>Ext2_Core\<close> and \<open>Ext2\<close> (\<^verbatim>\<open>kernel/ext2.c\<close>),
    \<open>Fat32_Core\<close> and \<open>Fat32\<close> (\<^verbatim>\<open>kernel/fat32.c\<close>), \<open>Vfs\<close> (the rest of \<^verbatim>\<open>kernel/vfs.c\<close>).
  \<^item> \<open>Proc\<close> and \<open>Exec\<close> (\<^verbatim>\<open>kernel/proc.c\<close>, \<^verbatim>\<open>kernel/exec.c\<close>), \<open>Printf\<close> (\<^verbatim>\<open>kernel/printf.c\<close>), \<open>File\<close> (\<^verbatim>\<open>kernel/file.c\<close>,
    \<^verbatim>\<open>kernel/pipe.c\<close>, \<^verbatim>\<open>kernel/console.c\<close>), \<open>Syscall\<close> (\<^verbatim>\<open>kernel/syscall.c\<close>, \<^verbatim>\<open>kernel/sysfile.c\<close>, \<^verbatim>\<open>kernel/sysproc.c\<close>, \<^verbatim>\<open>kernel/trap.c\<close>).

  \<^bold>\<open>Interfaces.\<close>  Locale \<open>pte_format\<close> (\<open>Hal\<close>) states what \<open>Vm\<close> needs of a page-table entry format; both architectures provide it.  Locale
  \<open>ring_buffer\<close> (\<open>Ring\<close>) is a circular buffer with free-running counters; pipes and the console provide it.  Locales
  \<open>disk_record\<close> and \<open>disk_table\<close> (\<open>Records\<close>) are tables of fixed-size records in disk blocks; the inodes of the native file system, the
  inodes of ext2 and the entries of the FAT provide them.

  \<^bold>\<open>What is proved.\<close>
  \<^item> Memory: the free list holds exactly the free pages (\<open>Kalloc\<close>); entry formats encode address and permissions (\<open>Hal\<close>);
    \<open>mappages\<close> updates the abstract page table (\<open>Vm\<close>); \<open>copyin\<close> and \<open>copyout\<close> transfer exactly the bytes of user memory, with lazily
    allocated pages (\<open>Umem\<close>).
  \<^item> Cache and log: \<open>Bio\<close> shows that readers see one content per block (\<open>cview\<close>); \<open>Recovery\<close> that a crash at any point of a
    commit leaves the old or the new state and that \<open>end_op\<close> makes a transaction durable; \<open>Log_Space\<close> that the space reserved by
    \<open>begin_op\<close> suffices under every interleaving, and that a log filled to its limit cannot be committed because no buffer is left.
    \<open>Trans\<close> gives the idioms read-a-block and log-a-block with their effect (\<open>evolves\<close>).
  \<^item> Native file system: allocation of blocks (\<open>Balloc\<close>), one entry per inode and inodes on disk (\<open>Inode\<close>), reading files and
    looking up names (\<open>Filedata\<close>), writing and reading back (\<open>Filewrite\<close>).
  \<^item> ext2 and FAT32: \<open>Rawio\<close> gives the idioms without a log; \<open>Ext2_Meta\<close> inodes and block allocation of ext2, \<open>Ext2_Dirs\<close> directories
    as maps from names; \<open>Fat_Table\<close> allocation and release of clusters, with termination on every chain; \<open>Fat_Names\<close> long file names.
    Errors of the code that the model exhibits are stated as theorems: \<open>ext2_balloc_hands_out_used_block\<close>,
    \<open>ext2_unlink_hangs\<close>, \<open>write_fat_self_deadlock\<close>.
  \<^item> Processes and devices: pipes are queues without lost wake-ups (\<open>Pipes\<close>), the console is a line editor (\<open>Lines\<close>), path names
    (\<open>Path\<close>), process ids, kernel stacks, \<open>kill\<close> and the scheduler (\<open>Sched\<close>), printing of numbers (\<open>Printf\<close>).
  \<^item> \<open>Kview\<close> has the frame rules for the full kernel state and concrete states on which the theorems are applied.

  \<^bold>\<open>Bounds.\<close>  \<open>on_disk\<close> limits devices and blocks to what \<open>hal_disk_rw\<close> accepts.  \<open>layout\<close> is the disk layout of \<^verbatim>\<open>mkfs\<close>, at most 16384
  blocks (two bitmap blocks).  Files have at most \<open>MAXFILE\<close> blocks.  ext2 directories are covered up to their 12 direct blocks.
  Hypotheses of the form \<open>\<exists>b<NBUF. P b = 0\<close> say that the log has left a buffer free; \<open>full_log_cannot_commit\<close> shows what happens
  otherwise.

  \<^bold>\<open>Not modelled.\<close>
  \<^item> Assembly, boot code and machine registers (\<^verbatim>\<open>hal/*/*.S\<close>, \<^verbatim>\<open>hal_start.c\<close>, the register access of \<^verbatim>\<open>arch.h\<close>): there is no C
    semantics to translate.  For the same reason \<open>kvmmake\<close> and \<open>kerneltrap\<close> are missing; they build the fixed kernel mapping and save
    and restore control registers.
  \<^item> Device drivers (\<^verbatim>\<open>hal_uart.c\<close>, \<^verbatim>\<open>hal_plic.c\<close>, \<^verbatim>\<open>hal_virtio.c\<close>, \<^verbatim>\<open>hal_intr.c\<close>): memory-mapped devices.  The disk is an array of blocks, as in
    the RAM disk of the LoongArch port; the serial port is the list of characters sent.
  \<^item> Spin locks (\<^verbatim>\<open>kernel/spinlock.c\<close>): the atomicity that they provide is built into the granularity of the steps.
  \<^item> User programs, tests and \<^verbatim>\<open>mkfs\<close>: they are clients of the kernel, and they make up most of the lines that are not covered.
  \<^item> The names of locks and debugging output that has no effect on the state.
\<close>

end
